(* ===== verification/Machine.thy ===== *)
theory Machine
  imports Main
begin

text \<open>
  Transition systems: the interface every component with a state offers to the properties about its
  runs. A component that preserves an invariant step by step gives it for all reachable states; one
  whose steps respect a preorder gives that order between any two moments of a run.
\<close>

locale machine =
  fixes init :: "'c" and step :: "'c \<Rightarrow> 'c \<Rightarrow> bool" and inv :: "'c \<Rightarrow> bool"
  assumes init: "inv init" and step: "inv c \<Longrightarrow> step c c' \<Longrightarrow> inv c'"
begin

lemma run_inv: "step\<^sup>*\<^sup>* c c' \<Longrightarrow> inv c \<Longrightarrow> inv c'"
  by (induction rule: rtranclp_induct) (auto intro: step)

lemma reachable_inv: "step\<^sup>*\<^sup>* init c \<Longrightarrow> inv c"
  using run_inv init by blast

end

locale history = machine +
  fixes rel :: "'c \<Rightarrow> 'c \<Rightarrow> bool"
  assumes rel_refl: "rel c c" and rel_trans: "rel a b \<Longrightarrow> rel b c \<Longrightarrow> rel a c"
    and rel_step: "inv c \<Longrightarrow> step c c' \<Longrightarrow> rel c c'"
begin

lemma run_rel: "step\<^sup>*\<^sup>* c c' \<Longrightarrow> inv c \<Longrightarrow> rel c c'"
proof (induction rule: rtranclp_induct)
  case (step y z)
  then show ?case using run_inv rel_step rel_trans by blast
qed (rule rel_refl)

lemma between: "step\<^sup>*\<^sup>* init c \<Longrightarrow> step\<^sup>*\<^sup>* c c' \<Longrightarrow> rel c c'"
  using reachable_inv run_rel by blast

end

end
