(* ===== verification/Prelude.thy ===== *)
theory Prelude
  imports Main "HOL-Library.Word"
begin

text \<open>
  Shared vocabulary of the development: the result type of fallible operations, the three SQL
  statement shapes the catalogue uses (UPDATE ... WHERE, COUNT(*) ... WHERE, a unique SELECT) as
  list functions with their laws, Go's integer division, and the theorem collections that carry
  the component proofs.
\<close>

named_theorems table_simps \<open>laws of the table operations\<close>
named_theorems op_defs \<open>definitions of the catalogue operations\<close>
named_theorems auto_defs \<open>definitions of the automation-state operations\<close>
named_theorems frame_simps \<open>what an operation leaves unchanged\<close>

text \<open>The errors of the program, one constructor per sentinel of model.go plus the database's own
  two (no row, constraint violated) and free text for every other \<open>errors.New\<close>.\<close>

datatype error =
    ErrUnauthorized | ErrQuota | ErrSize | ErrRate | ErrConcurrent | ErrDisk
  | ErrIdempotencyConflict | ErrIdempotencyInProgress | ErrIdempotencyUnavailable
  | ErrRetentionBlocked string | ErrRetentionMinimum | ErrCurrentDay | ErrLastCopy | ErrTooEarly
  | ErrTicket | ErrLease | ErrNoRows | ErrConstraint | ErrBusy | ErrMsg string

type_synonym 'a res = "error + 'a"

text \<open>Instants are nanoseconds since the Unix epoch; \<open>unix\<close> is \<open>Time.Unix\<close>, which floors.\<close>

type_synonym time = int
type_synonym seconds = int

definition second :: int where "second = 1000000000"
definition minute_ns :: int where "minute_ns = 60 * second"
definition hour_ns :: int where "hour_ns = 3600 * second"

definition unix :: "time \<Rightarrow> seconds" where
  "unix t = t div second"

definition of_unix :: "seconds \<Rightarrow> time" where
  "of_unix s = s * second"

text \<open>UPDATE ... SET f WHERE P, COUNT(*) WHERE P, and the row a unique SELECT scans.\<close>

definition update_where :: "('r \<Rightarrow> bool) \<Rightarrow> ('r \<Rightarrow> 'r) \<Rightarrow> 'r list \<Rightarrow> 'r list" where
  "update_where P f rs = map (\<lambda>r. if P r then f r else r) rs"

definition count_where :: "('r \<Rightarrow> bool) \<Rightarrow> 'r list \<Rightarrow> nat" where
  "count_where P rs = length (filter P rs)"

definition sum_where :: "('r \<Rightarrow> bool) \<Rightarrow> ('r \<Rightarrow> int) \<Rightarrow> 'r list \<Rightarrow> int" where
  "sum_where P f rs = sum_list (map f (filter P rs))"

text \<open>Go's integer division truncates towards zero.\<close>

definition go_div :: "int \<Rightarrow> int \<Rightarrow> int" where
  "go_div a b = sgn a * sgn b * (\<bar>a\<bar> div \<bar>b\<bar>)"

subsection \<open>Time\<close>

lemma second_pos [simp]: "0 < second" by (simp add: second_def)

lemma unix_of_unix [simp]: "unix (of_unix s) = s"
  by (simp add: unix_def of_unix_def second_def)

lemma unix_mono: "a \<le> b \<Longrightarrow> unix a \<le> unix b"
  by (simp add: unix_def second_def zdiv_mono1)

lemma unix_add_seconds [simp]: "unix (t + k * second) = unix t + k"
  by (simp add: unix_def second_def)

lemma go_div_nonneg: "0 \<le> a \<Longrightarrow> 0 < b \<Longrightarrow> go_div a b = a div b"
  by (cases "a = 0") (simp_all add: go_div_def)

lemma le_div_iff_mult_le:
  fixes v a m :: int
  assumes "0 < m"
  shows "v \<le> a div m \<longleftrightarrow> v * m \<le> a"
proof
  assume "v \<le> a div m"
  then have "v * m \<le> a div m * m" using assms by simp
  also have "\<dots> \<le> a" using assms by (simp add: div_mult_mod_eq minus_mod_eq_div_mult [symmetric])
  finally show "v * m \<le> a" .
next
  assume "v * m \<le> a"
  then have "v * m div m \<le> a div m" using assms by (rule zdiv_mono1)
  then show "v \<le> a div m" using assms by simp
qed

subsection \<open>Tables\<close>

lemma length_update_where [table_simps, simp]: "length (update_where P f rs) = length rs"
  by (simp add: update_where_def)

lemma update_where_Nil [table_simps, simp]: "update_where P f [] = []"
  by (simp add: update_where_def)

lemma update_where_Cons [table_simps, simp]:
  "update_where P f (r # rs) = (if P r then f r else r) # update_where P f rs"
  by (simp add: update_where_def)

lemma set_update_where: "set (update_where P f rs) = (\<lambda>r. if P r then f r else r) ` set rs"
  by (simp add: update_where_def)

lemma update_where_none: "\<forall>r\<in>set rs. \<not> P r \<Longrightarrow> update_where P f rs = rs"
  by (induction rs) auto

lemma map_update_where_inv:
  "(\<And>r. P r \<Longrightarrow> g (f r) = g r) \<Longrightarrow> map g (update_where P f rs) = map g rs"
  by (induction rs) auto

lemma count_where_Nil [table_simps, simp]: "count_where P [] = 0"
  by (simp add: count_where_def)

lemma count_where_Cons [table_simps, simp]:
  "count_where P (r # rs) = (if P r then Suc (count_where P rs) else count_where P rs)"
  by (simp add: count_where_def)

lemma count_where_append [table_simps, simp]:
  "count_where P (xs @ ys) = count_where P xs + count_where P ys"
  by (simp add: count_where_def)

lemma count_where_zero: "count_where P rs = 0 \<longleftrightarrow> (\<forall>r\<in>set rs. \<not> P r)"
  by (induction rs) auto

lemma count_where_pos: "0 < count_where P rs \<longleftrightarrow> (\<exists>r\<in>set rs. P r)"
  by (induction rs) auto

lemma count_where_mono: "(\<And>r. r \<in> set rs \<Longrightarrow> P r \<Longrightarrow> Q r) \<Longrightarrow> count_where P rs \<le> count_where Q rs"
  by (induction rs) (auto simp: le_SucI)

lemma count_where_cong: "(\<And>r. r \<in> set rs \<Longrightarrow> P r = Q r) \<Longrightarrow> count_where P rs = count_where Q rs"
  by (induction rs) auto

lemma count_where_list_update:
  "i < length xs \<Longrightarrow> int (count_where P (xs[i := v])) = int (count_where P xs) - (if P (xs ! i) then 1 else 0) + (if P v then 1 else 0)"
proof (induction xs arbitrary: i)
  case (Cons x xs)
  then show ?case
  proof (cases i)
    case (Suc k)
    then show ?thesis using Cons.IH [of k] Cons.prems by (simp split: if_splits)
  qed simp
qed simp

lemma count_where_unique:
  "distinct (map g rs) \<Longrightarrow> count_where (\<lambda>r. g r = k \<and> P r) rs \<le> 1"
proof (induction rs)
  case (Cons r rs)
  then have "g r \<notin> g ` set rs" by simp
  then have "g r = k \<Longrightarrow> count_where (\<lambda>r. g r = k \<and> P r) rs = 0"
    by (simp add: count_where_zero image_iff) metis
  with Cons show ?case by auto
qed simp

lemma sum_where_Nil [table_simps, simp]: "sum_where P f [] = 0"
  by (simp add: sum_where_def)

lemma sum_where_Cons [table_simps, simp]:
  "sum_where P f (r # rs) = (if P r then f r else 0) + sum_where P f rs"
  by (simp add: sum_where_def)

lemma sum_where_append [table_simps, simp]:
  "sum_where P f (xs @ ys) = sum_where P f xs + sum_where P f ys"
  by (simp add: sum_where_def)

lemma sum_where_nonneg: "(\<And>r. r \<in> set rs \<Longrightarrow> P r \<Longrightarrow> 0 \<le> f r) \<Longrightarrow> 0 \<le> sum_where P f rs"
  by (induction rs) auto

subsection \<open>Unique rows\<close>

lemma find_Some_iff_distinct:
  assumes "distinct (map g rs)"
  shows "List.find (\<lambda>r. g r = k) rs = Some r \<longleftrightarrow> r \<in> set rs \<and> g r = k"
  using assms by (induction rs) (auto split: if_splits)

lemma find_SomeD: "List.find P rs = Some r \<Longrightarrow> r \<in> set rs \<and> P r"
  by (induction rs) (auto split: if_splits)

lemma find_NoneD: "List.find P rs = None \<Longrightarrow> r \<in> set rs \<Longrightarrow> \<not> P r"
  by (induction rs) (auto split: if_splits)

end
