(* ===== verification/Lifecycle.thy ===== *)
theory Lifecycle
  imports Machine Prelude
begin

text \<open>
  Shutdown of a server: internal/lifecycle/lifecycle.go. A tracker counts the admitted handlers and
  closes a channel when the last one leaves; Serve stops admission, shuts the HTTP server down and
  waits on that channel before it returns. Channels are numbered in the order make creates them, and
  closing a closed channel panics, as in Go. Handlers and waiters run concurrently: each critical
  section under the mutex is one step.
\<close>

record tracker =
  active :: int
  stopping :: bool
  drained :: nat
  closed_channels :: "nat list"
  made :: nat

definition NewTracker :: tracker where
  "NewTracker = \<lparr>active = 0, stopping = False, drained = 0, closed_channels = [0], made = 1\<rparr>"

definition Enter :: "tracker \<Rightarrow> bool \<times> tracker" where
  "Enter t =
     (if stopping t then (False, t)
      else (let t1 = (if active t = 0 then t\<lparr>drained := made t, made := made t + 1\<rparr> else t)
            in (True, t1\<lparr>active := active t1 + 1\<rparr>)))"

definition close_channel :: "tracker \<Rightarrow> string + tracker" where
  "close_channel t =
     (if drained t \<in> set (closed_channels t) then Inl ''close of closed channel''
      else Inr (t\<lparr>closed_channels := drained t # closed_channels t\<rparr>))"

definition Leave :: "tracker \<Rightarrow> string + tracker" where
  "Leave t =
     (if active t = 0 then Inl ''lifecycle: Leave without Enter''
      else (let t1 = t\<lparr>active := active t - 1\<rparr> in if active t1 = 0 then close_channel t1 else Inr t1))"

definition Stop :: "tracker \<Rightarrow> tracker" where
  "Stop t = t\<lparr>stopping := True\<rparr>"

text \<open>Wait reads the channel it will block on while it holds the mutex.\<close>

definition Wait :: "tracker \<Rightarrow> nat \<times> tracker" where
  "Wait t = (drained t, t\<lparr>stopping := True\<rparr>)"

definition may_return :: "nat \<Rightarrow> tracker \<Rightarrow> bool" where
  "may_return ch t \<longleftrightarrow> ch \<in> set (closed_channels t)"

lemmas tracker_defs = Enter_def Leave_def Stop_def Wait_def close_channel_def Let_def

subsection \<open>A process of handlers and waiters\<close>

datatype handler = Arrived | Serving | Served | Refused

datatype waiter = Blocked nat | Returned

record process =
  tracker_of :: tracker
  handlers :: "handler list"
  waiters :: "waiter list"
  panicked :: "string option"

definition new_process :: process where
  "new_process = \<lparr>tracker_of = NewTracker, handlers = [], waiters = [], panicked = None\<rparr>"

definition Handler_enter :: "nat \<Rightarrow> process \<Rightarrow> process" where
  "Handler_enter i p = (let (admitted, t) = Enter (tracker_of p) in
     p\<lparr>tracker_of := t, handlers := (handlers p)[i := if admitted then Serving else Refused]\<rparr>)"

definition Handler_leave :: "nat \<Rightarrow> process \<Rightarrow> process" where
  "Handler_leave i p = (case Leave (tracker_of p) of
       Inl m \<Rightarrow> p\<lparr>panicked := Some m\<rparr>
     | Inr t \<Rightarrow> p\<lparr>tracker_of := t, handlers := (handlers p)[i := Served]\<rparr>)"

definition start_wait :: "process \<Rightarrow> process" where
  "start_wait p = (let (ch, t) = Wait (tracker_of p) in p\<lparr>tracker_of := t, waiters := waiters p @ [Blocked ch]\<rparr>)"

inductive life_step :: "process \<Rightarrow> process \<Rightarrow> bool" where
  Arrive: "life_step p (p\<lparr>handlers := handlers p @ [Arrived]\<rparr>)"
| Enter: "i < length (handlers p) \<Longrightarrow> handlers p ! i = Arrived \<Longrightarrow> life_step p (Handler_enter i p)"
| Leave: "i < length (handlers p) \<Longrightarrow> handlers p ! i = Serving \<Longrightarrow> life_step p (Handler_leave i p)"
| Stop: "life_step p (p\<lparr>tracker_of := Stop (tracker_of p)\<rparr>)"
| Wait: "life_step p (start_wait p)"
| Return: "j < length (waiters p) \<Longrightarrow> waiters p ! j = Blocked ch \<Longrightarrow> may_return ch (tracker_of p) \<Longrightarrow>
    life_step p (p\<lparr>waiters := (waiters p)[j := Returned]\<rparr>)"

definition serving :: "process \<Rightarrow> nat" where
  "serving p = count_where (\<lambda>h. h = Serving) (handlers p)"

fun waiter_agrees :: "tracker \<Rightarrow> waiter \<Rightarrow> bool" where
  "waiter_agrees t (Blocked ch) \<longleftrightarrow> ch = drained t"
| "waiter_agrees t Returned \<longleftrightarrow> active t = 0"

lemma waiter_agrees_stopping [simp]: "waiter_agrees (t\<lparr>stopping := v\<rparr>) = waiter_agrees t"
proof
  show "waiter_agrees (t\<lparr>stopping := v\<rparr>) w = waiter_agrees t w" for w by (cases w) simp_all
qed

definition waiters_agree :: "process \<Rightarrow> bool" where
  "waiters_agree p \<longleftrightarrow> (waiters p \<noteq> [] \<longrightarrow> stopping (tracker_of p))
     \<and> list_all (waiter_agrees (tracker_of p)) (waiters p)"

definition channels_agree :: "tracker \<Rightarrow> bool" where
  "channels_agree t \<longleftrightarrow> (drained t \<in> set (closed_channels t) \<longleftrightarrow> active t = 0) \<and> drained t < made t
     \<and> list_all (\<lambda>ch. ch < made t) (closed_channels t)"

definition life_inv :: "process \<Rightarrow> bool" where
  "life_inv p \<longleftrightarrow> panicked p = None \<and> active (tracker_of p) = int (serving p) \<and> channels_agree (tracker_of p) \<and> waiters_agree p"

lemmas life_inv_defs = life_inv_def waiters_agree_def channels_agree_def

lemma serving_update:
  "i < length (handlers p) \<Longrightarrow> int (count_where (\<lambda>h. h = Serving) ((handlers p)[i := h])) =
     int (serving p) - (if handlers p ! i = Serving then 1 else 0) + (if h = Serving then 1 else 0)"
  unfolding serving_def by (rule count_where_list_update)

lemma Enter_inv:
  assumes "life_inv p" "i < length (handlers p)" "handlers p ! i = Arrived"
  shows "life_inv (Handler_enter i p)"
proof (cases "stopping (tracker_of p)")
  case True
  then show ?thesis using assms serving_update [of i p Refused]
    by (simp add: life_inv_defs Handler_enter_def tracker_defs serving_def)
next
  case False
  then have "waiters p = []" using assms(1) by (auto simp: life_inv_defs)
  then show ?thesis using assms False serving_update [of i p Serving]
    by (auto simp: life_inv_defs Handler_enter_def tracker_defs serving_def list_all_iff)
qed

lemma Leave_inv:
  assumes "life_inv p" "i < length (handlers p)" "handlers p ! i = Serving"
  shows "life_inv (Handler_leave i p) \<and> handlers (Handler_leave i p) = (handlers p)[i := Served]
     \<and> waiters (Handler_leave i p) = waiters p"
proof -
  have "0 < serving p" using assms(2,3) nth_mem [OF assms(2)] by (auto simp: serving_def count_where_pos)
  then have pos: "0 < active (tracker_of p)" using assms(1) by (simp add: life_inv_def)
  then have ret: "Returned \<notin> set (waiters p)" using assms(1) by (auto simp: life_inv_defs list_all_iff)
  have keep: "waiter_agrees t w" if "w \<in> set (waiters p)" "drained t = drained (tracker_of p)" for t w
  proof (cases w)
    case (Blocked ch)
    then show ?thesis using that assms(1) by (auto simp: life_inv_defs list_all_iff)
  qed (use that ret in simp)
  show ?thesis using assms pos serving_update [of i p Served]
    by (auto simp: life_inv_defs Handler_leave_def tracker_defs serving_def list_all_iff intro: keep)
qed

lemma life_step_inv: "life_step p p' \<Longrightarrow> life_inv p \<Longrightarrow> life_inv p'"
proof (induction rule: life_step.induct)
  case (Return j p ch)
  then have "set ((waiters p)[j := Returned]) \<subseteq> insert Returned (set (waiters p))" by (simp add: set_update_subset_insert)
  moreover have "ch = drained (tracker_of p)" using Return nth_mem [of j "waiters p"] by (auto simp: life_inv_defs list_all_iff)
  ultimately show ?case using Return
    by (auto simp: life_inv_defs may_return_def serving_def list_all_iff)
next
  case (Enter i p)
  then show ?case using Enter_inv by blast
next
  case (Leave i p)
  then show ?case using Leave_inv by blast
qed (auto simp: life_inv_defs serving_def start_wait_def tracker_defs)

definition drains :: "process \<Rightarrow> process \<Rightarrow> bool" where
  "drains p p' \<longleftrightarrow> (stopping (tracker_of p) \<longrightarrow> stopping (tracker_of p')) \<and> length (waiters p) \<le> length (waiters p')
     \<and> (\<forall>j < length (waiters p). waiters p ! j = Returned \<longrightarrow> waiters p' ! j = Returned)"

interpretation life: history new_process life_step life_inv drains
proof unfold_locales
  show "life_inv new_process" by (simp add: new_process_def NewTracker_def life_inv_defs serving_def)
  show "life_inv p'" if "life_inv p" "life_step p p'" for p p' using that life_step_inv by blast
  show "drains p p" for p by (simp add: drains_def)
  show "drains a c" if "drains a b" "drains b c" for a b c using that unfolding drains_def by (meson le_trans less_le_trans)
  show "drains p p'" if "life_inv p" "life_step p p'" for p p'
    using that(2,1) by (induction rule: life_step.induct)
      (auto simp: drains_def Handler_enter_def Handler_leave_def start_wait_def tracker_defs nth_append nth_list_update split: sum.splits)
qed

lemma drained_run:
  assumes "life_step\<^sup>*\<^sup>* new_process p" "life_step\<^sup>*\<^sup>* p p'" "Returned \<in> set (waiters p)"
  shows "panicked p' = None" "Serving \<notin> set (handlers p')" "\<not> fst (Enter (tracker_of p'))"
proof -
  have inv: "life_inv p'" using life.reachable_inv assms by (meson rtranclp_trans)
  have "Returned \<in> set (waiters p')"
    using assms(3) life.between [OF assms(1,2)] unfolding drains_def in_set_conv_nth by (meson less_le_trans)
  then have "stopping (tracker_of p')" "serving p' = 0" using inv by (auto simp: life_inv_defs list_all_iff)
  then show "panicked p' = None" "Serving \<notin> set (handlers p')" "\<not> fst (Enter (tracker_of p'))"
    using inv by (auto simp: Enter_def serving_def count_where_zero life_inv_def)
qed

text \<open>C37. Draining is complete and safe. However handlers and waiters interleave, no Leave panics and
  no channel is closed twice; once any Wait has returned no admitted handler is still running and none is
  admitted ever again.\<close>

theorem drained_for_ever:
  assumes "life_step\<^sup>*\<^sup>* new_process p" "life_step\<^sup>*\<^sup>* p p'"
  shows "panicked p' = None \<and> (Returned \<in> set (waiters p) \<longrightarrow> Serving \<notin> set (handlers p') \<and> \<not> fst (Enter (tracker_of p')))"
proof -
  have "life_inv p'" using life.reachable_inv assms by (meson rtranclp_trans)
  then show ?thesis using drained_run [OF assms] by (auto simp: life_inv_def)
qed

text \<open>Waiting ends. From any reachable state in which a Wait is blocked, letting the admitted
  handlers finish, and nothing else, leads to its return.\<close>

theorem Wait_returns:
  assumes "life_step\<^sup>*\<^sup>* new_process p" "j < length (waiters p)"
  shows "\<exists>p'. life_step\<^sup>*\<^sup>* p p' \<and> waiters p' ! j = Returned \<and> length (handlers p') = length (handlers p)"
  using life.reachable_inv [OF assms(1)] assms(2)
proof (induction "serving p" arbitrary: p)
  case 0
  show ?case
  proof (cases "waiters p ! j")
    case (Blocked ch)
    then have "may_return ch (tracker_of p)"
      using 0 nth_mem [of j "waiters p"] by (auto simp: life_inv_defs may_return_def list_all_iff)
    then have "life_step p (p\<lparr>waiters := (waiters p)[j := Returned]\<rparr>)" by (rule life_step.Return [OF 0(3) Blocked])
    then show ?thesis using 0(3) by (intro exI [of _ "p\<lparr>waiters := (waiters p)[j := Returned]\<rparr>"]) auto
  qed auto
next
  case (Suc n)
  have "0 < count_where (\<lambda>h. h = Serving) (handlers p)" using Suc(2) by (simp add: serving_def)
  then have "Serving \<in> set (handlers p)" by (simp add: count_where_pos)
  then obtain i where i: "i < length (handlers p)" "handlers p ! i = Serving" by (auto simp: in_set_conv_nth)
  let ?q = "Handler_leave i p"
  from Leave_inv [OF Suc(3) i] have q: "life_inv ?q" "handlers ?q = (handlers p)[i := Served]" "waiters ?q = waiters p" by auto
  then have "int (serving ?q) = int n" using serving_update [OF i(1), of Served] i(2) Suc(2) by (simp add: serving_def)
  then have "n = serving ?q" "j < length (waiters ?q)" using q(3) Suc(4) by simp_all
  from Suc(1) [OF this(1) q(1) this(2)] obtain p' where "life_step\<^sup>*\<^sup>* ?q p'" "waiters p' ! j = Returned"
    "length (handlers p') = length (handlers ?q)" by blast
  moreover have "life_step p ?q" using i by (rule life_step.Leave)
  ultimately show ?case using converse_rtranclp_into_rtranclp [of life_step p ?q] q(2) by (metis length_list_update)
qed

subsection \<open>Serve\<close>

text \<open>Errors of the HTTP server as Serve tells them apart; \<open>Wrap\<close> is fmt.Errorf with a wrapped error,
  and the nil error is None.\<close>

datatype serve_error = ErrServerClosed | DeadlineExceeded | Other string | Wrap string serve_error

fun errors_Is :: "serve_error option \<Rightarrow> serve_error \<Rightarrow> bool" where
  "errors_Is None x \<longleftrightarrow> False"
| "errors_Is (Some (Wrap m e)) x \<longleftrightarrow> Wrap m e = x \<or> errors_Is (Some e) x"
| "errors_Is (Some e) x \<longleftrightarrow> e = x"

definition normalizeServeError :: "serve_error option \<Rightarrow> serve_error option" where
  "normalizeServeError e = (if errors_Is e ErrServerClosed then None else e)"

definition normalizeCloseError :: "serve_error option \<Rightarrow> serve_error option" where
  "normalizeCloseError e = (if errors_Is e ErrServerClosed then None else e)"

definition errors_Join :: "serve_error option list \<Rightarrow> serve_error list" where
  "errors_Join es = map the (filter (\<lambda>e. e \<noteq> None) es)"

text \<open>What Serve does to the tracker and the server, in order.\<close>

datatype action = DoStop | DoClose | DoShutdown | DoWait | AwaitServe

text \<open>The outcomes Serve meets: whether serve returned before the context ended, and the results of
  serve, Shutdown and Close.\<close>

definition Serve :: "int \<Rightarrow> bool \<Rightarrow> serve_error option \<Rightarrow> serve_error option \<Rightarrow> serve_error option \<Rightarrow> action list \<times> bool \<times> serve_error list" where
  "Serve grace served_first serveErr shutdownErr closeErr =
     (if grace \<le> 0 then ([], False, [Other ''durata arresto ordinato non valida''])
      else if served_first
      then ([AwaitServe, DoStop, DoClose, DoWait], False, errors_Join [normalizeServeError serveErr, normalizeCloseError closeErr])
      else (let forced = shutdownErr \<noteq> None;
                closed = (if forced then closeErr else None);
                reported = (if forced \<and> \<not> errors_Is shutdownErr DeadlineExceeded then map_option (Wrap ''arresto ordinato'') shutdownErr else None)
            in ([DoStop, DoShutdown] @ (if forced then [DoClose] else []) @ [DoWait, AwaitServe], forced,
                errors_Join [reported, normalizeCloseError closed, normalizeServeError serveErr])))"

text \<open>Serve's actions on the process, with the handlers running in between.\<close>

inductive perform :: "action \<Rightarrow> process \<Rightarrow> process \<Rightarrow> bool" where
  "perform DoStop p (p\<lparr>tracker_of := Stop (tracker_of p)\<rparr>)"
| "life_step\<^sup>*\<^sup>* (start_wait p) q \<Longrightarrow> waiters q ! length (waiters p) = Returned \<Longrightarrow> perform DoWait p q"
| "a \<in> {DoClose, DoShutdown, AwaitServe} \<Longrightarrow> perform a p p"

inductive performs :: "action list \<Rightarrow> process \<Rightarrow> process \<Rightarrow> bool" where
  "life_step\<^sup>*\<^sup>* p q \<Longrightarrow> performs [] p q"
| "life_step\<^sup>*\<^sup>* p q \<Longrightarrow> perform a q r \<Longrightarrow> performs as r s \<Longrightarrow> performs (a # as) p s"

inductive_cases perform_WaitE: "perform DoWait p q"
inductive_cases performs_ConsE: "performs (a # as) p q"

lemma perform_run: "perform a p q \<Longrightarrow> life_step\<^sup>*\<^sup>* p q"
  by (induction rule: perform.induct) (auto intro: life_step.Stop life_step.Wait converse_rtranclp_into_rtranclp)

lemma performs_run: "performs as p q \<Longrightarrow> life_step\<^sup>*\<^sup>* p q"
  by (induction rule: performs.induct) (auto dest: perform_run intro: rtranclp_trans)

lemma performs_Wait: "performs as p s \<Longrightarrow> DoWait \<in> set as \<Longrightarrow> life_inv p \<Longrightarrow> \<exists>q. life_step\<^sup>*\<^sup>* p q \<and> Returned \<in> set (waiters q) \<and> life_step\<^sup>*\<^sup>* q s"
proof (induction rule: performs.induct)
  case (2 p q a r as s)
  show ?case
  proof (cases "a = DoWait")
    case True
    then obtain w where w: "life_step\<^sup>*\<^sup>* (start_wait q) r" "waiters r ! length (waiters q) = Returned" using 2(2) by (auto elim: perform_WaitE)
    have "life_inv (start_wait q)" using life.run_inv [OF 2(1,6)] life_step_inv [OF life_step.Wait] by blast
    then have "drains (start_wait q) r" using w(1) life.run_rel by blast
    then have "length (waiters q) < length (waiters r)" by (simp add: drains_def start_wait_def Wait_def)
    then have "Returned \<in> set (waiters r)" using w(2) nth_mem by metis
    then show ?thesis using performs_run [OF 2(3)] rtranclp_trans [OF 2(1) perform_run [OF 2(2)]] by blast
  next
    case False
    then have "DoWait \<in> set as" "life_inv r" using 2(5) life.run_inv [OF rtranclp_trans [OF 2(1) perform_run [OF 2(2)]] 2(6)] by auto
    from 2(4) [OF this] show ?thesis using rtranclp_trans [OF rtranclp_trans [OF 2(1) perform_run [OF 2(2)]]] by blast
  qed
qed simp

text \<open>Serve never leaves work behind. With a positive grace period, whatever serve, Shutdown and Close
  answer and however handlers interleave, when Serve has returned no admitted handler is running, and it
  forces connections closed exactly when Shutdown failed; exceeding the grace period alone is no error.\<close>

theorem Serve_returns_drained:
  assumes "0 < grace" "Serve grace first serveErr shutdownErr closeErr = (acts, forced, errs)"
    and "life_step\<^sup>*\<^sup>* new_process p" "performs acts p p'"
  shows "Serving \<notin> set (handlers p') \<and> panicked p' = None
    \<and> (forced \<longleftrightarrow> \<not> first \<and> shutdownErr \<noteq> None) \<and> (DoClose \<in> set acts \<longleftrightarrow> first \<or> forced)
    \<and> (\<not> first \<and> shutdownErr = Some DeadlineExceeded \<and> closeErr = None \<and> serveErr = Some ErrServerClosed \<longrightarrow> errs = [])"
proof -
  have acts: "DoWait \<in> set acts" "forced \<longleftrightarrow> \<not> first \<and> shutdownErr \<noteq> None" "DoClose \<in> set acts \<longleftrightarrow> first \<or> forced"
    "\<not> first \<and> shutdownErr = Some DeadlineExceeded \<and> closeErr = None \<and> serveErr = Some ErrServerClosed \<longrightarrow> errs = []"
    using assms(1,2) by (auto simp: Serve_def Let_def errors_Join_def normalizeServeError_def normalizeCloseError_def split: if_splits)
  from performs_Wait [OF assms(4) acts(1) life.reachable_inv [OF assms(3)]]
  obtain q where "life_step\<^sup>*\<^sup>* p q" "Returned \<in> set (waiters q)" "life_step\<^sup>*\<^sup>* q p'" by blast
  then have "Serving \<notin> set (handlers p')" "panicked p' = None"
    using drained_run [of q p'] rtranclp_trans [OF assms(3)] by blast+
  then show ?thesis using acts by blast
qed

subsection \<open>Witnesses\<close>

text \<open>One handler admitted, a shutdown that begins while it runs, and its end.\<close>

definition "life1 = new_process\<lparr>handlers := [Arrived]\<rparr>"
definition "life2 = Handler_enter 0 life1"
definition "life3 = start_wait life2"
definition "life4 = Handler_leave 0 life3"
definition "life5 = life4\<lparr>waiters := [Returned]\<rparr>"

lemma life_runs: "life_step\<^sup>*\<^sup>* new_process life2" "life_step\<^sup>*\<^sup>* life2 life3" "life_step\<^sup>*\<^sup>* life3 life5" "waiters life2 = []"
proof -
  have s1: "life_step new_process life1" using life_step.Arrive [of new_process] by (simp add: life1_def new_process_def)
  have s2: "life_step life1 life2" unfolding life2_def by (rule life_step.Enter) (simp_all add: life1_def)
  have s3: "life_step life2 life3" unfolding life3_def by (rule life_step.Wait)
  have "handlers life3 = [Serving]" by code_simp
  then have s4: "life_step life3 life4" unfolding life4_def by (intro life_step.Leave) simp_all
  have w: "waiters life4 = [Blocked 1]" "may_return 1 (tracker_of life4)" by code_simp+
  have s5: "life_step life4 life5" using life_step.Return [of 0 life4 1] w by (simp add: life5_def)
  show "life_step\<^sup>*\<^sup>* new_process life2" using s1 s2 by (meson r_into_rtranclp rtranclp.rtrancl_into_rtrancl)
  show "life_step\<^sup>*\<^sup>* life2 life3" using s3 by blast
  show "life_step\<^sup>*\<^sup>* life3 life5" using s4 s5 by (meson r_into_rtranclp rtranclp.rtrancl_into_rtrancl)
  show "waiters life2 = []" by code_simp
qed

lemma life_reach: "life_step\<^sup>*\<^sup>* new_process life3" "life_step\<^sup>*\<^sup>* new_process life5"
  using life_runs rtranclp_trans [of life_step] by blast+

theorem drained_for_ever_witness: "Serving \<in> set (handlers life3) \<and> Serving \<notin> set (handlers life5) \<and> panicked life5 = None"
proof -
  have "Serving \<in> set (handlers life3)" "Returned \<in> set (waiters life5)" by code_simp+
  then show ?thesis using drained_for_ever [OF life_reach(2), of life5] by blast
qed

theorem Wait_returns_witness: "\<exists>p'. life_step\<^sup>*\<^sup>* life3 p' \<and> waiters p' ! 0 = Returned"
proof -
  have "0 < length (waiters life3)" by code_simp
  then show ?thesis using Wait_returns [OF life_reach(1), of 0] by blast
qed

theorem Serve_returns_drained_witness: "Serve 1 False (Some ErrServerClosed) (Some DeadlineExceeded) None = ([DoStop, DoShutdown, DoClose, DoWait, AwaitServe], True, []) \<and> Serving \<notin> set (handlers life5)"
proof -
  have r: "Serve 1 False (Some ErrServerClosed) (Some DeadlineExceeded) None = ([DoStop, DoShutdown, DoClose, DoWait, AwaitServe], True, [])"
    by code_simp
  define stopped where "stopped = life2\<lparr>tracker_of := Stop (tracker_of life2)\<rparr>"
  have "start_wait stopped = life3" "waiters life5 ! 0 = Returned" "waiters stopped = []" unfolding stopped_def by code_simp+
  then have wait: "perform DoWait stopped life5" using perform.intros(2) [of stopped life5] life_runs(3) by simp
  have "perform DoStop life2 stopped" unfolding stopped_def by (rule perform.intros(1))
  moreover have "perform a q q" if "a \<in> {DoClose, DoShutdown, AwaitServe}" for a q using that by (rule perform.intros(3))
  ultimately have "performs [DoStop, DoShutdown, DoClose, DoWait, AwaitServe] life2 life5"
    using wait by (intro performs.intros(2) [OF rtranclp.rtrancl_refl] performs.intros(1) rtranclp.rtrancl_refl; blast?)
  then show ?thesis using Serve_returns_drained [OF _ r life_runs(1)] r by simp
qed

end
