(* ===== verification/Text_Utf8.thy ===== *)
theory Text_Utf8
  imports Prelude
begin

text \<open>
  Go strings are byte sequences; ranging over one decodes UTF-8 and yields U+FFFD with width one
  for every byte that starts no well-formed sequence. This theory models what the program uses of
  the packages unicode/utf8, unicode, strings and encoding/hex on such strings: the decoder, string
  validity, rune counts, control and white-space classes, TrimSpace, prefix and suffix tests, and
  the hexadecimal digits that ValidID and ValidDigest accept.
\<close>

definition byte_of :: "char \<Rightarrow> nat" where
  "byte_of c = of_char c"

definition is_cont :: "nat \<Rightarrow> nat \<Rightarrow> nat \<Rightarrow> bool" where
  "is_cont lo hi b \<longleftrightarrow> lo \<le> b \<and> b \<le> hi"

text \<open>The accepted range of the second byte after a lead byte, as in utf8's acceptRanges.\<close>

definition second_range :: "nat \<Rightarrow> nat \<times> nat" where
  "second_range b =
     (if b = 0xE0 then (0xA0, 0xBF) else if b = 0xED then (0x80, 0x9F)
      else if b = 0xF0 then (0x90, 0xBF) else if b = 0xF4 then (0x80, 0x8F) else (0x80, 0xBF))"

definition seq_len :: "nat \<Rightarrow> nat" where
  "seq_len b = (if b < 0x80 then 1 else if 0xC2 \<le> b \<and> b \<le> 0xDF then 2
     else if 0xE0 \<le> b \<and> b \<le> 0xEF then 3 else if 0xF0 \<le> b \<and> b \<le> 0xF4 then 4 else 0)"

text \<open>\<open>decode_rune bs\<close> is the rune at the head of \<open>bs\<close> and its width; \<open>None\<close> where utf8.DecodeRune
  answers (RuneError, 1).\<close>

fun decode_rune :: "nat list \<Rightarrow> (nat \<times> nat) option" where
  "decode_rune [] = None"
| "decode_rune (b # bs) =
     (let n = seq_len b; (lo, hi) = second_range b in
      if n = 1 then Some (b, 1)
      else if n = 2 then (case bs of
          c # _ \<Rightarrow> if is_cont lo hi c then Some ((b - 0xC0) * 64 + (c - 0x80), 2) else None
        | _ \<Rightarrow> None)
      else if n = 3 then (case bs of
          c # d # _ \<Rightarrow> if is_cont lo hi c \<and> is_cont 0x80 0xBF d
                       then Some (((b - 0xE0) * 64 + (c - 0x80)) * 64 + (d - 0x80), 3) else None
        | _ \<Rightarrow> None)
      else if n = 4 then (case bs of
          c # d # e # _ \<Rightarrow> if is_cont lo hi c \<and> is_cont 0x80 0xBF d \<and> is_cont 0x80 0xBF e
             then Some ((((b - 0xF0) * 64 + (c - 0x80)) * 64 + (d - 0x80)) * 64 + (e - 0x80), 4)
             else None
        | _ \<Rightarrow> None)
      else None)"

definition rune_error :: nat where "rune_error = 0xFFFD"

text \<open>Ranging over a string: each element is the rune, whether it was well formed, and its bytes.\<close>

function chunks :: "string \<Rightarrow> (nat \<times> bool \<times> string) list" where
  "chunks s = (if s = [] then [] else
     (case decode_rune (map byte_of s) of
        None \<Rightarrow> (rune_error, False, take 1 s) # chunks (drop 1 s)
      | Some (r, w) \<Rightarrow> (r, True, take (max 1 w) s) # chunks (drop (max 1 w) s)))"
  by pat_completeness auto
termination by (relation "measure length") auto

declare chunks.simps [simp del]

definition runes :: "string \<Rightarrow> nat list" where
  "runes s = map fst (chunks s)"

definition valid_string :: "string \<Rightarrow> bool" where
  "valid_string s \<longleftrightarrow> list_all (\<lambda>(_, ok, _). ok) (chunks s)"

definition rune_count :: "string \<Rightarrow> nat" where
  "rune_count s = length (chunks s)"

text \<open>unicode.IsControl: category Cc. unicode.IsSpace: the White\_Space property.\<close>

definition is_control :: "nat \<Rightarrow> bool" where
  "is_control r \<longleftrightarrow> r < 0x20 \<or> (0x7F \<le> r \<and> r \<le> 0x9F)"

definition is_space :: "nat \<Rightarrow> bool" where
  "is_space r \<longleftrightarrow> (9 \<le> r \<and> r \<le> 13) \<or> r = 0x20 \<or> r = 0x85 \<or> r = 0xA0 \<or> r = 0x1680
     \<or> (0x2000 \<le> r \<and> r \<le> 0x200A) \<or> r = 0x2028 \<or> r = 0x2029 \<or> r = 0x202F \<or> r = 0x205F \<or> r = 0x3000"

definition trim_space :: "string \<Rightarrow> string" where
  "trim_space s =
     (let sp = (\<lambda>(r, ok, _). ok \<and> is_space r);
          front = dropWhile sp (chunks s)
      in concat (map (\<lambda>(_, _, b). b) (rev (dropWhile sp (rev front)))))"

definition blank :: "string \<Rightarrow> bool" where
  "blank s \<longleftrightarrow> trim_space s = []"

definition has_prefix :: "string \<Rightarrow> string \<Rightarrow> bool" where
  "has_prefix s p \<longleftrightarrow> take (length p) s = p"

definition has_suffix :: "string \<Rightarrow> string \<Rightarrow> bool" where
  "has_suffix s p \<longleftrightarrow> length p \<le> length s \<and> drop (length s - length p) s = p"

definition trim_prefix :: "string \<Rightarrow> string \<Rightarrow> string" where
  "trim_prefix s p = (if has_prefix s p then drop (length p) s else s)"

definition trim_suffix :: "string \<Rightarrow> string \<Rightarrow> string" where
  "trim_suffix s p = (if has_suffix s p then take (length s - length p) s else s)"

definition contains_any :: "string \<Rightarrow> string \<Rightarrow> bool" where
  "contains_any s cs \<longleftrightarrow> list_ex (\<lambda>c. c \<in> set cs) s"

text \<open>Lower-case hexadecimal digits: hex.DecodeString accepts both cases and needs an even length,
  and \<open>s == strings.ToLower(s)\<close> leaves the lower-case ones.\<close>

definition is_lower_hex :: "char \<Rightarrow> bool" where
  "is_lower_hex c \<longleftrightarrow> (let b = byte_of c in (48 \<le> b \<and> b \<le> 57) \<or> (97 \<le> b \<and> b \<le> 102))"

text \<open>Decimal rendering (\<open>%d\<close>).\<close>

definition digit_char :: "nat \<Rightarrow> char" where
  "digit_char d = char_of (48 + d)"

fun show_nat :: "nat \<Rightarrow> string" where
  "show_nat n = (if n < 10 then [digit_char n] else show_nat (n div 10) @ [digit_char (n mod 10)])"

declare show_nat.simps [simp del]

definition show_int :: "int \<Rightarrow> string" where
  "show_int i = (if i < 0 then ''-'' @ show_nat (nat (- i)) else show_nat (nat i))"

subsection \<open>Decoding\<close>

text \<open>ASCII first: equations that evaluate quickly.\<close>

lemma decode_rune_code [code]:
  "decode_rune [] = None"
  "decode_rune (b # bs) = (if b < 0x80 then Some (b, 1) else
     (let n = seq_len b; (lo, hi) = second_range b in
      if n = 2 then (case bs of
          c # _ \<Rightarrow> if is_cont lo hi c then Some ((b - 0xC0) * 64 + (c - 0x80), 2) else None
        | _ \<Rightarrow> None)
      else if n = 3 then (case bs of
          c # d # _ \<Rightarrow> if is_cont lo hi c \<and> is_cont 0x80 0xBF d
                       then Some (((b - 0xE0) * 64 + (c - 0x80)) * 64 + (d - 0x80), 3) else None
        | _ \<Rightarrow> None)
      else if n = 4 then (case bs of
          c # d # e # _ \<Rightarrow> if is_cont lo hi c \<and> is_cont 0x80 0xBF d \<and> is_cont 0x80 0xBF e
             then Some ((((b - 0xF0) * 64 + (c - 0x80)) * 64 + (d - 0x80)) * 64 + (e - 0x80), 4)
             else None
        | _ \<Rightarrow> None)
      else None))"
  by (auto simp: seq_len_def Let_def split: prod.split)

lemma is_space_code [code]:
  "is_space r = (if r < 0x80 then 9 \<le> r \<and> r \<le> 13 \<or> r = 0x20 else
     r = 0x85 \<or> r = 0xA0 \<or> r = 0x1680 \<or> (0x2000 \<le> r \<and> r \<le> 0x200A) \<or> r = 0x2028 \<or> r = 0x2029 \<or> r = 0x202F \<or> r = 0x205F \<or> r = 0x3000)"
  by (auto simp: is_space_def)

lemma decode_rune_width: "decode_rune bs = Some (r, w) \<Longrightarrow> 1 \<le> w \<and> w \<le> length bs"
  by (cases bs) (auto simp: Let_def split: if_splits list.splits prod.splits)

lemma chunks_Nil [simp]: "chunks [] = []"
  by (simp add: chunks.simps)

lemma chunks_concat: "concat (map (\<lambda>(_, _, b). b) (chunks s)) = s"
proof (induction s rule: chunks.induct)
  case (1 s)
  show ?case
  proof (cases "s = []")
    case False
    with 1 show ?thesis
      by (subst chunks.simps) (auto split: option.splits prod.splits)
  qed simp
qed

lemma byte_of_less [simp]: "byte_of c < 256"
  by (simp add: byte_of_def of_char_def)

text \<open>An ASCII string decodes byte by byte.\<close>

lemma chunks_ascii:
  "list_all (\<lambda>c. byte_of c < 0x80) s \<Longrightarrow> chunks s = map (\<lambda>c. (byte_of c, True, [c])) s"
proof (induction s)
  case (Cons c s)
  then show ?case
    by (subst chunks.simps) (simp add: seq_len_def second_range_def)
qed simp

lemma runes_ascii:
  "list_all (\<lambda>c. byte_of c < 0x80) s \<Longrightarrow> runes s = map byte_of s"
  by (simp add: runes_def chunks_ascii)

lemma dropWhile_concat_nil:
  "list_all P xs \<Longrightarrow> dropWhile P xs = []"
  by (induction xs) auto

lemma has_prefix_append [simp]: "has_prefix (p @ s) p"
  by (simp add: has_prefix_def)

lemma trim_prefix_append [simp]: "trim_prefix (p @ s) p = s"
  by (simp add: trim_prefix_def)

lemma has_suffix_append [simp]: "has_suffix (s @ p) p"
  by (simp add: has_suffix_def)

lemma trim_suffix_append [simp]: "trim_suffix (s @ p) p = s"
  by (simp add: trim_suffix_def)

lemma has_suffixE: "has_suffix s p \<Longrightarrow> s = trim_suffix s p @ p"
  by (auto simp: has_suffix_def trim_suffix_def) (metis append_take_drop_id)

subsection \<open>Decimal numerals are injective\<close>

lemma digit_char_inj: "d < 10 \<Longrightarrow> e < 10 \<Longrightarrow> digit_char d = digit_char e \<longleftrightarrow> d = e"
proof -
  assume "d < 10" "e < 10"
  then have "(of_char (digit_char d) :: nat) = 48 + d" "(of_char (digit_char e) :: nat) = 48 + e"
    by (simp_all add: digit_char_def)
  then show ?thesis by (metis add_left_cancel)
qed

lemma show_nat_nonempty [simp]: "show_nat n \<noteq> []"
  by (subst show_nat.simps) simp

lemma Nil_neq_show_nat [simp]: "[] \<noteq> show_nat n"
  using show_nat_nonempty [of n] by metis

lemma show_nat_inj: "show_nat m = show_nat n \<Longrightarrow> m = n"
proof (induction m arbitrary: n rule: show_nat.induct)
  case (1 m)
  show ?case
  proof (cases "m < 10")
    case True
    with "1.prems" show ?thesis
      by (auto simp: show_nat.simps [of m] show_nat.simps [of n] digit_char_inj split: if_splits)
  next
    case False
    with "1.prems" have n: "\<not> n < 10"
      by (auto simp: show_nat.simps [of m] show_nat.simps [of n] split: if_splits)
    with False "1.prems" have "show_nat (m div 10) = show_nat (n div 10)"
      and "digit_char (m mod 10) = digit_char (n mod 10)"
      by (simp_all add: show_nat.simps [of m] show_nat.simps [of n])
    then have "m div 10 = n div 10" "m mod 10 = n mod 10"
      using False "1.IH" by (simp_all add: digit_char_inj)
    then show ?thesis by (metis div_mult_mod_eq)
  qed
qed

end
