(* ===== verification/Model.thy ===== *)
theory Model
  imports Text_Utf8
begin

text \<open>
  The package internal/model: the values shared by client, receiver, writer and maintenance, and
  the validation every boundary applies to them. The seven backup statuses, the operation kinds,
  states and origins, and the monitoring states are the strings of the source as datatypes; a time
  stamp column holds no text, the text of an instant, or text that time.Parse rejects.
\<close>

datatype status =
    BackupReceiving | BackupComplete | BackupFailed | BackupDeleting | BackupQuarantined
  | BackupPurging | BackupDeleted

datatype monitoring_state = MonitoringLearning | MonitoringRegular | MonitoringAnomaly | MonitoringPaused

datatype op_kind = Quarantine | Purge | Recover | Cancel
datatype op_state = Requested | Authorized | Confirmed | OpFailed | Cancelled
datatype origin = Manual | Automatic | ReconcileOrigin

text \<open>\<open>received_at\<close> is empty, or an RFC 3339 text that denotes an instant, or other text.\<close>

datatype stamp = NoStamp | Stamp time | BadStamp string

record metadata =
  Description :: string
  OriginalName :: string
  ContentFormat :: string

definition ContentFormatAgeV1 :: string where "ContentFormatAgeV1 = ''age-v1''"
definition UploadPath :: string where "UploadPath = ''/v2/backups''"
definition LegacyUploadPath :: string where "LegacyUploadPath = ''/v1/backups''"

definition ValidUploadPath :: "string \<Rightarrow> bool" where
  "ValidUploadPath path \<longleftrightarrow> path = UploadPath \<or> path = LegacyUploadPath"

definition Metadata_Validate :: "metadata \<Rightarrow> unit res" where
  "Metadata_Validate m =
     (let d = Description m; n = OriginalName m in
      if \<not> valid_string d \<or> blank d \<or> rune_count d > 1000
      then Inl (ErrMsg ''descrizione obbligatoria, massimo 1000 caratteri UTF-8'')
      else if list_ex (\<lambda>r. is_control r \<and> r \<noteq> 10 \<and> r \<noteq> 9) (runes d)
      then Inl (ErrMsg ''descrizione con caratteri di controllo'')
      else if \<not> valid_string n \<or> blank n \<or> rune_count n > 255 \<or> n = ''.'' \<or> n = ''..''
              \<or> contains_any n [CHR ''/'', CHR 92]
      then Inl (ErrMsg ''nome file obbligatorio, massimo 255 caratteri e senza percorsi'')
      else if list_ex is_control (runes n)
      then Inl (ErrMsg ''nome file con caratteri di controllo'')
      else if ContentFormat m \<noteq> [] \<and> ContentFormat m \<noteq> ContentFormatAgeV1
      then Inl (ErrMsg ''formato contenuto non supportato'')
      else Inr ())"

definition ValidToken :: "string \<Rightarrow> bool" where
  "ValidToken s \<longleftrightarrow> length s \<noteq> 0 \<and> \<not> length s > 255 \<and> list_all (\<lambda>r. \<not> (r < 33 \<or> r > 126)) (runes s)"

definition idem_rune :: "nat \<Rightarrow> bool" where
  "idem_rune r \<longleftrightarrow> (97 \<le> r \<and> r \<le> 122) \<or> (65 \<le> r \<and> r \<le> 90) \<or> (48 \<le> r \<and> r \<le> 57) \<or> r = 45 \<or> r = 95"

definition ValidIdempotencyKey :: "string \<Rightarrow> bool" where
  "ValidIdempotencyKey s \<longleftrightarrow> \<not> (length s < 16 \<or> length s > 128) \<and> list_all idem_rune (runes s)"

definition ValidID :: "string \<Rightarrow> bool" where
  "ValidID s \<longleftrightarrow> length s = 32 \<and> list_all is_lower_hex s"

definition ValidDigest :: "string \<Rightarrow> bool" where
  "ValidDigest s \<longleftrightarrow> length s = 64 \<and> list_all is_lower_hex s"

record profile =
  Name :: string
  TotalBytes :: int
  MaxBackupBytes :: int
  UploadsPerDay :: int
  Concurrent :: int

definition Profile_Validate :: "profile \<Rightarrow> unit res" where
  "Profile_Validate p =
     (if blank (Name p) \<or> \<not> valid_string (Name p) \<or> rune_count (Name p) > 100
      then Inl (ErrMsg ''nome profilo obbligatorio, massimo 100 caratteri'')
      else if list_ex is_control (runes (Name p)) then Inl (ErrMsg ''nome profilo non valido'')
      else if TotalBytes p \<le> 0 \<or> TotalBytes p > 2 ^ 60 \<or> MaxBackupBytes p \<le> 0
              \<or> MaxBackupBytes p > TotalBytes p \<or> UploadsPerDay p < 1 \<or> UploadsPerDay p > 1000000
              \<or> Concurrent p < 1 \<or> Concurrent p > 1024
      then Inl (ErrMsg ''limiti non validi: valori positivi, dimensione backup <= spazio totale, concorrenza <= 1024'')
      else Inr ())"

definition GiB :: int where "GiB = 2 ^ 30"

definition DefaultProfiles :: "profile list" where
  "DefaultProfiles =
     [\<lparr>Name = ''XS'', TotalBytes = 10 * GiB, MaxBackupBytes = GiB, UploadsPerDay = 6, Concurrent = 1\<rparr>,
      \<lparr>Name = ''S'', TotalBytes = 100 * GiB, MaxBackupBytes = 10 * GiB, UploadsPerDay = 12, Concurrent = 1\<rparr>,
      \<lparr>Name = ''M'', TotalBytes = 500 * GiB, MaxBackupBytes = 20 * GiB, UploadsPerDay = 24, Concurrent = 2\<rparr>,
      \<lparr>Name = ''L'', TotalBytes = 2000 * GiB, MaxBackupBytes = 100 * GiB, UploadsPerDay = 48, Concurrent = 4\<rparr>,
      \<lparr>Name = ''XL'', TotalBytes = 10000 * GiB, MaxBackupBytes = 500 * GiB, UploadsPerDay = 96, Concurrent = 8\<rparr>]"

definition byte_units :: "(string \<times> int) list" where
  "byte_units = [(''TiB'', 2 ^ 40), (''GiB'', 2 ^ 30), (''MiB'', 2 ^ 20), (''KiB'', 2 ^ 10),
     (''TB'', 1000000000000), (''GB'', 1000000000), (''MB'', 1000000), (''KB'', 1000), (''B'', 1)]"

fun pick_unit :: "string \<Rightarrow> (string \<times> int) list \<Rightarrow> string \<times> int" where
  "pick_unit s [] = (s, 1)"
| "pick_unit s ((u, m) # us) = (if has_suffix s u then (trim_suffix s u, m) else pick_unit s us)"

fun parse_digits :: "int \<Rightarrow> int \<Rightarrow> nat list \<Rightarrow> int res" where
  "parse_digits mult n [] = Inr n"
| "parse_digits mult n (c # cs) =
     (if c < 48 \<or> c > 57
      then Inl (ErrMsg ''dimensione non valida: usare interi e B, KiB, MiB, GiB, TiB oppure KB, MB, GB, TB'')
      else if n > go_div (go_div (2 ^ 60) mult - int (c - 48)) 10
      then Inl (ErrMsg ''dimensione troppo grande'')
      else parse_digits mult (n * 10 + int (c - 48)) cs)"

definition ParseBytes :: "string \<Rightarrow> int res" where
  "ParseBytes s0 =
     (let (s, mult) = pick_unit s0 byte_units in
      if s = [] then Inl (ErrMsg ''dimensione vuota'')
      else (case parse_digits mult 0 (runes s) of
          Inl e \<Rightarrow> Inl e
        | Inr n \<Rightarrow> if n > go_div (2 ^ 60) mult then Inl (ErrMsg ''dimensione troppo grande'')
                   else Inr (n * mult)))"

record receipt =
  rc_id :: string
  rc_status :: status
  rc_size :: int
  rc_sha256 :: string
  rc_received_at :: stamp

text \<open>model.Backup embeds Receipt and Metadata; a row of the table backups scans into it
  (scanBackup), with the empty string for a NULL idempotency key.\<close>

record backup =
  b_id :: string
  b_status :: status
  b_size :: int
  b_sha256 :: string
  b_received_at :: stamp
  b_key_id :: string
  b_idempotency_key :: string
  b_metadata :: metadata
  b_started_at :: seconds
  b_failure :: string
  b_quarantined_at :: seconds
  b_purge_not_before :: seconds
  b_purged_at :: seconds

definition Receipt_of :: "backup \<Rightarrow> receipt" where
  "Receipt_of b = \<lparr>rc_id = b_id b, rc_status = b_status b, rc_size = b_size b,
     rc_sha256 = b_sha256 b, rc_received_at = b_received_at b\<rparr>"

definition BackupPageSize :: nat where "BackupPageSize = 1000"

record backup_page =
  pg_backups :: "backup list"
  pg_next :: string
  pg_through :: int

record lease =
  l_owner :: string
  l_generation :: int
  l_expires_at :: seconds

record key =
  k_id :: string
  k_name :: string
  k_profile :: string
  k_revoked :: bool

record quota =
  q_key_id :: string
  q_profile :: profile
  q_used :: int
  q_reserved :: int
  q_active :: int
  q_attempts24h :: int

definition ConfirmAutomationSetup :: "string \<Rightarrow> string" where
  "ConfirmAutomationSetup mode =
     (if mode = ''auto'' then ''CONFIGURA AUTO''
      else if mode = ''manual'' then ''CONFIGURA MANUAL'' else ''CONFIGURA'')"

subsection \<open>ParseBytes accepts exactly the representable sizes\<close>

definition dec_value :: "int \<Rightarrow> nat list \<Rightarrow> int" where
  "dec_value n cs = foldl (\<lambda>n c. n * 10 + int (c - 48)) n cs"

definition all_digits :: "string \<Rightarrow> bool" where
  "all_digits s \<longleftrightarrow> list_all (\<lambda>c. 48 \<le> byte_of c \<and> byte_of c \<le> 57) s"

lemma dec_value_simps [simp]:
  "dec_value n [] = n" "dec_value n (c # cs) = dec_value (n * 10 + int (c - 48)) cs"
  by (simp_all add: dec_value_def)

lemma dec_value_ge: "0 \<le> n \<Longrightarrow> n \<le> dec_value n cs"
proof (induction cs arbitrary: n)
  case (Cons c cs)
  from Cons.prems have "n \<le> n * 10 + int (c - 48)" by simp
  also have "\<dots> \<le> dec_value (n * 10 + int (c - 48)) cs"
    using Cons.prems by (intro Cons.IH) simp
  finally show ?case by simp
qed simp

lemma digit_guard:
  assumes "0 \<le> n" "(9::int) \<le> M" "48 \<le> c" "c \<le> 57"
  shows "n > go_div (M - int (c - 48)) 10 \<longleftrightarrow> n * 10 + int (c - 48) > M"
proof -
  from assms have "0 \<le> M - int (c - 48)" by simp
  then have "go_div (M - int (c - 48)) 10 = (M - int (c - 48)) div 10"
    by (simp add: go_div_nonneg)
  then show ?thesis by linarith
qed

lemma parse_digits_exact:
  assumes "0 < mult" "9 \<le> 2 ^ 60 div mult" "list_all (\<lambda>c. 48 \<le> c \<and> c \<le> 57) cs" "0 \<le> n"
  shows "n \<le> 2 ^ 60 div mult \<Longrightarrow>
    parse_digits mult n cs = (if dec_value n cs \<le> 2 ^ 60 div mult then Inr (dec_value n cs)
                              else Inl (ErrMsg ''dimensione troppo grande''))"
  using assms
proof (induction cs arbitrary: n)
  case (Cons c cs)
  let ?M = "(2::int) ^ 60 div mult" and ?n = "n * 10 + int (c - 48)"
  have M: "go_div (2 ^ 60) mult = ?M" using Cons.prems by (simp add: go_div_nonneg)
  have c: "48 \<le> c" "c \<le> 57" using Cons.prems by simp_all
  have guard: "n > go_div (go_div (2 ^ 60) mult - int (c - 48)) 10 \<longleftrightarrow> ?n > ?M"
    unfolding M by (rule digit_guard) (use Cons.prems c in simp_all)
  show ?case
  proof (cases "?n > ?M")
    case True
    then have "dec_value ?n cs > ?M"
      using dec_value_ge [of ?n cs] Cons.prems(5) by linarith
    then show ?thesis using True guard c by (simp del: power_Suc)
  next
    case False
    then have "parse_digits mult ?n cs = (if dec_value ?n cs \<le> ?M then Inr (dec_value ?n cs)
        else Inl (ErrMsg ''dimensione troppo grande''))"
      using Cons.prems by (intro Cons.IH) simp_all
    then show ?thesis using False guard c by simp
  qed
qed simp

lemma has_suffix_rev: "has_suffix s u \<longleftrightarrow> take (length u) (rev s) = rev u"
proof
  assume "has_suffix s u"
  then have "s = trim_suffix s u @ u" by (rule has_suffixE)
  then show "take (length u) (rev s) = rev u" by (metis append_eq_conv_conj length_rev rev_append)
next
  assume a: "take (length u) (rev s) = rev u"
  then have len: "length u \<le> length s"
    by (metis length_rev length_take min.cobounded1)
  from a have "rev (take (length u) (rev s)) = u" by simp
  then show "has_suffix s u" using len by (simp add: has_suffix_def rev_take)
qed

lemma trim_suffix_rev:
  "trim_suffix s u = (if has_suffix s u then rev (drop (length u) (rev s)) else s)"
  by (simp add: trim_suffix_def rev_drop)

lemma pick_unit_digits:
  assumes "s \<noteq> []" "all_digits s" "(u, m) \<in> set (([], 1) # byte_units)"
  shows "pick_unit (s @ u) byte_units = (s, m)"
proof -
  obtain xs d where s: "s = xs @ [d]" using assms(1) by (metis rev_exhaust)
  have d: "48 \<le> byte_of d" "byte_of d \<le> 57" using assms(2) by (simp_all add: s all_digits_def)
  then have nd: "d \<noteq> CHR ''B''" "d \<noteq> CHR ''K''" "d \<noteq> CHR ''M''" "d \<noteq> CHR ''G''" "d \<noteq> CHR ''T''"
    "d \<noteq> CHR ''i''"
    by (auto simp: byte_of_def)
  show ?thesis
    using assms(3) [unfolded byte_units_def list.set insert_iff prod.inject empty_iff]
    by (elim disjE) (simp_all add: byte_units_def s has_suffix_rev trim_suffix_rev nd)
qed

lemma unit_bounds:
  "(u, m) \<in> set (([], 1) # byte_units) \<Longrightarrow> 0 < m \<and> 9 \<le> (2::int) ^ 60 div m"
  by (auto simp: byte_units_def)

lemma runes_digits: "all_digits s \<Longrightarrow> runes s = map byte_of s"
  by (rule runes_ascii) (auto simp: all_digits_def list_all_iff)

text \<open>ParseBytes is exact: a non-empty decimal numeral followed by one of the nine units, or by
  none, is accepted precisely when the number of bytes it denotes is at most 2^60, and then the
  result is that number; otherwise it is refused as too large. No intermediate product wraps.\<close>

theorem ParseBytes_exact:
  assumes "s \<noteq> []" "all_digits s" "(u, m) \<in> set (([], 1) # byte_units)"
  shows "ParseBytes (s @ u) =
    (if dec_value 0 (map byte_of s) * m \<le> 2 ^ 60 then Inr (dec_value 0 (map byte_of s) * m)
     else Inl (ErrMsg ''dimensione troppo grande''))"
proof -
  let ?v = "dec_value 0 (map byte_of s)"
  have m: "0 < m" "9 \<le> (2::int) ^ 60 div m" using unit_bounds [OF assms(3)] by simp_all
  have digits: "list_all (\<lambda>c. 48 \<le> c \<and> c \<le> 57) (map byte_of s)"
    using assms(2) by (simp add: all_digits_def list_all_iff)
  have "parse_digits m 0 (map byte_of s) =
      (if ?v \<le> 2 ^ 60 div m then Inr ?v else Inl (ErrMsg ''dimensione troppo grande''))"
    by (rule parse_digits_exact) (use m digits in simp_all)
  moreover have "?v \<le> 2 ^ 60 div m \<longleftrightarrow> ?v * m \<le> 2 ^ 60"
    using m(1) by (rule le_div_iff_mult_le)
  ultimately show ?thesis
    using m by (auto simp: ParseBytes_def pick_unit_digits [OF assms] runes_digits assms go_div_nonneg)
qed

theorem ParseBytes_exact_witness:
  "all_digits ''12'' \<and> ParseBytes (''12'' @ ''KiB'') = Inr 12288"
proof -
  have d: "all_digits ''12''" by (simp add: all_digits_def byte_of_def)
  have u: "(''KiB'', 1024) \<in> set (([], 1) # byte_units)" by (simp add: byte_units_def)
  show ?thesis using d ParseBytes_exact [OF _ d u] by (simp add: byte_of_def)
qed

end
