(* ===== verification/Clock.thy ===== *)
theory Clock
  imports Prelude
begin

text \<open>
  What the program uses of package time beyond instants: locations with their zone transitions,
  the civil date of an instant, time.Date, AddDate and Weekday. A civil date is the number of days
  since 1970-01-01, which is what (year, month, day) determine; Format("2006-01-02") of a date is
  represented by that number (the texts are equal exactly when the dates are, and sort like them
  for the four-digit years RFC 3339 admits). The time zone database is data outside the program:
  time.LoadLocation is an argument of every definition that loads a location.
\<close>

record location =
  loc_first :: int
  loc_tx :: "(int \<times> int) list"

type_synonym tzdb = "string \<Rightarrow> location option"

text \<open>Location.lookup: the offset in force at a second of UTC, with the interval it holds for.\<close>

definition lookup_alpha :: int where "lookup_alpha = - (2 ^ 63)"
definition lookup_omega :: int where "lookup_omega = 2 ^ 63 - 1"

fun zone_lookup :: "int \<Rightarrow> int \<Rightarrow> (int \<times> int) list \<Rightarrow> int \<Rightarrow> int \<times> int \<times> int" where
  "zone_lookup off st [] sec = (off, st, lookup_omega)"
| "zone_lookup off st ((w, o') # tx) sec = (if sec < w then (off, st, w) else zone_lookup o' w tx sec)"

definition lookup :: "location \<Rightarrow> int \<Rightarrow> int \<times> int \<times> int" where
  "lookup loc sec = zone_lookup (loc_first loc) lookup_alpha (loc_tx loc) sec"

definition offset_at :: "location \<Rightarrow> int \<Rightarrow> int" where
  "offset_at loc sec = fst (lookup loc sec)"

definition UTC :: location where
  "UTC = \<lparr>loc_first = 0, loc_tx = []\<rparr>"

definition local_seconds :: "location \<Rightarrow> time \<Rightarrow> int" where
  "local_seconds loc t = unix t + offset_at loc (unix t)"

definition civil_day :: "location \<Rightarrow> time \<Rightarrow> int" where
  "civil_day loc t = local_seconds loc t div 86400"

definition second_of_day :: "location \<Rightarrow> time \<Rightarrow> int" where
  "second_of_day loc t = local_seconds loc t mod 86400"

text \<open>time.Date on a civil day and a number of seconds into it. The offset is first looked up as if
  the wanted local time were UTC, and looked up again when the result lies outside that zone.\<close>

definition date_seconds :: "location \<Rightarrow> int \<Rightarrow> int \<Rightarrow> int" where
  "date_seconds loc day secs =
     (let u = day * 86400 + secs; (off, st, en) = lookup loc u in
      if off \<noteq> 0
      then (let utc = u - off; off' = (if utc < st \<or> utc \<ge> en then offset_at loc utc else off) in u - off')
      else u)"

definition time_Date :: "location \<Rightarrow> int \<Rightarrow> int \<Rightarrow> int \<Rightarrow> time" where
  "time_Date loc day secs nsec = of_unix (date_seconds loc day secs) + nsec"

definition AddDate :: "location \<Rightarrow> time \<Rightarrow> int \<Rightarrow> time" where
  "AddDate loc t days = time_Date loc (civil_day loc t + days) (second_of_day loc t) (t mod second)"

definition Weekday :: "location \<Rightarrow> time \<Rightarrow> int" where
  "Weekday loc t = (civil_day loc t + 4) mod 7"

definition zero_time :: time where
  "zero_time = of_unix (-62135596800)"

definition duration_hours :: "int \<Rightarrow> int" where
  "duration_hours h = h * hour_ns"

text \<open>The offsets a location uses, and the zones in which two local midnights never coincide or
  swap: those whose offsets differ by less than a day.\<close>

definition loc_offsets :: "location \<Rightarrow> int set" where
  "loc_offsets loc = insert (loc_first loc) (snd ` set (loc_tx loc))"

definition narrow_zone :: "location \<Rightarrow> bool" where
  "narrow_zone loc \<longleftrightarrow> (\<forall>a \<in> loc_offsets loc. \<forall>b \<in> loc_offsets loc. a - b < 86400)"

subsection \<open>Lookup\<close>

lemma zone_lookup_offset: "fst (zone_lookup off st tx sec) \<in> insert off (snd ` set tx)"
  by (induction off st tx sec rule: zone_lookup.induct) auto

lemma offset_at_mem: "offset_at loc sec \<in> loc_offsets loc"
  unfolding offset_at_def lookup_def loc_offsets_def by (rule zone_lookup_offset)

lemma offset_at_UTC [simp]: "offset_at UTC sec = 0"
  by (simp add: offset_at_def lookup_def UTC_def)

lemma date_seconds_offset: "\<exists>off \<in> loc_offsets loc. date_seconds loc day secs = day * 86400 + secs - off"
proof -
  let ?u = "day * 86400 + secs"
  obtain off st en where l: "lookup loc ?u = (off, st, en)" by (cases "lookup loc ?u") auto
  then have off: "off = offset_at loc ?u" by (simp add: offset_at_def)
  show ?thesis
    using offset_at_mem [of loc ?u] offset_at_mem [of loc "?u - off"]
    by (cases "off = 0") (auto simp: date_seconds_def l off Let_def split: if_splits)
qed

lemma date_seconds_UTC [simp]: "date_seconds UTC day secs = day * 86400 + secs"
  using date_seconds_offset [of UTC day secs] by (auto simp: loc_offsets_def UTC_def)

lemma time_Date_UTC [simp]: "time_Date UTC day secs nsec = of_unix (day * 86400 + secs) + nsec"
  by (simp add: time_Date_def)

lemma unix_time_Date [simp]: "0 \<le> n \<Longrightarrow> n < second \<Longrightarrow> unix (time_Date loc d s n) = date_seconds loc d s"
  by (simp add: time_Date_def unix_def of_unix_def second_def)

text \<open>Local midnights are strictly increasing in the civil day.\<close>

lemma midnight_strict_mono:
  assumes "narrow_zone loc" "d < d'"
  shows "date_seconds loc d 0 < date_seconds loc d' 0"
proof -
  obtain a where a: "a \<in> loc_offsets loc" "date_seconds loc d 0 = d * 86400 - a"
    using date_seconds_offset [of loc d 0] by auto
  obtain b where b: "b \<in> loc_offsets loc" "date_seconds loc d' 0 = d' * 86400 - b"
    using date_seconds_offset [of loc d' 0] by auto
  from assms(1) a b have "b - a < 86400" by (simp add: narrow_zone_def)
  moreover from assms(2) have "d * 86400 + 86400 \<le> d' * 86400" by simp
  ultimately show ?thesis using a b by linarith
qed

lemma midnight_less_iff:
  assumes "narrow_zone loc"
  shows "date_seconds loc d 0 < date_seconds loc d' 0 \<longleftrightarrow> d < d'"
  using midnight_strict_mono [OF assms] by (metis linorder_neqE order.asym order.irrefl)

lemma time_Date_less_iff:
  "time_Date loc d s 0 < time_Date loc d' s' 0 \<longleftrightarrow> date_seconds loc d s < date_seconds loc d' s'"
  by (simp add: time_Date_def of_unix_def second_def)

lemma narrow_UTC [simp]: "narrow_zone UTC"
  by (simp add: narrow_zone_def loc_offsets_def UTC_def)

lemma civil_day_UTC: "civil_day UTC t = unix t div 86400"
  by (simp add: civil_day_def local_seconds_def)

lemma second_of_day_UTC: "second_of_day UTC t = unix t mod 86400"
  by (simp add: second_of_day_def local_seconds_def)

lemma AddDate_UTC: "AddDate UTC t n = t + n * 86400 * second"
proof -
  have "AddDate UTC t n = (unix t + n * 86400) * second + t mod second"
    using div_mult_mod_eq [of "unix t" 86400]
    by (simp add: AddDate_def civil_day_UTC second_of_day_UTC of_unix_def algebra_simps)
  also have "\<dots> = t + n * 86400 * second"
    using div_mult_mod_eq [of t second] by (simp add: unix_def algebra_simps)
  finally show ?thesis .
qed

lemma unix_AddDate_UTC [simp]: "unix (AddDate UTC t n) = unix t + n * 86400"
  by (simp add: AddDate_UTC mult.assoc [symmetric])

end
