(* ===== verification/Policy_Space.thy ===== *)
theory Policy_Space
  imports Model Clock "HOL-Library.Multiset"
begin

text \<open>
  The space half of internal/policy: the filesystem measure, the retention minimum of one backup
  and the selection of the backups to quarantine. Byte counts are 64-bit words as in the source, so
  every guard against overflow is a guard on words. The properties say what a selection may contain,
  that it leaves a copy of every key, that it takes whole days oldest first, and that it frees enough.
\<close>

type_synonym u64 = "64 word"

definition MinimumDays :: int where "MinimumDays = 7"
definition MinimumReleaseBasisPoints :: u64 where "MinimumReleaseBasisPoints = 1000"
definition ScheduleTolerance :: int where "ScheduleTolerance = 30 * minute_ns"
definition QuarantineMarginAnomalyKey :: string where
  "QuarantineMarginAnomalyKey = ''capacity:quarantine-margin''"

definition IsQuarantineMarginWarning :: "string \<Rightarrow> string \<Rightarrow> bool" where
  "IsQuarantineMarginWarning kind stableKey \<longleftrightarrow> kind = ''capacity'' \<and> stableKey = QuarantineMarginAnomalyKey"

definition localMidnight :: "time \<Rightarrow> location \<Rightarrow> time" where
  "localMidnight t loc = time_Date loc (civil_day loc t) 0 0"

definition DailyRequirement :: "u64 \<Rightarrow> u64" where
  "DailyRequirement expected48h = expected48h div 2 + expected48h mod 2"

record filesystem =
  Blocks :: u64
  Bfree :: u64
  Bavail :: u64
  BlockSize :: u64

definition MaxUint64 :: u64 where "MaxUint64 = - 1"

definition UsedBasisPoints :: "filesystem \<Rightarrow> int res" where
  "UsedBasisPoints f =
     (if Blocks f = 0 \<or> Bfree f > Blocks f \<or> BlockSize f = 0
      then Inl (ErrMsg ''misura filesystem non valida'')
      else let used = Blocks f - Bfree f in
        if used > MaxUint64 div 10000 then Inl (ErrMsg ''misura filesystem non rappresentabile'')
        else Inr (uint (used * 10000 div Blocks f)))"

definition fs_Bytes :: "filesystem \<Rightarrow> (u64 \<times> u64 \<times> u64) res" where
  "fs_Bytes f =
     (case UsedBasisPoints f of
        Inl e \<Rightarrow> Inl e
      | Inr _ \<Rightarrow>
          if Blocks f > MaxUint64 div BlockSize f \<or> Bfree f > MaxUint64 div BlockSize f
             \<or> Bavail f > MaxUint64 div BlockSize f
          then Inl (ErrMsg ''misura filesystem non rappresentabile'')
          else Inr (Blocks f * BlockSize f, (Blocks f - Bfree f) * BlockSize f, Bavail f * BlockSize f))"

definition backupTimeForPolicy :: "backup \<Rightarrow> time" where
  "backupTimeForPolicy b = (case b_received_at b of Stamp t \<Rightarrow> t | _ \<Rightarrow> of_unix (b_started_at b))"

text \<open>The pair (protected, error) of the source: an error also answers protected.\<close>

definition RetentionProtected :: "tzdb \<Rightarrow> backup \<Rightarrow> time \<Rightarrow> string \<Rightarrow> int \<Rightarrow> bool \<times> error option" where
  "RetentionProtected LoadLocation b now timezone days =
     (if days < MinimumDays \<or> days > 365000
      then (True, Some (ErrMsg ''minimo di conservazione non valido''))
      else (case LoadLocation timezone of
          None \<Rightarrow> (True, Some (ErrMsg ''fuso non valido''))
        | Some loc \<Rightarrow>
            (let cutoff = AddDate loc (localMidnight now loc) (- days)
             in (\<not> backupTimeForPolicy b < cutoff, None))))"

record selection_input =
  si_now :: time
  si_timezone :: string
  si_filesystem :: filesystem
  si_threshold :: int
  si_retention_days :: int
  si_key_retention_days :: "string \<rightharpoonup> int"
  si_expected48h :: u64
  si_pending_purge :: u64
  si_backups :: "backup list"
  si_revoked :: "string \<Rightarrow> bool"

record selection =
  Eligible :: bool
  Reason :: string
  sel_used_basis :: int
  BytesNeeded :: u64
  SelectedBytes :: u64
  ShortfallBytes :: u64
  Candidates :: "backup list"

definition selection0 :: selection where
  "selection0 = \<lparr>Eligible = False, Reason = [], sel_used_basis = 0, BytesNeeded = 0,
     SelectedBytes = 0, ShortfallBytes = 0, Candidates = []\<rparr>"

text \<open>Go maps with an int default are functions that answer 0.\<close>

fun bump_all :: "(backup \<Rightarrow> bool) \<Rightarrow> (string \<Rightarrow> int) \<Rightarrow> backup list \<Rightarrow> string \<Rightarrow> int" where
  "bump_all P m [] = m"
| "bump_all P m (b # bs) = bump_all P (if P b then m(b_key_id b := m (b_key_id b) + 1) else m) bs"

definition present_status :: "status \<Rightarrow> bool" where
  "present_status s \<longleftrightarrow> s = BackupComplete \<or> s = BackupDeleting \<or> s = BackupQuarantined \<or> s = BackupPurging"

definition key_minimum :: "selection_input \<Rightarrow> string \<Rightarrow> int" where
  "key_minimum inp k = (case si_key_retention_days inp k of Some d \<Rightarrow> d | None \<Rightarrow> si_retention_days inp)"

text \<open>The loop that groups the eligible backups by local day, stopping at an invalid minimum.\<close>

fun group_days :: "location \<Rightarrow> selection_input \<Rightarrow> time \<Rightarrow> backup list \<Rightarrow> (int \<Rightarrow> backup list) \<Rightarrow> int list
    \<Rightarrow> ((int \<Rightarrow> backup list) \<times> int list) res" where
  "group_days loc inp today [] byDay days = Inr (byDay, days)"
| "group_days loc inp today (b # bs) byDay days =
     (if \<not> present_status (b_status b) then group_days loc inp today bs byDay days
      else let minimum = key_minimum inp (b_key_id b) in
        if minimum < MinimumDays \<or> minimum > 365000
        then Inl (ErrMsg ''minimo di conservazione non valido'')
        else let protectedAfter = AddDate loc today (- minimum);
                 day = localMidnight (backupTimeForPolicy b) loc in
          if \<not> day < protectedAfter \<or> \<not> day < today then group_days loc inp today bs byDay days
          else let key = civil_day loc day in
            group_days loc inp today bs (byDay(key := byDay key @ [b]))
              (if byDay key = [] then days @ [key] else days))"

text \<open>A day is taken only whole: every backup of it complete, of a live key, and not the last ones.\<close>

definition day_valid :: "(string \<Rightarrow> bool) \<Rightarrow> (string \<Rightarrow> int) \<Rightarrow> backup list \<Rightarrow> bool" where
  "day_valid revoked counts items \<longleftrightarrow>
     (let dayCounts = bump_all (\<lambda>_. True) (\<lambda>_. 0) items in
      list_all (\<lambda>b. \<not> (b_status b \<noteq> BackupComplete \<or> revoked (b_key_id b)
                        \<or> counts (b_key_id b) - dayCounts (b_key_id b) < 1)) items)"

fun take_items :: "backup list \<Rightarrow> (string \<Rightarrow> int) \<Rightarrow> u64 \<Rightarrow> (string \<Rightarrow> int) \<times> u64" where
  "take_items [] counts selected = (counts, selected)"
| "take_items (b # bs) counts selected =
     take_items bs (counts(b_key_id b := counts (b_key_id b) - 1)) (selected + word_of_int (b_size b))"

fun select_days :: "(string \<Rightarrow> bool) \<Rightarrow> u64 \<Rightarrow> (int \<Rightarrow> backup list) \<Rightarrow> int list \<Rightarrow> (string \<Rightarrow> int) \<Rightarrow> u64
    \<Rightarrow> backup list \<Rightarrow> u64 \<times> backup list" where
  "select_days revoked needed byDay [] counts selected cands = (selected, cands)"
| "select_days revoked needed byDay (day # days) counts selected cands =
     (let items = byDay day in
      if \<not> day_valid revoked counts items
      then select_days revoked needed byDay days counts selected cands
      else let (counts', selected') = take_items items counts selected in
        if selected' \<ge> needed then (selected', cands @ items)
        else select_days revoked needed byDay days counts' selected' (cands @ items))"

text \<open>The bytes to release before pending requests are subtracted: lines 599-621 of Select.\<close>

definition release_target :: "u64 \<Rightarrow> u64 \<Rightarrow> u64" where
  "release_target tot threshold =
     (let target = tot div 10000 * threshold + (tot mod 10000) * threshold div 10000
      in if target > 0 then target - 1 else target)"

definition minimum_release :: "u64 \<Rightarrow> u64" where
  "minimum_release tot =
     (let r = tot div 10000 * MinimumReleaseBasisPoints + (tot mod 10000) * MinimumReleaseBasisPoints div 10000
      in if tot mod 10000 * MinimumReleaseBasisPoints mod 10000 \<noteq> 0 then r + 1 else r)"

definition bytes_to_release :: "u64 \<Rightarrow> u64 \<Rightarrow> u64 \<Rightarrow> u64" where
  "bytes_to_release tot threshold projected =
     (let target = release_target tot threshold;
          needed = (if projected > target then projected - target else 0);
          minimumRelease = minimum_release tot
      in if needed < minimumRelease then minimumRelease else needed)"

definition Select :: "tzdb \<Rightarrow> selection_input \<Rightarrow> selection res" where
  "Select LoadLocation inp =
     (if si_threshold inp < 1 \<or> si_threshold inp > 10000 then Inl (ErrMsg ''soglia filesystem non valida'')
      else (case UsedBasisPoints (si_filesystem inp) of
        Inl e \<Rightarrow> Inl e
      | Inr usedBasis \<Rightarrow>
        (let result = selection0\<lparr>sel_used_basis := usedBasis\<rparr> in
         if usedBasis < si_threshold inp
         then Inr (result\<lparr>Reason := ''occupazione inferiore alla soglia''\<rparr>)
         else (case LoadLocation (si_timezone inp) of
           None \<Rightarrow> Inl (ErrMsg ''fuso non valido'')
         | Some loc \<Rightarrow>
           if si_retention_days inp < MinimumDays
           then Inl (ErrMsg ''finestra di conservazione inferiore a 7 giorni'')
           else (case fs_Bytes (si_filesystem inp) of
             Inl e \<Rightarrow> Inl e
           | Inr (tot, used, _) \<Rightarrow>
             (let threshold = word_of_int (si_threshold inp) in
              if MaxUint64 - used < si_expected48h inp
              then Inl (ErrMsg ''previsione spazio non rappresentabile'')
              else let needed0 = bytes_to_release tot threshold (used + si_expected48h inp) in
                if si_pending_purge inp \<ge> needed0
                then Inr (result\<lparr>Eligible := True, Reason := ''richieste pendenti gia sufficienti''\<rparr>)
                else let needed = needed0 - si_pending_purge inp;
                         today = localMidnight (si_now inp) loc;
                         counts = bump_all (\<lambda>b. b_status b = BackupComplete) (\<lambda>_. 0) (si_backups inp) in
                  (case group_days loc inp today (si_backups inp) (\<lambda>_. []) [] of
                     Inl e \<Rightarrow> Inl e
                   | Inr (byDay, days) \<Rightarrow>
                     (let (selected, cands) =
                            select_days (si_revoked inp) needed byDay (sort days) counts 0 [] in
                      Inr (result\<lparr>BytesNeeded := needed, SelectedBytes := selected,
                             Candidates := cands, Eligible := (cands \<noteq> []),
                             ShortfallBytes := (if selected < needed then needed - selected else 0),
                             Reason := (if selected < needed then ''candidati leciti insufficienti''
                                        else ''candidati limitati alla quantita necessaria'')\<rparr>))))))))) "

subsection \<open>The loops as filters and sums\<close>

definition of_key :: "string \<Rightarrow> backup list \<Rightarrow> nat" where
  "of_key k bs = count_where (\<lambda>b. b_key_id b = k) bs"

definition sum_sizes :: "backup list \<Rightarrow> int" where
  "sum_sizes bs = sum_list (map b_size bs)"

definition eligible :: "location \<Rightarrow> selection_input \<Rightarrow> time \<Rightarrow> backup \<Rightarrow> bool" where
  "eligible loc inp today b \<longleftrightarrow> present_status (b_status b)
     \<and> localMidnight (backupTimeForPolicy b) loc < AddDate loc today (- key_minimum inp (b_key_id b))
     \<and> localMidnight (backupTimeForPolicy b) loc < today"

definition day_of :: "location \<Rightarrow> backup \<Rightarrow> int" where
  "day_of loc b = civil_day loc (localMidnight (backupTimeForPolicy b) loc)"

definition day_items :: "location \<Rightarrow> selection_input \<Rightarrow> time \<Rightarrow> backup list \<Rightarrow> int \<Rightarrow> backup list" where
  "day_items loc inp today bs d = filter (\<lambda>b. eligible loc inp today b \<and> day_of loc b = d) bs"

lemma of_key_simps [simp]:
  "of_key k [] = 0" "of_key k (b # bs) = (if b_key_id b = k then Suc (of_key k bs) else of_key k bs)"
  "of_key k (xs @ ys) = of_key k xs + of_key k ys"
  by (simp_all add: of_key_def)

lemma of_key_pos: "0 < of_key k bs \<longleftrightarrow> (\<exists>b \<in> set bs. b_key_id b = k)"
  by (simp add: of_key_def count_where_pos)

lemma sum_sizes_simps [simp]:
  "sum_sizes [] = 0" "sum_sizes (b # bs) = b_size b + sum_sizes bs"
  "sum_sizes (xs @ ys) = sum_sizes xs + sum_sizes ys"
  by (simp_all add: sum_sizes_def)

lemma bump_all_eq: "bump_all P m bs k = m k + int (count_where (\<lambda>b. P b \<and> b_key_id b = k) bs)"
  by (induction bs arbitrary: m) auto

lemma bump_all_True: "bump_all (\<lambda>_. True) (\<lambda>_. 0) bs k = int (of_key k bs)"
  by (simp add: bump_all_eq of_key_def)

lemma take_items_eq:
  "take_items bs counts selected =
     (\<lambda>k. counts k - int (of_key k bs), selected + word_of_int (sum_sizes bs))"
  by (induction bs arbitrary: counts selected) (auto simp: fun_eq_iff algebra_simps)

definition minima_valid :: "selection_input \<Rightarrow> backup list \<Rightarrow> bool" where
  "minima_valid inp bs \<longleftrightarrow> (\<forall>b \<in> set bs. present_status (b_status b) \<longrightarrow>
     7 \<le> key_minimum inp (b_key_id b) \<and> key_minimum inp (b_key_id b) \<le> 365000)"

lemma group_days_spec:
  assumes "group_days loc inp today bs byDay days = Inr (byDay', days')"
    and "\<forall>d. byDay d \<noteq> [] \<longleftrightarrow> d \<in> set days" "distinct days"
  shows "byDay' = (\<lambda>d. byDay d @ day_items loc inp today bs d)
    \<and> (\<forall>d. byDay' d \<noteq> [] \<longleftrightarrow> d \<in> set days') \<and> distinct days' \<and> minima_valid inp bs"
  using assms
proof (induction bs arbitrary: byDay days)
  case Nil
  then show ?case by (auto simp: day_items_def minima_valid_def)
next
  case (Cons b bs)
  let ?day = "localMidnight (backupTimeForPolicy b) loc"
  let ?key = "civil_day loc ?day"
  let ?upd = "byDay(?key := byDay ?key @ [b])" and ?days = "if byDay ?key = [] then days @ [?key] else days"
  note r = Cons.prems(1) and inv = Cons.prems(2) and dist = Cons.prems(3)
  have minok: "present_status (b_status b) \<longrightarrow>
      7 \<le> key_minimum inp (b_key_id b) \<and> key_minimum inp (b_key_id b) \<le> 365000"
    using r by (auto simp: Let_def MinimumDays_def split: if_splits)
  show ?case
  proof (cases "eligible loc inp today b")
    case False
    then have "group_days loc inp today bs byDay days = Inr (byDay', days')"
      using r by (auto simp: eligible_def Let_def split: if_splits)
    from Cons.IH [OF this inv dist] False minok show ?thesis
      by (auto simp: day_items_def minima_valid_def)
  next
    case True
    then have rec: "group_days loc inp today bs ?upd ?days = Inr (byDay', days')"
      using r by (auto simp: eligible_def Let_def split: if_splits)
    have inv': "\<forall>d. ?upd d \<noteq> [] \<longleftrightarrow> d \<in> set ?days" using inv by auto
    have dist': "distinct ?days" using inv dist by auto
    from Cons.IH [OF rec inv' dist'] True minok show ?thesis
      by (auto simp: day_items_def day_of_def minima_valid_def)
  qed
qed

subsection \<open>The days a selection takes\<close>

fun chosen :: "(string \<Rightarrow> bool) \<Rightarrow> u64 \<Rightarrow> (int \<Rightarrow> backup list) \<Rightarrow> int list \<Rightarrow> (string \<Rightarrow> int) \<Rightarrow> u64 \<Rightarrow> int list" where
  "chosen revoked needed byDay [] counts selected = []"
| "chosen revoked needed byDay (day # days) counts selected =
     (let (counts', selected') = take_items (byDay day) counts selected in
      if \<not> day_valid revoked counts (byDay day) then chosen revoked needed byDay days counts selected
      else if selected' \<ge> needed then [day]
      else day # chosen revoked needed byDay days counts' selected')"

abbreviation taken :: "(int \<Rightarrow> backup list) \<Rightarrow> int list \<Rightarrow> backup list" where
  "taken byDay ds \<equiv> concat (map byDay ds)"

lemma select_days_chosen:
  "select_days revoked needed byDay days counts selected cands =
     (selected + word_of_int (sum_sizes (taken byDay (chosen revoked needed byDay days counts selected))),
      cands @ taken byDay (chosen revoked needed byDay days counts selected))"
  by (induction days arbitrary: counts selected cands) (auto simp: Let_def take_items_eq algebra_simps)

lemma chosen_subset: "set (chosen revoked needed byDay days counts selected) \<subseteq> set days"
  by (induction days arbitrary: counts selected) (auto simp: Let_def take_items_eq)

lemma distinct_chosen: "distinct days \<Longrightarrow> distinct (chosen revoked needed byDay days counts selected)"
  using chosen_subset by (induction days arbitrary: counts selected) (fastforce simp: Let_def take_items_eq)+

lemma day_valid_iff:
  "day_valid revoked counts items \<longleftrightarrow>
     (\<forall>b \<in> set items. b_status b = BackupComplete \<and> \<not> revoked (b_key_id b)
        \<and> 1 \<le> counts (b_key_id b) - int (of_key (b_key_id b) items))"
  by (auto simp: day_valid_def Let_def list_all_iff bump_all_True)

lemma chosen_lawful:
  "b \<in> set (taken byDay (chosen revoked needed byDay days counts selected)) \<Longrightarrow>
     b_status b = BackupComplete \<and> \<not> revoked (b_key_id b)"
  by (induction days arbitrary: counts selected)
     (auto simp: Let_def take_items_eq day_valid_iff split: if_splits)

lemma chosen_keeps_copy:
  "0 < of_key k (taken byDay (chosen revoked needed byDay days counts selected)) \<Longrightarrow>
     int (of_key k (taken byDay (chosen revoked needed byDay days counts selected))) < counts k"
proof (induction days arbitrary: counts selected)
  case (Cons day days)
  let ?counts = "\<lambda>k. counts k - int (of_key k (byDay day))"
  let ?sel = "selected + word_of_int (sum_sizes (byDay day))"
  let ?rest = "taken byDay (chosen revoked needed byDay days ?counts ?sel)"
  show ?case
  proof (cases "day_valid revoked counts (byDay day)")
    case False
    then show ?thesis using Cons by (simp add: take_items_eq)
  next
    case True
    have here: "0 < of_key k (byDay day) \<Longrightarrow> int (of_key k (byDay day)) < counts k"
      using True by (force simp: day_valid_iff of_key_pos)
    have later: "0 < of_key k ?rest \<Longrightarrow> int (of_key k ?rest) < ?counts k"
      by (rule Cons.IH)
    show ?thesis
    proof (cases "?sel \<ge> needed")
      case True
      with \<open>day_valid _ _ _\<close> here Cons.prems show ?thesis by (simp add: take_items_eq)
    next
      case False
      with \<open>day_valid _ _ _\<close> here later Cons.prems show ?thesis
        by (cases "0 < of_key k ?rest") (simp_all add: take_items_eq)
    qed
  qed
qed simp

text \<open>A day that was passed over while younger ones were taken is one the rules refuse.\<close>

lemma chosen_oldest_first:
  assumes "sorted days" "distinct days" "d \<in> set days" "d' \<in> set (chosen revoked needed byDay days counts selected)"
    "d < d'" "d \<notin> set (chosen revoked needed byDay days counts selected)"
  shows "\<exists>older. (\<forall>x \<in> set older. x < d) \<and> set older \<subseteq> set (chosen revoked needed byDay days counts selected)
      \<and> distinct older
      \<and> \<not> day_valid revoked (\<lambda>k. counts k - int (of_key k (taken byDay older))) (byDay d)"
  using assms
proof (induction days arbitrary: counts selected)
  case (Cons day days)
  let ?counts = "\<lambda>k. counts k - int (of_key k (byDay day))"
  let ?sel = "selected + word_of_int (sum_sizes (byDay day))"
  have le: "\<forall>x \<in> set days. day < x" using Cons.prems by (auto simp: order.strict_iff_order)
  show ?case
  proof (cases "day_valid revoked counts (byDay day)")
    case False
    show ?thesis
    proof (cases "d = day")
      case True
      with False show ?thesis by (intro exI [of _ "[]"]) simp
    next
      case neq: False
      have "\<exists>older. (\<forall>x \<in> set older. x < d) \<and> set older \<subseteq> set (chosen revoked needed byDay days counts selected)
          \<and> distinct older
          \<and> \<not> day_valid revoked (\<lambda>k. counts k - int (of_key k (taken byDay older))) (byDay d)"
        by (rule Cons.IH) (use Cons.prems False neq in \<open>auto simp: Let_def take_items_eq\<close>)
      with False show ?thesis by (simp add: take_items_eq)
    qed
  next
    case True
    with Cons.prems have neq: "d \<noteq> day" by (auto simp: Let_def take_items_eq split: if_splits)
    then have d: "d \<in> set days" "day < d" using Cons.prems le by auto
    have big: "\<not> ?sel \<ge> needed"
      using True Cons.prems d by (auto simp: Let_def take_items_eq split: if_splits)
    have "\<exists>older. (\<forall>x \<in> set older. x < d) \<and> set older \<subseteq> set (chosen revoked needed byDay days ?counts ?sel)
        \<and> distinct older
        \<and> \<not> day_valid revoked (\<lambda>k. ?counts k - int (of_key k (taken byDay older))) (byDay d)"
      by (rule Cons.IH) (use Cons.prems True big d in \<open>auto simp: Let_def take_items_eq\<close>)
    then obtain older where o: "\<forall>x \<in> set older. x < d" "distinct older"
      "set older \<subseteq> set (chosen revoked needed byDay days ?counts ?sel)"
      "\<not> day_valid revoked (\<lambda>k. ?counts k - int (of_key k (taken byDay older))) (byDay d)" by blast
    have "day \<notin> set older" using o(3) chosen_subset le by (metis in_mono order.irrefl)
    with o d True big show ?thesis
      by (intro exI [of _ "day # older"]) (auto simp: take_items_eq algebra_simps)
  qed
qed simp

subsection \<open>The outcomes of Select\<close>

abbreviation complete_counts :: "selection_input \<Rightarrow> string \<Rightarrow> int" where
  "complete_counts inp \<equiv> bump_all (\<lambda>b. b_status b = BackupComplete) (\<lambda>_. 0) (si_backups inp)"

definition needed_before_pending :: "selection_input \<Rightarrow> u64 \<Rightarrow> u64 \<Rightarrow> u64" where
  "needed_before_pending inp tot used =
     bytes_to_release tot (word_of_int (si_threshold inp)) (used + si_expected48h inp)"

text \<open>What Select knows once it has measured the disk and found it at the threshold.\<close>

definition measured :: "tzdb \<Rightarrow> selection_input \<Rightarrow> int \<Rightarrow> location \<Rightarrow> u64 \<Rightarrow> u64 \<Rightarrow> u64 \<Rightarrow> bool" where
  "measured LoadLocation inp u loc tot used av \<longleftrightarrow>
     1 \<le> si_threshold inp \<and> si_threshold inp \<le> 10000
     \<and> UsedBasisPoints (si_filesystem inp) = Inr u \<and> si_threshold inp \<le> u
     \<and> LoadLocation (si_timezone inp) = Some loc \<and> 7 \<le> si_retention_days inp
     \<and> fs_Bytes (si_filesystem inp) = Inr (tot, used, av) \<and> \<not> MaxUint64 - used < si_expected48h inp"

lemma SelectE:
  assumes "Select LoadLocation inp = Inr r"
  obtains
    (below) u where "UsedBasisPoints (si_filesystem inp) = Inr u" "u < si_threshold inp"
      "r = selection0\<lparr>sel_used_basis := u, Reason := ''occupazione inferiore alla soglia''\<rparr>"
  | (pending) u loc tot used av where "measured LoadLocation inp u loc tot used av"
      "needed_before_pending inp tot used \<le> si_pending_purge inp"
      "r = selection0\<lparr>sel_used_basis := u, Eligible := True, Reason := ''richieste pendenti gia sufficienti''\<rparr>"
  | (selected) u loc tot used av days sel cands where "measured LoadLocation inp u loc tot used av"
      "\<not> needed_before_pending inp tot used \<le> si_pending_purge inp"
      "group_days loc inp (localMidnight (si_now inp) loc) (si_backups inp) (\<lambda>_. []) [] =
         Inr (day_items loc inp (localMidnight (si_now inp) loc) (si_backups inp), days)"
      "BytesNeeded r = needed_before_pending inp tot used - si_pending_purge inp"
      "select_days (si_revoked inp) (BytesNeeded r)
         (day_items loc inp (localMidnight (si_now inp) loc) (si_backups inp)) (sort days)
         (complete_counts inp) 0 [] = (sel, cands)"
      "SelectedBytes r = sel" "Candidates r = cands" "sel_used_basis r = u"
      "ShortfallBytes r = (if sel < BytesNeeded r then BytesNeeded r - sel else 0)"
proof -
  obtain u where thr: "1 \<le> si_threshold inp" "si_threshold inp \<le> 10000"
    and u: "UsedBasisPoints (si_filesystem inp) = Inr u"
    using assms by (auto simp: Select_def Let_def split: if_splits sum.splits)
  show thesis
  proof (cases "u < si_threshold inp")
    case True
    then show ?thesis using assms u thr by (intro below) (auto simp: Select_def)
  next
    case False
    with assms u thr obtain loc tot used av where m: "measured LoadLocation inp u loc tot used av"
      by (auto simp: Select_def Let_def measured_def MinimumDays_def
          split: if_splits sum.splits option.splits)
    note M = m [unfolded measured_def]
    show ?thesis
    proof (cases "needed_before_pending inp tot used \<le> si_pending_purge inp")
      case True
      with assms M show ?thesis
        by (intro pending [OF m]) (auto simp: Select_def Let_def MinimumDays_def needed_before_pending_def)
    next
      case nb: False
      let ?today = "localMidnight (si_now inp) loc"
      obtain byDay days where g: "group_days loc inp ?today (si_backups inp) (\<lambda>_. []) [] = Inr (byDay, days)"
        using assms M nb by (auto simp: Select_def Let_def MinimumDays_def needed_before_pending_def
            split: sum.splits)
      have byDay: "byDay = day_items loc inp ?today (si_backups inp)"
        using group_days_spec [OF g] by simp
      show ?thesis
        by (rule selected [OF m, of days "SelectedBytes r" "Candidates r"])
           (use assms M nb g in \<open>auto simp: Select_def Let_def MinimumDays_def needed_before_pending_def
              byDay selection0_def split: prod.splits\<close>)
    qed
  qed
qed

lemma candidates_chosen:
  assumes "Select LoadLocation inp = Inr r" "Candidates r \<noteq> []"
  obtains loc u tot used av days where "measured LoadLocation inp u loc tot used av"
    "distinct days" "\<forall>d. d \<in> set days \<longleftrightarrow> day_items loc inp (localMidnight (si_now inp) loc) (si_backups inp) d \<noteq> []"
    "minima_valid inp (si_backups inp)" "0 < BytesNeeded r"
    "Candidates r = taken (day_items loc inp (localMidnight (si_now inp) loc) (si_backups inp))
       (chosen (si_revoked inp) (BytesNeeded r) (day_items loc inp (localMidnight (si_now inp) loc) (si_backups inp))
          (sort days) (complete_counts inp) 0)"
  using assms(1)
proof (cases rule: SelectE)
  case (selected u loc tot used av days sel cands)
  from group_days_spec [OF selected(3)]
  have g: "distinct days" "minima_valid inp (si_backups inp)"
    "\<forall>d. d \<in> set days \<longleftrightarrow> day_items loc inp (localMidnight (si_now inp) loc) (si_backups inp) d \<noteq> []"
    by simp_all
  have "0 < BytesNeeded r" using selected(2,4) by (auto simp: word_gt_0)
  with selected g show ?thesis
    by (intro that [OF selected(1) g(1) g(3) g(2)]) (auto simp: select_days_chosen)
qed (use assms(2) in \<open>simp_all add: selection0_def\<close>)

text \<open>Every backup Select proposes for quarantine comes from the catalogue, is complete, belongs to
  a key that is not revoked, lies before the current local day, and is older than the minimum of its
  own key, which is between 7 and 365000 days.\<close>

theorem Select_candidates_lawful:
  assumes "Select LoadLocation inp = Inr r" "b \<in> set (Candidates r)"
  shows "\<exists>loc. LoadLocation (si_timezone inp) = Some loc
    \<and> b \<in> set (si_backups inp) \<and> b_status b = BackupComplete \<and> \<not> si_revoked inp (b_key_id b)
    \<and> 7 \<le> key_minimum inp (b_key_id b) \<and> key_minimum inp (b_key_id b) \<le> 365000
    \<and> localMidnight (backupTimeForPolicy b) loc < localMidnight (si_now inp) loc
    \<and> localMidnight (backupTimeForPolicy b) loc
        < AddDate loc (localMidnight (si_now inp) loc) (- key_minimum inp (b_key_id b))"
proof -
  from assms(2) have "Candidates r \<noteq> []" by auto
  with assms(1) obtain loc u tot used av days where *:
    "measured LoadLocation inp u loc tot used av" "minima_valid inp (si_backups inp)"
    "Candidates r = taken (day_items loc inp (localMidnight (si_now inp) loc) (si_backups inp))
       (chosen (si_revoked inp) (BytesNeeded r) (day_items loc inp (localMidnight (si_now inp) loc) (si_backups inp))
          (sort days) (complete_counts inp) 0)"
    by (rule candidates_chosen)
  from assms(2) have "b_status b = BackupComplete \<and> \<not> si_revoked inp (b_key_id b)"
    unfolding *(3) by (rule chosen_lawful)
  moreover from assms(2) have "b \<in> set (si_backups inp)" "eligible loc inp (localMidnight (si_now inp) loc) b"
    unfolding *(3) by (auto simp: day_items_def)
  ultimately show ?thesis
    using *(1,2) by (auto simp: measured_def eligible_def minima_valid_def)
qed

text \<open>C19. A selection never takes the last complete copy of a key: for every key it touches, the
  catalogue holds strictly more complete backups than the selection takes.\<close>

theorem Select_keeps_a_copy:
  assumes "Select LoadLocation inp = Inr r" "b \<in> set (Candidates r)"
  shows "count_where (\<lambda>c. b_key_id c = b_key_id b) (Candidates r)
    < count_where (\<lambda>c. b_status c = BackupComplete \<and> b_key_id c = b_key_id b) (si_backups inp)"
proof -
  from assms(2) have "Candidates r \<noteq> []" by auto
  with assms(1) obtain loc u tot used av days where
    c: "Candidates r = taken (day_items loc inp (localMidnight (si_now inp) loc) (si_backups inp))
       (chosen (si_revoked inp) (BytesNeeded r) (day_items loc inp (localMidnight (si_now inp) loc) (si_backups inp))
          (sort days) (complete_counts inp) 0)"
    by (rule candidates_chosen)
  from assms(2) have "0 < of_key (b_key_id b) (Candidates r)" by (auto simp: of_key_pos)
  then have "int (of_key (b_key_id b) (Candidates r)) < complete_counts inp (b_key_id b)"
    unfolding c by (rule chosen_keeps_copy)
  then show ?thesis by (simp add: bump_all_eq of_key_def)
qed

subsection \<open>Freeing enough, in 64-bit arithmetic\<close>

lemma MaxUint64_uint [simp]: "uint MaxUint64 = 2 ^ 64 - 1"
  by (simp add: MaxUint64_def unsigned_minus_1_eq_mask mask_eq_exp_minus_1)

lemma uint_le_max: "uint (w :: u64) \<le> 2 ^ 64 - 1"
  using uint_bounded [of w] by simp

text \<open>The split product of the source is the exact floor of \<open>tot * s / 10000\<close>.\<close>

lemma scaled_uint:
  fixes tot s :: u64
  assumes "uint s \<le> 10000"
  shows "uint (tot div 10000 * s + (tot mod 10000) * s div 10000) = uint tot * uint s div 10000"
proof -
  let ?T = "uint tot" and ?s = "uint s"
  let ?q = "?T div 10000" and ?r = "?T mod 10000"
  have T: "?T = 10000 * ?q + ?r" by simp
  have s0: "0 \<le> ?s" by simp
  have T64: "0 \<le> ?T" "?T < 2 ^ 64" using uint_bounded [of tot] by simp_all
  have q0: "0 \<le> ?q" "0 \<le> ?r" "?r < 10000" by (simp_all add: pos_imp_zdiv_nonneg_iff)
  have qs: "?q * ?s \<le> ?q * 10000" using q0 assms by (intro mult_left_mono)
  have rs: "?r * ?s \<le> ?r * 10000" using q0 assms by (intro mult_left_mono)
  have a: "uint (tot div 10000 * s) = ?q * ?s"
    using qs T64 T q0 s0 by (subst uint_mult_lem [THEN iffD1]) (simp_all add: uint_div)
  have b: "uint (tot mod 10000 * s) = ?r * ?s"
    using rs q0 s0 by (subst uint_mult_lem [THEN iffD1]) (simp_all add: uint_mod)
  have c: "uint (tot mod 10000 * s div 10000) = ?r * ?s div 10000" by (simp add: uint_div b)
  have sum: "?T * ?s div 10000 = ?q * ?s + ?r * ?s div 10000"
  proof -
    have "?T * ?s = (?r + ?q * 10000) * ?s" by (simp only: mod_div_mult_eq)
    also have "\<dots> = ?r * ?s + (?q * ?s) * 10000" by (simp only: algebra_simps)
    finally show ?thesis by simp
  qed
  have "?r * ?s div 10000 \<le> ?r" using rs by linarith
  then have "?q * ?s + ?r * ?s div 10000 < 2 ^ 64" using qs T T64 by linarith
  then have "uint (tot div 10000 * s + tot mod 10000 * s div 10000) = ?q * ?s + ?r * ?s div 10000"
    using a c by (subst uint_add_lem [THEN iffD1]) simp_all
  with sum show ?thesis by simp
qed

lemma release_target_uint:
  assumes "1 \<le> thr" "thr \<le> 10000"
  shows "uint (release_target tot (word_of_int thr)) = max 0 (uint tot * thr div 10000 - 1)"
proof -
  have s: "uint (word_of_int thr :: u64) = thr" using assms by (simp add: uint_word_of_int)
  let ?w = "tot div 10000 * word_of_int thr + (tot mod 10000) * word_of_int thr div 10000 :: u64"
  have w: "uint ?w = uint tot * thr div 10000" using scaled_uint [of "word_of_int thr" tot] s assms by simp
  show ?thesis
  proof (cases "?w > 0")
    case True
    then have pos: "1 \<le> uint ?w" by (simp add: word_less_def)
    then have "uint (?w - 1) = uint ?w - 1" by (subst uint_sub_lem [THEN iffD1]) simp_all
    then have "uint (release_target tot (word_of_int thr)) = uint ?w - 1"
      using True by (simp add: release_target_def Let_def)
    with w pos show ?thesis by simp
  next
    case False
    then have z: "?w = 0" by (simp add: word_gt_0)
    then have "uint tot * thr div 10000 = 0" using w by simp
    with False z show ?thesis by (simp add: release_target_def Let_def)
  qed
qed

lemma minimum_release_uint: "uint (minimum_release tot) * 10 \<ge> uint tot"
proof -
  let ?T = "uint tot" and ?r = "uint tot mod 10000"
  let ?w = "tot div 10000 * MinimumReleaseBasisPoints
    + (tot mod 10000) * MinimumReleaseBasisPoints div 10000 :: u64"
  have w: "uint ?w = ?T * 1000 div 10000"
    using scaled_uint [of MinimumReleaseBasisPoints tot] by (simp add: MinimumReleaseBasisPoints_def)
  have "uint (tot mod 10000 * MinimumReleaseBasisPoints) = ?r * 1000"
    by (subst uint_mult_lem [THEN iffD1]) (simp_all add: uint_mod MinimumReleaseBasisPoints_def)
  then have m: "uint (tot mod 10000 * MinimumReleaseBasisPoints mod 10000) = ?r * 1000 mod 10000"
    by (simp add: uint_mod)
  have up: "uint (?w + 1) = uint ?w + 1"
    using w uint_bounded [of tot] by (subst uint_add_lem [THEN iffD1]) simp_all
  show ?thesis
  proof (cases "tot mod 10000 * MinimumReleaseBasisPoints mod 10000 = 0")
    case True
    then have "?r * 1000 mod 10000 = 0" using m by simp
    then have "?T * 1000 mod 10000 = 0" by (metis mod_mult_left_eq)
    then have "?T * 1000 = ?T * 1000 div 10000 * 10000"
      using div_mult_mod_eq [of "?T * 1000" 10000] by linarith
    then have "uint ?w * 10 = ?T" using w by linarith
    then show ?thesis using True by (simp add: minimum_release_def Let_def)
  next
    case False
    then have "uint (minimum_release tot) = uint ?w + 1"
      using up by (simp add: minimum_release_def Let_def)
    then show ?thesis using w by simp
  qed
qed

lemma bytes_to_release_enough:
  assumes "1 \<le> thr" "thr \<le> 10000" "0 < uint tot" "uint (bytes_to_release tot (word_of_int thr) projected) \<le> freed"
  shows "(uint projected - freed) * 10000 < thr * uint tot" and "uint tot \<le> 10 * freed"
proof -
  let ?t = "release_target tot (word_of_int thr)"
  let ?n = "if projected > ?t then projected - ?t else 0"
  let ?m = "minimum_release tot"
  have b: "uint ?n \<le> uint (bytes_to_release tot (word_of_int thr) projected)"
    "uint ?m \<le> uint (bytes_to_release tot (word_of_int thr) projected)"
    by (auto simp: bytes_to_release_def Let_def word_less_def not_less word_le_def)
  have n: "uint projected - uint ?t \<le> uint ?n"
  proof (cases "projected > ?t")
    case True
    then have "uint (projected - ?t) = uint projected - uint ?t"
      by (subst uint_sub_lem [THEN iffD1]) (simp_all add: word_less_def)
    with True show ?thesis by simp
  qed (auto simp: word_less_def)
  have t: "uint ?t = max 0 (uint tot * thr div 10000 - 1)" using assms(1,2) by (rule release_target_uint)
  have "uint projected - freed \<le> uint ?t" using n b assms(4) by linarith
  then have "(uint projected - freed) * 10000 \<le> uint ?t * 10000" by simp
  moreover have "uint ?t * 10000 < thr * uint tot"
  proof (cases "1 \<le> uint tot * thr div 10000")
    case True
    then have "uint ?t = uint tot * thr div 10000 - 1" using t by simp
    moreover have "uint tot * thr div 10000 * 10000 \<le> uint tot * thr" by simp
    ultimately have "uint ?t * 10000 < uint tot * thr" by simp
    then show ?thesis by (simp add: mult.commute)
  next
    case False
    then have "uint ?t = 0" using t by simp
    moreover have "0 < thr * uint tot" using assms(1,3) by simp
    ultimately show ?thesis by simp
  qed
  ultimately show "(uint projected - freed) * 10000 < thr * uint tot" by linarith
  show "uint tot \<le> 10 * freed" using minimum_release_uint [of tot] b assms(4) by linarith
qed

lemma fs_Bytes_uint:
  assumes "fs_Bytes f = Inr (tot, used, av)"
  shows "uint tot = uint (Blocks f) * uint (BlockSize f)"
    and "uint used = (uint (Blocks f) - uint (Bfree f)) * uint (BlockSize f)"
    and "uint av = uint (Bavail f) * uint (BlockSize f)" and "0 < uint tot"
proof -
  have nz: "Blocks f \<noteq> 0" "BlockSize f \<noteq> 0" "Bfree f \<le> Blocks f"
    using assms by (auto simp: fs_Bytes_def UsedBasisPoints_def Let_def split: if_splits)
  have fit: "x \<le> MaxUint64 div BlockSize f \<Longrightarrow> uint (x * BlockSize f) = uint x * uint (BlockSize f)" for x
  proof -
    assume "x \<le> MaxUint64 div BlockSize f"
    then have "uint x \<le> (2 ^ 64 - 1) div uint (BlockSize f)" by (simp add: word_le_def uint_div)
    moreover have "0 < uint (BlockSize f)" using nz(2) word_gt_0 [of "BlockSize f"] by (simp add: word_less_def)
    ultimately have "uint x * uint (BlockSize f) \<le> 2 ^ 64 - 1" using le_div_iff_mult_le by blast
    then show ?thesis by (subst uint_mult_lem [THEN iffD1]) simp_all
  qed
  have g: "Blocks f \<le> MaxUint64 div BlockSize f" "Bavail f \<le> MaxUint64 div BlockSize f"
    and eq: "tot = Blocks f * BlockSize f" "used = (Blocks f - Bfree f) * BlockSize f" "av = Bavail f * BlockSize f"
    using assms by (auto simp: fs_Bytes_def split: if_splits sum.splits)
  have d: "uint (Blocks f - Bfree f) = uint (Blocks f) - uint (Bfree f)"
    using nz by (subst uint_sub_lem [THEN iffD1]) (simp_all add: word_le_def)
  have dle: "Blocks f - Bfree f \<le> MaxUint64 div BlockSize f"
    using g(1) d by (simp add: word_le_def) (smt (verit) uint_ge_0)
  show "uint tot = uint (Blocks f) * uint (BlockSize f)" using fit [OF g(1)] eq by simp
  then show "0 < uint tot" using nz by (simp add: word_neq_0_conv word_less_def)
  show "uint used = (uint (Blocks f) - uint (Bfree f)) * uint (BlockSize f)"
    using fit [OF dle] eq d by simp
  show "uint av = uint (Bavail f) * uint (BlockSize f)" using fit [OF g(2)] eq by simp
qed


subsection \<open>A concrete selection\<close>

text \<open>A disk of a thousand one-byte blocks, nine tenths full, with three backups of one key.\<close>

definition example_backup :: "string \<Rightarrow> int \<Rightarrow> int \<Rightarrow> backup" where
  "example_backup i day sz = \<lparr>b_id = i, b_status = BackupComplete, b_size = sz, b_sha256 = [],
     b_received_at = Stamp (of_unix (day * 86400)), b_key_id = ''k'', b_idempotency_key = [],
     b_metadata = \<lparr>Description = ''d'', OriginalName = ''f'', ContentFormat = []\<rparr>,
     b_started_at = day * 86400, b_failure = [], b_quarantined_at = 0, b_purge_not_before = 0, b_purged_at = 0\<rparr>"

definition example_input :: selection_input where
  "example_input = \<lparr>si_now = of_unix (100 * 86400), si_timezone = ''UTC'',
     si_filesystem = \<lparr>Blocks = 1000, Bfree = 100, Bavail = 100, BlockSize = 1\<rparr>, si_threshold = 9000,
     si_retention_days = 30, si_key_retention_days = (\<lambda>_. None), si_expected48h = 20, si_pending_purge = 0,
     si_backups = [example_backup ''b'' 20 80, example_backup ''a'' 10 70, example_backup ''c'' 99 90],
     si_revoked = (\<lambda>_. False)\<rparr>"

definition example_result :: selection where
  "example_result = \<lparr>Eligible = True, Reason = ''candidati limitati alla quantita necessaria'',
     sel_used_basis = 9000, BytesNeeded = 100, SelectedBytes = 150, ShortfallBytes = 0,
     Candidates = [example_backup ''a'' 10 70, example_backup ''b'' 20 80]\<rparr>"

lemma example_Select: "Select (\<lambda>_. Some UTC) example_input = Inr example_result"
  by code_simp

lemma example_lawful_inputs:
  "example_backup ''a'' 10 70 \<in> set (Candidates example_result)" "ShortfallBytes example_result = 0"
  "si_threshold example_input \<le> sel_used_basis example_result"
  "fs_Bytes (si_filesystem example_input) = Inr (1000, 900, 100)"
  by (simp add: example_result_def, simp add: example_result_def,
      simp add: example_result_def example_input_def, code_simp)

theorem Select_candidates_lawful_witness:
  "key_minimum example_input ''k'' = 30
   \<and> localMidnight (backupTimeForPolicy (example_backup ''a'' 10 70)) UTC
        < AddDate UTC (localMidnight (si_now example_input) UTC) (- 30)"
proof -
  have m: "key_minimum example_input ''k'' = 30" by (simp add: key_minimum_def example_input_def)
  have "\<exists>loc. (\<lambda>_. Some UTC) (si_timezone example_input) = Some loc
      \<and> localMidnight (backupTimeForPolicy (example_backup ''a'' 10 70)) loc
        < AddDate loc (localMidnight (si_now example_input) loc)
            (- key_minimum example_input (b_key_id (example_backup ''a'' 10 70)))"
    using Select_candidates_lawful [OF example_Select example_lawful_inputs(1)] by fast
  then show ?thesis using m by (simp add: example_backup_def)
qed

theorem Select_keeps_a_copy_witness:
  "count_where (\<lambda>c. b_key_id c = b_key_id (example_backup ''a'' 10 70)) (Candidates example_result)
    < count_where (\<lambda>c. b_status c = BackupComplete \<and> b_key_id c = b_key_id (example_backup ''a'' 10 70))
        (si_backups example_input)"
  by (rule Select_keeps_a_copy [OF example_Select example_lawful_inputs(1)])


subsection \<open>Whole days, oldest first\<close>

lemma of_key_taken: "of_key k (taken byDay ds) = sum_list (map (\<lambda>d. of_key k (byDay d)) ds)"
  by (induction ds) auto

lemma of_key_taken_mono:
  assumes "distinct xs" "distinct ys" "set xs \<subseteq> set ys"
  shows "of_key k (taken byDay xs) \<le> of_key k (taken byDay ys)"
  using assms by (auto simp: of_key_taken sum_list_distinct_conv_sum_set intro: sum_mono2)

lemma filter_taken:
  assumes "\<And>d. \<forall>b \<in> set (byDay d). day b = d"
  shows "filter (\<lambda>b. day b < x) (taken byDay ds) = taken byDay (filter (\<lambda>d. d < x) ds)"
proof (induction ds)
  case (Cons d ds)
  have "filter (\<lambda>b. day b < x) (byDay d) = (if d < x then byDay d else [])"
    using assms [of d] by (auto simp: filter_empty_conv intro: filter_True)
  with Cons show ?case by simp
qed simp

text \<open>Select takes whole local days and takes them oldest first. If it takes a backup, it takes
  every eligible backup of the same local day; and an older day with an eligible backup is passed
  over only because one of that day's backups is not complete, belongs to a revoked key, or
  would, with the days already taken, be the last complete copy of its key.\<close>

theorem Select_whole_days_oldest_first:
  assumes "Select LoadLocation inp = Inr r" "b \<in> set (Candidates r)" "LoadLocation (si_timezone inp) = Some loc"
    and "c \<in> set (si_backups inp)" "eligible loc inp (localMidnight (si_now inp) loc) c" "day_of loc c \<le> day_of loc b"
  shows "c \<in> set (Candidates r)
    \<or> (day_of loc c < day_of loc b
       \<and> (\<exists>d \<in> set (day_items loc inp (localMidnight (si_now inp) loc) (si_backups inp) (day_of loc c)).
            b_status d \<noteq> BackupComplete \<or> si_revoked inp (b_key_id d)
            \<or> count_where (\<lambda>x. b_status x = BackupComplete \<and> b_key_id x = b_key_id d) (si_backups inp)
                \<le> of_key (b_key_id d) (filter (\<lambda>x. day_of loc x < day_of loc c) (Candidates r))
                  + of_key (b_key_id d)
                      (day_items loc inp (localMidnight (si_now inp) loc) (si_backups inp) (day_of loc c))))"
proof -
  let ?items = "day_items loc inp (localMidnight (si_now inp) loc) (si_backups inp)" and ?dc = "day_of loc c"
  from assms(2) have "Candidates r \<noteq> []" by auto
  with assms(1) obtain u loc' tot used av days where *:
    "measured LoadLocation inp u loc' tot used av" "distinct days"
    "\<forall>d. d \<in> set days \<longleftrightarrow> day_items loc' inp (localMidnight (si_now inp) loc') (si_backups inp) d \<noteq> []"
    "minima_valid inp (si_backups inp)" "0 < BytesNeeded r"
    "Candidates r = taken (day_items loc' inp (localMidnight (si_now inp) loc') (si_backups inp))
       (chosen (si_revoked inp) (BytesNeeded r) (day_items loc' inp (localMidnight (si_now inp) loc') (si_backups inp))
          (sort days) (complete_counts inp) 0)"
    by (rule candidates_chosen)
  have [simp]: "loc' = loc" using *(1) assms(3) by (simp add: measured_def)
  define ch where "ch = chosen (si_revoked inp) (BytesNeeded r) ?items (sort days) (complete_counts inp) 0"
  have cands: "Candidates r = taken ?items ch" using *(6) by (simp add: ch_def)
  have dist: "distinct ch" unfolding ch_def using *(2) by (intro distinct_chosen) simp
  have day: "\<And>d. \<forall>x \<in> set (?items d). day_of loc x = d" by (simp add: day_items_def)
  have cmem: "c \<in> set (?items ?dc)" using assms(4,5) by (simp add: day_items_def)
  obtain d' where d': "d' \<in> set ch" "b \<in> set (?items d')" using assms(2) cands by auto
  then have db: "day_of loc b = d'" using day by blast
  show ?thesis
  proof (cases "?dc \<in> set ch")
    case True
    with cmem cands show ?thesis by auto
  next
    case False
    then have less: "?dc < d'" using assms(6) d'(1) db by (metis order.order_iff_strict)
    have "?items ?dc \<noteq> []" using cmem by (metis empty_iff empty_set)
    then have mem: "?dc \<in> set (sort days)" using *(3) by simp
    obtain older where o: "\<forall>x \<in> set older. x < ?dc" "set older \<subseteq> set ch" "distinct older"
      "\<not> day_valid (si_revoked inp) (\<lambda>k. complete_counts inp k - int (of_key k (taken ?items older))) (?items ?dc)"
      using chosen_oldest_first [OF _ _ mem d'(1) [unfolded ch_def] less False [unfolded ch_def]] *(2)
      unfolding ch_def by auto
    have le: "of_key k (taken ?items older) \<le> of_key k (filter (\<lambda>x. day_of loc x < ?dc) (Candidates r))" for k
      unfolding cands filter_taken [of ?items "day_of loc", OF day]
      using o dist by (intro of_key_taken_mono) auto
    from o(4) obtain d where d: "d \<in> set (?items ?dc)"
      "b_status d \<noteq> BackupComplete \<or> si_revoked inp (b_key_id d)
       \<or> complete_counts inp (b_key_id d)
            < 1 + int (of_key (b_key_id d) (taken ?items older)) + int (of_key (b_key_id d) (?items ?dc))"
      by (force simp: day_valid_iff)
    have "b_status d \<noteq> BackupComplete \<or> si_revoked inp (b_key_id d)
        \<or> count_where (\<lambda>x. b_status x = BackupComplete \<and> b_key_id x = b_key_id d) (si_backups inp)
            \<le> of_key (b_key_id d) (filter (\<lambda>x. day_of loc x < ?dc) (Candidates r)) + of_key (b_key_id d) (?items ?dc)"
      using d(2) le [of "b_key_id d"] by (auto simp: bump_all_eq)
    with d(1) less db show ?thesis by blast
  qed
qed

theorem Select_whole_days_oldest_first_witness:
  "example_backup ''a'' 10 70 \<in> set (Candidates example_result)"
proof -
  have b: "example_backup ''b'' 20 80 \<in> set (Candidates example_result)" by (simp add: example_result_def)
  have c: "example_backup ''a'' 10 70 \<in> set (si_backups example_input)" by (simp add: example_input_def)
  have e: "eligible UTC example_input (localMidnight (si_now example_input) UTC) (example_backup ''a'' 10 70)"
    by code_simp
  have d: "day_of UTC (example_backup ''a'' 10 70) \<le> day_of UTC (example_backup ''b'' 20 80)" by code_simp
  have i: "day_items UTC example_input (localMidnight (si_now example_input) UTC) (si_backups example_input)
      (day_of UTC (example_backup ''a'' 10 70)) = [example_backup ''a'' 10 70]" by code_simp
  have n: "filter (\<lambda>x. day_of UTC x < day_of UTC (example_backup ''a'' 10 70)) (Candidates example_result) = []"
    by code_simp
  have k: "b_status (example_backup ''a'' 10 70) = BackupComplete" "\<not> si_revoked example_input k"
    "b_key_id (example_backup ''a'' 10 70) = ''k''" for k
    by (simp_all add: example_backup_def example_input_def)
  have cnt: "count_where (\<lambda>x. b_status x = BackupComplete \<and> b_key_id x = ''k'') (si_backups example_input) = 3"
    by code_simp
  show ?thesis
    using Select_whole_days_oldest_first [OF example_Select b refl c e d] by (simp add: i n k cnt)
qed

end
