(* ===== verification/Float64.thy ===== *)
theory Float64
  imports Complex_Main Prelude
begin

text \<open>
  Go's float64: IEEE 754 binary64 with round to nearest, ties to even. A finite value is the rational
  it denotes; every operation computes exactly and rounds once (\<open>rnd\<close>), with overflow to the
  infinities and gradual underflow at 2^-1074. The sign of a zero is not kept: the program divides
  only by constants and by values it has tested to be positive, so it never observes it.
\<close>

datatype f64 = Fin rat | PInf | NInf | NaN

definition pow2 :: "int \<Rightarrow> rat" where
  "pow2 k = (if 0 \<le> k then of_int (2 ^ nat k) else 1 / of_int (2 ^ nat (- k)))"

fun int_bits :: "int \<Rightarrow> int" where
  "int_bits n = (if n \<le> 0 then 0 else 1 + int_bits (n div 2))"

text \<open>\<open>\<lfloor>log2 q\<rfloor>\<close> of a positive rational, from the bit lengths of numerator and denominator.\<close>

definition ilog2 :: "rat \<Rightarrow> int" where
  "ilog2 q = (let (n, d) = quotient_of q; k = int_bits n - int_bits d in if pow2 k \<le> q then k else k - 1)"

definition round_even :: "rat \<Rightarrow> int" where
  "round_even q = (let f = \<lfloor>q\<rfloor>; r = q - of_int f in
     if r < 1 / 2 then f else if r > 1 / 2 then f + 1 else if even f then f else f + 1)"

definition rnd :: "rat \<Rightarrow> f64" where
  "rnd q = (if q = 0 then Fin 0 else
     (let a = \<bar>q\<bar>; e = max (ilog2 a - 52) (-1074); v = of_int (round_even (a / pow2 e)) * pow2 e in
      if ilog2 v \<ge> 1024 then (if q > 0 then PInf else NInf) else Fin (if q > 0 then v else - v)))"

definition f_of_int :: "int \<Rightarrow> f64" where
  "f_of_int i = rnd (of_int i)"

fun f_neg :: "f64 \<Rightarrow> f64" where
  "f_neg (Fin a) = Fin (- a)" | "f_neg PInf = NInf" | "f_neg NInf = PInf" | "f_neg NaN = NaN"

fun f_add :: "f64 \<Rightarrow> f64 \<Rightarrow> f64" where
  "f_add (Fin a) (Fin b) = rnd (a + b)"
| "f_add NaN _ = NaN" | "f_add _ NaN = NaN"
| "f_add PInf NInf = NaN" | "f_add NInf PInf = NaN"
| "f_add PInf _ = PInf" | "f_add _ PInf = PInf"
| "f_add NInf _ = NInf" | "f_add _ NInf = NInf"

definition f_sub :: "f64 \<Rightarrow> f64 \<Rightarrow> f64" where
  "f_sub a b = f_add a (f_neg b)"

text \<open>The sign of a non-NaN value: 1, 0 or -1.\<close>

fun f_sgn :: "f64 \<Rightarrow> int" where
  "f_sgn (Fin a) = (if a > 0 then 1 else if a < 0 then -1 else 0)"
| "f_sgn PInf = 1" | "f_sgn NInf = -1" | "f_sgn NaN = 0"

definition f_inf :: "int \<Rightarrow> f64" where
  "f_inf s = (if s > 0 then PInf else if s < 0 then NInf else NaN)"

fun f_mul :: "f64 \<Rightarrow> f64 \<Rightarrow> f64" where
  "f_mul (Fin a) (Fin b) = rnd (a * b)"
| "f_mul NaN _ = NaN" | "f_mul _ NaN = NaN"
| "f_mul a b = f_inf (f_sgn a * f_sgn b)"

fun f_div :: "f64 \<Rightarrow> f64 \<Rightarrow> f64" where
  "f_div (Fin a) (Fin b) = (if b = 0 then f_inf (f_sgn (Fin a)) else rnd (a / b))"
| "f_div NaN _ = NaN" | "f_div _ NaN = NaN"
| "f_div (Fin a) _ = Fin 0"
| "f_div a (Fin b) = (if b < 0 then f_neg a else a)"
| "f_div _ _ = NaN"

fun f_lt :: "f64 \<Rightarrow> f64 \<Rightarrow> bool" where
  "f_lt (Fin a) (Fin b) \<longleftrightarrow> a < b"
| "f_lt NaN _ \<longleftrightarrow> False" | "f_lt _ NaN \<longleftrightarrow> False"
| "f_lt NInf b \<longleftrightarrow> b \<noteq> NInf" | "f_lt a NInf \<longleftrightarrow> False"
| "f_lt a PInf \<longleftrightarrow> a \<noteq> PInf" | "f_lt PInf b \<longleftrightarrow> False"

fun f_le :: "f64 \<Rightarrow> f64 \<Rightarrow> bool" where
  "f_le (Fin a) (Fin b) \<longleftrightarrow> a \<le> b"
| "f_le NaN _ \<longleftrightarrow> False" | "f_le _ NaN \<longleftrightarrow> False"
| "f_le NInf b \<longleftrightarrow> True" | "f_le a NInf \<longleftrightarrow> False"
| "f_le a PInf \<longleftrightarrow> True" | "f_le PInf b \<longleftrightarrow> False"

fun f_abs :: "f64 \<Rightarrow> f64" where
  "f_abs (Fin a) = Fin \<bar>a\<bar>" | "f_abs PInf = PInf" | "f_abs NInf = PInf" | "f_abs NaN = NaN"

fun f_ceil :: "f64 \<Rightarrow> f64" where
  "f_ceil (Fin a) = Fin (of_int \<lceil>a\<rceil>)" | "f_ceil a = a"

text \<open>Time.Sub saturates at the int64 range of Duration; Duration.Hours adds the whole hours and the
  rest as a fraction of 3.6e12.\<close>

definition time_Sub :: "time \<Rightarrow> time \<Rightarrow> int" where
  "time_Sub a b = max (- (2 ^ 63)) (min (2 ^ 63 - 1) (a - b))"

definition go_rem :: "int \<Rightarrow> int \<Rightarrow> int" where
  "go_rem a b = a - b * go_div a b"

definition Hours :: "int \<Rightarrow> f64" where
  "Hours d = f_add (f_of_int (go_div d hour_ns))
     (f_div (f_of_int (go_rem d hour_ns)) (Fin 3600000000000))"

definition days_since :: "time \<Rightarrow> time \<Rightarrow> f64" where
  "days_since a b = f_div (Hours (time_Sub a b)) (Fin 24)"

text \<open>The decimal constants of package policy as float64 values.\<close>

definition f_0_2 :: f64 where "f_0_2 = rnd (1 / 5)"
definition f_0_8 :: f64 where "f_0_8 = rnd (4 / 5)"
definition f_1_2 :: f64 where "f_1_2 = rnd (6 / 5)"

subsection \<open>Rounding\<close>

lemma pow2_pos [simp]: "0 < pow2 k" by (simp add: pow2_def)

lemma round_even_mono:
  assumes "p \<le> q"
  shows "round_even p \<le> round_even q"
proof -
  have fl: "\<lfloor>p\<rfloor> \<le> \<lfloor>q\<rfloor>" using assms by (rule floor_mono)
  have lo: "\<lfloor>q\<rfloor> \<le> round_even q" and hi: "round_even p \<le> \<lfloor>p\<rfloor> + 1"
    by (simp_all add: round_even_def Let_def)
  show ?thesis
  proof (cases "\<lfloor>p\<rfloor> = \<lfloor>q\<rfloor>")
    case False
    with fl lo hi show ?thesis by linarith
  next
    case True
    have "p - of_int \<lfloor>p\<rfloor> \<le> q - of_int \<lfloor>q\<rfloor>" using assms True by simp
    then show ?thesis by (auto simp: round_even_def Let_def True)
  qed
qed

lemma round_even_int [simp]: "round_even (of_int i) = i"
  by (simp add: round_even_def)

lemma rnd_0 [simp]: "rnd 0 = Fin 0" by (simp add: rnd_def)

lemma rnd_not_NaN [simp]: "rnd q \<noteq> NaN"
  by (simp add: rnd_def Let_def)

subsection \<open>Integers up to 2^53 are exact\<close>

lemma quotient_of_int_rat: "quotient_of (of_int n) = (n, 1)"
  by (metis quotient_of_int Rat.of_int_def)

declare int_bits.simps [simp del]

lemma int_bits_le: "n < 2 ^ k \<Longrightarrow> int_bits n \<le> int k"
proof (induction k arbitrary: n)
  case (Suc k)
  then have "n div 2 < 2 ^ k" by simp
  from Suc.IH [OF this] show ?case by (subst int_bits.simps) simp
qed (subst int_bits.simps, simp)

lemma ilog2_int_le: "n < 2 ^ 53 \<Longrightarrow> ilog2 (of_int n) \<le> 52"
  using int_bits_le [of n 53] by (simp add: ilog2_def quotient_of_int_rat Let_def int_bits.simps)

lemma rnd_int:
  assumes "\<bar>i\<bar> < 2 ^ 53"
  shows "rnd (of_int i) = Fin (of_int i)"
proof (cases "i = 0")
  case False
  let ?e = "max (ilog2 (of_int \<bar>i\<bar>) - 52) (-1074)"
  have e: "?e \<le> 0" using ilog2_int_le [of "\<bar>i\<bar>"] assms False by simp
  have p: "pow2 ?e = 1 / 2 ^ nat (- ?e)"
    using e by (cases "?e = 0") (simp_all add: pow2_def)
  have "of_int \<bar>i\<bar> / pow2 ?e = of_int (\<bar>i\<bar> * 2 ^ nat (- ?e))" unfolding p by simp
  then have v: "of_int (round_even (of_int \<bar>i\<bar> / pow2 ?e)) * pow2 ?e = of_int \<bar>i\<bar>"
    unfolding p by (simp only: round_even_int) simp
  have "\<not> ilog2 (of_int \<bar>i\<bar>) \<ge> 1024" using ilog2_int_le [of "\<bar>i\<bar>"] assms by simp
  then show ?thesis using False v by (auto simp: rnd_def Let_def)
qed simp

end
