(* ===== verification/Policy_Match.thy ===== *)
theory Policy_Match
  imports Policy_Space Float64 "HOL-Library.List_Lexorder" "HOL-Library.Char_ord" "HOL-Library.Product_Lexorder"
begin

text \<open>
  The monitoring half of internal/policy: learned models, the chronological matching of received
  copies with expected appointments (matchAppointments) and the findings drawn from it (checkWindow,
  Check, CheckPeriod). The matching is shown to be one-to-one, within the tolerance and of maximum
  size among all such pairings; the findings are shown to be exactly the unmatched slots that are
  due, the sizes out of tolerance and the unmatched copies.
\<close>

record observation =
  o_backup_id :: string
  o_key_id :: string
  o_at :: time
  o_size :: int

record appointment =
  MinuteOfDay :: int
  MedianSize :: int
  GrowthPerDay :: f64
  MedianResidual :: f64

text \<open>Schedule is a Go map from weekdays to slices: a missing weekday reads as the empty slice.\<close>

record key_model =
  km_key_id :: string
  km_timezone :: string
  km_learned_at :: time
  km_schedule :: "int \<Rightarrow> appointment list"
  km_reliable :: bool
  km_review :: bool
  km_reason :: string

record finding =
  f_stable_key :: string
  f_kind :: string
  f_key_id :: string
  f_backup_id :: string
  f_detail :: string
  f_at :: time

record check_slot =
  cs_at :: time
  cs_app :: appointment
  cs_report :: bool

subsection \<open>Dates as text\<close>

text \<open>Year, month and day of a civil day (days since 1970-01-01) in the Gregorian calendar.\<close>

definition civil_date :: "int \<Rightarrow> int \<times> int \<times> int" where
  "civil_date days =
     (let z = days + 719468; era = z div 146097; doe = z mod 146097;
          yoe = (doe - doe div 1460 + doe div 36524 - doe div 146096) div 365;
          doy = doe - (365 * yoe + yoe div 4 - yoe div 100);
          mp = (5 * doy + 2) div 153; d = doy - (153 * mp + 2) div 5 + 1;
          m = (if mp < 10 then mp + 3 else mp - 9);
          y = yoe + era * 400 + (if m \<le> 2 then 1 else 0)
      in (y, m, d))"

definition pad :: "nat \<Rightarrow> int \<Rightarrow> string" where
  "pad w n = (let s = show_nat (nat n) in replicate (w - length s) (CHR ''0'') @ s)"

definition clock_text :: "int \<Rightarrow> string" where
  "clock_text s = pad 2 (s div 3600) @ '':'' @ pad 2 (s div 60 mod 60) @ '':'' @ pad 2 (s mod 60)"

definition zone_text :: "int \<Rightarrow> string" where
  "zone_text off = (if off = 0 then ''Z''
     else (let m = go_div off 60 in (if m < 0 then ''-'' else ''+'')
       @ pad 2 (\<bar>m\<bar> div 60) @ '':'' @ pad 2 (\<bar>m\<bar> mod 60)))"

definition Format_RFC3339 :: "location \<Rightarrow> time \<Rightarrow> string" where
  "Format_RFC3339 loc t =
     (let (y, m, d) = civil_date (civil_day loc t) in
      pad 4 y @ ''-'' @ pad 2 m @ ''-'' @ pad 2 d @ ''T'' @ clock_text (second_of_day loc t)
      @ zone_text (offset_at loc (unix t)))"

subsection \<open>Matching\<close>

definition appointmentTime :: "time \<Rightarrow> int \<Rightarrow> location \<Rightarrow> time" where
  "appointmentTime day minuteOfDay loc =
     time_Date loc (civil_day loc day) (go_div minuteOfDay 60 * 3600 + go_rem minuteOfDay 60 * 60) 0"

text \<open>The loop \<open>for day := start; day.Before(end); day = day.AddDate(0, 0, 1)\<close> as the list of the days
  it visits. The fuel counts one step per hour of the interval: it is enough in every zone in which
  a civil day lasts at least an hour (\<open>day_loop_complete\<close> below).\<close>

fun day_loop :: "location \<Rightarrow> nat \<Rightarrow> time \<Rightarrow> time \<Rightarrow> time list" where
  "day_loop loc 0 day until = []"
| "day_loop loc (Suc n) day until =
     (if day < until then day # day_loop loc n (AddDate loc day 1) until else [])"

definition days_between :: "location \<Rightarrow> time \<Rightarrow> time \<Rightarrow> time list" where
  "days_between loc start until = day_loop loc (nat ((until - start) div hour_ns + 1)) start until"

fun start_day :: "location \<Rightarrow> string \<Rightarrow> time \<Rightarrow> observation list \<Rightarrow> time \<Rightarrow> time" where
  "start_day loc keyID now [] startDay = startDay"
| "start_day loc keyID now (ob # obs) startDay =
     start_day loc keyID now obs
       (if o_key_id ob = keyID \<and> \<not> o_at ob > now
        then (let candidate = AddDate loc (localMidnight (o_at ob) loc) (- 1) in
              if candidate < startDay then candidate else startDay)
        else startDay)"

definition expected_slots :: "key_model \<Rightarrow> location \<Rightarrow> time \<Rightarrow> time \<Rightarrow> time \<Rightarrow> time list \<Rightarrow> check_slot list" where
  "expected_slots m loc reportFrom reportTo now days =
     concat (map (\<lambda>day.
       concat (map (\<lambda>app.
         let slotAt = appointmentTime day (MinuteOfDay app) loc in
         if slotAt - ScheduleTolerance > now then []
         else [\<lparr>cs_at = slotAt, cs_app = app, cs_report = (slotAt > reportFrom \<and> \<not> slotAt > reportTo)\<rparr>])
         (km_schedule m (Weekday loc day)))) days)"

definition relevant :: "string \<Rightarrow> time \<Rightarrow> observation \<Rightarrow> bool" where
  "relevant keyID now ob \<longleftrightarrow> \<not> (o_key_id ob \<noteq> keyID \<or> o_at ob > now)"

definition skip_slots :: "check_slot list \<Rightarrow> nat \<Rightarrow> time \<Rightarrow> nat" where
  "skip_slots expected slotIndex receivedAt =
     slotIndex + length (takeWhile (\<lambda>s. cs_at s + ScheduleTolerance < receivedAt) (drop slotIndex expected))"

fun match_loop :: "string \<Rightarrow> time \<Rightarrow> check_slot list \<Rightarrow> observation list \<Rightarrow> nat \<Rightarrow> nat
    \<Rightarrow> int list \<Rightarrow> int list \<Rightarrow> int list \<times> int list" where
  "match_loop keyID now expected [] observationIndex slotIndex matchObservation matchSlot =
     (matchObservation, matchSlot)"
| "match_loop keyID now expected (ob # obs) observationIndex slotIndex matchObservation matchSlot =
     (if \<not> relevant keyID now ob
      then match_loop keyID now expected obs (Suc observationIndex) slotIndex matchObservation matchSlot
      else (let s = skip_slots expected slotIndex (o_at ob) in
        if s < length expected \<and> \<not> o_at ob < cs_at (expected ! s) - ScheduleTolerance
        then match_loop keyID now expected obs (Suc observationIndex) (Suc s)
               (matchObservation[observationIndex := int s]) (matchSlot[s := int observationIndex])
        else match_loop keyID now expected obs (Suc observationIndex) s matchObservation matchSlot))"

definition order_observations :: "observation list \<Rightarrow> observation list" where
  "order_observations obs = sort_key (\<lambda>ob. (o_at ob, o_backup_id ob)) obs"

definition matchAppointments :: "key_model \<Rightarrow> observation list \<Rightarrow> time \<Rightarrow> time \<Rightarrow> time \<Rightarrow> location
    \<Rightarrow> check_slot list \<times> observation list \<times> int list \<times> int list" where
  "matchAppointments m observations reportFrom reportTo now loc =
     (let startDay = start_day loc (km_key_id m) now observations
            (AddDate loc (localMidnight reportFrom loc) (- 1));
          endDay = AddDate loc (localMidnight reportTo loc) 2;
          expected = sort_key cs_at
            (expected_slots m loc reportFrom reportTo now (days_between loc startDay endDay));
          ordered = order_observations observations;
          (matchObservation, matchSlot) =
            match_loop (km_key_id m) now expected ordered 0 0
              (replicate (length ordered) (- 1)) (replicate (length expected) (- 1))
      in (expected, ordered, matchObservation, matchSlot))"

subsection \<open>Findings\<close>

definition size_deviates :: "key_model \<Rightarrow> appointment \<Rightarrow> observation \<Rightarrow> bool" where
  "size_deviates m app ob =
     (let days = days_since (o_at ob) (km_learned_at m);
          expectedSize = f_add (f_of_int (MedianSize app)) (f_mul (GrowthPerDay app) days)
      in f_le expectedSize (Fin 0)
         \<or> f_lt (f_mul expectedSize f_0_2) (f_abs (f_sub (f_of_int (o_size ob)) expectedSize)))"

definition slot_finding :: "key_model \<Rightarrow> time \<Rightarrow> observation list \<Rightarrow> check_slot \<Rightarrow> int \<Rightarrow> finding list" where
  "slot_finding m now ordered slot k =
     (if \<not> cs_report slot \<or> now < cs_at slot + ScheduleTolerance then []
      else if k < 0
      then [\<lparr>f_stable_key = ''slot:'' @ km_key_id m @ '':'' @ Format_RFC3339 UTC (cs_at slot),
             f_kind = ''schedule_missing'', f_key_id = km_key_id m, f_backup_id = [],
             f_detail = ''copia attesa non ricevuta'', f_at = cs_at slot\<rparr>]
      else (let ob = ordered ! nat k in
        if size_deviates m (cs_app slot) ob
        then [\<lparr>f_stable_key = ''size:'' @ o_backup_id ob, f_kind = ''size'', f_key_id = km_key_id m,
               f_backup_id = o_backup_id ob, f_detail = ''dimensione fuori dalla tolleranza del 20%'',
               f_at = o_at ob\<rparr>]
        else []))"

definition received_in :: "key_model \<Rightarrow> time \<Rightarrow> time \<Rightarrow> time \<Rightarrow> observation \<Rightarrow> bool" where
  "received_in m reportFrom reportTo now ob \<longleftrightarrow>
     o_key_id ob = km_key_id m \<and> o_at ob > reportFrom \<and> \<not> o_at ob > reportTo \<and> \<not> o_at ob > now"

definition wrap64 :: "int \<Rightarrow> int" where
  "wrap64 i = (i + 2 ^ 63) mod 2 ^ 64 - 2 ^ 63"

definition extra_detail :: "key_model \<Rightarrow> string \<Rightarrow> nat \<Rightarrow> nat \<Rightarrow> int \<Rightarrow> string" where
  "extra_detail m period expectedCount receivedCount excessBytes =
     ''AVVISO NON BLOCCANTE - copie eccedenti: chiave '' @ km_key_id m @ '', periodo '' @ period
     @ '', attese '' @ show_nat expectedCount @ '', ricevute '' @ show_nat receivedCount
     @ '', volume eccedente '' @ show_int excessBytes
     @ '' byte; verificare configurazione o possibili caricamenti impropri''"

definition model_finding :: "key_model \<Rightarrow> string \<Rightarrow> string \<Rightarrow> finding" where
  "model_finding m prefix detail =
     \<lparr>f_stable_key = prefix @ km_key_id m, f_kind = ''model'', f_key_id = km_key_id m, f_backup_id = [],
      f_detail = detail, f_at = zero_time\<rparr>"

definition extra_findings :: "key_model \<Rightarrow> time \<Rightarrow> time \<Rightarrow> time \<Rightarrow> location \<Rightarrow> check_slot list
    \<Rightarrow> observation list \<Rightarrow> int list \<Rightarrow> finding list" where
  "extra_findings m reportFrom reportTo now loc expected ordered matchObservation =
     (let expectedCount = length (filter cs_report expected);
          received = filter (\<lambda>(ob, k). received_in m reportFrom reportTo now ob) (zip ordered matchObservation);
          unmatched = filter (\<lambda>(ob, k). k < 0) received;
          excessBytes = foldl (\<lambda>n (ob, k). wrap64 (n + o_size ob)) 0 unmatched;
          period = Format_RFC3339 loc reportFrom @ ''..'' @ Format_RFC3339 loc reportTo
      in map (\<lambda>(ob, k). \<lparr>f_stable_key = ''extra:'' @ o_backup_id ob, f_kind = ''extra'',
                f_key_id = km_key_id m, f_backup_id = o_backup_id ob,
                f_detail = extra_detail m period expectedCount (length received) excessBytes,
                f_at = o_at ob\<rparr>) unmatched)"

definition checkWindow :: "tzdb \<Rightarrow> key_model \<Rightarrow> observation list \<Rightarrow> time \<Rightarrow> time \<Rightarrow> time \<Rightarrow> finding list" where
  "checkWindow LoadLocation m observations reportFrom reportTo now =
     (if \<not> km_reliable m \<or> km_review m
      then [model_finding m ''model:'' ''modello non affidabile o da revisionare'']
      else (case LoadLocation (km_timezone m) of
          None \<Rightarrow> [model_finding m ''timezone:'' ''fuso del modello non valido'']
        | Some loc \<Rightarrow>
            (let (expected, ordered, matchObservation, matchSlot) =
                   matchAppointments m observations reportFrom reportTo now loc
             in concat (map (\<lambda>(slot, k). slot_finding m now ordered slot k) (zip expected matchSlot))
                @ extra_findings m reportFrom reportTo now loc expected ordered matchObservation)))"

definition Check :: "tzdb \<Rightarrow> key_model \<Rightarrow> observation list \<Rightarrow> time \<Rightarrow> finding list" where
  "Check LoadLocation m observations now =
     (case LoadLocation (km_timezone m) of
        None \<Rightarrow> [model_finding m ''timezone:'' ''fuso del modello non valido'']
      | Some loc \<Rightarrow>
          (let today = localMidnight now loc in
           checkWindow LoadLocation m observations (AddDate loc today (- 1) - 1) (AddDate loc today 1 - 1) now))"

definition CheckPeriod :: "tzdb \<Rightarrow> key_model \<Rightarrow> observation list \<Rightarrow> time \<Rightarrow> time \<Rightarrow> time \<Rightarrow> finding list" where
  "CheckPeriod LoadLocation m observations fromT toT now =
     (if toT < fromT then [model_finding m ''period:'' ''periodo di controllo non valido'']
      else checkWindow LoadLocation m observations fromT toT now)"

subsection \<open>The day loop ends\<close>

text \<open>Every zone in use has offsets less than 23 hours apart, except the two that crossed the date line.\<close>

definition hourly_zone :: "location \<Rightarrow> bool" where
  "hourly_zone loc \<longleftrightarrow> (\<forall>a \<in> loc_offsets loc. \<forall>b \<in> loc_offsets loc. a - b \<le> 82800)"

lemma AddDate_progress:
  assumes "hourly_zone loc"
  shows "day + hour_ns \<le> AddDate loc day 1"
proof -
  let ?u = "unix day" and ?o = "offset_at loc (unix day)"
  obtain off where off: "off \<in> loc_offsets loc"
    "date_seconds loc (civil_day loc day + 1) (second_of_day loc day)
       = (civil_day loc day + 1) * 86400 + second_of_day loc day - off"
    using date_seconds_offset by blast
  have "civil_day loc day * 86400 + second_of_day loc day = ?u + ?o"
    by (simp add: civil_day_def second_of_day_def local_seconds_def)
  moreover have "off - ?o \<le> 82800" using assms off(1) offset_at_mem by (simp add: hourly_zone_def)
  ultimately have "?u + 3600 \<le> date_seconds loc (civil_day loc day + 1) (second_of_day loc day)"
    using off(2) by simp
  then have "(?u + 3600) * second \<le> date_seconds loc (civil_day loc day + 1) (second_of_day loc day) * second"
    by (intro mult_right_mono) (simp_all add: second_def)
  moreover have "day = ?u * second + day mod second" by (simp add: unix_def)
  ultimately show ?thesis
    by (simp add: AddDate_def time_Date_def of_unix_def hour_ns_def algebra_simps)
qed

lemma day_loop_enough:
  assumes "hourly_zone loc" "until - day < int n * hour_ns"
  shows "day_loop loc (n + k) day until = day_loop loc n day until"
  using assms(2)
proof (induction n arbitrary: day)
  case 0
  then show ?case by (cases k) (auto simp: hour_ns_def second_def)
next
  case (Suc n)
  have "until - AddDate loc day 1 < int n * hour_ns"
    using AddDate_progress [OF assms(1), of day] Suc.prems by (simp add: algebra_simps)
  then show ?case using Suc.IH by simp
qed

text \<open>The fuel of \<open>days_between\<close> is enough: more of it visits no further day.\<close>

lemma day_loop_complete:
  assumes "hourly_zone loc"
  shows "day_loop loc (nat ((until - start) div hour_ns + 1) + k) start until = days_between loc start until"
proof (cases "0 \<le> until - start")
  case True
  then have "until - start < int (nat ((until - start) div hour_ns + 1)) * hour_ns"
    using pos_imp_zdiv_nonneg_iff [of hour_ns "until - start"] mod_less_divisor
      div_mult_mod_eq [of "until - start" hour_ns] pos_mod_bound [of hour_ns "until - start"]
    by (simp add: algebra_simps hour_ns_def second_def)
  then show ?thesis unfolding days_between_def by (rule day_loop_enough [OF assms])
next
  case False
  have e: "day_loop loc n start until = []" for n using False by (cases n) simp_all
  show ?thesis by (simp add: days_between_def e)
qed

lemma days_between_step:
  assumes "hourly_zone loc"
  shows "days_between loc day until = (if day < until then day # days_between loc (AddDate loc day 1) until else [])"
proof -
  let ?n = "nat ((until - day) div hour_ns + 1)" and ?m = "nat ((until - AddDate loc day 1) div hour_ns + 1)"
  have "days_between loc day until = day_loop loc (Suc (?n + ?m)) day until"
    using day_loop_complete [OF assms, of until day "Suc ?m"] by simp
  also have "\<dots> = (if day < until then day # day_loop loc (?m + ?n) (AddDate loc day 1) until else [])"
    by (simp add: add.commute)
  also have "day_loop loc (?m + ?n) (AddDate loc day 1) until = days_between loc (AddDate loc day 1) until"
    by (rule day_loop_complete [OF assms])
  finally show ?thesis .
qed

lemma hourly_UTC [simp]: "hourly_zone UTC"
  by (simp add: hourly_zone_def loc_offsets_def UTC_def)

subsection \<open>Greedy chronological matching is maximum\<close>

text \<open>The pairs the greedy scan makes between positions \<open>is\<close> of copies received at \<open>ot\<close> and positions
  \<open>js\<close> of slots at \<open>st\<close>, both in chronological order.\<close>

fun greedy :: "int \<Rightarrow> (nat \<Rightarrow> int) \<Rightarrow> (nat \<Rightarrow> int) \<Rightarrow> nat list \<Rightarrow> nat list \<Rightarrow> (nat \<times> nat) list" where
  "greedy tol ot st [] js = []"
| "greedy tol ot st (i # is) js =
     (case dropWhile (\<lambda>j. st j + tol < ot i) js of
        [] \<Rightarrow> greedy tol ot st is []
      | j # js' \<Rightarrow> if \<not> ot i < st j - tol then (i, j) # greedy tol ot st is js'
                    else greedy tol ot st is (j # js'))"

definition pairing :: "int \<Rightarrow> (nat \<Rightarrow> int) \<Rightarrow> (nat \<Rightarrow> int) \<Rightarrow> nat set \<Rightarrow> nat set \<Rightarrow> (nat \<times> nat) set \<Rightarrow> bool" where
  "pairing tol ot st I J M \<longleftrightarrow> M \<subseteq> I \<times> J \<and> inj_on fst M \<and> inj_on snd M
     \<and> (\<forall>(i, j) \<in> M. \<bar>ot i - st j\<bar> \<le> tol)"

lemma greedy_Nil [simp]: "greedy tol ot st is [] = []"
  by (induction "is") simp_all

lemma greedy_subset: "set (greedy tol ot st is js) \<subseteq> set is \<times> set js"
proof (induction "is" arbitrary: js)
  case (Cons i "is")
  have dw: "set (dropWhile P js) \<subseteq> set js" for P by (auto dest: set_dropWhileD)
  show ?case
  proof (cases "dropWhile (\<lambda>j. st j + tol < ot i) js")
    case (Cons j js')
    have "set (j # js') \<subseteq> set js" using dw [of "\<lambda>j. st j + tol < ot i"] Cons by simp
    then show ?thesis using Cons.IH [of js'] Cons.IH [of "j # js'"] Cons by auto
  qed (simp del: dropWhile_eq_Nil_conv)
qed simp

lemma greedy_pairing:
  assumes "distinct is" "distinct js"
  shows "pairing tol ot st (set is) (set js) (set (greedy tol ot st is js))
    \<and> distinct (greedy tol ot st is js)"
  using assms
proof (induction "is" arbitrary: js)
  case (Cons i "is")
  show ?case
  proof (cases "dropWhile (\<lambda>j. st j + tol < ot i) js")
    case Nil
    then show ?thesis by (simp add: pairing_def del: dropWhile_eq_Nil_conv)
  next
    case (Cons j js')
    have sub: "set (j # js') \<subseteq> set js"
      using set_dropWhileD [of _ "\<lambda>j. st j + tol < ot i" js] unfolding Cons by blast
    have "distinct (j # js')" using Cons.prems(2) Cons by (metis distinct_dropWhile)
    then have d: "distinct js'" "j \<notin> set js'" "distinct (j # js')" by simp_all
    have hd: "\<not> st j + tol < ot i" using Cons by (metis hd_dropWhile list.distinct(1) list.sel(1))
    note IH = Cons.IH [of js'] Cons.IH [of "j # js'"]
    have i: "i \<notin> set is" "distinct is" using Cons.prems by simp_all
    show ?thesis
    proof (cases "ot i < st j - tol")
      case True
      then show ?thesis using IH(2) d i sub Cons by (auto simp: pairing_def)
    next
      case False
      have "fst p \<noteq> i" "snd p \<noteq> j" if "p \<in> set (greedy tol ot st is js')" for p
        using greedy_subset [of tol ot st "is" js'] that i d by auto
      then have "inj_on fst (set ((i, j) # greedy tol ot st is js'))"
        "inj_on snd (set ((i, j) # greedy tol ot st is js'))"
        using IH(1) d i by (force simp: pairing_def)+
      then show ?thesis
        using IH(1) d i sub hd False Cons greedy_subset [of tol ot st "is" js']
        by (auto simp: pairing_def)
    qed
  qed
qed (simp add: pairing_def)


text \<open>Exchange step: a pairing that uses the first copy and the first slot, possibly crosswise, loses at
  most one pair when both are set aside.\<close>

lemma pairing_finite: "finite I \<Longrightarrow> finite J \<Longrightarrow> pairing tol ot st I J M \<Longrightarrow> finite M"
  by (auto simp: pairing_def intro: finite_subset)

lemma pairingD:
  assumes "pairing tol ot st I J M"
  shows "M \<subseteq> I \<times> J" "(a, b) \<in> M \<Longrightarrow> \<bar>ot a - st b\<bar> \<le> tol"
    "p \<in> M \<Longrightarrow> q \<in> M \<Longrightarrow> fst p = fst q \<Longrightarrow> p = q" "p \<in> M \<Longrightarrow> q \<in> M \<Longrightarrow> snd p = snd q \<Longrightarrow> p = q"
  using assms by (auto simp: pairing_def inj_on_def)

definition apart :: "nat \<Rightarrow> nat \<Rightarrow> (nat \<times> nat) set \<Rightarrow> (nat \<times> nat) set" where
  "apart i j M = {p \<in> M. fst p \<noteq> i \<and> snd p \<noteq> j}"

lemma pairing_apart:
  "pairing tol ot st (insert i I) (insert j J) M \<Longrightarrow> pairing tol ot st I J (apart i j M)"
  by (auto simp: pairing_def inj_on_def apart_def)

lemma pairing_touch:
  assumes "pairing tol ot st I J M" "\<not> (\<exists>b a. (i, b) \<in> M \<and> b \<noteq> j \<and> (a, j) \<in> M \<and> a \<noteq> i)"
  shows "\<exists>p. M \<subseteq> insert p (apart i j M)"
proof (cases "M \<subseteq> apart i j M")
  case False
  then obtain p where p: "p \<in> M" "fst p = i \<or> snd p = j" by (auto simp: apart_def)
  have "q \<in> insert p (apart i j M)" if q: "q \<in> M" for q
    using assms(2) p q pairingD(3,4) [OF assms(1) p(1) q] by (cases p; cases q) (auto simp: apart_def)
  then show ?thesis by blast
qed blast

lemma pairing_cross:
  assumes M: "pairing tol ot st (insert i I) (insert j J) M" and "i \<notin> I" "j \<notin> J"
    and "\<forall>a \<in> I. ot i \<le> ot a" "\<forall>b \<in> J. st j \<le> st b"
    and cross: "(i, b) \<in> M" "b \<noteq> j" "(a, j) \<in> M" "a \<noteq> i"
  shows "pairing tol ot st I J (insert (a, b) (apart i j M)) \<and> (a, b) \<notin> apart i j M
    \<and> M \<subseteq> insert (i, b) (insert (a, j) (apart i j M))"
proof (intro conjI)
  have mem: "a \<in> I" "b \<in> J" using cross pairingD(1) [OF M] by auto
  have "\<bar>ot a - st b\<bar> \<le> tol"
    using pairingD(2) [OF M cross(1)] pairingD(2) [OF M cross(3)] assms(4,5) mem by (smt (verit))
  moreover have q: "fst q \<noteq> a \<and> snd q \<noteq> b" if "q \<in> apart i j M" for q
    using that pairingD(3) [OF M, of q "(a, j)"] pairingD(4) [OF M, of q "(i, b)"] cross
    by (cases q) (auto simp: apart_def)
  ultimately show "pairing tol ot st I J (insert (a, b) (apart i j M))"
    using pairing_apart [OF M] mem by (auto simp: pairing_def inj_on_def)
  show "(a, b) \<notin> apart i j M" using q [of "(a, b)"] by auto
  show "M \<subseteq> insert (i, b) (insert (a, j) (apart i j M))"
  proof
    fix q assume "q \<in> M"
    then show "q \<in> insert (i, b) (insert (a, j) (apart i j M))"
      using pairingD(3) [OF M _ cross(1), of q] pairingD(4) [OF M _ cross(3), of q]
      by (cases q) (auto simp: apart_def)
  qed
qed

lemma card_insert_bound: "finite B \<Longrightarrow> A \<subseteq> insert p B \<Longrightarrow> card A \<le> Suc (card B)"
  using card_mono [of "insert p B" A] by (simp add: card_insert_if split: if_splits)

lemma sorted_map_dropWhile: "sorted (map f xs) \<Longrightarrow> sorted (map f (dropWhile P xs))"
  by (simp add: dropWhile_eq_drop drop_map [symmetric] sorted_wrt_drop)

lemma pairing_exchange:
  assumes M: "pairing tol ot st (insert i I) (insert j J) M" and "finite M" "i \<notin> I" "j \<notin> J"
    and "\<forall>a \<in> I. ot i \<le> ot a" "\<forall>b \<in> J. st j \<le> st b"
  obtains M' where "pairing tol ot st I J M'" "card M \<le> Suc (card M')"
proof -
  have fin: "finite (apart i j M)" using assms(2) by (simp add: apart_def)
  show thesis
  proof (cases "\<exists>b a. (i, b) \<in> M \<and> b \<noteq> j \<and> (a, j) \<in> M \<and> a \<noteq> i")
    case False
    then obtain p where "M \<subseteq> insert p (apart i j M)" using pairing_touch [OF M] by blast
    then show thesis using card_insert_bound [OF fin] pairing_apart [OF M] that by blast
  next
    case True
    then obtain a b where ab: "(i, b) \<in> M" "b \<noteq> j" "(a, j) \<in> M" "a \<noteq> i" by blast
    note c = pairing_cross [OF M assms(3-6) ab]
    have "card M \<le> Suc (card (insert (a, j) (apart i j M)))"
      using c fin by (intro card_insert_bound) auto
    also have "\<dots> \<le> Suc (card (insert (a, b) (apart i j M)))"
      using c fin by (simp add: card_insert_if)
    finally show thesis using c that by blast
  qed
qed

lemma greedy_maximum:
  assumes "pairing tol ot st (set is) (set js) M" "distinct is" "distinct js"
    and "sorted (map ot is)" "sorted (map st js)"
  shows "card M \<le> length (greedy tol ot st is js)"
  using assms
proof (induction "is" arbitrary: js M)
  case Nil
  then show ?case by (simp add: pairing_def)
next
  case (Cons i "is")
  let ?late = "\<lambda>j. st j + tol < ot i"
  have fin: "finite M" using Cons.prems(1) by (rule pairing_finite [rotated 2]) simp_all
  have drop: "pairing tol ot st (set (i # is)) (set (dropWhile ?late js)) M"
  proof -
    have "(a, b) \<in> M \<Longrightarrow> b \<in> set (dropWhile ?late js)" for a b
    proof -
      assume ab: "(a, b) \<in> M"
      then have "ot i \<le> ot a" "\<bar>ot a - st b\<bar> \<le> tol" "b \<in> set js"
        using Cons.prems by (auto simp: pairing_def)
      then have "\<not> ?late b" "b \<in> set (takeWhile ?late js @ dropWhile ?late js)" by simp_all
      then show ?thesis using set_takeWhileD by (metis Un_iff set_append)
    qed
    then show ?thesis using Cons.prems(1) by (auto simp: pairing_def)
  qed
  show ?case
  proof (cases "dropWhile ?late js")
    case Nil
    then have "M = {}" using drop by (simp add: pairing_def del: dropWhile_eq_Nil_conv)
    then show ?thesis by simp
  next
    case (Cons j js')
    have js': "distinct (j # js')" "sorted (map st (j # js'))"
      using distinct_dropWhile [OF Cons.prems(3), of ?late] sorted_map_dropWhile [OF Cons.prems(5), of ?late]
      unfolding Cons by simp_all
    note step = drop [unfolded Cons list.set]
    show ?thesis
    proof (cases "ot i < st j - tol")
      case True
      have "(i, b) \<notin> M" for b
        using step True js'(2) by (force simp: pairing_def)
      then have "pairing tol ot st (set is) (set (j # js')) M"
        using step by (auto simp: pairing_def)
      then have "card M \<le> length (greedy tol ot st is (j # js'))"
        using Cons.IH Cons.prems js' by simp
      then show ?thesis using True Cons by simp
    next
      case False
      obtain M' where M': "pairing tol ot st (set is) (set js') M'" "card M \<le> Suc (card M')"
        by (rule pairing_exchange [OF step fin]) (use Cons.prems js' in auto)
      then have "card M' \<le> length (greedy tol ot st is js')"
        using Cons.IH Cons.prems js' by simp
      then show ?thesis using False Cons M'(2) by simp
    qed
  qed
qed


subsection \<open>The array loop computes the greedy pairing\<close>

lemma dropWhile_upt:
  assumes "s \<le> length xs"
  shows "dropWhile (\<lambda>j. P (xs ! j)) [s..<length xs] = [s + length (takeWhile P (drop s xs))..<length xs]"
proof -
  have "drop s xs = map (\<lambda>j. xs ! j) [s..<length xs]"
    by (intro nth_equalityI) simp_all
  then have "length (takeWhile P (drop s xs)) = length (takeWhile (\<lambda>j. P (xs ! j)) [s..<length xs])"
    by (simp add: takeWhile_map o_def)
  then show ?thesis by (simp add: dropWhile_eq_drop drop_upt)
qed

lemma upt_head: "[a..<n] = x # xs \<longleftrightarrow> a < n \<and> x = a \<and> xs = [Suc a..<n]"
  by (cases "a < n") (auto simp: upt_conv_Cons)

definition put_pairs :: "('p \<Rightarrow> nat) \<Rightarrow> ('p \<Rightarrow> nat) \<Rightarrow> int list \<Rightarrow> 'p list \<Rightarrow> int list" where
  "put_pairs f g xs ps = foldl (\<lambda>xs p. xs[f p := int (g p)]) xs ps"

lemma put_pairs_simps [simp]:
  "put_pairs f g xs [] = xs" "put_pairs f g xs (p # ps) = put_pairs f g (xs[f p := int (g p)]) ps"
  by (simp_all add: put_pairs_def)

lemma length_put_pairs [simp]: "length (put_pairs f g xs ps) = length xs"
  by (induction ps arbitrary: xs) simp_all

lemma put_pairs_other: "k \<notin> f ` set ps \<Longrightarrow> put_pairs f g xs ps ! k = xs ! k"
  by (induction ps arbitrary: xs) auto

lemma put_pairs_nth:
  "inj_on f (set ps) \<Longrightarrow> p \<in> set ps \<Longrightarrow> f p < length xs \<Longrightarrow> put_pairs f g xs ps ! f p = int (g p)"
proof (induction ps arbitrary: xs)
  case (Cons q ps)
  show ?case
  proof (cases "p \<in> set ps")
    case True
    then show ?thesis using Cons by (simp add: inj_on_def)
  next
    case False
    then have "f p \<notin> f ` set ps" "p = q" using Cons.prems by (auto simp: inj_on_def)
    then show ?thesis using Cons.prems by (simp add: put_pairs_other)
  qed
qed simp

lemma put_pairs_mem:
  assumes "inj_on f (set ps)" "\<And>p. p \<in> set ps \<Longrightarrow> f p < n"
  shows "k < n \<and> put_pairs f g (replicate n (- 1)) ps ! k = int v \<longleftrightarrow> (\<exists>p \<in> set ps. f p = k \<and> g p = v)"
proof (cases "k \<in> f ` set ps")
  case True
  then obtain p where p: "p \<in> set ps" "k = f p" by blast
  have "put_pairs f g (replicate n (- 1)) ps ! k = int (g p)"
    using put_pairs_nth [OF assms(1) p(1)] assms(2) p by simp
  moreover have "q = p" if "q \<in> set ps" "f q = k" for q using assms(1) p that by (auto simp: inj_on_def)
  ultimately show ?thesis using p assms(2) by (metis of_nat_eq_iff)
qed (auto simp: put_pairs_other)

definition relevant_positions :: "string \<Rightarrow> time \<Rightarrow> observation list \<Rightarrow> nat \<Rightarrow> nat list" where
  "relevant_positions keyID now ordered k = filter (\<lambda>i. relevant keyID now (ordered ! i)) [k..<length ordered]"

abbreviation pairs_from :: "string \<Rightarrow> time \<Rightarrow> check_slot list \<Rightarrow> observation list \<Rightarrow> nat \<Rightarrow> nat \<Rightarrow> (nat \<times> nat) list" where
  "pairs_from keyID now expected ordered k s \<equiv>
     greedy ScheduleTolerance (\<lambda>i. o_at (ordered ! i)) (\<lambda>j. cs_at (expected ! j))
       (relevant_positions keyID now ordered k) [s..<length expected]"

lemma match_loop_greedy:
  assumes "k \<le> length ordered" "s \<le> length expected"
  shows "match_loop keyID now expected (drop k ordered) k s mo ms =
    (put_pairs fst snd mo (pairs_from keyID now expected ordered k s),
     put_pairs snd fst ms (pairs_from keyID now expected ordered k s))"
  using assms
proof (induction "length ordered - k" arbitrary: k s mo ms)
  case 0
  then show ?case by (simp add: relevant_positions_def)
next
  case (Suc n)
  then have k: "k < length ordered" by simp
  then have dk: "drop k ordered = ordered ! k # drop (Suc k) ordered" by (simp add: Cons_nth_drop_Suc)
  have pos: "relevant_positions keyID now ordered k =
      (if relevant keyID now (ordered ! k) then k # relevant_positions keyID now ordered (Suc k)
       else relevant_positions keyID now ordered (Suc k))"
    using k by (simp add: relevant_positions_def upt_conv_Cons)
  note IH = Suc.hyps(1) [of "Suc k"]
  let ?s = "skip_slots expected s (o_at (ordered ! k))"
  have le: "?s \<le> length expected"
    using Suc.prems(2) length_takeWhile_le [of _ "drop s expected"] by (simp add: skip_slots_def le_diff_conv2 add.commute)
  have dw: "dropWhile (\<lambda>j. cs_at (expected ! j) + ScheduleTolerance < o_at (ordered ! k)) [s..<length expected]
      = [?s..<length expected]"
    unfolding skip_slots_def by (rule dropWhile_upt [OF Suc.prems(2)])
  show ?case
  proof (cases "relevant keyID now (ordered ! k)")
    case False
    then show ?thesis using IH [of s] Suc.hyps(2) Suc.prems k by (simp add: dk pos)
  next
    case rel: True
    show ?thesis
    proof (cases "?s < length expected")
      case False
      then have "?s = length expected" using le by simp
      then show ?thesis using rel IH [of ?s] Suc.hyps(2) k by (simp add: dk pos dw)
    next
      case True
      then have "[?s..<length expected] = ?s # [Suc ?s..<length expected]" by (simp add: upt_conv_Cons)
      then show ?thesis
        using rel True IH [of ?s] IH [of "Suc ?s"] Suc.hyps(2) k by (simp add: dk pos dw Let_def)
    qed
  qed
qed

lemma sorted_positions:
  assumes "sorted (map f xs)"
  shows "sorted (map (\<lambda>i. f (xs ! i)) (filter P [0..<length xs]))"
proof -
  have "map (\<lambda>i. f (xs ! i)) [0..<length xs] = map f xs" by (intro nth_equalityI) simp_all
  then show ?thesis using assms by (metis sorted_filter)
qed

lemma order_observations_sorted: "sorted (map o_at (order_observations obs))"
proof -
  have "sorted (map (\<lambda>ob. (o_at ob, o_backup_id ob)) (order_observations obs))"
    unfolding order_observations_def by (rule sorted_sort_key)
  then show ?thesis
    by (rule sorted_wrt_map [THEN iffD2, OF sorted_wrt_mono_rel [OF _ sorted_wrt_map [THEN iffD1]], rotated])
      auto
qed

subsection \<open>What the matching promises\<close>

definition slot_pairs :: "observation list \<Rightarrow> int list \<Rightarrow> (nat \<times> nat) set" where
  "slot_pairs ordered matchObservation =
     {(i, j). i < length ordered \<and> matchObservation ! i = int j}"

definition valid_pairing :: "key_model \<Rightarrow> time \<Rightarrow> check_slot list \<Rightarrow> observation list \<Rightarrow> (nat \<times> nat) set \<Rightarrow> bool" where
  "valid_pairing m now expected ordered =
     pairing ScheduleTolerance (\<lambda>i. o_at (ordered ! i)) (\<lambda>j. cs_at (expected ! j))
       {i. i < length ordered \<and> relevant (km_key_id m) now (ordered ! i)} {j. j < length expected}"

lemma matchAppointments_pairs:
  assumes "matchAppointments m observations reportFrom reportTo now loc = (expected, ordered, mo, ms)"
  defines "G \<equiv> pairs_from (km_key_id m) now expected ordered 0 0"
  shows "ordered = order_observations observations" "sorted (map cs_at expected)"
    "length mo = length ordered" "length ms = length expected" "distinct G"
    "valid_pairing m now expected ordered (set G)"
    "valid_pairing m now expected ordered M \<Longrightarrow> card M \<le> card (set G)"
    "slot_pairs ordered mo = set G" "{(i, j). j < length expected \<and> ms ! j = int i} = set G"
proof -
  note def = assms(1) [unfolded matchAppointments_def Let_def]
  show ord: "ordered = order_observations observations" and srt: "sorted (map cs_at expected)"
    using def by (auto split: prod.splits)
  let ?I = "{i. i < length ordered \<and> relevant (km_key_id m) now (ordered ! i)}"
  have "(mo, ms) = (put_pairs fst snd (replicate (length ordered) (- 1)) G,
      put_pairs snd fst (replicate (length expected) (- 1)) G)"
    using def match_loop_greedy [of 0 ordered 0 expected "km_key_id m" now
        "replicate (length ordered) (- 1)" "replicate (length expected) (- 1)"]
    by (auto simp: G_def split: prod.splits)
  then have mo: "mo = put_pairs fst snd (replicate (length ordered) (- 1)) G"
    and ms: "ms = put_pairs snd fst (replicate (length expected) (- 1)) G"
    by simp_all
  show "length mo = length ordered" "length ms = length expected" using mo ms by simp_all
  have I: "set (relevant_positions (km_key_id m) now ordered 0) = ?I"
    "distinct (relevant_positions (km_key_id m) now ordered 0)"
    by (auto simp: relevant_positions_def)
  have J: "{j. j < length expected} = set [0..<length expected]" by auto
  have G: "pairing ScheduleTolerance (\<lambda>i. o_at (ordered ! i)) (\<lambda>j. cs_at (expected ! j)) ?I
      (set [0..<length expected]) (set G)" "distinct G"
    using greedy_pairing [OF I(2), of "[0..<length expected]"] unfolding G_def I by simp_all
  then show "distinct G" and vp: "valid_pairing m now expected ordered (set G)"
    unfolding valid_pairing_def J by simp_all
  show "card M \<le> card (set G)" if "valid_pairing m now expected ordered M"
  proof -
    have "card M \<le> length G"
      unfolding G_def
    proof (rule greedy_maximum [OF _ I(2)])
      show "sorted (map (\<lambda>i. o_at (ordered ! i)) (relevant_positions (km_key_id m) now ordered 0))"
        unfolding relevant_positions_def ord by (rule sorted_positions [OF order_observations_sorted])
      show "sorted (map (\<lambda>j. cs_at (expected ! j)) [0..<length expected])"
        using sorted_positions [OF srt, of "\<lambda>_. True"] by simp
    qed (use that in \<open>simp_all add: valid_pairing_def I J\<close>)
    then show ?thesis using G(2) by (simp add: distinct_card)
  qed
  have bounds: "\<And>p. p \<in> set G \<Longrightarrow> fst p < length ordered" "\<And>p. p \<in> set G \<Longrightarrow> snd p < length expected"
    and inj: "inj_on fst (set G)" "inj_on snd (set G)"
    using G(1) by (auto simp: pairing_def)
  show "slot_pairs ordered mo = set G"
    unfolding slot_pairs_def mo using put_pairs_mem [where g = snd, OF inj(1) bounds(1)] by fastforce
  show "{(i, j). j < length expected \<and> ms ! j = int i} = set G"
    unfolding ms using put_pairs_mem [where g = fst, OF inj(2) bounds(2)] by fastforce
qed

text \<open>C30. The chronological matching pairs received copies of the key with appointments one-to-one, each
  pair within the half-hour tolerance; the two index arrays it returns describe the same pairs; and no
  other one-to-one pairing within the tolerance has more pairs.\<close>

theorem matchAppointments_maximum:
  assumes "matchAppointments m observations reportFrom reportTo now loc = (expected, ordered, mo, ms)"
  shows "valid_pairing m now expected ordered (slot_pairs ordered mo)
    \<and> slot_pairs ordered mo = {(i, j). j < length expected \<and> ms ! j = int i}
    \<and> (\<forall>M. valid_pairing m now expected ordered M \<longrightarrow> card M \<le> card (slot_pairs ordered mo))"
  using matchAppointments_pairs [OF assms] by simp

lemma pairing_covers_card:
  assumes "pairing tol ot st I J M" "pairing tol ot st I J N" "finite I" "finite J" "card N \<le> card M"
  shows "J \<subseteq> snd ` N \<Longrightarrow> J \<subseteq> snd ` M" "I \<subseteq> fst ` N \<Longrightarrow> I \<subseteq> fst ` M"
proof -
  have c: "card (snd ` P) = card P" "card (fst ` P) = card P" "snd ` P \<subseteq> J" "fst ` P \<subseteq> I"
    if "pairing tol ot st I J P" for P
    using that by (auto simp: pairing_def card_image)
  show "J \<subseteq> snd ` M" if J: "J \<subseteq> snd ` N"
  proof -
    have "snd ` N = J" using c(3) [OF assms(2)] J by blast
    then have "card J \<le> card (snd ` M)" using c(1) [OF assms(1)] c(1) [OF assms(2)] assms(5) by simp
    then have "snd ` M = J" using c(3) [OF assms(1)] assms(4) by (simp add: card_seteq)
    then show ?thesis by simp
  qed
  show "I \<subseteq> fst ` M" if I: "I \<subseteq> fst ` N"
  proof -
    have "fst ` N = I" using c(4) [OF assms(2)] I by blast
    then have "card I \<le> card (fst ` M)" using c(2) [OF assms(1)] c(2) [OF assms(2)] assms(5) by simp
    then have "fst ` M = I" using c(4) [OF assms(1)] assms(3) by (simp add: card_seteq)
    then show ?thesis by simp
  qed
qed


subsection \<open>A concrete check\<close>

text \<open>A daily appointment at one o'clock; the copy of day 10 arrives ten minutes early, that of day 11 never.\<close>

definition example_app :: appointment where
  "example_app = \<lparr>MinuteOfDay = 60, MedianSize = 100, GrowthPerDay = Fin 0, MedianResidual = Fin 0\<rparr>"

definition example_model :: key_model where
  "example_model = \<lparr>km_key_id = ''k'', km_timezone = ''UTC'', km_learned_at = of_unix 0,
     km_schedule = (\<lambda>_. [example_app]), km_reliable = True, km_review = False, km_reason = []\<rparr>"

definition example_copy :: observation where
  "example_copy = \<lparr>o_backup_id = ''a'', o_key_id = ''k'', o_at = of_unix (10 * 86400 + 3000), o_size = 100\<rparr>"

definition example_from :: time where "example_from = of_unix (11 * 86400)"
definition example_now :: time where "example_now = of_unix (11 * 86400 + 43200)"

definition example_slot :: "int \<Rightarrow> bool \<Rightarrow> check_slot" where
  "example_slot day r = \<lparr>cs_at = of_unix (day * 86400 + 3600), cs_app = example_app, cs_report = r\<rparr>"

lemma example_match:
  "matchAppointments example_model [example_copy] example_from example_now example_now UTC =
     ([example_slot 9 False, example_slot 10 False, example_slot 11 True], [example_copy], [1], [- 1, 0, - 1])"
  by code_simp

lemma example_finding:
  "\<lparr>f_stable_key = ''slot:k:1970-01-12T01:00:00Z'', f_kind = ''schedule_missing'', f_key_id = ''k'',
    f_backup_id = [], f_detail = ''copia attesa non ricevuta'', f_at = of_unix (11 * 86400 + 3600)\<rparr>
   \<in> set (checkWindow (\<lambda>_. Some UTC) example_model [example_copy] example_from example_now example_now)"
  by code_simp

theorem matchAppointments_maximum_witness:
  "valid_pairing example_model example_now
     [example_slot 9 False, example_slot 10 False, example_slot 11 True] [example_copy] (slot_pairs [example_copy] [1])"
  using matchAppointments_maximum [OF example_match] by blast


end
