(* ===== verification/Catalog.thy ===== *)
theory Catalog
  imports Policy_Match
begin

text \<open>
  The catalogue: the tables of the schema of internal/store/store.go as lists of rows in insertion
  order, each row a record with the columns of its table, and the automation_state and
  maintenance_leases rows. A store operation is one immediate transaction: it answers an error, which
  rolls everything back, or its result with the new catalogue. AUTOINCREMENT counters are kept;
  UNIQUE, FOREIGN KEY and CHECK constraints that an operation can violate are explicit branches.
  rowids of the table backups are the positions of its rows, since no row of it is ever deleted.
\<close>

record key_row =
  kr_id :: string
  kr_name :: string
  kr_token_hash :: string
  kr_profile :: string
  kr_revoked :: bool

record attempt =
  ua_key_id :: string
  ua_backup_id :: string
  ua_at :: seconds

record automation =
  a_enabled :: bool
  a_mail_tested :: bool
  a_state :: monitoring_state
  a_deletion_blocked :: bool
  a_block_reason :: string
  a_manual_paused :: bool
  a_manual_pause_reason :: string
  a_activation_pending :: bool
  a_activation_required :: bool
  a_resume_pending :: bool
  a_resume_requested_at :: seconds
  a_mail_config_version :: int
  a_timezone :: string
  a_retention_days :: int
  a_threshold :: int
  a_reserve_free :: int
  a_model_revision :: int
  a_last_check_at :: seconds
  a_next_report_at :: seconds
  a_smtp_host :: string
  a_smtp_port :: int
  a_smtp_tls :: bool
  a_mail_from :: string
  a_mail_to :: string

text \<open>\<open>model_json\<close> is the model it decodes to, or nothing when json.Unmarshal rejects it.\<close>

record monitoring_model =
  mm_key_id :: string
  mm_revision :: int
  mm_learned_at :: seconds
  mm_timezone :: string
  mm_retention_days :: int
  mm_model :: "key_model option"
  mm_reliable :: bool
  mm_review :: bool

record anomaly =
  an_id :: int
  an_stable_key :: string
  an_kind :: string
  an_key_id :: string
  an_backup_id :: string
  an_detail :: string
  an_event_at :: seconds
  an_opened_at :: seconds
  an_last_seen_at :: seconds
  an_resolved_at :: seconds
  an_acknowledged_at :: seconds
  an_resolved_by :: string
  an_resolution_note :: string

record operation =
  op_id :: int
  op_backup_id :: string
  op_kind_of :: op_kind
  op_state_of :: op_state
  op_origin :: origin
  op_actor :: string
  op_reason :: string
  op_ticket_hash :: string
  op_revision :: int
  op_requested_at :: seconds
  op_authorized_at :: seconds
  op_completed_at :: seconds
  op_error :: string
  op_lease_generation :: int
  op_execution_committed :: bool

text \<open>The rows of anomaly_exclusion_kinds of an exclusion are the list \<open>ex_kinds\<close>.\<close>

record exclusion =
  ex_id :: int
  ex_source :: int
  ex_key_id :: string
  ex_starts_at :: seconds
  ex_ends_at :: seconds
  ex_actor :: string
  ex_reason :: string
  ex_created_at :: seconds
  ex_kinds :: "string list"

record mail =
  ml_id :: int
  ml_stable_id :: string
  ml_kind :: string
  ml_subject :: string
  ml_body :: string
  ml_created_at :: seconds
  ml_attempts :: nat
  ml_next_attempt_at :: seconds
  ml_claimed_at :: seconds
  ml_sent_at :: seconds
  ml_last_error :: string

datatype check_status = Running | CompletedClean | CompletedWithAnomalies | CheckFailed

record check_row =
  mc_id :: int
  mc_started_at :: seconds
  mc_finished_at :: "seconds option"
  mc_from :: seconds
  mc_to :: seconds
  mc_status :: check_status
  mc_summary :: string

record check_model =
  cm_check_id :: int
  cm_key_id :: string
  cm_revision :: int
  cm_from :: seconds
  cm_to :: seconds

record catalog =
  profiles :: "profile list"
  keys :: "key_row list"
  backups :: "backup list"
  attempts :: "attempt list"
  automation_state :: automation
  key_retention :: "(string \<times> int) list"
  models :: "monitoring_model list"
  anomalies :: "anomaly list"
  operations :: "operation list"
  exclusions :: "exclusion list"
  mail_queue :: "mail list"
  lease_row :: lease
  checks :: "check_row list"
  check_models :: "check_model list"
  seq_anomaly :: int
  seq_operation :: int
  seq_exclusion :: int
  seq_mail :: int
  seq_check :: int

text \<open>What the catalogue uses of code outside the program: the time zone database with its zone
  abbreviations, SHA-256 in hexadecimal (TokenHash and ticketHash), and the validation of mail
  addresses by net/mail.\<close>

record env =
  LoadLocation :: tzdb
  zone_abbrev :: "string \<Rightarrow> seconds \<Rightarrow> string"
  TokenHash :: "string \<Rightarrow> string"
  ParseAddress_ok :: "string \<Rightarrow> bool"
  ParseAddressList_ok :: "string \<Rightarrow> bool"

type_synonym 'a tx = "error + 'a \<times> catalog"

definition initial_automation :: automation where
  "initial_automation = \<lparr>a_enabled = True, a_mail_tested = False, a_state = MonitoringLearning,
     a_deletion_blocked = True, a_block_reason = ''automazione non configurata'', a_manual_paused = False,
     a_manual_pause_reason = [], a_activation_pending = True, a_activation_required = True,
     a_resume_pending = False, a_resume_requested_at = 0, a_mail_config_version = 1, a_timezone = [],
     a_retention_days = 7, a_threshold = 8000, a_reserve_free = 0, a_model_revision = 0,
     a_last_check_at = 0, a_next_report_at = 0, a_smtp_host = [], a_smtp_port = 0, a_smtp_tls = True,
     a_mail_from = [], a_mail_to = []\<rparr>"

definition Init :: catalog where
  "Init = \<lparr>profiles = DefaultProfiles, keys = [], backups = [], attempts = [],
     automation_state = initial_automation, key_retention = [], models = [], anomalies = [],
     operations = [], exclusions = [], mail_queue = [], lease_row = \<lparr>l_owner = [], l_generation = 0, l_expires_at = 0\<rparr>,
     checks = [], check_models = [], seq_anomaly = 0, seq_operation = 0, seq_exclusion = 0, seq_mail = 0, seq_check = 0\<rparr>"

subsection \<open>Queries\<close>

definition find_backup :: "catalog \<Rightarrow> string \<Rightarrow> backup option" where
  "find_backup c i = List.find (\<lambda>b. b_id b = i) (backups c)"

definition find_key :: "catalog \<Rightarrow> string \<Rightarrow> key_row option" where
  "find_key c i = List.find (\<lambda>k. kr_id k = i) (keys c)"

definition find_profile :: "catalog \<Rightarrow> string \<Rightarrow> profile option" where
  "find_profile c n = List.find (\<lambda>p. Name p = n) (profiles c)"

definition Operation :: "catalog \<Rightarrow> int \<Rightarrow> operation option" where
  "Operation c i = List.find (\<lambda>o'. op_id o' = i) (operations c)"

definition active_op :: "operation \<Rightarrow> bool" where
  "active_op o' \<longleftrightarrow> op_state_of o' = Requested \<or> op_state_of o' = Authorized"

definition retention_blocked :: "automation \<Rightarrow> bool" where
  "retention_blocked a \<longleftrightarrow> a_deletion_blocked a \<or> a_manual_paused a \<or> a_activation_required a
     \<or> a_resume_pending a \<or> \<not> a_enabled a \<or> \<not> a_mail_tested a"

definition shown_reason :: "automation \<Rightarrow> string" where
  "shown_reason a = (if a_manual_paused a then a_manual_pause_reason a else a_block_reason a)"

definition days_for_key :: "catalog \<Rightarrow> string \<Rightarrow> int" where
  "days_for_key c k = (case map_of (key_retention c) k of Some d \<Rightarrow> d | None \<Rightarrow> a_retention_days (automation_state c))"

definition authorized_count :: "catalog \<Rightarrow> nat" where
  "authorized_count c = count_where (\<lambda>o'. op_state_of o' = Authorized) (operations c)"

definition active_count :: "catalog \<Rightarrow> nat" where
  "active_count c = count_where active_op (operations c)"

definition receiving_count :: "catalog \<Rightarrow> nat" where
  "receiving_count c = count_where (\<lambda>b. b_status b = BackupReceiving) (backups c)"

definition acknowledged_missing :: "catalog \<Rightarrow> string \<Rightarrow> bool" where
  "acknowledged_missing c i \<longleftrightarrow>
     0 < count_where (\<lambda>a. an_kind a = ''file_missing'' \<and> an_backup_id a = i \<and> an_acknowledged_at a \<noteq> 0) (anomalies c)"

abbreviation set_automation :: "(automation \<Rightarrow> automation) \<Rightarrow> catalog \<Rightarrow> catalog" where
  "set_automation f c \<equiv> c\<lparr>automation_state := f (automation_state c)\<rparr>"

definition set_backup :: "string \<Rightarrow> status \<Rightarrow> (backup \<Rightarrow> backup) \<Rightarrow> catalog \<Rightarrow> catalog option" where
  "set_backup i st f c =
     (if count_where (\<lambda>b. b_id b = i \<and> b_status b = st) (backups c) = 1
      then Some (c\<lparr>backups := update_where (\<lambda>b. b_id b = i \<and> b_status b = st) f (backups c)\<rparr>)
      else None)"

definition set_operation :: "int \<Rightarrow> (operation \<Rightarrow> operation) \<Rightarrow> catalog \<Rightarrow> catalog" where
  "set_operation i f c = c\<lparr>operations := update_where (\<lambda>o'. op_id o' = i) f (operations c)\<rparr>"

text \<open>INSERT INTO mail_queue: the stable identifier is unique.\<close>

definition insert_mail :: "string \<Rightarrow> string \<Rightarrow> string \<Rightarrow> string \<Rightarrow> time \<Rightarrow> catalog \<Rightarrow> error + catalog" where
  "insert_mail stableID kind subject body now c =
     (if list_ex (\<lambda>m. ml_stable_id m = stableID) (mail_queue c) then Inl ErrConstraint
      else Inr (c\<lparr>mail_queue := mail_queue c @ [\<lparr>ml_id = seq_mail c + 1, ml_stable_id = stableID, ml_kind = kind,
                    ml_subject = subject, ml_body = body, ml_created_at = unix now, ml_attempts = 0,
                    ml_next_attempt_at = unix now, ml_claimed_at = 0, ml_sent_at = 0, ml_last_error = []\<rparr>],
                  seq_mail := seq_mail c + 1\<rparr>))"

text \<open>INSERT INTO retention_operations: at most one active row per backup.\<close>

definition new_operation :: "catalog \<Rightarrow> string \<Rightarrow> op_kind \<Rightarrow> origin \<Rightarrow> string \<Rightarrow> string \<Rightarrow> time \<Rightarrow> operation" where
  "new_operation c backupID kind orig actor reason now =
     \<lparr>op_id = seq_operation c + 1, op_backup_id = backupID, op_kind_of = kind, op_state_of = Requested,
      op_origin = orig, op_actor = actor, op_reason = reason, op_ticket_hash = [],
      op_revision = a_model_revision (automation_state c), op_requested_at = unix now, op_authorized_at = 0,
      op_completed_at = 0, op_error = [], op_lease_generation = 0, op_execution_committed = False\<rparr>"

definition insert_operation :: "operation \<Rightarrow> catalog \<Rightarrow> error + catalog" where
  "insert_operation o' c =
     (if list_ex (\<lambda>x. active_op x \<and> op_backup_id x = op_backup_id o') (operations c) then Inl ErrConstraint
      else Inr (c\<lparr>operations := operations c @ [o'], seq_operation := seq_operation c + 1\<rparr>))"

end
