(* ===== verification/Store_Anomaly.thy ===== *)
theory Store_Anomaly
  imports Catalog
begin

text \<open>
  Anomalies, administrative exclusions and the mail queue: the second half of
  internal/store/retention.go and internal/store/mail_anomaly.go. Opening an anomaly is idempotent per
  stable key, blocks destructive retention when its kind does, and queues exactly one message;
  clearing a block is possible only where nothing else still holds it.
\<close>

definition excludable :: "string \<Rightarrow> bool" where
  "excludable kind \<longleftrightarrow> kind = ''upload'' \<or> kind = ''time'' \<or> kind = ''schedule_missing'' \<or> kind = ''extra''"

definition open_anomaly :: "anomaly \<Rightarrow> bool" where
  "open_anomaly a \<longleftrightarrow> an_resolved_at a = 0"

definition covers :: "exclusion \<Rightarrow> string \<Rightarrow> string \<Rightarrow> seconds \<Rightarrow> bool" where
  "covers e keyID kind t \<longleftrightarrow> ex_key_id e = keyID \<and> kind \<in> set (ex_kinds e) \<and> ex_starts_at e \<le> t \<and> t \<le> ex_ends_at e"

definition anomalyExcludedTx :: "catalog \<Rightarrow> string \<Rightarrow> string \<Rightarrow> time \<Rightarrow> bool" where
  "anomalyExcludedTx c keyID kind eventAt \<longleftrightarrow>
     (if keyID = [] \<or> \<not> excludable kind then False
      else 0 < count_where (\<lambda>e. covers e keyID kind (unix eventAt)) (exclusions c))"

text \<open>INSERT INTO anomalies: at most one open row per stable key.\<close>

definition insert_anomaly :: "anomaly \<Rightarrow> catalog \<Rightarrow> error + catalog" where
  "insert_anomaly a c =
     (if open_anomaly a \<and> list_ex (\<lambda>x. open_anomaly x \<and> an_stable_key x = an_stable_key a) (anomalies c)
      then Inl ErrConstraint
      else Inr (c\<lparr>anomalies := anomalies c @ [a\<lparr>an_id := seq_anomaly c + 1\<rparr>], seq_anomaly := seq_anomaly c + 1\<rparr>))"

definition recordExcludedAnomalyTx :: "string \<Rightarrow> string \<Rightarrow> string \<Rightarrow> string \<Rightarrow> string \<Rightarrow> time \<Rightarrow> time \<Rightarrow> catalog \<Rightarrow> error + catalog" where
  "recordExcludedAnomalyTx stableKey kind keyID backupID detail eventAt now c =
     (case rev (filter (\<lambda>e. covers e keyID kind (unix eventAt)) (exclusions c)) of
        [] \<Rightarrow> Inl ErrNoRows
      | e # _ \<Rightarrow>
          (let note = ''esclusione amministrativa '' @ show_int (ex_id e) @ '': '' @ ex_reason e;
               P = (\<lambda>a. an_stable_key a = stableKey \<and> \<not> open_anomaly a \<and> an_resolution_note a = note) in
           if count_where P (anomalies c) \<noteq> 0
           then Inr (c\<lparr>anomalies := update_where P (\<lambda>a. a\<lparr>an_last_seen_at := unix now, an_detail := detail\<rparr>) (anomalies c)\<rparr>)
           else insert_anomaly \<lparr>an_id = 0, an_stable_key = stableKey, an_kind = kind, an_key_id = keyID,
                  an_backup_id = backupID, an_detail = detail, an_event_at = unix eventAt, an_opened_at = unix now,
                  an_last_seen_at = unix now, an_resolved_at = unix now, an_acknowledged_at = unix now,
                  an_resolved_by = ex_actor e, an_resolution_note = note\<rparr> c))"

definition same_kind_open :: "catalog \<Rightarrow> string \<Rightarrow> string \<Rightarrow> time \<Rightarrow> nat" where
  "same_kind_open c kind keyID now =
     count_where (\<lambda>a. open_anomaly a \<and> an_kind a = kind \<and> an_key_id a = keyID
       \<and> an_event_at a \<ge> unix (AddDate UTC now (- 14))) (anomalies c)"

definition anomalyBlocksTx :: "catalog \<Rightarrow> string \<Rightarrow> string \<Rightarrow> string \<Rightarrow> time \<Rightarrow> bool" where
  "anomalyBlocksTx c stableKey kind keyID now =
     (if kind = ''extra'' \<or> IsQuarantineMarginWarning kind stableKey then False
      else if \<not> excludable kind then True
      else same_kind_open c kind keyID now \<ge> 2)"

definition anomaly_reason :: "string \<Rightarrow> string" where
  "anomaly_reason detail = ''anomalia: '' @ detail"

definition blockForAnomalyTx :: "string \<Rightarrow> catalog \<Rightarrow> catalog" where
  "blockForAnomalyTx detail c = set_automation (\<lambda>a. a\<lparr>a_deletion_blocked := True, a_state := MonitoringAnomaly,
     a_block_reason := anomaly_reason detail, a_activation_pending := False, a_resume_pending := False,
     a_resume_requested_at := 0\<rparr>) c"

definition anomaly_blocking :: "catalog \<Rightarrow> time \<Rightarrow> anomaly \<Rightarrow> bool" where
  "anomaly_blocking c now a \<longleftrightarrow> open_anomaly a \<and> \<not> IsQuarantineMarginWarning (an_kind a) (an_stable_key a)
     \<and> (\<not> excludable (an_kind a)
        \<or> (an_kind a \<noteq> ''extra'' \<and> same_kind_open c (an_kind a) (an_key_id a) now \<ge> 2))"

definition blockingAnomalyCountTx :: "catalog \<Rightarrow> time \<Rightarrow> nat" where
  "blockingAnomalyCountTx c now = count_where (anomaly_blocking c now) (anomalies c)"

subsection \<open>Mail texts\<close>

definition o_grave :: string where "o_grave = [CHR 0xC3, CHR 0xB2]"

definition anomalyMail :: "string \<Rightarrow> string \<Rightarrow> string \<Rightarrow> string \<times> string" where
  "anomalyMail stableKey kind detail =
     (if IsQuarantineMarginWarning kind stableKey
      then (''OnlyBackup: AVVISO NON BLOCCANTE - margine di spazio'',
            detail @ [CHR 10] @ ''La retention pu'' @ o_grave
            @ '' proseguire per liberare spazio; restano validi gli altri blocchi e le protezioni delle copie.'')
      else if kind = ''extra''
      then (''OnlyBackup: AVVISO NON BLOCCANTE - copie eccedenti'',
            detail @ [CHR 10] @ ''Questa anomalia non sospende la retention; eventuali altri blocchi restano validi.'')
      else (''OnlyBackup: nuova anomalia'', detail))"

definition Format_RFC3339Nano :: "time \<Rightarrow> string" where
  "Format_RFC3339Nano t =
     (let (y, m, d) = civil_date (civil_day UTC t); ns = t mod second in
      pad 4 y @ ''-'' @ pad 2 m @ ''-'' @ pad 2 d @ ''T'' @ clock_text (second_of_day UTC t)
      @ (if ns = 0 then [] else ''.'' @ rev (dropWhile (\<lambda>ch. ch = CHR ''0'') (rev (pad 9 ns)))) @ ''Z'')"

definition Format_mail :: "location \<Rightarrow> string \<Rightarrow> time \<Rightarrow> string" where
  "Format_mail loc abbrev t =
     (let (y, m, d) = civil_date (civil_day loc t); s = second_of_day loc t in
      pad 2 d @ ''/'' @ pad 2 m @ ''/'' @ pad 4 y @ '' '' @ pad 2 (s div 3600) @ '':'' @ pad 2 (s div 60 mod 60)
      @ '' '' @ abbrev)"

text \<open>ORDER BY julianday(received_at) DESC, received_at DESC: SQLite reads the text to the millisecond;
  a text it cannot read has a NULL julianday and comes last.\<close>

definition receipt_rank :: "stamp \<Rightarrow> bool \<times> int \<times> string" where
  "receipt_rank s = (case s of Stamp t \<Rightarrow> (True, (t + 500000) div 1000000, Format_RFC3339Nano t)
     | BadStamp x \<Rightarrow> (False, 0, x) | NoStamp \<Rightarrow> (False, 0, []))"

definition receipt_status :: "status \<Rightarrow> bool" where
  "receipt_status s \<longleftrightarrow> s = BackupComplete \<or> s = BackupDeleting \<or> s = BackupQuarantined \<or> s = BackupPurging \<or> s = BackupDeleted"

definition missingBackupMailTx :: "env \<Rightarrow> catalog \<Rightarrow> string \<Rightarrow> time \<Rightarrow> string \<times> string" where
  "missingBackupMailTx E c keyID expectedAt =
     (let name = (case find_key c keyID of Some k \<Rightarrow> kr_name k | None \<Rightarrow> keyID);
          timezone = a_timezone (automation_state c);
          receipts = rev (sort_key receipt_rank (map b_received_at (filter (\<lambda>b. b_key_id b = keyID
            \<and> b_received_at b \<noteq> NoStamp \<and> receipt_status (b_status b)) (backups c))));
          (zone, abbrev) = (case LoadLocation E timezone of
              Some loc \<Rightarrow> if timezone = [] then (UTC, \<lambda>_. ''UTC'') else (loc, \<lambda>t. zone_abbrev E timezone (unix t))
            | None \<Rightarrow> (UTC, \<lambda>_. ''UTC''));
          latest = (case receipts of [] \<Rightarrow> ''nessuna''
            | Stamp t # _ \<Rightarrow> Format_mail zone (abbrev t) t | BadStamp x # _ \<Rightarrow> x | NoStamp # _ \<Rightarrow> ''nessuna'')
      in (''OnlyBackup: backup mancante | '' @ name,
          name @ '': backup del '' @ Format_mail zone (abbrev expectedAt) expectedAt @ '' non ricevuto.'' @ [CHR 10]
          @ ''Ultima ricevuta: '' @ latest @ ''.'' @ [CHR 10] @ ''Verifica server e invio del client.''))"

subsection \<open>Opening and resolving\<close>

definition new_anomaly :: "string \<Rightarrow> string \<Rightarrow> string \<Rightarrow> string \<Rightarrow> string \<Rightarrow> time \<Rightarrow> time \<Rightarrow> anomaly" where
  "new_anomaly stableKey kind keyID backupID detail eventAt now =
     \<lparr>an_id = 0, an_stable_key = stableKey, an_kind = kind, an_key_id = keyID, an_backup_id = backupID,
      an_detail = detail, an_event_at = unix eventAt, an_opened_at = unix now, an_last_seen_at = unix now,
      an_resolved_at = 0, an_acknowledged_at = 0, an_resolved_by = [], an_resolution_note = []\<rparr>"

definition openAnomalyAtTx :: "env \<Rightarrow> string \<Rightarrow> string \<Rightarrow> string \<Rightarrow> string \<Rightarrow> string \<Rightarrow> time \<Rightarrow> time \<Rightarrow> catalog \<Rightarrow> bool tx" where
  "openAnomalyAtTx E stableKey kind keyID backupID detail eventAt now c =
     (if blank stableKey \<or> blank kind \<or> blank detail then Inl (ErrMsg ''anomalia non valida'')
      else if anomalyExcludedTx c keyID kind eventAt
      then (case recordExcludedAnomalyTx stableKey kind keyID backupID detail eventAt now c of
              Inl e \<Rightarrow> Inl e | Inr c' \<Rightarrow> Inr (False, c'))
      else (let P = (\<lambda>a. an_stable_key a = stableKey \<and> open_anomaly a) in
        if count_where P (anomalies c) \<noteq> 0
        then Inr (False, c\<lparr>anomalies := update_where P (\<lambda>a. a\<lparr>an_last_seen_at := unix now, an_detail := detail\<rparr>) (anomalies c)\<rparr>)
        else (case insert_anomaly (new_anomaly stableKey kind keyID backupID detail eventAt now) c of
            Inl e \<Rightarrow> Inl e
          | Inr c1 \<Rightarrow>
              (let c2 = (if anomalyBlocksTx c1 stableKey kind keyID now then blockForAnomalyTx detail c1 else c1);
                   mailID = ''anomaly:'' @ stableKey @ '':'' @ show_int (unix now);
                   (subject, body) = (if kind = ''schedule_missing'' then missingBackupMailTx E c2 keyID eventAt
                                      else anomalyMail stableKey kind detail)
               in case insert_mail mailID ''anomaly'' subject body now c2 of
                    Inl e \<Rightarrow> Inl e | Inr c3 \<Rightarrow> Inr (True, c3)))))"

definition openAnomalyTx :: "env \<Rightarrow> string \<Rightarrow> string \<Rightarrow> string \<Rightarrow> string \<Rightarrow> string \<Rightarrow> time \<Rightarrow> catalog \<Rightarrow> error + catalog" where
  "openAnomalyTx E stableKey kind keyID backupID detail now c =
     (case openAnomalyAtTx E stableKey kind keyID backupID detail now now c of
        Inl e \<Rightarrow> Inl e | Inr (_, c') \<Rightarrow> Inr c')"

definition OpenAnomalyAt :: "env \<Rightarrow> string \<Rightarrow> string \<Rightarrow> string \<Rightarrow> string \<Rightarrow> string \<Rightarrow> time \<Rightarrow> time \<Rightarrow> catalog \<Rightarrow> bool tx" where
  "OpenAnomalyAt = openAnomalyAtTx"

definition OpenAnomaly :: "env \<Rightarrow> string \<Rightarrow> string \<Rightarrow> string \<Rightarrow> string \<Rightarrow> string \<Rightarrow> time \<Rightarrow> catalog \<Rightarrow> bool tx" where
  "OpenAnomaly E stableKey kind keyID backupID detail now = OpenAnomalyAt E stableKey kind keyID backupID detail now now"

definition ResolveAnomaly :: "string \<Rightarrow> time \<Rightarrow> catalog \<Rightarrow> bool tx" where
  "ResolveAnomaly stableKey now c =
     (case List.find (\<lambda>a. an_stable_key a = stableKey \<and> open_anomaly a) (anomalies c) of
        None \<Rightarrow> Inr (False, c)
      | Some a \<Rightarrow>
          (let c1 = c\<lparr>anomalies := update_where (\<lambda>x. an_stable_key x = stableKey \<and> open_anomaly x)
                 (\<lambda>x. x\<lparr>an_resolved_at := unix now\<rparr>) (anomalies c)\<rparr>;
               c2 = (if \<not> IsQuarantineMarginWarning (an_kind a) stableKey
                     then set_automation (\<lambda>s. s\<lparr>a_deletion_blocked := True, a_state := MonitoringPaused,
                            a_block_reason := ''anomalia risolta; retention resume richiesto''\<rparr>) c1
                     else c1)
           in case insert_mail (''resolved:'' @ stableKey @ '':'' @ show_int (unix now)) ''resolution''
                     ''OnlyBackup: anomalia risolta'' stableKey now c2 of
                Inl e \<Rightarrow> Inl e | Inr c3 \<Rightarrow> Inr (True, c3)))"

definition maintenance_key :: "int \<Rightarrow> string" where
  "maintenance_key operationID = ''maintenance-operation:'' @ show_int operationID"

definition uncertain_key :: "int \<Rightarrow> string" where
  "uncertain_key operationID = ''operation-uncertain:'' @ show_int operationID"

definition resolveMaintenanceOperationTx :: "int \<Rightarrow> time \<Rightarrow> bool \<Rightarrow> catalog \<Rightarrow> bool tx" where
  "resolveMaintenanceOperationTx operationID now finished c =
     (let stableKey = (if finished then maintenance_key operationID else uncertain_key operationID);
          subject = (if finished then ''OnlyBackup: errore di manutenzione risolto''
                     else ''OnlyBackup: esito di manutenzione chiarito'');
          prefix = (if finished then ''maintenance-resolved'' else ''maintenance-clarified'');
          note = (if finished then ''operazione completata o annullata; errore operativo chiuso''
                  else ''stato fisico verificato; ripresa possibile'');
          P = (\<lambda>a. (an_stable_key a = stableKey \<or> an_stable_key a = uncertain_key operationID)
                 \<and> an_kind a = ''maintenance'' \<and> open_anomaly a) in
      if count_where P (anomalies c) = 0 then Inr (False, c)
      else (let c1 = c\<lparr>anomalies := update_where P (\<lambda>a. a\<lparr>an_resolved_at := unix now, an_resolved_by := ''automatic'',
                        an_resolution_note := note\<rparr>) (anomalies c)\<rparr>
            in case insert_mail (prefix @ '':'' @ show_int operationID @ '':'' @ show_int (unix now)) ''resolution''
                      subject stableKey now c1 of
                 Inl e \<Rightarrow> Inl e | Inr c2 \<Rightarrow> Inr (True, c2)))"

definition recent_check :: "automation \<Rightarrow> time \<Rightarrow> bool" where
  "recent_check a now \<longleftrightarrow> \<not> (a_last_check_at a = 0 \<or> a_last_check_at a > unix now + 1
     \<or> unix now - a_last_check_at a > 600)"

definition TryClearResolvedMaintenanceBlock :: "int \<Rightarrow> time \<Rightarrow> catalog \<Rightarrow> bool tx" where
  "TryClearResolvedMaintenanceBlock operationID now c =
     (if operationID \<le> 0 then Inl (ErrMsg ''operazione di manutenzione non valida'')
      else (let st = automation_state c in
        case rev (filter (\<lambda>a. (an_stable_key a = maintenance_key operationID \<or> an_stable_key a = uncertain_key operationID)
                 \<and> an_kind a = ''maintenance'' \<and> \<not> open_anomaly a \<and> an_resolved_by a = ''automatic''
                 \<and> anomaly_reason (an_detail a) = a_block_reason st) (anomalies c)) of
          [] \<Rightarrow> Inr (False, c)
        | a # _ \<Rightarrow>
            if \<not> retention_blocked st \<or> a_block_reason st \<noteq> anomaly_reason (an_detail a)
               \<or> a_state st \<noteq> MonitoringRegular \<or> a_model_revision st = 0 \<or> \<not> recent_check st now
            then Inr (False, c)
            else if blockingAnomalyCountTx c now \<noteq> 0 \<or> authorized_count c \<noteq> 0
               \<or> count_where (\<lambda>o'. op_state_of o' = Cancelled \<and> op_completed_at o' \<ge> an_opened_at a) (operations c) \<noteq> 0
            then Inr (False, c)
            else if \<not> a_manual_paused st \<and> \<not> a_resume_pending st \<and> a_deletion_blocked st
               \<and> a_block_reason st = anomaly_reason (an_detail a)
            then Inr (True, set_automation (\<lambda>s. s\<lparr>a_deletion_blocked := False, a_block_reason := []\<rparr>) c)
            else Inr (False, c)))"

definition AcknowledgeMissingAnomaly :: "int \<Rightarrow> time \<Rightarrow> catalog \<Rightarrow> unit tx" where
  "AcknowledgeMissingAnomaly i now c =
     (case List.find (\<lambda>a. an_id a = i \<and> open_anomaly a) (anomalies c) of
        None \<Rightarrow> Inl ErrNoRows
      | Some a \<Rightarrow>
          if an_kind a \<noteq> ''file_missing''
          then Inl (ErrMsg ''solo una copia definitivamente mancante puo essere riconosciuta'')
          else if \<not> recent_check (automation_state c) now then Inl (ErrMsg ''serve un controllo recente'')
          else (let c1 = c\<lparr>anomalies := update_where (\<lambda>x. an_id x = i \<and> open_anomaly x)
                       (\<lambda>x. x\<lparr>an_acknowledged_at := unix now, an_resolved_at := unix now\<rparr>) (anomalies c)\<rparr>;
                    c2 = set_automation (\<lambda>s. s\<lparr>a_deletion_blocked := True, a_state := MonitoringPaused,
                       a_block_reason := ''copia mancante riconosciuta; retention resume richiesto'',
                       a_activation_pending := False, a_resume_pending := False, a_resume_requested_at := 0\<rparr>) c1
                in case insert_mail (''acknowledged:'' @ an_stable_key a @ '':'' @ show_int (unix now)) ''resolution''
                          ''OnlyBackup: copia mancante riconosciuta'' (an_stable_key a) now c2 of
                     Inl e \<Rightarrow> Inl e | Inr c3 \<Rightarrow> Inr ((), c3)))"

definition week_ns :: int where "week_ns = 7 * 24 * hour_ns"

fun bad_kind :: "string list \<Rightarrow> string list \<Rightarrow> string option" where
  "bad_kind seen [] = None"
| "bad_kind seen (k # ks) = (if \<not> excludable k \<or> k \<in> set seen then Some k else bad_kind (k # seen) ks)"

text \<open>The guard \<open>block_reason LIKE 'anomalia:%'\<close> is a prefix test: the reasons the program writes are
  lower case.\<close>

definition CreateAnomalyExclusion :: "int \<Rightarrow> time \<Rightarrow> time \<Rightarrow> string \<Rightarrow> string \<Rightarrow> string list \<Rightarrow> time \<Rightarrow> catalog \<Rightarrow> exclusion tx" where
  "CreateAnomalyExclusion sourceID startsAt endsAt actor0 reason0 kinds now c =
     (let actor = trim_space actor0; reason = trim_space reason0 in
      if sourceID \<le> 0 \<or> actor = [] \<or> reason = [] \<or> endsAt < startsAt \<or> time_Sub endsAt startsAt > week_ns \<or> kinds = []
      then Inl (ErrMsg ''esclusione anomalia non valida o superiore a sette giorni'')
      else if bad_kind [] kinds \<noteq> None
      then Inl (ErrMsg (''tipo anomalia non escludibile o duplicato: '' @ the (bad_kind [] kinds)))
      else (case List.find (\<lambda>a. an_id a = sourceID) (anomalies c) of
          None \<Rightarrow> Inl ErrNoRows
        | Some src \<Rightarrow>
            if an_key_id src = [] \<or> an_event_at src < unix startsAt \<or> an_event_at src > unix endsAt
            then Inl (ErrMsg ''l'intervallo deve contenere l'anomalia originaria associata a una chiave'')
            else if list_ex (\<lambda>e. ex_source e = sourceID) (exclusions c) \<or> find_key c (an_key_id src) = None
            then Inl ErrConstraint
            else (let e = \<lparr>ex_id = seq_exclusion c + 1, ex_source = sourceID, ex_key_id = an_key_id src,
                        ex_starts_at = unix startsAt, ex_ends_at = unix endsAt, ex_actor = actor, ex_reason = reason,
                        ex_created_at = unix now, ex_kinds = kinds\<rparr>;
                      c1 = c\<lparr>exclusions := exclusions c @ [e], seq_exclusion := seq_exclusion c + 1,
                             anomalies := update_where (\<lambda>a. open_anomaly a \<and> covers e (an_key_id a) (an_kind a) (an_event_at a))
                               (\<lambda>a. a\<lparr>an_resolved_at := unix now, an_acknowledged_at := unix now, an_resolved_by := actor,
                                      an_resolution_note := reason\<rparr>) (anomalies c)\<rparr>;
                      c2 = (if blockingAnomalyCountTx c1 now = 0 \<and> authorized_count c1 = 0
                               \<and> has_prefix (a_block_reason (automation_state c1)) ''anomalia:''
                            then set_automation (\<lambda>s. s\<lparr>a_deletion_blocked := False, a_state := MonitoringRegular,
                                   a_block_reason := []\<rparr>) c1
                            else c1)
                  in Inr (e, c2))))"

subsection \<open>The mail queue\<close>

definition QueueReport :: "string \<Rightarrow> string \<Rightarrow> string \<Rightarrow> time \<Rightarrow> catalog \<Rightarrow> unit tx" where
  "QueueReport stableID subject body now c =
     (case insert_mail stableID ''report'' subject body now c of Inl _ \<Rightarrow> Inr ((), c) | Inr c' \<Rightarrow> Inr ((), c'))"

definition report_delay :: int where "report_delay = 72 * 3600"

definition QueuePeriodicReport :: "string \<Rightarrow> string \<Rightarrow> string \<Rightarrow> time \<Rightarrow> catalog \<Rightarrow> unit tx" where
  "QueuePeriodicReport stableID subject body now c =
     (case QueueReport stableID subject body now c of
        Inl e \<Rightarrow> Inl e
      | Inr (_, c') \<Rightarrow> Inr ((), set_automation (\<lambda>s. s\<lparr>a_next_report_at := unix now + report_delay\<rparr>) c'))"

definition DueMail :: "time \<Rightarrow> int \<Rightarrow> catalog \<Rightarrow> mail list res" where
  "DueMail now limit c =
     (if limit < 1 \<or> limit > 100 then Inl (ErrMsg ''limite coda mail non valido'')
      else Inr (take (nat limit) (filter (\<lambda>m. ml_sent_at m = 0 \<and> ml_next_attempt_at m \<le> unix now) (mail_queue c))))"

text \<open>The retry delay \<open>time.Minute << min(attempts, 8)\<close>, in seconds.\<close>

definition retry_delay :: "nat \<Rightarrow> int" where
  "retry_delay n = 60 * 2 ^ min n 8"

definition ConfirmMail :: "int \<Rightarrow> string \<Rightarrow> int \<Rightarrow> time \<Rightarrow> catalog \<Rightarrow> unit tx" where
  "ConfirmMail i sendErr configVersion now c =
     (case List.find (\<lambda>m. ml_id m = i) (mail_queue c) of
        None \<Rightarrow> Inl ErrNoRows
      | Some m \<Rightarrow>
          if ml_sent_at m \<noteq> 0 then Inr ((), c)
          else (let P = (\<lambda>x. ml_id x = i \<and> ml_sent_at x = 0) in
            if sendErr = []
            then (let c1 = c\<lparr>mail_queue := update_where P (\<lambda>x. x\<lparr>ml_sent_at := unix now, ml_last_error := []\<rparr>) (mail_queue c)\<rparr>
                  in if configVersion > 0 \<and> has_prefix (ml_stable_id m) ''mail-test:''
                        \<and> a_mail_config_version (automation_state c1) = configVersion
                     then Inr ((), set_automation (\<lambda>s. s\<lparr>a_mail_tested := True,
                            a_next_report_at := (if a_next_report_at s = 0 then unix now + report_delay else a_next_report_at s)\<rparr>) c1)
                     else Inr ((), c1))
            else Inr ((), c\<lparr>mail_queue := update_where P (\<lambda>x. x\<lparr>ml_attempts := ml_attempts x + 1,
                    ml_next_attempt_at := unix now + retry_delay (ml_attempts m), ml_last_error := sendErr\<rparr>) (mail_queue c)\<rparr>)))"

end
