(* ===== verification/Store_Deposit.thy ===== *)
theory Store_Deposit
  imports Store_Anomaly
begin

text \<open>
  The administrative and deposit operations of internal/store/store.go: profiles, keys, the
  reservation of an upload with its limits and idempotency, its completion or failure, and the
  monitoring verdict drawn when a copy arrives. Random identifiers and tokens are arguments.
\<close>

subsection \<open>Profiles and keys\<close>

definition PutProfile :: "profile \<Rightarrow> catalog \<Rightarrow> unit tx" where
  "PutProfile p c =
     (case Profile_Validate p of
        Inl e \<Rightarrow> Inl e
      | Inr _ \<Rightarrow>
          if list_ex (\<lambda>q. Name q = Name p) (profiles c)
          then Inr ((), c\<lparr>profiles := update_where (\<lambda>q. Name q = Name p) (\<lambda>_. p) (profiles c)\<rparr>)
          else Inr ((), c\<lparr>profiles := profiles c @ [p]\<rparr>))"

definition CreateKey :: "env \<Rightarrow> string res \<Rightarrow> string res \<Rightarrow> string \<Rightarrow> string \<Rightarrow> catalog \<Rightarrow> (key \<times> string) tx" where
  "CreateKey E newID newToken name prof c =
     (if blank name \<or> length name > 255 then Inl (ErrMsg ''nome chiave obbligatorio, massimo 255 byte'')
      else (case newID of Inl e \<Rightarrow> Inl e | Inr i \<Rightarrow>
        (case newToken of Inl e \<Rightarrow> Inl e | Inr token \<Rightarrow>
          if list_ex (\<lambda>k. kr_id k = i \<or> kr_token_hash k = TokenHash E token) (keys c) \<or> find_profile c prof = None
          then Inl ErrConstraint
          else Inr ((\<lparr>k_id = i, k_name = name, k_profile = prof, k_revoked = False\<rparr>, token),
                    c\<lparr>keys := keys c @ [\<lparr>kr_id = i, kr_name = name, kr_token_hash = TokenHash E token,
                                         kr_profile = prof, kr_revoked = False\<rparr>]\<rparr>))))"

definition requested_backups :: "op_kind \<Rightarrow> catalog \<Rightarrow> string list" where
  "requested_backups kind c =
     map op_backup_id (filter (\<lambda>o'. op_state_of o' = Requested \<and> op_kind_of o' = kind) (operations c))"

fun resolve_all :: "int list \<Rightarrow> time \<Rightarrow> catalog \<Rightarrow> error + catalog" where
  "resolve_all [] now c = Inr c"
| "resolve_all (i # is) now c =
     (case resolveMaintenanceOperationTx i now True c of
        Inl e \<Rightarrow> Inl e | Inr (_, c') \<Rightarrow> resolve_all is now c')"

definition revoked_cancellation :: "string \<Rightarrow> catalog \<Rightarrow> operation \<Rightarrow> bool" where
  "revoked_cancellation keyID c o' \<longleftrightarrow> op_state_of o' = Requested
     \<and> (op_kind_of o' = Quarantine \<or> op_kind_of o' = Purge)
     \<and> op_backup_id o' \<in> set (map b_id (filter (\<lambda>b. b_key_id b = keyID) (backups c)))"

definition Revoke :: "string \<Rightarrow> time \<Rightarrow> catalog \<Rightarrow> unit tx" where
  "Revoke keyID now c =
     (if count_where (\<lambda>k. kr_id k = keyID) (keys c) = 0 then Inl ErrNoRows
      else (let c1 = c\<lparr>keys := update_where (\<lambda>k. kr_id k = keyID) (\<lambda>k. k\<lparr>kr_revoked := True\<rparr>) (keys c)\<rparr>;
                c2 = c1\<lparr>backups := update_where (\<lambda>b. b_key_id b = keyID \<and> b_status b = BackupDeleting
                        \<and> b_id b \<in> set (requested_backups Quarantine c1)) (\<lambda>b. b\<lparr>b_status := BackupComplete\<rparr>) (backups c1)\<rparr>;
                c3 = c2\<lparr>backups := update_where (\<lambda>b. b_key_id b = keyID \<and> b_status b = BackupPurging
                        \<and> b_id b \<in> set (requested_backups Purge c2)) (\<lambda>b. b\<lparr>b_status := BackupQuarantined\<rparr>) (backups c2)\<rparr>;
                cancelled = map op_id (filter (revoked_cancellation keyID c3) (operations c3));
                c4 = c3\<lparr>operations := update_where (revoked_cancellation keyID c3)
                        (\<lambda>o'. o'\<lparr>op_state_of := Cancelled, op_ticket_hash := [], op_lease_generation := 0,
                                 op_completed_at := unix now, op_error := ''annullata automaticamente: chiave revocata''\<rparr>)
                        (operations c3)\<rparr>
            in case resolve_all cancelled now c4 of Inl e \<Rightarrow> Inl e | Inr c5 \<Rightarrow> Inr ((), c5)))"

definition Assign :: "string \<Rightarrow> string \<Rightarrow> catalog \<Rightarrow> unit tx" where
  "Assign keyID prof c =
     (if count_where (\<lambda>k. kr_id k = keyID) (keys c) = 0 then Inl ErrNoRows
      else if find_profile c prof = None then Inl ErrConstraint
      else Inr ((), c\<lparr>keys := update_where (\<lambda>k. kr_id k = keyID) (\<lambda>k. k\<lparr>kr_profile := prof\<rparr>) (keys c)\<rparr>))"

subsection \<open>Reservation\<close>

definition occupying :: "status \<Rightarrow> bool" where
  "occupying s \<longleftrightarrow> s = BackupReceiving \<or> s = BackupComplete \<or> s = BackupDeleting \<or> s = BackupQuarantined \<or> s = BackupPurging"

definition used_bytes :: "catalog \<Rightarrow> string \<Rightarrow> int" where
  "used_bytes c keyID = sum_where (\<lambda>b. b_key_id b = keyID \<and> occupying (b_status b)) b_size (backups c)"

definition active_uploads :: "catalog \<Rightarrow> string \<Rightarrow> int" where
  "active_uploads c keyID = int (count_where (\<lambda>b. b_key_id b = keyID \<and> b_status b = BackupReceiving) (backups c))"

definition day_before :: "time \<Rightarrow> seconds" where
  "day_before now = unix (now - 24 * hour_ns)"

definition attempts24h :: "catalog \<Rightarrow> string \<Rightarrow> time \<Rightarrow> int" where
  "attempts24h c keyID now = int (count_where (\<lambda>t. ua_key_id t = keyID \<and> ua_at t \<ge> day_before now) (attempts c))"

definition ReservedBytes :: "catalog \<Rightarrow> int" where
  "ReservedBytes c = sum_where (\<lambda>b. b_status b = BackupReceiving) b_size (backups c)"

definition MaxInt64 :: int where "MaxInt64 = 2 ^ 63 - 1"

definition authenticate :: "env \<Rightarrow> catalog \<Rightarrow> string \<Rightarrow> (string \<times> profile) option" where
  "authenticate E c token =
     (case List.find (\<lambda>k. kr_token_hash k = TokenHash E token \<and> \<not> kr_revoked k) (keys c) of
        None \<Rightarrow> None
      | Some k \<Rightarrow> (case find_profile c (kr_profile k) of None \<Rightarrow> None | Some p \<Rightarrow> Some (kr_id k, p)))"

text \<open>The verdict on an idempotency key: an error, a completed deposit to answer with, a failed one to
  resume, or nothing known.\<close>

datatype idem = IdemError error | IdemExisting backup | IdemResume string | IdemNew

definition idempotency :: "catalog \<Rightarrow> string \<Rightarrow> string \<Rightarrow> int \<Rightarrow> string \<Rightarrow> metadata \<Rightarrow> idem" where
  "idempotency c keyID idempotencyKey sz digest m =
     (if idempotencyKey = [] then IdemNew
      else (case List.find (\<lambda>b. b_key_id b = keyID \<and> b_idempotency_key b = idempotencyKey) (backups c) of
          None \<Rightarrow> IdemNew
        | Some b \<Rightarrow>
            if b_size b \<noteq> sz \<or> b_sha256 b \<noteq> digest \<or> b_metadata b \<noteq> m then IdemError ErrIdempotencyConflict
            else (case b_status b of
                BackupComplete \<Rightarrow> IdemExisting b
              | BackupReceiving \<Rightarrow> IdemError ErrIdempotencyInProgress
              | BackupFailed \<Rightarrow> IdemResume (b_id b)
              | _ \<Rightarrow> IdemError ErrIdempotencyUnavailable)))"

definition reservation :: "string \<Rightarrow> string \<Rightarrow> string \<Rightarrow> metadata \<Rightarrow> int \<Rightarrow> string \<Rightarrow> time \<Rightarrow> backup" where
  "reservation i keyID idempotencyKey m sz digest now =
     \<lparr>b_id = i, b_status = BackupReceiving, b_size = sz, b_sha256 = digest, b_received_at = NoStamp,
      b_key_id = keyID, b_idempotency_key = idempotencyKey, b_metadata = m, b_started_at = unix now,
      b_failure = [], b_quarantined_at = 0, b_purge_not_before = 0, b_purged_at = 0\<rparr>"

definition record_attempt :: "string \<Rightarrow> string \<Rightarrow> time \<Rightarrow> catalog \<Rightarrow> catalog" where
  "record_attempt keyID backupID now c =
     c\<lparr>attempts := filter (\<lambda>t. \<not> (ua_key_id t = keyID \<and> ua_at t < day_before now)) (attempts c)
         @ [\<lparr>ua_key_id = keyID, ua_backup_id = backupID, ua_at = unix now\<rparr>]\<rparr>"

definition store_reservation :: "string res \<Rightarrow> string option \<Rightarrow> backup \<Rightarrow> time \<Rightarrow> catalog \<Rightarrow> error + string \<times> catalog" where
  "store_reservation newID existing row now c =
     (case existing of
        Some i \<Rightarrow> Inr (i, c\<lparr>backups := update_where (\<lambda>b. b_id b = i \<and> b_status b = BackupFailed)
              (\<lambda>b. b\<lparr>b_status := BackupReceiving, b_started_at := unix now, b_received_at := NoStamp, b_failure := []\<rparr>)
              (backups c)\<rparr>)
      | None \<Rightarrow> (case newID of Inl e \<Rightarrow> Inl e | Inr i \<Rightarrow>
            if list_ex (\<lambda>b. b_id b = i) (backups c) then Inl ErrConstraint
            else Inr (i, c\<lparr>backups := backups c @ [row\<lparr>b_id := i\<rparr>]\<rparr>)))"

definition ReserveIdempotentChecked :: "env \<Rightarrow> string res \<Rightarrow> string \<Rightarrow> metadata \<Rightarrow> int \<Rightarrow> string \<Rightarrow> string \<Rightarrow> time
    \<Rightarrow> (int \<Rightarrow> error option) option \<Rightarrow> catalog \<Rightarrow> backup tx" where
  "ReserveIdempotentChecked E newID token m sz digest idempotencyKey now check c =
     (if \<not> ValidToken token then Inl ErrUnauthorized
      else (case Metadata_Validate m of Inl e \<Rightarrow> Inl e | Inr _ \<Rightarrow>
      if sz \<le> 0 \<or> \<not> ValidDigest digest then Inl ErrSize
      else if idempotencyKey \<noteq> [] \<and> \<not> ValidIdempotencyKey idempotencyKey then Inl ErrIdempotencyConflict
      else (case authenticate E c token of None \<Rightarrow> Inl ErrUnauthorized | Some (keyID, p) \<Rightarrow>
      (case idempotency c keyID idempotencyKey sz digest m of
         IdemError e \<Rightarrow> Inl e
       | IdemExisting b \<Rightarrow> Inr (b, c)
       | verdict \<Rightarrow>
           if sz > MaxBackupBytes p then Inl ErrSize
           else if used_bytes c keyID > TotalBytes p \<or> sz > TotalBytes p - used_bytes c keyID then Inl ErrQuota
           else if active_uploads c keyID \<ge> Concurrent p then Inl ErrConcurrent
           else if attempts24h c keyID now \<ge> UploadsPerDay p then Inl ErrRate
           else (case (case check of None \<Rightarrow> None
                   | Some f \<Rightarrow> if ReservedBytes c < 0 \<or> sz > MaxInt64 - ReservedBytes c
                               then Some (ErrMsg ''prenotazioni disco non valide'')
                               else f (ReservedBytes c + sz)) of
               Some e \<Rightarrow> Inl e
             | None \<Rightarrow>
                 (case store_reservation newID (case verdict of IdemResume i \<Rightarrow> Some i | _ \<Rightarrow> None)
                         (reservation [] keyID idempotencyKey m sz digest now) now c of
                    Inl e \<Rightarrow> Inl e
                  | Inr (i, c1) \<Rightarrow> Inr (reservation i keyID idempotencyKey m sz digest now,
                                        record_attempt keyID i now c1)))))))"

definition ReserveIdempotent :: "env \<Rightarrow> string res \<Rightarrow> string \<Rightarrow> metadata \<Rightarrow> int \<Rightarrow> string \<Rightarrow> string \<Rightarrow> time \<Rightarrow> catalog \<Rightarrow> backup tx" where
  "ReserveIdempotent E newID token m sz digest idempotencyKey now =
     ReserveIdempotentChecked E newID token m sz digest idempotencyKey now None"

definition Reserve :: "env \<Rightarrow> string res \<Rightarrow> string \<Rightarrow> metadata \<Rightarrow> int \<Rightarrow> string \<Rightarrow> time \<Rightarrow> catalog \<Rightarrow> backup tx" where
  "Reserve E newID token m sz digest now = ReserveIdempotent E newID token m sz digest [] now"

definition Quota :: "string \<Rightarrow> time \<Rightarrow> catalog \<Rightarrow> quota res" where
  "Quota keyID now c =
     (case find_key c keyID of None \<Rightarrow> Inl ErrNoRows
      | Some k \<Rightarrow> (case find_profile c (kr_profile k) of None \<Rightarrow> Inl ErrNoRows
          | Some p \<Rightarrow> Inr \<lparr>q_key_id = keyID, q_profile = p,
              q_used = sum_where (\<lambda>b. b_key_id b = keyID \<and> occupying (b_status b) \<and> b_status b \<noteq> BackupReceiving) b_size (backups c),
              q_reserved = sum_where (\<lambda>b. b_key_id b = keyID \<and> b_status b = BackupReceiving) b_size (backups c),
              q_active = active_uploads c keyID, q_attempts24h = attempts24h c keyID now\<rparr>))"

subsection \<open>Completion and failure\<close>

definition current_model :: "catalog \<Rightarrow> string \<Rightarrow> monitoring_model option" where
  "current_model c keyID = List.find (\<lambda>m. mm_key_id m = keyID
     \<and> mm_revision m = a_model_revision (automation_state c)) (models c)"

text \<open>The appointments of the three civil days around the arrival, each with its instant.\<close>

definition near_appointments :: "key_model \<Rightarrow> location \<Rightarrow> time \<Rightarrow> (appointment \<times> time) list" where
  "near_appointments learned loc now =
     concat (map (\<lambda>off. let day = AddDate loc (localMidnight now loc) off in
       map (\<lambda>app. (app, appointmentTime day (MinuteOfDay app) loc)) (km_schedule learned (Weekday loc day))) [- 1, 0, 1])"

fun nearest :: "time \<Rightarrow> (appointment \<times> time) list \<Rightarrow> appointment option \<Rightarrow> int \<Rightarrow> appointment option" where
  "nearest now [] best bestDistance = best"
| "nearest now ((app, t) # xs) best bestDistance =
     (let distance = \<bar>time_Sub now t\<bar> in
      if distance \<le> ScheduleTolerance \<and> distance < bestDistance then nearest now xs (Some app) distance
      else nearest now xs best bestDistance)"

definition arrival_size_deviates :: "key_model \<Rightarrow> appointment \<Rightarrow> int \<Rightarrow> time \<Rightarrow> bool" where
  "arrival_size_deviates learned app sz now =
     (let expected = f_add (f_of_int (MedianSize app)) (f_mul (GrowthPerDay app) (days_since now (km_learned_at learned)))
      in f_le expected (Fin 0) \<or> f_lt (f_of_int sz) (f_mul expected f_0_8) \<or> f_lt (f_mul expected f_1_2) (f_of_int sz))"

definition observations_of :: "catalog \<Rightarrow> string \<Rightarrow> observation list" where
  "observations_of c keyID =
     concat (map (\<lambda>b. case b_received_at b of
         Stamp t \<Rightarrow> [\<lparr>o_backup_id = b_id b, o_key_id = keyID, o_at = t, o_size = b_size b\<rparr>] | _ \<Rightarrow> [])
       (filter (\<lambda>b. b_key_id b = keyID \<and> receipt_status (b_status b)) (backups c)))"

fun open_extras :: "env \<Rightarrow> finding list \<Rightarrow> time \<Rightarrow> catalog \<Rightarrow> error + catalog" where
  "open_extras E [] now c = Inr c"
| "open_extras E (f # fs) now c =
     (if f_kind f \<noteq> ''extra'' then open_extras E fs now c
      else (case openAnomalyAtTx E (f_stable_key f) (f_kind f) (f_key_id f) (f_backup_id f) (f_detail f) (f_at f) now c of
          Inl e \<Rightarrow> Inl e | Inr (_, c') \<Rightarrow> open_extras E fs now c'))"

definition evaluateCompletedInTransaction :: "env \<Rightarrow> string \<Rightarrow> time \<Rightarrow> catalog \<Rightarrow> error + catalog" where
  "evaluateCompletedInTransaction E i now c =
     (case find_backup c i of None \<Rightarrow> Inl ErrNoRows | Some b \<Rightarrow>
      (case current_model c (b_key_id b) of None \<Rightarrow> Inr c | Some mm \<Rightarrow>
        if \<not> mm_reliable mm \<or> mm_review mm then Inr c
        else (case mm_model mm of None \<Rightarrow> Inl (ErrMsg ''modello non leggibile'') | Some learned \<Rightarrow>
        (case LoadLocation E (km_timezone learned) of None \<Rightarrow> Inl (ErrMsg ''fuso non valido'') | Some loc \<Rightarrow>
        (case nearest now (near_appointments learned loc now) None (2 ^ 63 - 1) of
           None \<Rightarrow> openAnomalyTx E (''arrival-time:'' @ i) ''time'' (b_key_id b) i
                     ''completamento fuori dalla tolleranza oraria del modello'' now c
         | Some app \<Rightarrow>
             (case (if arrival_size_deviates learned app (b_size b) now
                    then openAnomalyTx E (''arrival-size:'' @ i) ''size'' (b_key_id b) i
                           ''dimensione fuori dalla tolleranza del 20%'' now c
                    else Inr c) of
                Inl e \<Rightarrow> Inl e
              | Inr c1 \<Rightarrow> open_extras E (Check (LoadLocation E) learned (observations_of c1 (b_key_id b)) now) now c1))))))"

definition Complete :: "env \<Rightarrow> string \<Rightarrow> time \<Rightarrow> catalog \<Rightarrow> unit tx" where
  "Complete E i now c =
     (case set_backup i BackupReceiving
             (\<lambda>b. b\<lparr>b_status := BackupComplete, b_received_at := Stamp now, b_failure := []\<rparr>) c of
        None \<Rightarrow> Inl ErrNoRows
      | Some c1 \<Rightarrow> (case evaluateCompletedInTransaction E i now c1 of Inl e \<Rightarrow> Inl e | Inr c2 \<Rightarrow> Inr ((), c2)))"

definition Fail :: "env \<Rightarrow> string \<Rightarrow> string \<Rightarrow> time \<Rightarrow> catalog \<Rightarrow> unit tx" where
  "Fail E i reason now c =
     (case set_backup i BackupReceiving (\<lambda>b. b\<lparr>b_status := BackupFailed, b_failure := reason\<rparr>) c of
        None \<Rightarrow> Inl ErrNoRows
      | Some c1 \<Rightarrow> (case find_backup c1 i of None \<Rightarrow> Inl ErrNoRows | Some b \<Rightarrow>
          (case openAnomalyTx E (''upload-failed:'' @ i) ''upload'' (b_key_id b) i reason now c1 of
             Inl e \<Rightarrow> Inl e | Inr c2 \<Rightarrow> Inr ((), c2))))"

subsection \<open>Listings\<close>

definition Pending :: "catalog \<Rightarrow> backup list" where
  "Pending c = filter (\<lambda>b. b_status b = BackupReceiving) (backups c)"

definition SnapshotBackups :: "catalog \<Rightarrow> backup list" where
  "SnapshotBackups c = rev (sort_key (\<lambda>b. (b_started_at b, b_id b)) (backups c))"

definition Backups :: "string \<Rightarrow> int \<Rightarrow> catalog \<Rightarrow> backup list res" where
  "Backups keyID limit c =
     (if limit < 1 \<or> limit > 10000 then Inl (ErrMsg ''limite elenco tra 1 e 10000'')
      else Inr (take (nat limit) (filter (\<lambda>b. keyID = [] \<or> b_key_id b = keyID) (SnapshotBackups c))))"

end
