(* ===== verification/Disk.thy ===== *)
theory Disk
  imports Prelude "HOL-Library.AList"
begin

text \<open>
  The part of the file system the writer and maintenance use: the directories incoming,
  archives/backups and archives/quarantine under the root, hard links to regular files, and what a
  power loss may undo. A file's content is safe once fsync succeeded on it; a change of a directory is
  safe once fsync succeeded on the directory, and until then the disk may hold any earlier entry of
  that name; a rename is one change, so that a power loss never takes the new name of a file whose old
  name is gone with it. The system calls of os, syscall and golang.org/x/sys/unix are these definitions; the
  failures a call may meet are arguments of the callers.
\<close>

datatype directory = Incoming | Archive | QuarantineDir

type_synonym place = "directory \<times> string"

datatype node = Regular nat | Directory | Symlink

record inode =
  content :: string
  file_mode :: int
  durable :: bool

record disk =
  names :: "(place \<times> node) list"
  inodes :: "inode list"
  unsynced :: "(place \<times> node option) list"
  renamed :: "(place \<times> place) list"

datatype io_error = ENOENT | EEXIST | ENOSPC | EINVAL | ENOSYS | SqliteFull | IOError string

definition Lstat :: "place \<Rightarrow> disk \<Rightarrow> node option" where
  "Lstat p d = map_of (names d) p"

definition bytes_at :: "place \<Rightarrow> disk \<Rightarrow> string option" where
  "bytes_at p d = (case Lstat p d of Some (Regular i) \<Rightarrow> Some (content (inodes d ! i)) | _ \<Rightarrow> None)"

definition set_name :: "place \<Rightarrow> node option \<Rightarrow> disk \<Rightarrow> disk" where
  "set_name p v d = d\<lparr>names := (case v of None \<Rightarrow> AList.delete p (names d) | Some n \<Rightarrow> AList.update p n (names d)),
     unsynced := (p, Lstat p d) # unsynced d, 
     renamed := (if v = None then filter (\<lambda>(a, b). a \<noteq> p \<and> b \<noteq> p) (renamed d) else renamed d)\<rparr>"

definition set_inode :: "nat \<Rightarrow> (inode \<Rightarrow> inode) \<Rightarrow> disk \<Rightarrow> disk" where
  "set_inode i f d = d\<lparr>inodes := (inodes d)[i := f (inodes d ! i)]\<rparr>"

text \<open>open with O_CREATE, O_EXCL, O_WRONLY: a new empty inode under a name that did not exist.\<close>

definition create_excl :: "place \<Rightarrow> disk \<Rightarrow> io_error + nat \<times> disk" where
  "create_excl p d =
     (if Lstat p d \<noteq> None then Inl EEXIST
      else (let i = length (inodes d) in
        Inr (i, (set_name p (Some (Regular i)) d)\<lparr>inodes := inodes d @ [\<lparr>content = [], file_mode = 384, durable = False\<rparr>]\<rparr>)))"

definition write_inode :: "nat \<Rightarrow> string \<Rightarrow> disk \<Rightarrow> disk" where
  "write_inode i bytes = set_inode i (\<lambda>f. f\<lparr>content := content f @ bytes, durable := False\<rparr>)"

definition chmod_inode :: "nat \<Rightarrow> int \<Rightarrow> disk \<Rightarrow> disk" where
  "chmod_inode i m = set_inode i (\<lambda>f. f\<lparr>file_mode := m\<rparr>)"

definition fsync_inode :: "nat \<Rightarrow> disk \<Rightarrow> disk" where
  "fsync_inode i = set_inode i (\<lambda>f. f\<lparr>durable := True\<rparr>)"

definition link_name :: "place \<Rightarrow> place \<Rightarrow> disk \<Rightarrow> io_error + disk" where
  "link_name src dst d =
     (case Lstat src d of None \<Rightarrow> Inl ENOENT
      | Some n \<Rightarrow> if Lstat dst d \<noteq> None then Inl EEXIST else Inr (set_name dst (Some n) d))"

definition remove_name :: "place \<Rightarrow> disk \<Rightarrow> io_error + disk" where
  "remove_name p d = (if Lstat p d = None then Inl ENOENT else Inr (set_name p None d))"

text \<open>renameat2 with RENAME_NOREPLACE. The pair of names is remembered until one of them is removed again.\<close>

definition rename_noreplace :: "place \<Rightarrow> place \<Rightarrow> disk \<Rightarrow> io_error + disk" where
  "rename_noreplace src dst d =
     (case Lstat src d of None \<Rightarrow> Inl ENOENT
      | Some n \<Rightarrow> if Lstat dst d \<noteq> None then Inl EEXIST 
        else (let d' = set_name src None (set_name dst (Some n) d) in Inr (d'\<lparr>renamed := (src, dst) # renamed d'\<rparr>)))"

definition fsync_dir :: "directory \<Rightarrow> disk \<Rightarrow> disk" where
  "fsync_dir dir d = d\<lparr>unsynced := filter (\<lambda>(p, _). fst p \<noteq> dir) (unsynced d)\<rparr>"

definition ReadDir :: "directory \<Rightarrow> disk \<Rightarrow> string list" where
  "ReadDir dir d = remdups (map (snd \<circ> fst) (filter (\<lambda>(p, _). fst p = dir) (names d)))"

text \<open>What may be found after a power loss: fsynced files unchanged, other files with any content, and
  under each name its entry or any entry it had since its directory was last synced; of the two names of
  a rename one is found.\<close>

definition power_loss :: "disk \<Rightarrow> disk \<Rightarrow> bool" where
  "power_loss d d' \<longleftrightarrow> length (inodes d') = length (inodes d)
     \<and> (\<forall>i < length (inodes d). durable (inodes d ! i) \<longrightarrow> inodes d' ! i = inodes d ! i)
     \<and> (\<forall>p. Lstat p d' = Lstat p d \<or> (p, Lstat p d') \<in> set (unsynced d))
     \<and> (\<forall>(a, b) \<in> set (renamed d). Lstat a d' \<noteq> None \<or> Lstat b d' \<noteq> None)
     \<and> unsynced d' = [] \<and> renamed d' = []"

subsection \<open>Laws\<close>

lemma Lstat_set_name [simp]: "Lstat q (set_name p v d) = (if q = p then v else Lstat q d)"
  by (auto simp: Lstat_def set_name_def update_conv' delete_conv' split: option.splits)

lemma inodes_set_name [simp]: "inodes (set_name p v d) = inodes d"
  by (simp add: set_name_def)

lemma unsynced_set_name [simp]: "unsynced (set_name p v d) = (p, Lstat p d) # unsynced d"
  by (simp add: set_name_def)

lemma Lstat_inodes [simp]: "Lstat p (d\<lparr>inodes := x\<rparr>) = Lstat p d" "Lstat p (d\<lparr>unsynced := y\<rparr>) = Lstat p d"
    "Lstat p (d\<lparr>renamed := z\<rparr>) = Lstat p d"
  by (simp_all add: Lstat_def)

lemma Lstat_frames [simp]:
  "Lstat p (set_inode i f d) = Lstat p d" "Lstat p (write_inode i b d) = Lstat p d" "Lstat p (chmod_inode i m d) = Lstat p d"
  "Lstat p (fsync_inode i d) = Lstat p d" "Lstat p (fsync_dir x d) = Lstat p d"
  by (simp_all add: set_inode_def write_inode_def chmod_inode_def fsync_inode_def fsync_dir_def)

lemma unsynced_frames [simp]:
  "unsynced (set_inode i f d) = unsynced d" "unsynced (write_inode i b d) = unsynced d"
  "unsynced (chmod_inode i m d) = unsynced d" "unsynced (fsync_inode i d) = unsynced d"
  by (simp_all add: set_inode_def write_inode_def chmod_inode_def fsync_inode_def)

lemma renamed_set_name [simp]:
  "set (renamed (set_name p v d)) = {x \<in> set (renamed d). v \<noteq> None \<or> fst x \<noteq> p \<and> snd x \<noteq> p}"
  by (auto simp: set_name_def)

lemma renamed_frames [simp]:
  "renamed (set_inode i f d) = renamed d" "renamed (write_inode i b d) = renamed d"
  "renamed (chmod_inode i m d) = renamed d" "renamed (fsync_inode i d) = renamed d" "renamed (fsync_dir x d) = renamed d"
  by (simp_all add: set_inode_def write_inode_def chmod_inode_def fsync_inode_def fsync_dir_def)

lemma unsynced_fsync_dir [simp]: "(p, v) \<in> set (unsynced (fsync_dir x d)) \<longleftrightarrow> fst p \<noteq> x \<and> (p, v) \<in> set (unsynced d)"
  by (auto simp: fsync_dir_def)

lemma inodes_fsync_dir [simp]: "inodes (fsync_dir x d) = inodes d"
  by (simp add: fsync_dir_def)

lemma length_inodes [simp]:
  "length (inodes (set_inode i f d)) = length (inodes d)" "length (inodes (write_inode i b d)) = length (inodes d)"
  "length (inodes (chmod_inode i m d)) = length (inodes d)" "length (inodes (fsync_inode i d)) = length (inodes d)"
  by (simp_all add: set_inode_def write_inode_def chmod_inode_def fsync_inode_def)

lemma nth_set_inode: "j < length (inodes d) \<Longrightarrow> inodes (set_inode i f d) ! j = (if j = i then f (inodes d ! i) else inodes d ! j)"
  by (auto simp: set_inode_def nth_list_update)

lemma in_ReadDir: "n \<in> set (ReadDir dir d) \<longleftrightarrow> Lstat (dir, n) d \<noteq> None"
  by (force simp: ReadDir_def Lstat_def map_of_eq_None_iff image_iff)

end
