(* ===== verification/Ingest.thy ===== *)
theory Ingest
  imports Store_Deposit Disk
begin

text \<open>
  The writer of internal/ingest/writer.go with internal/backupfile/verify.go: the checks of an upload
  request, admission with its 32 handler slots and the disk reserve, the reception of a body as the
  sequence of system calls of Receive with its deferred clean-up, and the reconciliation that runs
  before the writer listens again. Every system call and every catalogue transaction takes its outcome
  as an argument: it succeeds, it fails without effect, or (a transaction whose commit was not
  confirmed) it takes effect and still reports an error.
\<close>

subsection \<open>Requests and responses\<close>

record request =
  rq_path :: string
  rq_query :: string
  rq_method :: string
  rq_header :: "(string \<times> string) list"
  rq_length :: int

datatype response = ErrorResponse int string | ReceiptResponse receipt

definition header_values :: "string \<Rightarrow> request \<Rightarrow> string list" where
  "header_values name r = map snd (filter (\<lambda>h. fst h = name) (rq_header r))"

definition header_get :: "string \<Rightarrow> request \<Rightarrow> string" where
  "header_get name r = (case header_values name r of [] \<Rightarrow> [] | v # _ \<Rightarrow> v)"

definition MetadataHeader :: string where "MetadataHeader = ''X-Onlybackup-Metadata''"
definition DigestHeader :: string where "DigestHeader = ''X-Onlybackup-Sha256''"
definition IdempotencyHeader :: string where "IdempotencyHeader = ''X-Onlybackup-Idempotency-Key''"

definition single_headers :: "string list" where
  "single_headers = [''Authorization'', ''Content-Type'', ''Content-Encoding'', MetadataHeader, DigestHeader, IdempotencyHeader]"

text \<open>What base64 and JSON decoding make of the metadata header.\<close>

datatype decoded = BadBase64 | BadJson | TrailingJson | Decoded metadata

type_synonym decoder = "string \<Rightarrow> decoded"

definition DecodeMetadata :: "decoder \<Rightarrow> string \<Rightarrow> metadata res" where
  "DecodeMetadata dec s =
     (if int (length s) > 12 * 1024 then Inl (ErrMsg ''metadati troppo grandi'')
      else (case dec s of
          BadBase64 \<Rightarrow> Inl (ErrMsg ''metadati non validi'')
        | BadJson \<Rightarrow> Inl (ErrMsg ''metadati non validi'')
        | TrailingJson \<Rightarrow> Inl (ErrMsg ''metadati aggiuntivi non consentiti'')
        | Decoded m \<Rightarrow> (case Metadata_Validate m of Inl e \<Rightarrow> Inl e | Inr _ \<Rightarrow> Inr m)))"

fun error_text :: "error \<Rightarrow> string" where
  "error_text ErrUnauthorized = ''chiave non valida o revocata''"
| "error_text ErrQuota = ''spazio disponibile per la chiave insufficiente''"
| "error_text ErrSize = ''dimensione del backup non consentita''"
| "error_text ErrRate = ''numero massimo di invii nelle ultime 24 ore raggiunto''"
| "error_text ErrConcurrent = ''numero massimo di upload simultanei raggiunto''"
| "error_text ErrDisk = ''spazio libero del server insufficiente''"
| "error_text ErrIdempotencyConflict = ''chiave di idempotenza gia usata per un deposito diverso''"
| "error_text ErrIdempotencyInProgress = ''deposito con la stessa chiave di idempotenza ancora in corso''"
| "error_text ErrIdempotencyUnavailable = ''deposito gia sottoposto a retention e non piu disponibile; usare una nuova chiave di idempotenza''"
| "error_text (ErrRetentionBlocked m) = ''cancellazioni sospese: '' @ m"
| "error_text ErrRetentionMinimum = ''backup protetto dal minimo di conservazione della chiave''"
| "error_text ErrCurrentDay = ''i backup della giornata corrente non possono essere cancellati''"
| "error_text ErrLastCopy = ''l'ultima copia disponibile della sorgente non puo essere cancellata''"
| "error_text ErrTooEarly = ''quarantena minima di 48 ore non ancora trascorsa''"
| "error_text ErrTicket = ''ticket di manutenzione non valido, scaduto o riferito a un'altra operazione''"
| "error_text ErrLease = ''lease di manutenzione scaduta, persa o riferita a un'altra acquisizione''"
| "error_text ErrNoRows = ''sql: no rows in result set''"
| "error_text ErrConstraint = ''constraint failed''"
| "error_text ErrBusy = ''server occupato''"
| "error_text (ErrMsg m) = m"

definition AdmissionError :: "error \<Rightarrow> int \<times> string" where
  "AdmissionError e =
     (case e of
        ErrUnauthorized \<Rightarrow> (401, error_text e)
      | ErrQuota \<Rightarrow> (429, error_text e) | ErrRate \<Rightarrow> (429, error_text e) | ErrConcurrent \<Rightarrow> (429, error_text e)
      | ErrSize \<Rightarrow> (413, error_text e)
      | ErrDisk \<Rightarrow> (507, error_text e)
      | ErrIdempotencyConflict \<Rightarrow> (409, error_text e) | ErrIdempotencyInProgress \<Rightarrow> (409, error_text e)
      | ErrIdempotencyUnavailable \<Rightarrow> (410, error_text e)
      | ErrBusy \<Rightarrow> (503, error_text e)
      | _ \<Rightarrow> (503, ''impossibile prenotare lo spazio''))"

definition storageError :: "string \<Rightarrow> io_error \<Rightarrow> response" where
  "storageError operation e =
     (if e = ENOSPC \<or> e = SqliteFull then ErrorResponse 507 (''spazio disco esaurito durante '' @ operation)
      else ErrorResponse 503 (''esito non confermato: '' @ operation @ '' non riuscita''))"

subsection \<open>The disk reserve\<close>

record statfs =
  Bsize :: int
  Bavail :: u64

definition checkDisk :: "io_error + statfs \<Rightarrow> int \<Rightarrow> int \<Rightarrow> error option" where
  "checkDisk st reserveFree reservedBytes =
     (case st of
        Inl e \<Rightarrow> Some (ErrMsg ''statfs'')
      | Inr fs \<Rightarrow>
          if Bsize fs \<le> 0 \<or> reservedBytes < 0 \<or> reserveFree < 0 then Some (ErrMsg ''contabilita spazio disco non valida'')
          else (let blockSize = word_of_int (Bsize fs) :: u64 in
            if Bavail fs > (- 1) div blockSize then Some (ErrMsg ''spazio disco non rappresentabile'')
            else (let free = Bavail fs * blockSize; reserve = word_of_int reserveFree :: u64 in
              if free < reserve \<or> (word_of_int reservedBytes :: u64) > free - reserve then Some ErrDisk else None)))"

subsection \<open>Copying a body\<close>

text \<open>A reader is the list of its pending results, each some bytes with the error that comes with the
  last of them; an exhausted reader answers EOF. A writer is the list of its outcomes: how many of the
  bytes it is given it accepts at most, and an error; then it accepts all.\<close>

datatype read_error = EOF | ReadFailed io_error | NoProgress

type_synonym reader = "(string \<times> read_error option) list"
type_synonym writes = "(nat \<times> io_error option) list"

definition read_some :: "nat \<Rightarrow> reader \<Rightarrow> (string \<times> read_error option) \<times> reader" where
  "read_some k r =
     (case r of [] \<Rightarrow> (([], Some EOF), [])
      | (xs, e) # rest \<Rightarrow> if length xs > k then ((take k xs, None), (drop k xs, e) # rest) else ((xs, e), rest))"

definition write_some :: "string \<Rightarrow> writes \<Rightarrow> (nat \<times> io_error option) \<times> writes" where
  "write_some xs ws =
     (case ws of [] \<Rightarrow> ((length xs, None), []) | (n, e) # rest \<Rightarrow> ((min n (length xs), e), rest))"

definition ErrShortWrite :: io_error where "ErrShortWrite = IOError ''short write''"
definition buffer_size :: int where "buffer_size = 128 * 1024"

text \<open>The loop of copyAndHash; \<open>n\<close> is the rest of the limit and \<open>acc\<close> what was written and hashed.
  The result is what was written, the read error and the write error.\<close>

function copy_loop :: "int \<Rightarrow> reader \<Rightarrow> writes \<Rightarrow> string \<Rightarrow> string \<times> read_error option \<times> io_error option" where
  "copy_loop n src dst acc =
     (if n \<le> 0 then (acc, None, None)
      else (let ((xs, re), src') = read_some (nat (min buffer_size n)) src in
        if xs = [] then (case re of None \<Rightarrow> (acc, Some NoProgress, None) | Some EOF \<Rightarrow> (acc, None, None) | Some e \<Rightarrow> (acc, Some e, None))
        else (let ((k, we), dst') = write_some xs dst; acc' = acc @ take k xs in
          if we \<noteq> None then (acc', None, we)
          else if k \<noteq> length xs then (acc', None, Some ErrShortWrite)
          else (case re of
              Some EOF \<Rightarrow> (acc', None, None)
            | Some e \<Rightarrow> (acc', Some e, None)
            | None \<Rightarrow> copy_loop (n - int (length xs)) src' dst' acc'))))"
  by pat_completeness auto
termination by (relation "measure (\<lambda>(n, _, _, _). nat n)") auto

declare copy_loop.simps [simp del]

definition copyAndHash :: "env \<Rightarrow> int \<Rightarrow> reader \<Rightarrow> writes \<Rightarrow> int \<times> string \<times> read_error option \<times> io_error option \<times> string" where
  "copyAndHash E limit src dst = (let (written, re, we) = copy_loop limit src dst [] in
     (int (length written), TokenHash E written, re, we, written))"

subsection \<open>The writer\<close>

definition staging :: "string \<Rightarrow> place" where "staging i = (Incoming, i @ ''.part'')"
definition final :: "string \<Rightarrow> place" where "final i = (Archive, i @ ''.backup'')"
definition quarantine :: "string \<Rightarrow> place" where "quarantine i = (QuarantineDir, i @ ''.backup'')"

text \<open>Where Receive stands; the last three are its deferred functions.\<close>

datatype pc = AtCreate | AtCopy | AtChmod | AtSync | AtClose | AtPublish | AtSyncArchive | AtRemoveStaging
  | AtSyncIncoming | AtComplete | CleanRemove | CleanFail | AtRelease | Finished

record upload =
  up_backup :: backup
  up_pc :: pc
  up_inode :: nat
  up_error :: "io_error option"
  up_response :: "response option"

datatype phase = Down | Up

text \<open>Where processOperations of the maintenance process stands, call by call, and what it holds: the rest of
  its snapshot, its lease, the operation it was authorized for and the file it opened to delete.\<close>

datatype failure = LeaseLost string | Failure string

datatype stage = NextOperation | Renewing | Authorizing | SavingTicket | Verifying | Opening | RenewingAgain | Validating
  | Rechecking | Renaming | Linking | SyncingLink | RemovingSource | Removing | SyncingFirst | SyncingSecond
  | Confirming "failure option" | ClearingTicket | Returned "failure option"

record task =
  tk_todo :: "operation list"
  tk_backups :: "backup list"
  tk_lease :: lease
  tk_op :: operation
  tk_ticket :: string
  tk_backup :: backup
  tk_node :: "node option"
  tk_stage :: stage

text \<open>The whole server: the catalogue, the disk, the writer's uploads and slots, and the cycle of maintenance
  that holds the execution lock.\<close>

record world =
  cat :: catalog
  disk_of :: disk
  slots :: nat
  uploads :: "upload list"
  phase_of :: phase
  task_of :: "task option"

datatype outcome = Works | Fails io_error | Unconfirmed io_error

record input =
  in_outcome :: outcome
  in_now :: time
  in_reads :: reader
  in_writes :: writes

definition slot_limit :: nat where "slot_limit = 32"

definition new_upload :: "backup \<Rightarrow> upload" where
  "new_upload b = \<lparr>up_backup = b, up_pc = AtCreate, up_inode = 0, up_error = None, up_response = None\<rparr>"

definition Admit :: "env \<Rightarrow> string res \<Rightarrow> io_error + statfs \<Rightarrow> int \<Rightarrow> string \<Rightarrow> metadata \<Rightarrow> int \<Rightarrow> string \<Rightarrow> string \<Rightarrow> time
    \<Rightarrow> world \<Rightarrow> backup res \<times> world" where
  "Admit E newID st reserveFree token m sz digest idempotencyKey now w =
     (if slots w \<ge> slot_limit then (Inl ErrBusy, w)
      else (let w1 = w\<lparr>slots := slots w + 1\<rparr> in
        case ReserveIdempotentChecked E newID token m sz digest idempotencyKey now (Some (checkDisk st reserveFree)) (cat w1) of
          Inl e \<Rightarrow> (Inl e, w1\<lparr>slots := slots w1 - 1\<rparr>)
        | Inr (b, c) \<Rightarrow> (let w2 = w1\<lparr>cat := c\<rparr> in
            if b_status b = BackupComplete then (Inr b, w2\<lparr>slots := slots w2 - 1\<rparr>) else (Inr b, w2))))"

definition post_only :: string where
  "post_only = [CHR 0xC3, CHR 0xA8] @ '' consentito soltanto l'invio''"

text \<open>ServeHTTP answers at once, or hands the body of the request to Receive as a new upload.\<close>

definition ServeHTTP :: "env \<Rightarrow> decoder \<Rightarrow> string res \<Rightarrow> io_error + statfs \<Rightarrow> int \<Rightarrow> time \<Rightarrow> request \<Rightarrow> world \<Rightarrow> response option \<times> world" where
  "ServeHTTP E dec newID st reserveFree now r w =
     (if \<not> ValidUploadPath (rq_path r) \<or> rq_query r \<noteq> [] then (Some (ErrorResponse 404 ''operazione inesistente''), w)
      else if rq_method r \<noteq> ''POST'' then (Some (ErrorResponse 405 post_only), w)
      else if list_ex (\<lambda>name. length (header_values name r) > 1) single_headers then (Some (ErrorResponse 400 ''header duplicato''), w)
      else (let auth = header_get ''Authorization'' r; token = drop 7 auth in
        if take 7 auth \<noteq> ''Bearer '' \<or> \<not> ValidToken token then (Some (ErrorResponse 401 (error_text ErrUnauthorized)), w)
        else if rq_length r \<le> 0 then (Some (ErrorResponse 411 ''richiesto un file non vuoto con dimensione nota''), w)
        else if header_get ''Content-Type'' r \<noteq> ''application/octet-stream'' \<or> header_get ''Content-Encoding'' r \<noteq> []
        then (Some (ErrorResponse 415 ''inviare il contenuto grezzo del file''), w)
        else (case DecodeMetadata dec (header_get MetadataHeader r) of
            Inl e \<Rightarrow> (Some (ErrorResponse 400 (error_text e)), w)
          | Inr m \<Rightarrow> (let digest = header_get DigestHeader r; idempotencyKey = header_get IdempotencyHeader r in
              if \<not> ValidDigest digest then (Some (ErrorResponse 400 ''SHA-256 richiesto e non valido''), w)
              else if rq_path r = UploadPath \<and> idempotencyKey = [] then (Some (ErrorResponse 400 ''chiave di idempotenza richiesta''), w)
              else if idempotencyKey \<noteq> [] \<and> \<not> ValidIdempotencyKey idempotencyKey
              then (Some (ErrorResponse 400 ''chiave di idempotenza non valida''), w)
              else (case Admit E newID st reserveFree token m (rq_length r) digest idempotencyKey now w of
                  (Inl e, w') \<Rightarrow> (Some (case AdmissionError e of (status, message) \<Rightarrow> ErrorResponse status message), w')
                | (Inr b, w') \<Rightarrow>
                    if b_status b = BackupComplete then (Some (ReceiptResponse (Receipt_of b)), w')
                    else (None, w'\<lparr>uploads := uploads w' @ [new_upload b]\<rparr>))))))"

subsection \<open>Receive\<close>

definition respond_and :: "pc \<Rightarrow> response \<Rightarrow> upload \<Rightarrow> upload" where
  "respond_and p r u = u\<lparr>up_pc := p, up_response := Some r\<rparr>"

text \<open>What a transaction of the catalogue does under an outcome: its error and the new catalogue.\<close>

definition commit :: "outcome \<Rightarrow> unit tx \<Rightarrow> catalog \<Rightarrow> io_error option \<times> catalog" where
  "commit out r c =
     (case out of
        Works \<Rightarrow> (case r of Inl e \<Rightarrow> (Some (IOError (error_text e)), c) | Inr (_, c') \<Rightarrow> (None, c'))
      | Fails e \<Rightarrow> (Some e, c)
      | Unconfirmed e \<Rightarrow> (Some e, (case r of Inl _ \<Rightarrow> c | Inr (_, c') \<Rightarrow> c')))"

definition io_fault :: "outcome \<Rightarrow> io_error option" where
  "io_fault out = (case out of Works \<Rightarrow> None | Fails e \<Rightarrow> Some e | Unconfirmed e \<Rightarrow> Some e)"

definition upload_failed :: string where "upload_failed = ''upload interrotto o non valido''"

text \<open>One step of Receive. Up to the hard link an error leads to the deferred clean-up; after it the
  published file is never touched again.\<close>

definition Receive :: "env \<Rightarrow> input \<Rightarrow> upload \<Rightarrow> world \<Rightarrow> upload \<times> world" where
  "Receive E inp u w =
     (let b = up_backup u; i = b_id b; d = disk_of w; fault = io_fault (in_outcome inp);
          abandon = (\<lambda>r. (respond_and CleanRemove r u, w));
          leave = (\<lambda>r. (respond_and AtRelease r u, w))
      in case up_pc u of
        AtCreate \<Rightarrow>
          (case fault of Some e \<Rightarrow> abandon (storageError ''creazione del file temporaneo'' e)
           | None \<Rightarrow> (case create_excl (staging i) d of
               Inl e \<Rightarrow> abandon (storageError ''creazione del file temporaneo'' e)
             | Inr (n, d') \<Rightarrow> (u\<lparr>up_pc := AtCopy, up_inode := n\<rparr>, w\<lparr>disk_of := d'\<rparr>)))
      | AtCopy \<Rightarrow>
          (let (n, digest, readErr, writeErr, written) = copyAndHash E (b_size b + 1) (in_reads inp) (in_writes inp);
               w' = w\<lparr>disk_of := write_inode (up_inode u) written d\<rparr>
           in if writeErr \<noteq> None then (respond_and CleanRemove (storageError ''scrittura del backup'' (the writeErr)) u, w')
              else if readErr \<noteq> None \<or> n \<noteq> b_size b
              then (respond_and CleanRemove (ErrorResponse 400 ''trasferimento incompleto o dimensione errata'') u, w')
              else if digest \<noteq> b_sha256 b
              then (respond_and CleanRemove (ErrorResponse 422 (''integrit'' @ [CHR 0xC3, CHR 0xA0] @ '' del file non verificata'')) u, w')
              else (u\<lparr>up_pc := AtChmod\<rparr>, w'))
      | AtChmod \<Rightarrow>
          (case fault of Some e \<Rightarrow> (u\<lparr>up_pc := AtClose, up_error := Some e\<rparr>, w)
           | None \<Rightarrow> (u\<lparr>up_pc := AtSync\<rparr>, w\<lparr>disk_of := chmod_inode (up_inode u) 288 d\<rparr>))
      | AtSync \<Rightarrow>
          (case fault of Some e \<Rightarrow> (u\<lparr>up_pc := AtClose, up_error := Some e\<rparr>, w)
           | None \<Rightarrow> (u\<lparr>up_pc := AtClose\<rparr>, w\<lparr>disk_of := fsync_inode (up_inode u) d\<rparr>))
      | AtClose \<Rightarrow>
          (case (if up_error u = None then fault else up_error u) of
             Some e \<Rightarrow> abandon (storageError ''salvataggio del backup'' e)
           | None \<Rightarrow> (u\<lparr>up_pc := AtPublish\<rparr>, w))
      | AtPublish \<Rightarrow>
          (case fault of Some e \<Rightarrow> abandon (storageError ''pubblicazione del backup'' e)
           | None \<Rightarrow> (case link_name (staging i) (final i) d of
               Inl e \<Rightarrow> abandon (storageError ''pubblicazione del backup'' e)
             | Inr d' \<Rightarrow> (u\<lparr>up_pc := AtSyncArchive\<rparr>, w\<lparr>disk_of := d'\<rparr>)))
      | AtSyncArchive \<Rightarrow>
          (case fault of Some e \<Rightarrow> leave (storageError ''sincronizzazione del backup pubblicato'' e)
           | None \<Rightarrow> (u\<lparr>up_pc := AtRemoveStaging\<rparr>, w\<lparr>disk_of := fsync_dir Archive d\<rparr>))
      | AtRemoveStaging \<Rightarrow>
          (case fault of Some e \<Rightarrow> leave (ErrorResponse 503 ''esito non confermato'')
           | None \<Rightarrow> (case remove_name (staging i) d of
               Inl e \<Rightarrow> leave (ErrorResponse 503 ''esito non confermato'')
             | Inr d' \<Rightarrow> (u\<lparr>up_pc := AtSyncIncoming\<rparr>, w\<lparr>disk_of := d'\<rparr>)))
      | AtSyncIncoming \<Rightarrow>
          (case fault of Some e \<Rightarrow> leave (storageError ''sincronizzazione dei temporanei'' e)
           | None \<Rightarrow> (u\<lparr>up_pc := AtComplete\<rparr>, w\<lparr>disk_of := fsync_dir Incoming d\<rparr>))
      | AtComplete \<Rightarrow>
          (let (e, c') = commit (in_outcome inp) (Complete E i (in_now inp) (cat w)) (cat w); w' = w\<lparr>cat := c'\<rparr> in
           case e of
             Some x \<Rightarrow> (respond_and AtRelease (storageError ''persistenza del catalogo'' x) u, w')
           | None \<Rightarrow> (respond_and AtRelease
                (ReceiptResponse (Receipt_of (b\<lparr>b_status := BackupComplete, b_received_at := Stamp (in_now inp)\<rparr>))) u, w'))
      | CleanRemove \<Rightarrow>
          (u\<lparr>up_pc := CleanFail\<rparr>,
           (case fault of Some e \<Rightarrow> w
            | None \<Rightarrow> (case remove_name (staging i) d of Inl e \<Rightarrow> w | Inr d' \<Rightarrow> w\<lparr>disk_of := d'\<rparr>)))
      | CleanFail \<Rightarrow>
          (u\<lparr>up_pc := AtRelease\<rparr>, w\<lparr>cat := snd (commit (in_outcome inp) (Fail E i upload_failed (in_now inp) (cat w)) (cat w))\<rparr>)
      | AtRelease \<Rightarrow> (u\<lparr>up_pc := Finished\<rparr>, w\<lparr>slots := slots w - 1\<rparr>)
      | Finished \<Rightarrow> (u, w))"

text \<open>Abort ends an admitted upload whose body was never read.\<close>

definition Abort :: "env \<Rightarrow> string \<Rightarrow> outcome \<Rightarrow> time \<Rightarrow> upload \<Rightarrow> world \<Rightarrow> upload \<times> world" where
  "Abort E reason out now u w =
     (let c = (if b_status (up_backup u) = BackupReceiving
               then snd (commit out (Fail E (b_id (up_backup u)) reason now (cat w)) (cat w)) else cat w)
      in (u\<lparr>up_pc := Finished\<rparr>, w\<lparr>cat := c, slots := slots w - 1\<rparr>))"

subsection \<open>Verification and reconciliation\<close>

text \<open>The calls of Reconcile, so that each can be given its outcome.\<close>

datatype call = CallLstat string | CallVerify string | CallSyncArchive string | CallComplete string | CallFail string
  | CallRemove string | CallReadDir | CallEntry string | CallRemoveEntry string | CallSyncIncoming

type_synonym outcomes = "call \<Rightarrow> outcome"

definition Verify :: "env \<Rightarrow> io_error option \<Rightarrow> string \<Rightarrow> int \<Rightarrow> string \<Rightarrow> string option" where
  "Verify E fault bytes sz digest =
     (if fault \<noteq> None then Some ''lettura non riuscita''
      else if int (length bytes) \<noteq> sz \<or> TokenHash E bytes \<noteq> digest then Some ''dimensione o SHA-256 non corrispondenti''
      else None)"

definition interrupted :: string where "interrupted = ''invio interrotto dal riavvio''"

text \<open>One pending row: an error message, or none and the world goes on.\<close>

definition settle :: "env \<Rightarrow> outcomes \<Rightarrow> time \<Rightarrow> backup \<Rightarrow> world \<Rightarrow> string option \<times> world" where
  "settle E F now b w =
     (let i = b_id b; d = disk_of w in
      if \<not> ValidID i then (Some ''identificativo non valido nel catalogo'', w)
      else if io_fault (F (CallLstat i)) \<noteq> None then (Some ''lstat'', w)
      else (case Lstat (final i) d of
          Some (Regular n) \<Rightarrow>
            (let bytes = content (inodes d ! n) in
             if int (length bytes) \<noteq> b_size b then (Some ''file finale anomalo'', w)
             else (case Verify E (io_fault (F (CallVerify i))) bytes (b_size b) (b_sha256 b) of
                 Some m \<Rightarrow> (Some m, w)
               | None \<Rightarrow> if io_fault (F (CallSyncArchive i)) \<noteq> None then (Some ''sync'', w)
                   else (let w1 = w\<lparr>disk_of := fsync_dir Archive d\<rparr>;
                             (e, c) = commit (F (CallComplete i)) (Complete E i now (cat w1)) (cat w1)
                         in (if e \<noteq> None then Some ''complete'' else None, w1\<lparr>cat := c\<rparr>))))
        | Some _ \<Rightarrow> (Some ''file finale anomalo'', w)
        | None \<Rightarrow> (let (e, c) = commit (F (CallFail i)) (Fail E i interrupted now (cat w)) (cat w)
                   in (if e \<noteq> None then Some ''fail'' else None, w\<lparr>cat := c\<rparr>))))"

definition drop_staging :: "call \<Rightarrow> outcomes \<Rightarrow> place \<Rightarrow> world \<Rightarrow> string option \<times> world" where
  "drop_staging k F p w =
     (if io_fault (F k) \<noteq> None then (Some ''remove'', w)
      else (None, (case remove_name p (disk_of w) of Inl _ \<Rightarrow> w | Inr d \<Rightarrow> w\<lparr>disk_of := d\<rparr>)))"

fun reconcile_rows :: "env \<Rightarrow> outcomes \<Rightarrow> time \<Rightarrow> backup list \<Rightarrow> world \<Rightarrow> string option \<times> world" where
  "reconcile_rows E F now [] w = (None, w)"
| "reconcile_rows E F now (b # bs) w =
     (case settle E F now b w of
        (Some m, w1) \<Rightarrow> (Some m, w1)
      | (None, w1) \<Rightarrow>
          (case drop_staging (CallRemove (b_id b)) F (staging (b_id b)) w1 of
             (Some m, w2) \<Rightarrow> (Some m, w2)
           | (None, w2) \<Rightarrow> reconcile_rows E F now bs w2))"

definition staged_id :: "string \<Rightarrow> string option" where
  "staged_id name = (if has_suffix name ''.part'' \<and> ValidID (trim_suffix name ''.part'') then Some (trim_suffix name ''.part'') else None)"

fun reconcile_entries :: "outcomes \<Rightarrow> string list \<Rightarrow> world \<Rightarrow> string option \<times> world" where
  "reconcile_entries F [] w = (None, w)"
| "reconcile_entries F (name # rest) w =
     (if staged_id name = None then reconcile_entries F rest w
      else if io_fault (F (CallEntry name)) \<noteq> None then (Some ''lstat'', w)
      else (case Lstat (Incoming, name) (disk_of w) of
          None \<Rightarrow> reconcile_entries F rest w
        | Some Directory \<Rightarrow> (Some ''temporaneo anomalo'', w)
        | Some _ \<Rightarrow> (case drop_staging (CallRemoveEntry name) F (Incoming, name) w of
              (Some m, w1) \<Rightarrow> (Some m, w1)
            | (None, w1) \<Rightarrow> reconcile_entries F rest w1)))"

definition Reconcile :: "env \<Rightarrow> outcomes \<Rightarrow> time \<Rightarrow> world \<Rightarrow> string option \<times> world" where
  "Reconcile E F now w =
     (case reconcile_rows E F now (Pending (cat w)) w of
        (Some m, w1) \<Rightarrow> (Some m, w1)
      | (None, w1) \<Rightarrow>
          if io_fault (F CallReadDir) \<noteq> None then (Some ''readdir'', w1)
          else (case reconcile_entries F (sort (ReadDir Incoming (disk_of w1))) w1 of
              (Some m, w2) \<Rightarrow> (Some m, w2)
            | (None, w2) \<Rightarrow>
                if io_fault (F CallSyncIncoming) \<noteq> None then (Some ''sync'', w2)
                else (None, w2\<lparr>disk_of := fsync_dir Incoming (disk_of w2)\<rparr>)))"

end
