(* ===== verification/Store_Retention.thy ===== *)
theory Store_Retention
  imports Store_Deposit "HOL-Library.AList"
begin

text \<open>
  Retention: the automation state and the life of a destructive operation, from the first half of
  internal/store/retention.go and internal/store/maintenance_retry.go. A request is admitted only when
  nothing holds retention; it is authorized under a maintenance lease with a fresh ticket, becomes
  final in ValidateOperation, and is confirmed or reconciled once the file has moved.
\<close>

subsection \<open>Automation state\<close>

record automation_status =
  as_row :: automation
  as_blocked :: bool
  as_shown_state :: monitoring_state
  as_shown_reason :: string
  as_last_check_regular :: bool
  as_key_days :: "string \<rightharpoonup> int"
  as_active_anomalies :: nat

definition AutomationStatus :: "catalog \<Rightarrow> automation_status" where
  "AutomationStatus c =
     (let a = automation_state c in
      \<lparr>as_row = a, as_blocked = retention_blocked a,
       as_shown_state = (if retention_blocked a \<and> a_state a = MonitoringRegular then MonitoringPaused else a_state a),
       as_shown_reason = shown_reason a, as_last_check_regular = (a_state a = MonitoringRegular),
       as_key_days = (\<lambda>k. if find_key c k = None then None else Some (days_for_key c k)),
       as_active_anomalies = count_where open_anomaly (anomalies c)\<rparr>)"

definition RetentionDaysForKey :: "automation_status \<Rightarrow> string \<Rightarrow> int" where
  "RetentionDaysForKey s k = (case as_key_days s k of Some d \<Rightarrow> d | None \<Rightarrow> a_retention_days (as_row s))"

definition SetReserveFree :: "int \<Rightarrow> catalog \<Rightarrow> unit tx" where
  "SetReserveFree n c =
     (if n < 0 then Inl (ErrMsg ''riserva disco non valida'')
      else Inr ((), set_automation (\<lambda>a. a\<lparr>a_reserve_free := n\<rparr>) c))"

definition SetKeyRetentionDays :: "string \<Rightarrow> int \<Rightarrow> catalog \<Rightarrow> unit tx" where
  "SetKeyRetentionDays keyID days c =
     (if \<not> ValidID keyID \<or> days < 7 \<or> days > 365000
      then Inl (ErrMsg ''chiave o conservazione non valida: da 7 a 365000 giorni'')
      else if find_key c keyID = None then Inl ErrConstraint
      else Inr ((), c\<lparr>key_retention := AList.update keyID days (key_retention c)\<rparr>))"

definition checkRetentionMinimumTx :: "env \<Rightarrow> string \<Rightarrow> time \<Rightarrow> catalog \<Rightarrow> error option" where
  "checkRetentionMinimumTx E backupID now c =
     (case find_backup c backupID of None \<Rightarrow> Some ErrNoRows
      | Some b \<Rightarrow> (case RetentionProtected (LoadLocation E) b now (a_timezone (automation_state c)) (days_for_key c (b_key_id b)) of
            (_, Some e) \<Rightarrow> Some e
          | (protected, None) \<Rightarrow> if protected then Some ErrRetentionMinimum else None))"

record mail_settings =
  ms_host :: string
  ms_port :: int
  ms_tls :: bool
  ms_from :: string
  ms_recipients :: string
  ms_version :: int

definition MailSettings :: "catalog \<Rightarrow> mail_settings" where
  "MailSettings c = (let a = automation_state c in
     \<lparr>ms_host = a_smtp_host a, ms_port = a_smtp_port a, ms_tls = a_smtp_tls a, ms_from = a_mail_from a,
      ms_recipients = a_mail_to a, ms_version = a_mail_config_version a\<rparr>)"

definition fail_running :: "string \<Rightarrow> time \<Rightarrow> catalog \<Rightarrow> catalog" where
  "fail_running summary now c = c\<lparr>checks := update_where (\<lambda>k. mc_status k = Running)
     (\<lambda>k. k\<lparr>mc_status := CheckFailed, mc_finished_at := Some (unix now), mc_summary := summary\<rparr>) (checks c)\<rparr>"

definition SetupAutomationMode :: "env \<Rightarrow> mail_settings \<Rightarrow> string \<Rightarrow> string \<Rightarrow> time \<Rightarrow> catalog \<Rightarrow> unit tx" where
  "SetupAutomationMode E s timezone mode now c =
     (if mode \<noteq> [] \<and> mode \<noteq> ''auto'' \<and> mode \<noteq> ''manual''
      then Inl (ErrMsg (''modalit'' @ [CHR 0xC3, CHR 0xA0] @ '' retention non valida: auto o manual''))
      else if blank (ms_host s) \<or> ms_port s < 1 \<or> ms_port s > 65535 \<or> blank (ms_from s) \<or> blank (ms_recipients s)
      then Inl (ErrMsg ''configurazione mail incompleta'')
      else if contains_any (ms_host s @ ms_from s @ ms_recipients s) [CHR 13, CHR 10]
              \<or> contains_any (ms_host s) [CHR '' '', CHR 9]
      then Inl (ErrMsg ''configurazione mail contiene caratteri non validi'')
      else if \<not> ParseAddress_ok E (ms_from s) then Inl (ErrMsg ''mittente mail non valido'')
      else if \<not> ParseAddressList_ok E (ms_recipients s) then Inl (ErrMsg ''destinatari mail non validi'')
      else if LoadLocation E timezone = None then Inl (ErrMsg ''fuso non valido'')
      else if active_count c \<noteq> 0
      then Inl (ErrMsg ''configurazione rifiutata: completare, riconciliare o annullare le operazioni pendenti'')
      else Inr ((), set_automation (\<lambda>a. a\<lparr>
             a_smtp_host := ms_host s, a_smtp_port := ms_port s, a_smtp_tls := ms_tls s, a_mail_from := ms_from s,
             a_mail_to := ms_recipients s, a_timezone := timezone,
             a_enabled := (if mode = [] then a_enabled a else mode = ''auto''),
             a_activation_pending := (if mode = [] then a_activation_pending a else mode = ''auto''),
             a_activation_required := True, a_resume_pending := False, a_resume_requested_at := 0,
             a_mail_config_version := a_mail_config_version a + 1, a_mail_tested := False,
             a_state := MonitoringLearning, a_deletion_blocked := True,
             a_block_reason := ''prova mail e apprendimento richiesti'', a_model_revision := 0,
             a_next_report_at := unix now + report_delay\<rparr>)
           (fail_running ''invalidato dalla configurazione amministrativa'' now c)))"

definition SetupAutomation :: "env \<Rightarrow> mail_settings \<Rightarrow> string \<Rightarrow> time \<Rightarrow> catalog \<Rightarrow> unit tx" where
  "SetupAutomation E s timezone now = SetupAutomationMode E s timezone [] now"

definition MarkMailTested :: "time \<Rightarrow> catalog \<Rightarrow> unit tx" where
  "MarkMailTested now c = Inr ((), set_automation (\<lambda>a. a\<lparr>a_mail_tested := True,
     a_next_report_at := (if a_next_report_at a = 0 then unix now + report_delay else a_next_report_at a)\<rparr>) c)"

definition EnableAutomation :: "catalog \<Rightarrow> unit tx" where
  "EnableAutomation c =
     (if \<not> a_mail_tested (automation_state c)
      then Inl (ErrMsg ''la prova mail deve riuscire prima di abilitare l'automazione'')
      else Inr ((), set_automation (\<lambda>a. a\<lparr>a_enabled := True\<rparr>) c))"

definition PauseRetention :: "string \<Rightarrow> catalog \<Rightarrow> unit tx" where
  "PauseRetention reason c = Inr ((), set_automation (\<lambda>a. a\<lparr>a_manual_paused := True,
     a_manual_pause_reason := (if blank reason then ''sospensione amministrativa'' else reason),
     a_activation_pending := False, a_resume_pending := False, a_resume_requested_at := 0\<rparr>) c)"

definition RequestRetentionResume :: "time \<Rightarrow> catalog \<Rightarrow> unit tx" where
  "RequestRetentionResume now c = Inr ((), set_automation (\<lambda>a. a\<lparr>a_enabled := True, a_resume_pending := True,
     a_resume_requested_at := unix now,
     a_block_reason := (if \<not> a_deletion_blocked a then ''ripresa prenotata; controllo valido richiesto'' else a_block_reason a),
     a_deletion_blocked := True\<rparr>) c)"

text \<open>The update that opens retention, shared by ResumeRetention and the check that activates it.\<close>

definition release_holds :: "automation \<Rightarrow> automation" where
  "release_holds a = a\<lparr>a_deletion_blocked := False, a_block_reason := [], a_manual_paused := False,
     a_manual_pause_reason := [], a_activation_pending := False, a_activation_required := False,
     a_resume_pending := False, a_resume_requested_at := 0\<rparr>"

definition ResumeRetention :: "time \<Rightarrow> catalog \<Rightarrow> unit tx" where
  "ResumeRetention now c =
     (let a = automation_state c in
      if \<not> a_enabled a \<or> \<not> a_mail_tested a \<or> blockingAnomalyCountTx c now \<noteq> 0 \<or> authorized_count c \<noteq> 0
         \<or> a_model_revision a = 0 \<or> \<not> recent_check a now \<or> a_state a \<noteq> MonitoringRegular
      then Inl (ErrMsg ''riattivazione rifiutata: controllo recente regolare, modello affidabile e nessuna operazione incerta richiesti'')
      else Inr ((), set_automation release_holds c))"

definition BeginRelearn :: "catalog \<Rightarrow> unit tx" where
  "BeginRelearn c =
     (if active_count c \<noteq> 0
      then Inl (ErrMsg ''relearn rifiutato: completare, riconciliare o annullare le operazioni pendenti'')
      else Inr ((), set_automation (\<lambda>a. a\<lparr>a_state := MonitoringLearning, a_deletion_blocked := True,
             a_block_reason := ''nuovo apprendimento richiesto'', a_model_revision := a_model_revision a + 1,
             a_resume_pending := False, a_resume_requested_at := 0\<rparr>) c))"

subsection \<open>Requests\<close>

definition status_text :: "status \<Rightarrow> string" where
  "status_text s = (case s of BackupReceiving \<Rightarrow> ''receiving'' | BackupComplete \<Rightarrow> ''complete'' | BackupFailed \<Rightarrow> ''failed''
     | BackupDeleting \<Rightarrow> ''deleting'' | BackupQuarantined \<Rightarrow> ''quarantined'' | BackupPurging \<Rightarrow> ''purging'' | BackupDeleted \<Rightarrow> ''deleted'')"

definition key_revoked :: "catalog \<Rightarrow> string \<Rightarrow> bool option" where
  "key_revoked c backupID = (case find_backup c backupID of None \<Rightarrow> None
     | Some b \<Rightarrow> (case find_key c (b_key_id b) of None \<Rightarrow> None | Some k \<Rightarrow> Some (kr_revoked k)))"

definition copies_in :: "catalog \<Rightarrow> string \<Rightarrow> (status \<Rightarrow> bool) \<Rightarrow> nat" where
  "copies_in c keyID P = count_where (\<lambda>b. b_key_id b = keyID \<and> P (b_status b) \<and> \<not> acknowledged_missing c (b_id b)) (backups c)"

definition stable_status :: "status \<Rightarrow> bool" where
  "stable_status s \<longleftrightarrow> s = BackupComplete \<or> s = BackupDeleting \<or> s = BackupQuarantined"

definition RequestQuarantine :: "env \<Rightarrow> string \<Rightarrow> origin \<Rightarrow> string \<Rightarrow> string \<Rightarrow> time \<Rightarrow> catalog \<Rightarrow> operation tx" where
  "RequestQuarantine E backupID orig actor reason now c =
     (if \<not> ValidID backupID \<or> (orig \<noteq> Manual \<and> orig \<noteq> Automatic) \<or> blank actor
      then Inl (ErrMsg ''richiesta retention non valida'')
      else (let a = automation_state c in
        if retention_blocked a then Inl (ErrRetentionBlocked (shown_reason a))
        else (case LoadLocation E (a_timezone a) of None \<Rightarrow> Inl (ErrMsg ''fuso dell'automazione non valido'') | Some loc \<Rightarrow>
        (case find_backup c backupID of None \<Rightarrow> Inl ErrNoRows | Some b \<Rightarrow>
        (case key_revoked c backupID of None \<Rightarrow> Inl ErrNoRows | Some revoked \<Rightarrow>
          if revoked then Inl (ErrMsg ''i backup di una chiave revocata non sono selezionabili'')
          else if b_status b \<noteq> BackupComplete
          then Inl (ErrMsg (''backup non selezionabile nello stato '' @ status_text (b_status b)))
          else if acknowledged_missing c backupID then Inl (ErrMsg ''backup riconosciuto come definitivamente mancante'')
          else if civil_day loc (backupTimeForPolicy b) = civil_day loc now then Inl ErrCurrentDay
          else if copies_in c (b_key_id b) (\<lambda>s. s = BackupComplete) \<le> 1 then Inl ErrLastCopy
          else (case checkRetentionMinimumTx E backupID now c of Some e \<Rightarrow> Inl e | None \<Rightarrow>
            (case set_backup backupID BackupComplete (\<lambda>b. b\<lparr>b_status := BackupDeleting\<rparr>) c of
               None \<Rightarrow> Inl (ErrMsg ''stato backup cambiato durante la richiesta'')
             | Some c1 \<Rightarrow> (let o' = new_operation c backupID Quarantine orig actor reason now in
                 case insert_operation o' c1 of Inl e \<Rightarrow> Inl e | Inr c2 \<Rightarrow> Inr (o', c2))))))))) "

definition RequestPurge :: "env \<Rightarrow> string \<Rightarrow> origin \<Rightarrow> string \<Rightarrow> string \<Rightarrow> time \<Rightarrow> catalog \<Rightarrow> operation tx" where
  "RequestPurge E backupID orig actor reason now c =
     (if \<not> ValidID backupID \<or> blank actor then Inl (ErrMsg ''richiesta purge non valida'')
      else (let a = automation_state c in
        if retention_blocked a then Inl (ErrRetentionBlocked (shown_reason a))
        else (case find_backup c backupID of None \<Rightarrow> Inl ErrNoRows | Some b \<Rightarrow>
        (case key_revoked c backupID of None \<Rightarrow> Inl ErrNoRows | Some revoked \<Rightarrow>
          if revoked then Inl (ErrMsg ''i backup di una chiave revocata non sono eliminabili'')
          else if b_status b \<noteq> BackupQuarantined
          then Inl (ErrMsg (''backup non in quarantena: '' @ status_text (b_status b)))
          else if acknowledged_missing c backupID then Inl (ErrMsg ''backup riconosciuto come definitivamente mancante'')
          else (case checkRetentionMinimumTx E backupID now c of Some e \<Rightarrow> Inl e | None \<Rightarrow>
            if b_purge_not_before b = 0 \<or> unix now < b_purge_not_before b then Inl ErrTooEarly
            else if copies_in c (b_key_id b) stable_status \<le> 1 then Inl ErrLastCopy
            else (case set_backup backupID BackupQuarantined (\<lambda>b. b\<lparr>b_status := BackupPurging\<rparr>) c of
               None \<Rightarrow> Inl (ErrMsg ''stato backup cambiato durante la richiesta'')
             | Some c1 \<Rightarrow> (let o' = new_operation c backupID Purge orig actor reason now in
                 case insert_operation o' c1 of Inl e \<Rightarrow> Inl e | Inr c2 \<Rightarrow> Inr (o', c2))))))))"

definition RequestRecovery :: "string \<Rightarrow> string \<Rightarrow> string \<Rightarrow> time \<Rightarrow> catalog \<Rightarrow> operation tx" where
  "RequestRecovery backupID actor reason now c =
     (if \<not> ValidID backupID \<or> blank actor then Inl (ErrMsg ''richiesta recupero non valida'')
      else (case find_backup c backupID of None \<Rightarrow> Inl ErrNoRows | Some b \<Rightarrow>
        if b_status b \<noteq> BackupQuarantined then Inl (ErrMsg ''solo un backup in quarantena puo essere recuperato'')
        else (let o' = new_operation c backupID Recover Manual actor reason now in
          case insert_operation o' c of Inl e \<Rightarrow> Inl e | Inr c1 \<Rightarrow> Inr (o', c1))))"

definition CancelQuarantineRequest :: "string \<Rightarrow> string \<Rightarrow> time \<Rightarrow> catalog \<Rightarrow> unit tx" where
  "CancelQuarantineRequest backupID actor now c =
     (let P = (\<lambda>o'. op_backup_id o' = backupID \<and> op_kind_of o' = Quarantine \<and> op_state_of o' = Requested) in
      case List.find P (operations c) of
        None \<Rightarrow> Inl (ErrMsg ''richiesta non annullabile: gia autorizzata o inesistente'')
      | Some o' \<Rightarrow>
          if count_where P (operations c) \<noteq> 1
          then Inl (ErrMsg ''richiesta non annullabile: gia autorizzata o inesistente'')
          else (let c1 = c\<lparr>operations := update_where P (\<lambda>x. x\<lparr>op_state_of := Cancelled, op_completed_at := unix now,
                       op_error := ''annullata da '' @ actor\<rparr>) (operations c)\<rparr> in
            case set_backup backupID BackupDeleting (\<lambda>b. b\<lparr>b_status := BackupComplete\<rparr>) c1 of
              None \<Rightarrow> Inl (ErrMsg ''backup non ripristinato dopo l'annullamento'')
            | Some c2 \<Rightarrow>
                (let c3 = set_automation (\<lambda>a. a\<lparr>a_deletion_blocked := True, a_state := MonitoringPaused,
                       a_block_reason := ''richiesta annullata; riattivazione amministrativa richiesta'',
                       a_manual_paused := True,
                       a_manual_pause_reason := ''richiesta annullata; riattivazione amministrativa richiesta'',
                       a_activation_pending := False, a_resume_pending := False, a_resume_requested_at := 0\<rparr>) c2
                 in case resolveMaintenanceOperationTx (op_id o') now True c3 of
                      Inl e \<Rightarrow> Inl e | Inr (_, c4) \<Rightarrow> Inr ((), c4))))"

subsection \<open>Leases\<close>

definition MaxGeneration :: int where "MaxGeneration = 9223372036854775807"

definition AcquireMaintenanceLease :: "string \<Rightarrow> int \<Rightarrow> time \<Rightarrow> int \<Rightarrow> catalog \<Rightarrow> lease tx" where
  "AcquireMaintenanceLease owner generation now duration c =
     (if blank owner \<or> duration \<le> 0 then Inl (ErrMsg ''lease non valida'')
      else if generation < 0 then Inl (ErrMsg ''generazione lease non valida'')
      else (let l = lease_row c; expires = unix (now + duration) in
        if generation = 0
        then (if l_expires_at l \<le> unix now \<and> l_generation l < MaxGeneration
              then (let l' = \<lparr>l_owner = owner, l_generation = l_generation l + 1, l_expires_at = expires\<rparr>
                    in Inr (l', c\<lparr>lease_row := l'\<rparr>))
              else Inl ErrLease)
        else (if l_owner l = owner \<and> l_generation l = generation \<and> l_expires_at l > unix now
              then (let l' = l\<lparr>l_expires_at := expires\<rparr> in Inr (l', c\<lparr>lease_row := l'\<rparr>))
              else Inl ErrLease)))"

definition lease_current :: "lease \<Rightarrow> time \<Rightarrow> catalog \<Rightarrow> bool" where
  "lease_current l now c \<longleftrightarrow> l_owner (lease_row c) = l_owner l \<and> l_generation (lease_row c) = l_generation l
     \<and> l_expires_at (lease_row c) > unix now"

definition ValidateMaintenanceLease :: "lease \<Rightarrow> time \<Rightarrow> catalog \<Rightarrow> unit res" where
  "ValidateMaintenanceLease l now c = (if lease_current l now c then Inr () else Inl ErrLease)"

definition validateMaintenanceLeaseTx :: "lease \<Rightarrow> time \<Rightarrow> catalog \<Rightarrow> unit res" where
  "validateMaintenanceLeaseTx l now c =
     (if blank (l_owner l) \<or> l_generation l \<le> 0 then Inl ErrLease
      else if lease_current l now c then Inr () else Inl ErrLease)"

definition ReleaseMaintenanceLease :: "lease \<Rightarrow> catalog \<Rightarrow> unit tx" where
  "ReleaseMaintenanceLease l c =
     (if l_owner (lease_row c) = l_owner l \<and> l_generation (lease_row c) = l_generation l
      then Inr ((), c\<lparr>lease_row := (lease_row c)\<lparr>l_owner := [], l_expires_at := 0\<rparr>\<rparr>)
      else Inr ((), c))"

subsection \<open>Authorization, final permission and confirmation\<close>

definition reconciledSourceIntact :: string where
  "reconciledSourceIntact = ''autorizzazione ricreata dopo riavvio prima dell operazione fisica''"

definition all_models_current :: "catalog \<Rightarrow> bool" where
  "all_models_current c \<longleftrightarrow> (let a = automation_state c in
     list_all (\<lambda>k. kr_revoked k \<or> list_ex (\<lambda>m. mm_key_id m = kr_id k \<and> mm_revision m = a_model_revision a
       \<and> mm_reliable m \<and> \<not> mm_review m \<and> mm_timezone m = a_timezone a) (models c)) (keys c))"

definition canRetryReconciledOperationTx :: "operation \<Rightarrow> time \<Rightarrow> catalog \<Rightarrow> bool" where
  "canRetryReconciledOperationTx o' now c =
     (if op_execution_committed o' \<or> op_error o' \<noteq> reconciledSourceIntact \<or> \<not> active_op o'
         \<or> (op_kind_of o' \<noteq> Quarantine \<and> op_kind_of o' \<noteq> Purge)
      then False
      else (let a = automation_state c in
        if \<not> (a_enabled a \<and> a_mail_tested a \<and> a_deletion_blocked a \<and> \<not> a_manual_paused a \<and> \<not> a_activation_required a
               \<and> \<not> a_resume_pending a \<and> a_model_revision a = op_revision o' \<and> all_models_current c) then False
        else if a_state a \<noteq> MonitoringRegular \<and> a_state a \<noteq> MonitoringAnomaly then False
        else (let decisionAt = (if op_state_of o' = Authorized then op_authorized_at o' else unix now);
                  lastCheck = a_last_check_at a in
          if lastCheck = 0 \<or> lastCheck > unix now + 1 \<or> decisionAt - lastCheck > 600 then False
          else (case List.find (\<lambda>x. an_stable_key x = maintenance_key (op_id o') \<and> an_kind x = ''maintenance''
                   \<and> an_backup_id x = op_backup_id o' \<and> open_anomaly x) (anomalies c) of
              None \<Rightarrow> False
            | Some x \<Rightarrow>
                if lastCheck < an_last_seen_at x then False
                else if a_block_reason a \<noteq> anomaly_reason (an_detail x)
                   \<and> count_where (\<lambda>y. an_stable_key y = uncertain_key (op_id o') \<and> an_kind y = ''maintenance''
                        \<and> \<not> open_anomaly y \<and> an_resolved_by y = ''automatic''
                        \<and> anomaly_reason (an_detail y) = a_block_reason a) (anomalies c) = 0 then False
                else if blockingAnomalyCountTx c now \<noteq> 1 then False
                else count_where (\<lambda>y. op_state_of y = Authorized \<and> op_id y \<noteq> op_id o') (operations c) = 0))))"

definition permission_check :: "env \<Rightarrow> operation \<Rightarrow> time \<Rightarrow> catalog \<Rightarrow> error option" where
  "permission_check E o' now c =
     (if retention_blocked (automation_state c) \<and> op_kind_of o' \<noteq> Recover \<and> \<not> canRetryReconciledOperationTx o' now c
      then Some (ErrRetentionBlocked [])
      else if op_kind_of o' \<noteq> Recover
      then (case checkRetentionMinimumTx E (op_backup_id o') now c of Some e \<Rightarrow> Some e
            | None \<Rightarrow> (case key_revoked c (op_backup_id o') of None \<Rightarrow> Some ErrNoRows
               | Some revoked \<Rightarrow> if revoked then Some (ErrMsg ''operazione distruttiva rifiutata: chiave revocata'') else None))
      else None)"

definition AuthorizeOperation :: "env \<Rightarrow> string res \<Rightarrow> int \<Rightarrow> lease \<Rightarrow> time \<Rightarrow> catalog \<Rightarrow> (operation \<times> string) tx" where
  "AuthorizeOperation E newToken operationID l now c =
     (case validateMaintenanceLeaseTx l now c of Inl e \<Rightarrow> Inl e | Inr _ \<Rightarrow>
     (case Operation c operationID of None \<Rightarrow> Inl ErrNoRows | Some o' \<Rightarrow>
        if op_state_of o' \<noteq> Requested \<or> op_revision o' \<noteq> a_model_revision (automation_state c)
        then (if op_state_of o' \<noteq> Authorized \<or> \<not> op_execution_committed o' then Inl ErrTicket
              else (case newToken of Inl e \<Rightarrow> Inl e | Inr ticket \<Rightarrow>
                if op_ticket_hash o' \<noteq> [] then Inl ErrNoRows
                else Inr ((o'\<lparr>op_lease_generation := l_generation l\<rparr>, ticket),
                       set_operation operationID (\<lambda>x. x\<lparr>op_ticket_hash := TokenHash E ticket,
                         op_lease_generation := l_generation l\<rparr>) c)))
        else (case permission_check E o' now c of Some e \<Rightarrow> Inl e | None \<Rightarrow>
          if op_kind_of o' = Purge \<and> (case find_backup c (op_backup_id o') of None \<Rightarrow> True
               | Some b \<Rightarrow> copies_in c (b_key_id b) stable_status < 1) then Inl ErrLastCopy
          else if op_kind_of o' \<noteq> Recover \<and> receiving_count c \<noteq> 0
          then Inl (ErrMsg ''upload in corso: autorizzazione distruttiva rinviata'')
          else (case newToken of Inl e \<Rightarrow> Inl e | Inr ticket \<Rightarrow>
            Inr ((o'\<lparr>op_state_of := Authorized, op_authorized_at := unix now, op_lease_generation := l_generation l\<rparr>, ticket),
              set_operation operationID (\<lambda>x. x\<lparr>op_state_of := Authorized, op_ticket_hash := TokenHash E ticket,
                op_authorized_at := unix now, op_lease_generation := l_generation l\<rparr>) c)))))"

definition ticket_matches :: "env \<Rightarrow> operation \<Rightarrow> string \<Rightarrow> lease \<Rightarrow> bool" where
  "ticket_matches E o' ticket l \<longleftrightarrow> op_ticket_hash o' \<noteq> [] \<and> TokenHash E ticket = op_ticket_hash o'
     \<and> op_lease_generation o' = l_generation l"

definition ValidateOperation :: "env \<Rightarrow> int \<Rightarrow> string \<Rightarrow> lease \<Rightarrow> time \<Rightarrow> catalog \<Rightarrow> unit tx" where
  "ValidateOperation E operationID ticket l now c =
     (case validateMaintenanceLeaseTx l now c of Inl e \<Rightarrow> Inl e | Inr _ \<Rightarrow>
     (case Operation c operationID of None \<Rightarrow> Inl ErrNoRows | Some o' \<Rightarrow>
        if op_state_of o' \<noteq> Authorized \<or> \<not> ticket_matches E o' ticket l then Inl ErrTicket
        else if op_execution_committed o' then Inr ((), c)
        else if op_revision o' \<noteq> a_model_revision (automation_state c) \<or> op_authorized_at o' > unix now + 1 then Inl ErrTicket
        else (case permission_check E o' now c of Some e \<Rightarrow> Inl e | None \<Rightarrow>
          if op_kind_of o' \<noteq> Recover \<and> receiving_count c \<noteq> 0
          then Inl (ErrMsg ''upload in corso: operazione fisica rinviata'')
          else Inr ((), set_operation operationID (\<lambda>x. x\<lparr>op_execution_committed := True\<rparr>) c))))"

definition purgeNotBefore :: "time \<Rightarrow> seconds" where
  "purgeNotBefore now = unix (now + 48 * hour_ns) + (if now mod second \<noteq> 0 then 1 else 0)"

text \<open>The transition of the backup that the physical result of an operation stands for.\<close>

definition finish_backup :: "operation \<Rightarrow> time \<Rightarrow> catalog \<Rightarrow> catalog option" where
  "finish_backup o' now c =
     (case op_kind_of o' of
        Quarantine \<Rightarrow> set_backup (op_backup_id o') BackupDeleting
          (\<lambda>b. b\<lparr>b_status := BackupQuarantined, b_quarantined_at := unix now, b_purge_not_before := purgeNotBefore now\<rparr>) c
      | Purge \<Rightarrow> set_backup (op_backup_id o') BackupPurging (\<lambda>b. b\<lparr>b_status := BackupDeleted, b_purged_at := unix now\<rparr>) c
      | Recover \<Rightarrow> set_backup (op_backup_id o') BackupQuarantined
          (\<lambda>b. b\<lparr>b_status := BackupComplete, b_quarantined_at := 0, b_purge_not_before := 0\<rparr>) c
      | Cancel \<Rightarrow> None)"

definition finish_operation :: "error \<Rightarrow> error \<Rightarrow> string \<Rightarrow> operation \<Rightarrow> time \<Rightarrow> catalog \<Rightarrow> unit tx" where
  "finish_operation unknown incoherent note o' now c =
     (if op_kind_of o' = Cancel then Inl unknown
      else (case finish_backup o' now c of None \<Rightarrow> Inl incoherent | Some c1 \<Rightarrow>
        (case resolveMaintenanceOperationTx (op_id o') now True
               (set_operation (op_id o') (\<lambda>x. x\<lparr>op_state_of := Confirmed, op_completed_at := unix now, op_error := note\<rparr>) c1) of
           Inl e \<Rightarrow> Inl e | Inr (_, c2) \<Rightarrow> Inr ((), c2))))"

definition record_failure :: "env \<Rightarrow> operation \<Rightarrow> string \<Rightarrow> time \<Rightarrow> catalog \<Rightarrow> unit tx" where
  "record_failure E o' detail now c =
     (let operationDetail = (if detail = reconciledSourceIntact then ''errore operativo: '' @ detail else detail);
          failureDetail = ''errore operazione di manutenzione: '' @ detail;
          c1 = set_operation (op_id o') (\<lambda>x. x\<lparr>op_error := operationDetail\<rparr>) c;
          a = automation_state c1;
          own = List.find (\<lambda>x. an_stable_key x = maintenance_key (op_id o') \<and> an_kind x = ''maintenance''
                  \<and> an_backup_id x = op_backup_id o' \<and> open_anomaly x) (anomalies c1);
          c2 = (case own of None \<Rightarrow> c1
                | Some x \<Rightarrow> if a_deletion_blocked a \<and> a_block_reason a = anomaly_reason (an_detail x)
                            then set_automation (\<lambda>s. s\<lparr>a_block_reason := anomaly_reason failureDetail\<rparr>) c1 else c1)
      in case openAnomalyTx E (maintenance_key (op_id o')) ''maintenance'' [] (op_backup_id o') failureDetail now c2 of
           Inl e \<Rightarrow> Inl e | Inr c3 \<Rightarrow> Inr ((), c3))"

definition ConfirmOperation :: "env \<Rightarrow> int \<Rightarrow> string \<Rightarrow> bool \<Rightarrow> string \<Rightarrow> lease \<Rightarrow> time \<Rightarrow> catalog \<Rightarrow> unit tx" where
  "ConfirmOperation E operationID ticket physicalDone detail l now c =
     (case validateMaintenanceLeaseTx l now c of Inl e \<Rightarrow> Inl e | Inr _ \<Rightarrow>
     (case Operation c operationID of None \<Rightarrow> Inl ErrNoRows | Some o' \<Rightarrow>
        if op_state_of o' = Confirmed \<and> physicalDone
        then (if ticket_matches E o' ticket l then Inr ((), c) else Inl ErrTicket)
        else if op_state_of o' \<noteq> Authorized \<or> \<not> ticket_matches E o' ticket l then Inl ErrTicket
        else if \<not> physicalDone then record_failure E o' detail now c
        else finish_operation (ErrMsg ''tipo operazione non confermabile'')
               (ErrMsg ''conferma rifiutata: stato del backup non coerente con l'operazione'') [] o' now c))"

definition ReconcileAuthorized :: "int \<Rightarrow> time \<Rightarrow> catalog \<Rightarrow> unit tx" where
  "ReconcileAuthorized operationID now c =
     (case Operation c operationID of None \<Rightarrow> Inl ErrNoRows | Some o' \<Rightarrow>
        if op_state_of o' \<noteq> Authorized then Inl ErrTicket
        else finish_operation (ErrMsg ''operazione non riconciliabile'')
               (ErrMsg ''riconciliazione rifiutata: stato del backup non coerente'') ''riconciliata dopo riavvio'' o' now c)"

definition resolve_after :: "int \<Rightarrow> time \<Rightarrow> bool \<Rightarrow> catalog \<Rightarrow> unit tx" where
  "resolve_after operationID now finished c =
     (case resolveMaintenanceOperationTx operationID now finished c of Inl e \<Rightarrow> Inl e | Inr (_, c') \<Rightarrow> Inr ((), c'))"

definition ResetAuthorized :: "int \<Rightarrow> time \<Rightarrow> catalog \<Rightarrow> unit tx" where
  "ResetAuthorized operationID now c =
     (case Operation c operationID of None \<Rightarrow> Inl ErrNoRows | Some o' \<Rightarrow>
     (case key_revoked c (op_backup_id o') of None \<Rightarrow> Inl ErrNoRows | Some revoked \<Rightarrow>
        if op_state_of o' \<noteq> Authorized then Inl ErrTicket
        else if op_execution_committed o'
        then resolve_after operationID now False
               (set_operation operationID (\<lambda>x. x\<lparr>op_ticket_hash := [], op_lease_generation := 0\<rparr>) c)
        else if revoked \<and> (op_kind_of o' = Quarantine \<or> op_kind_of o' = Purge)
        then (let (expected, restored) = (if op_kind_of o' = Purge then (BackupPurging, BackupQuarantined)
                                          else (BackupDeleting, BackupComplete)) in
          case set_backup (op_backup_id o') expected (\<lambda>b. b\<lparr>b_status := restored\<rparr>) c of
            None \<Rightarrow> Inl ErrNoRows
          | Some c1 \<Rightarrow> resolve_after operationID now True
              (set_operation operationID (\<lambda>x. x\<lparr>op_state_of := Cancelled, op_ticket_hash := [], op_lease_generation := 0,
                 op_completed_at := unix now, op_error := ''annullata automaticamente: chiave revocata''\<rparr>) c1))
        else resolve_after operationID now False
               (set_operation operationID (\<lambda>x. x\<lparr>op_state_of := Requested, op_ticket_hash := [], op_lease_generation := 0,
                  op_authorized_at := 0, op_error := reconciledSourceIntact\<rparr>) c)))"

definition Operations :: "op_state list \<Rightarrow> catalog \<Rightarrow> operation list" where
  "Operations states c = filter (\<lambda>o'. states = [] \<or> op_state_of o' \<in> set states) (operations c)"

end
