(* ===== verification/Store_Monitoring.thy ===== *)
theory Store_Monitoring
  imports Store_Retention
begin

text \<open>
  Monitoring checks, internal/store/monitoring_checks.go: a check is started, planned over the learned
  models (each key's uncovered past is cut into one segment per model revision), and completed with
  its findings, which may activate a prepared retention, or failed. Also SaveModel, LoadModels and
  SetCheckState of retention.go.
\<close>

definition StartMonitoringCheck :: "time \<Rightarrow> catalog \<Rightarrow> check_row tx" where
  "StartMonitoringCheck now c =
     (let c1 = fail_running ''interrotto dal precedente arresto'' now c;
          row = \<lparr>mc_id = seq_check c + 1, mc_started_at = unix now, mc_finished_at = None, mc_from = unix now,
                 mc_to = unix now, mc_status = Running, mc_summary = []\<rparr>
      in Inr (row, c1\<lparr>checks := checks c1 @ [row], seq_check := seq_check c + 1\<rparr>))"

definition completed_status :: "check_status \<Rightarrow> bool" where
  "completed_status s \<longleftrightarrow> s = CompletedClean \<or> s = CompletedWithAnomalies"

definition check_with :: "catalog \<Rightarrow> (check_row \<Rightarrow> bool) \<Rightarrow> int \<Rightarrow> bool" where
  "check_with c P i \<longleftrightarrow> list_ex (\<lambda>k. mc_id k = i \<and> P k) (checks c)"

definition max_option :: "int list \<Rightarrow> int option" where
  "max_option xs = (if xs = [] then None else Some (foldr max xs (hd xs)))"

text \<open>The end of the coverage that completed checks already give a key.\<close>

definition latest_cover :: "catalog \<Rightarrow> string \<Rightarrow> seconds option" where
  "latest_cover c keyID = max_option (map cm_to (filter (\<lambda>m. cm_key_id m = keyID
     \<and> check_with c (\<lambda>k. completed_status (mc_status k)) (cm_check_id m)) (check_models c)))"

definition plannable :: "catalog \<Rightarrow> int \<Rightarrow> monitoring_model list" where
  "plannable c currentRevision = sort_key (\<lambda>m. (mm_key_id m, mm_learned_at m, mm_revision m))
     (filter (\<lambda>m. list_ex (\<lambda>k. kr_id k = mm_key_id m \<and> \<not> kr_revoked k) (keys c)
        \<and> mm_reliable m \<and> \<not> mm_review m \<and> mm_revision m \<le> currentRevision) (models c))"

definition planned_revision :: "catalog \<Rightarrow> int" where
  "planned_revision c =
     (if a_model_revision (automation_state c) = 0
      then (case max_option (map mm_revision (models c)) of None \<Rightarrow> 0 | Some r \<Rightarrow> r)
      else a_model_revision (automation_state c))"

text \<open>The first interrupted plan of a key, the model in force at the first attempt, and with them the
  instant a key's coverage starts at: (start, index of the first model).\<close>

definition first_plan :: "catalog \<Rightarrow> string \<Rightarrow> int \<Rightarrow> check_model option" where
  "first_plan c keyID i =
     (case sort_key (\<lambda>m. (cm_check_id m, cm_from m, cm_revision m))
             (filter (\<lambda>m. cm_key_id m = keyID \<and> cm_check_id m < i \<and> check_with c (\<lambda>_. True) (cm_check_id m)) (check_models c)) of
        [] \<Rightarrow> None | m # _ \<Rightarrow> Some m)"

fun applicable_at :: "seconds \<Rightarrow> monitoring_model list \<Rightarrow> nat" where
  "applicable_at t (m # m' # ms) = (if mm_learned_at m' \<le> t then Suc (applicable_at t (m' # ms)) else 0)"
| "applicable_at t _ = 0"

definition bootstrap_start :: "env \<Rightarrow> monitoring_model \<Rightarrow> seconds \<Rightarrow> seconds res" where
  "bootstrap_start E m firstStartedAt =
     (case LoadLocation E (mm_timezone m) of None \<Rightarrow> Inl (ErrMsg ''fuso non valido'')
      | Some loc \<Rightarrow> Inr (if mm_learned_at m > firstStartedAt then mm_learned_at m
          else unix (AddDate loc (localMidnight (of_unix firstStartedAt) loc) (- 1) - second)))"

definition coverage_start :: "env \<Rightarrow> catalog \<Rightarrow> int \<Rightarrow> string \<Rightarrow> monitoring_model list \<Rightarrow> (seconds \<times> bool \<times> nat) res" where
  "coverage_start E c i keyID ms =
     (case latest_cover c keyID of
        Some t \<Rightarrow> Inr (t, True, 0)
      | None \<Rightarrow>
          (case first_plan c keyID i of
             Some p \<Rightarrow>
               (let firstModel = length (takeWhile (\<lambda>m. mm_revision m \<noteq> cm_revision p) ms) in
                if firstModel = length ms then Inl (ErrMsg ''modello del primo controllo interrotto non disponibile'')
                else Inr (cm_from p, False, firstModel))
           | None \<Rightarrow>
               if count_where (\<lambda>k. completed_status (mc_status k)) (checks c) = 0
               then (let firstStartedAt = mc_started_at (hd (checks c));
                         firstModel = applicable_at firstStartedAt ms in
                     case bootstrap_start E (ms ! firstModel) firstStartedAt of
                       Inl e \<Rightarrow> Inl e | Inr s \<Rightarrow> Inr (s, False, firstModel))
               else Inr (mm_learned_at (hd ms), False, 0)))"

text \<open>One segment per model: from where the previous model ends to where the next one was learned.\<close>

fun segments :: "bool \<Rightarrow> seconds \<Rightarrow> seconds \<Rightarrow> monitoring_model list \<Rightarrow> (monitoring_model \<times> seconds \<times> seconds) list" where
  "segments split start coverageEnd [] = []"
| "segments split start coverageEnd (m # ms) =
     (let segmentFrom = (if split \<and> mm_learned_at m > start then mm_learned_at m else start);
          segmentTo = (case ms of m' # _ \<Rightarrow> if mm_learned_at m' < coverageEnd then mm_learned_at m' else coverageEnd
                       | [] \<Rightarrow> coverageEnd)
      in (if segmentFrom > segmentTo then [] else [(m, segmentFrom, segmentTo)])
         @ segments True start coverageEnd ms)"

definition key_segments :: "env \<Rightarrow> catalog \<Rightarrow> int \<Rightarrow> seconds \<Rightarrow> string \<Rightarrow> monitoring_model list
    \<Rightarrow> (monitoring_model \<times> seconds \<times> seconds) list res" where
  "key_segments E c i coverageEnd keyID ms =
     (case coverage_start E c i keyID ms of
        Inl e \<Rightarrow> Inl e
      | Inr (start, hasCoverage, firstModel) \<Rightarrow>
          Inr (if start > coverageEnd then []
               else segments hasCoverage start coverageEnd (if hasCoverage then ms else drop firstModel ms)))"

fun plan_keys :: "env \<Rightarrow> catalog \<Rightarrow> int \<Rightarrow> seconds \<Rightarrow> monitoring_model list \<Rightarrow> string list
    \<Rightarrow> (monitoring_model \<times> seconds \<times> seconds) list res" where
  "plan_keys E c i coverageEnd items [] = Inr []"
| "plan_keys E c i coverageEnd items (k # ks) =
     (case key_segments E c i coverageEnd k (filter (\<lambda>m. mm_key_id m = k) items) of
        Inl e \<Rightarrow> Inl e
      | Inr segs \<Rightarrow> (case plan_keys E c i coverageEnd items ks of Inl e \<Rightarrow> Inl e | Inr others \<Rightarrow> Inr (segs @ others)))"

definition coverage_end :: "check_row \<Rightarrow> time \<Rightarrow> seconds" where
  "coverage_end k now = min (mc_started_at k) (unix now) - unix ScheduleTolerance"

definition scope_row :: "int \<Rightarrow> monitoring_model \<times> seconds \<times> seconds \<Rightarrow> check_model" where
  "scope_row i s = \<lparr>cm_check_id = i, cm_key_id = mm_key_id (fst s), cm_revision = mm_revision (fst s),
     cm_from = fst (snd s), cm_to = snd (snd s)\<rparr>"

definition PlanMonitoringCheck :: "env \<Rightarrow> int \<Rightarrow> time \<Rightarrow> catalog \<Rightarrow> (check_row \<times> (monitoring_model \<times> seconds \<times> seconds) list) tx" where
  "PlanMonitoringCheck E i now c =
     (case List.find (\<lambda>k. mc_id k = i \<and> mc_status k = Running) (checks c) of
        None \<Rightarrow> Inl ErrNoRows
      | Some k \<Rightarrow>
          (let items = plannable c (planned_revision c) in
           case plan_keys E c i (coverage_end k now) items (remdups (map mm_key_id items)) of
             Inl e \<Rightarrow> Inl e
           | Inr segs \<Rightarrow>
               if list_ex (\<lambda>s. list_ex (\<lambda>m. cm_check_id m = i \<and> cm_key_id m = mm_key_id (fst s)
                    \<and> cm_revision m = mm_revision (fst s)) (check_models c)) segs then Inl ErrConstraint
               else (let periodFrom = (if segs = [] then unix now else foldr min (map (\<lambda>s. fst (snd s)) segs) (fst (snd (hd segs))));
                         periodTo = (if segs = [] then unix now else foldr max (map (\<lambda>s. snd (snd s)) segs) (snd (snd (hd segs))))
                     in Inr ((k\<lparr>mc_from := periodFrom, mc_to := periodTo\<rparr>, segs),
                         c\<lparr>check_models := check_models c @ map (scope_row i) segs,
                           checks := update_where (\<lambda>x. mc_id x = i \<and> mc_status x = Running)
                             (\<lambda>x. x\<lparr>mc_from := periodFrom, mc_to := periodTo\<rparr>) (checks c)\<rparr>))))"

subsection \<open>Completion\<close>

fun open_findings :: "env \<Rightarrow> finding list \<Rightarrow> time \<Rightarrow> catalog \<Rightarrow> error + catalog" where
  "open_findings E [] now c = Inr c"
| "open_findings E (f # fs) now c =
     (case openAnomalyAtTx E (f_stable_key f) (f_kind f) (f_key_id f) (f_backup_id f) (f_detail f)
             (if f_at f = zero_time then now else f_at f) now c of
        Inl e \<Rightarrow> Inl e | Inr (_, c') \<Rightarrow> open_findings E fs now c')"

definition activation_ready :: "catalog \<Rightarrow> bool" where
  "activation_ready c \<longleftrightarrow> (let a = automation_state c in
     a_enabled a \<and> a_mail_tested a \<and> a_state a = MonitoringRegular \<and> a_model_revision a \<noteq> 0
     \<and> (a_resume_pending a \<or> (a_activation_pending a \<and> \<not> a_manual_paused a))
     \<and> list_ex (\<lambda>k. \<not> kr_revoked k) (keys c) \<and> all_models_current c \<and> authorized_count c = 0)"

definition activateRetentionAfterCheckTx :: "catalog \<Rightarrow> catalog" where
  "activateRetentionAfterCheckTx c = (if activation_ready c then set_automation release_holds c else c)"

text \<open>The checks whose coverage still carries a key's latest completed segment are kept.\<close>

definition carries_coverage :: "catalog \<Rightarrow> int \<Rightarrow> bool" where
  "carries_coverage c i \<longleftrightarrow> list_ex (\<lambda>m. cm_check_id m = i
     \<and> list_ex (\<lambda>k. kr_id k = cm_key_id m \<and> \<not> kr_revoked k) (keys c)
     \<and> cm_revision m = a_model_revision (automation_state c)
     \<and> check_with c (\<lambda>k. completed_status (mc_status k)) (cm_check_id m)
     \<and> list_all (\<lambda>m'. cm_key_id m' = cm_key_id m \<and> cm_revision m' = cm_revision m
          \<and> check_with c (\<lambda>k. completed_status (mc_status k)) (cm_check_id m') \<longrightarrow> cm_to m' \<le> cm_to m) (check_models c))
     (check_models c)"

definition cleanupMonitoringChecksTx :: "seconds \<Rightarrow> catalog \<Rightarrow> catalog" where
  "cleanupMonitoringChecksTx cutoff c =
     (let old = (\<lambda>k. (case mc_finished_at k of None \<Rightarrow> False | Some t \<Rightarrow> t < cutoff) \<and> \<not> carries_coverage c (mc_id k));
          gone = map mc_id (filter old (checks c))
      in c\<lparr>checks := filter (\<lambda>k. \<not> old k) (checks c),
           check_models := filter (\<lambda>m. cm_check_id m \<notin> set gone) (check_models c)\<rparr>)"

definition check_retention :: seconds where "check_retention = 90 * 24 * 3600"

definition CompleteMonitoringCheck :: "env \<Rightarrow> int \<Rightarrow> check_status \<Rightarrow> string \<Rightarrow> monitoring_state \<Rightarrow> int \<Rightarrow> finding list \<Rightarrow> time
    \<Rightarrow> catalog \<Rightarrow> unit tx" where
  "CompleteMonitoringCheck E i outcome summary st revision findings now c =
     (if \<not> completed_status outcome then Inl (ErrMsg ''esito controllo non valido'')
      else if (findings = []) \<noteq> (outcome = CompletedClean) then Inl (ErrMsg ''esito controllo incoerente con le anomalie'')
      else if length summary > 8192 then Inl (ErrMsg ''riepilogo controllo troppo lungo'')
      else if count_where (\<lambda>k. mc_id k = i \<and> mc_status k = Running) (checks c) \<noteq> 1
      then Inl (ErrMsg ''controllo non piu in corso o invalidato dalla configurazione'')
      else if a_model_revision (automation_state c) \<noteq> 0 \<and> a_model_revision (automation_state c) \<noteq> revision
      then Inl (ErrMsg ''controllo obsoleto: revisione del modello cambiata; ripetere il controllo'')
      else (case open_findings E findings now c of Inl e \<Rightarrow> Inl e | Inr c1 \<Rightarrow>
        (let st' = (if blockingAnomalyCountTx c1 now > 0 then MonitoringAnomaly else st);
             c2 = set_automation (\<lambda>a. if st' = MonitoringLearning
                    then a\<lparr>a_state := st', a_model_revision := revision, a_last_check_at := unix now,
                           a_deletion_blocked := True, a_block_reason := ''apprendimento non completato''\<rparr>
                    else a\<lparr>a_state := st', a_model_revision := revision, a_last_check_at := unix now\<rparr>) c1;
             c3 = c2\<lparr>checks := update_where (\<lambda>k. mc_id k = i \<and> mc_status k = Running)
                    (\<lambda>k. k\<lparr>mc_status := outcome, mc_finished_at := Some (unix now), mc_summary := summary\<rparr>) (checks c2)\<rparr>
         in Inr ((), cleanupMonitoringChecksTx (unix now - check_retention) (activateRetentionAfterCheckTx c3)))))"

definition FailMonitoringCheck :: "int \<Rightarrow> string \<Rightarrow> time \<Rightarrow> catalog \<Rightarrow> unit tx" where
  "FailMonitoringCheck i summary now c =
     (let s = (if blank summary then ''controllo interrotto'' else summary) in
      Inr ((), c\<lparr>checks := update_where (\<lambda>k. mc_id k = i \<and> mc_status k = Running)
        (\<lambda>k. k\<lparr>mc_status := CheckFailed, mc_finished_at := Some (unix now), mc_summary := take 8192 s\<rparr>) (checks c)\<rparr>))"

subsection \<open>Models and check state\<close>

definition SaveModel :: "string \<Rightarrow> int \<Rightarrow> string \<Rightarrow> int \<Rightarrow> key_model option \<Rightarrow> bool \<Rightarrow> bool \<Rightarrow> time \<Rightarrow> catalog \<Rightarrow> unit tx" where
  "SaveModel keyID revision timezone retentionDays value reliable review now c =
     (if find_key c keyID = None \<or> retentionDays < 7 then Inl ErrConstraint
      else (let row = \<lparr>mm_key_id = keyID, mm_revision = revision, mm_learned_at = unix now, mm_timezone = timezone,
                       mm_retention_days = retentionDays, mm_model = value, mm_reliable = reliable, mm_review = review\<rparr>;
                P = (\<lambda>m. mm_key_id m = keyID \<and> mm_revision m = revision) in
        Inr ((), c\<lparr>models := (if list_ex P (models c) then update_where P (\<lambda>_. row) (models c) else models c @ [row])\<rparr>)))"

definition LoadModels :: "catalog \<Rightarrow> (string \<times> key_model option) list" where
  "LoadModels c = map (\<lambda>m. (mm_key_id m, mm_model m)) (filter (\<lambda>m. mm_reliable m \<and> \<not> mm_review m
     \<and> mm_revision m = a_model_revision (automation_state c)) (models c))"

definition SetCheckState :: "monitoring_state \<Rightarrow> int \<Rightarrow> time \<Rightarrow> catalog \<Rightarrow> unit tx" where
  "SetCheckState st revision now c = Inr ((), set_automation (\<lambda>a. if st = MonitoringLearning
     then a\<lparr>a_state := st, a_model_revision := revision, a_last_check_at := unix now, a_deletion_blocked := True,
            a_block_reason := ''apprendimento non completato''\<rparr>
     else a\<lparr>a_state := st, a_model_revision := revision, a_last_check_at := unix now\<rparr>) c)"

end
