(* ===== verification/Store_Invariant.thy ===== *)
theory Store_Invariant
  imports Store_Monitoring
begin

text \<open>
  The invariant of the catalogue and its preservation by every store operation. The heart of it is
  the agreement between a backup's status and the active operations on it: a backup is being
  deleted exactly while one quarantine is active on it, being purged exactly while one purge is, and
  a recovery is active only on a quarantined backup.
\<close>

definition active_ops :: "operation list \<Rightarrow> string \<Rightarrow> operation list" where
  "active_ops ops i = filter (\<lambda>o'. active_op o' \<and> op_backup_id o' = i) ops"

definition active_kinds :: "operation list \<Rightarrow> string \<Rightarrow> op_kind list" where
  "active_kinds ops i = map op_kind_of (active_ops ops i)"

fun row_ok :: "status \<Rightarrow> op_kind list \<Rightarrow> bool" where
  "row_ok st [] \<longleftrightarrow> st \<noteq> BackupDeleting \<and> st \<noteq> BackupPurging"
| "row_ok st [Quarantine] \<longleftrightarrow> st = BackupDeleting"
| "row_ok st [Purge] \<longleftrightarrow> st = BackupPurging"
| "row_ok st [Recover] \<longleftrightarrow> st = BackupQuarantined"
| "row_ok st _ \<longleftrightarrow> False"

definition coherent :: "backup list \<Rightarrow> operation list \<Rightarrow> bool" where
  "coherent bs ops \<longleftrightarrow> (\<forall>b \<in> set bs. row_ok (b_status b) (active_kinds ops (b_id b)))"

definition quarantine_timed :: "backup list \<Rightarrow> bool" where
  "quarantine_timed bs \<longleftrightarrow> (\<forall>b \<in> set bs. b_status b = BackupQuarantined \<or> b_status b = BackupPurging \<or> b_status b = BackupDeleted
     \<longrightarrow> b_quarantined_at b + 172800 \<le> b_purge_not_before b)"

definition ops_wf :: "backup list \<Rightarrow> operation list \<Rightarrow> int \<Rightarrow> bool" where
  "ops_wf bs ops n \<longleftrightarrow> distinct (map op_id ops) \<and> (\<forall>o' \<in> set ops. 0 < op_id o' \<and> op_id o' \<le> n \<and> op_backup_id o' \<in> b_id ` set bs) \<and> 0 \<le> n"

definition core_inv :: "catalog \<Rightarrow> bool" where
  "core_inv c \<longleftrightarrow> distinct (map b_id (backups c)) \<and> ops_wf (backups c) (operations c) (seq_operation c)
     \<and> coherent (backups c) (operations c) \<and> quarantine_timed (backups c)"

lemmas core_inv_defs = core_inv_def ops_wf_def

subsection \<open>Frames\<close>

text \<open>The anomaly and mail operations leave everything but anomalies, mail and the automation row.\<close>

definition same_core :: "catalog \<Rightarrow> catalog \<Rightarrow> bool" where
  "same_core c c' \<longleftrightarrow> backups c' = backups c \<and> operations c' = operations c \<and> seq_operation c' = seq_operation c
     \<and> lease_row c' = lease_row c \<and> keys c' = keys c \<and> profiles c' = profiles c"

lemma same_core_refl [simp, intro]: "same_core c c" by (simp add: same_core_def)

lemma same_core_trans: "same_core a b \<Longrightarrow> same_core b c \<Longrightarrow> same_core a c" by (simp add: same_core_def)

lemma core_inv_same: "same_core c c' \<Longrightarrow> core_inv c' \<longleftrightarrow> core_inv c"
  by (simp add: same_core_def core_inv_defs)

lemma insert_mail_frame [frame_simps]:
  "insert_mail s k sub b now c = Inr c' \<Longrightarrow>
     same_core c c' \<and> anomalies c' = anomalies c \<and> automation_state c' = automation_state c
     \<and> exclusions c' = exclusions c \<and> seq_anomaly c' = seq_anomaly c"
  by (auto simp: insert_mail_def same_core_def split: if_splits)

lemma insert_anomaly_frame [frame_simps]:
  "insert_anomaly a c = Inr c' \<Longrightarrow> same_core c c' \<and> automation_state c' = automation_state c
     \<and> mail_queue c' = mail_queue c \<and> seq_mail c' = seq_mail c"
  by (auto simp: insert_anomaly_def same_core_def split: if_splits)

lemma recordExcluded_frame:
  "recordExcludedAnomalyTx s k ki b d ev now c = Inr c' \<Longrightarrow> same_core c c' \<and> automation_state c' = automation_state c
     \<and> mail_queue c' = mail_queue c \<and> seq_mail c' = seq_mail c"
  by (auto simp: recordExcludedAnomalyTx_def Let_def same_core_def dest!: insert_anomaly_frame split: list.splits if_splits)

lemma blockForAnomaly_frame [simp]: "same_core c (blockForAnomalyTx d c)"
  by (simp add: blockForAnomalyTx_def same_core_def)

lemma openAnomalyAt_frame:
  assumes "openAnomalyAtTx E s k ki b d ev now c = Inr (r, c')"
  shows "same_core c c'"
proof -
  show ?thesis
  proof (cases "anomalyExcludedTx c ki k ev")
    case True
    with assms show ?thesis
      by (auto simp: openAnomalyAtTx_def dest!: recordExcluded_frame split: if_splits sum.splits)
  next
    case False
    show ?thesis
    proof (cases "count_where (\<lambda>a. an_stable_key a = s \<and> open_anomaly a) (anomalies c) \<noteq> 0")
      case True
      with False assms show ?thesis by (auto simp: openAnomalyAtTx_def Let_def same_core_def split: if_splits)
    next
      case none: False
      with False assms obtain c1 subj body where 1: "insert_anomaly (new_anomaly s k ki b d ev now) c = Inr c1"
        and 2: "insert_mail (''anomaly:'' @ s @ '':'' @ show_int (unix now)) ''anomaly'' subj body now
              (if anomalyBlocksTx c1 s k ki now then blockForAnomalyTx d c1 else c1) = Inr c'"
        by (auto simp: openAnomalyAtTx_def Let_def split: if_splits sum.splits prod.splits)
      from 1 have "same_core c c1" by (simp add: insert_anomaly_frame)
      moreover have "same_core c1 (if anomalyBlocksTx c1 s k ki now then blockForAnomalyTx d c1 else c1)" by simp
      moreover from 2 have "same_core (if anomalyBlocksTx c1 s k ki now then blockForAnomalyTx d c1 else c1) c'"
        by (simp add: insert_mail_frame)
      ultimately show ?thesis by (meson same_core_trans)
    qed
  qed
qed

lemma openAnomaly_frame: "openAnomalyTx E s k ki b d now c = Inr c' \<Longrightarrow> same_core c c'"
  by (auto simp: openAnomalyTx_def dest: openAnomalyAt_frame split: sum.splits)

lemma resolveMaintenance_frame:
  "resolveMaintenanceOperationTx i now fin c = Inr (r, c') \<Longrightarrow> same_core c c' \<and> automation_state c' = automation_state c"
  by (auto simp: resolveMaintenanceOperationTx_def Let_def same_core_def dest!: insert_mail_frame split: if_splits sum.splits)

lemma resolve_all_frame: "resolve_all is now c = Inr c' \<Longrightarrow> same_core c c' \<and> automation_state c' = automation_state c"
proof (induction "is" arbitrary: c)
  case (Cons i "is")
  then obtain r c1 where "resolveMaintenanceOperationTx i now True c = Inr (r, c1)" "resolve_all is now c1 = Inr c'"
    by (auto split: sum.splits)
  with Cons.IH [of c1] show ?case
    using resolveMaintenance_frame [of i now True c r c1] same_core_trans [of c c1 c'] by simp
qed simp

lemma resolve_after_frame: "resolve_after i now fin c = Inr (r, c') \<Longrightarrow> same_core c c'"
  by (auto simp: resolve_after_def dest: resolveMaintenance_frame split: sum.splits)

lemma open_extras_frame: "open_extras E fs now c = Inr c' \<Longrightarrow> same_core c c'"
proof (induction fs arbitrary: c)
  case (Cons f fs)
  show ?case
  proof (cases "f_kind f = ''extra''")
    case True
    then obtain r c1 where "openAnomalyAtTx E (f_stable_key f) (f_kind f) (f_key_id f) (f_backup_id f) (f_detail f) (f_at f) now c
        = Inr (r, c1)" "open_extras E fs now c1 = Inr c'"
      using Cons.prems by (auto split: sum.splits)
    then show ?thesis using Cons.IH openAnomalyAt_frame same_core_trans by blast
  next
    case False
    then show ?thesis using Cons by simp
  qed
qed simp

lemma open_findings_frame: "open_findings E fs now c = Inr c' \<Longrightarrow> same_core c c'"
proof (induction fs arbitrary: c)
  case (Cons f fs)
  then obtain r c1 where "openAnomalyAtTx E (f_stable_key f) (f_kind f) (f_key_id f) (f_backup_id f) (f_detail f)
      (if f_at f = zero_time then now else f_at f) now c = Inr (r, c1)" "open_findings E fs now c1 = Inr c'"
    by (auto split: sum.splits)
  then show ?case using Cons.IH openAnomalyAt_frame same_core_trans by blast
qed simp

lemma evaluateCompleted_frame:
  assumes "evaluateCompletedInTransaction E i now c = Inr c'"
  shows "same_core c c'"
proof -
  obtain b where b: "find_backup c i = Some b"
    using assms by (auto simp: evaluateCompletedInTransaction_def split: option.splits)
  show ?thesis
    using assms b same_core_trans [of c _ c'] openAnomaly_frame open_extras_frame
    by (auto simp: evaluateCompletedInTransaction_def split: option.splits if_splits sum.splits) blast+
qed

subsection \<open>Rows and operations\<close>

lemma active_ops_append [simp]:
  "active_ops (xs @ ys) i = active_ops xs i @ active_ops ys i" by (simp add: active_ops_def)

lemma active_kinds_append [simp]:
  "active_kinds (xs @ ys) i = active_kinds xs i @ active_kinds ys i" by (simp add: active_kinds_def)

lemma active_kinds_keep:
  assumes "\<And>r. r \<in> set ops \<Longrightarrow> P r \<Longrightarrow>
      active_op (g r) = active_op r \<and> op_backup_id (g r) = op_backup_id r \<and> op_kind_of (g r) = op_kind_of r"
  shows "active_kinds (update_where P g ops) i = active_kinds ops i"
  using assms by (induction ops) (auto simp: active_kinds_def active_ops_def)

lemma active_kinds_drop:
  assumes "\<And>r. r \<in> set ops \<Longrightarrow> P r \<Longrightarrow> \<not> active_op (g r)"
  shows "active_kinds (update_where P g ops) i = map op_kind_of (filter (\<lambda>r. \<not> P r) (active_ops ops i))"
  using assms by (induction ops) (auto simp: active_kinds_def active_ops_def)

lemma row_ok_kinds: "row_ok st ks \<Longrightarrow> ks = [] \<or> (\<exists>k. ks = [k])"
  by (cases "(st, ks)" rule: row_ok.cases) auto

lemma row_ok_iff:
  "row_ok st [k] \<longleftrightarrow> (k = Quarantine \<and> st = BackupDeleting) \<or> (k = Purge \<and> st = BackupPurging) \<or> (k = Recover \<and> st = BackupQuarantined)"
  by (cases k) auto

lemma coherentD: "coherent bs ops \<Longrightarrow> b \<in> set bs \<Longrightarrow> row_ok (b_status b) (active_kinds ops (b_id b))"
  by (simp add: coherent_def)

text \<open>Under coherence an active operation is the only one on its backup, and fixes its status.\<close>

lemma coherent_active:
  assumes "coherent bs ops" "o' \<in> set ops" "active_op o'" "b \<in> set bs" "b_id b = op_backup_id o'"
  shows "active_ops ops (b_id b) = [o']" "row_ok (b_status b) [op_kind_of o']"
proof -
  have r: "row_ok (b_status b) (active_kinds ops (b_id b))" using assms(1,4) by (rule coherentD)
  have m: "o' \<in> set (active_ops ops (b_id b))" using assms by (simp add: active_ops_def)
  then have "active_kinds ops (b_id b) \<noteq> []" by (auto simp: active_kinds_def)
  with row_ok_kinds [OF r] have "length (active_ops ops (b_id b)) = 1" by (auto simp: active_kinds_def)
  with m show *: "active_ops ops (b_id b) = [o']"
    by (cases "active_ops ops (b_id b)") auto
  with r show "row_ok (b_status b) [op_kind_of o']" by (simp add: active_kinds_def)
qed

text \<open>One backup and the active operations on it change; all others keep theirs.\<close>

lemma coherent_change:
  assumes "coherent bs ops" "\<And>j. j \<noteq> i \<Longrightarrow> active_kinds ops' j = active_kinds ops j"
    and "\<And>b. b \<in> set bs \<Longrightarrow> P b \<Longrightarrow> b_id b = i \<and> b_id (f b) = i"
    and "\<And>b. b \<in> set bs \<Longrightarrow> b_id b = i \<Longrightarrow> P b \<and> row_ok (b_status (f b)) (active_kinds ops' i)"
  shows "coherent (update_where P f bs) ops'"
  unfolding coherent_def set_update_where
proof (intro ballI, elim imageE)
  fix x b assume x: "x = (if P b then f b else b)" and b: "b \<in> set bs"
  show "row_ok (b_status x) (active_kinds ops' (b_id x))"
  proof (cases "b_id b = i")
    case True
    with assms(3,4) b x show ?thesis by simp
  next
    case False
    then have "x = b" using assms(3) b x by auto
    then show ?thesis using assms(2) [OF False] coherentD [OF assms(1) b] by simp
  qed
qed

lemma find_backupD: "find_backup c i = Some b \<Longrightarrow> b \<in> set (backups c) \<and> b_id b = i"
  by (auto simp: find_backup_def dest: find_SomeD)

lemma OperationD: "Operation c i = Some o' \<Longrightarrow> o' \<in> set (operations c) \<and> op_id o' = i"
  by (auto simp: Operation_def dest: find_SomeD)

lemma distinct_b_id: "distinct (map b_id bs) \<Longrightarrow> b \<in> set bs \<Longrightarrow> b' \<in> set bs \<Longrightarrow> b_id b = b_id b' \<Longrightarrow> b = b'"
  by (meson distinct_map inj_onD)

lemma distinct_op_id: "distinct (map op_id ops) \<Longrightarrow> x \<in> set ops \<Longrightarrow> y \<in> set ops \<Longrightarrow> op_id x = op_id y \<Longrightarrow> x = y"
  by (meson distinct_map inj_onD)

lemma set_backupE:
  assumes "set_backup i st f c = Some c'"
  obtains b where "b \<in> set (backups c)" "b_id b = i" "b_status b = st"
    "c' = c\<lparr>backups := update_where (\<lambda>b. b_id b = i \<and> b_status b = st) f (backups c)\<rparr>"
proof -
  have n: "0 < count_where (\<lambda>b. b_id b = i \<and> b_status b = st) (backups c)"
    and c': "c' = c\<lparr>backups := update_where (\<lambda>b. b_id b = i \<and> b_status b = st) f (backups c)\<rparr>"
    using assms by (auto simp: set_backup_def split: if_splits)
  from n obtain b where "b \<in> set (backups c)" "b_id b = i" "b_status b = st" by (auto simp: count_where_pos)
  with c' that show thesis by blast
qed

text \<open>Changing the status of one backup together with its operations keeps the invariant when the new
  status fits the new active operations.\<close>

lemma core_inv_change:
  assumes inv: "core_inv c" and b: "b \<in> set (backups c)" "b_id b = i" "b_status b = st"
    and f: "\<And>x. b_id (f x) = b_id x"
    and q: "b_status (f b) = BackupQuarantined \<or> b_status (f b) = BackupPurging \<or> b_status (f b) = BackupDeleted
      \<Longrightarrow> b_quarantined_at (f b) + 172800 \<le> b_purge_not_before (f b)"
    and c': "backups c' = update_where (\<lambda>b. b_id b = i \<and> b_status b = st) f (backups c)"
    and ops: "distinct (map op_id (operations c'))"
      "\<And>o'. o' \<in> set (operations c') \<Longrightarrow> 0 < op_id o' \<and> op_id o' \<le> seq_operation c' \<and> op_backup_id o' \<in> b_id ` set (backups c)"
      "seq_operation c \<le> seq_operation c'"
    and kinds: "\<And>j. j \<noteq> i \<Longrightarrow> active_kinds (operations c') j = active_kinds (operations c) j"
      "row_ok (b_status (f b)) (active_kinds (operations c') i)"
  shows "core_inv c'"
proof -
  let ?P = "\<lambda>b. b_id b = i \<and> b_status b = st"
  have d: "distinct (map b_id (backups c))" using inv by (simp add: core_inv_def)
  have uniq: "x = b" if "x \<in> set (backups c)" "b_id x = i" for x
    using distinct_b_id [OF d that(1) b(1)] that(2) b(2) by simp
  have ids: "map b_id (backups c') = map b_id (backups c)"
    unfolding c' by (rule map_update_where_inv) (rule f)
  then have "b_id ` set (backups c') = b_id ` set (backups c)" by (metis list.set_map)
  then have "ops_wf (backups c') (operations c') (seq_operation c')"
    using ops inv by (force simp: ops_wf_def core_inv_def)
  moreover have "coherent (backups c') (operations c')"
    unfolding c'
  proof (rule coherent_change [where i = i and ops = "operations c"])
    show "coherent (backups c) (operations c)" using inv by (simp add: core_inv_def)
    show "\<And>j. j \<noteq> i \<Longrightarrow> active_kinds (operations c') j = active_kinds (operations c) j" by (rule kinds(1))
    show "\<And>x. x \<in> set (backups c) \<Longrightarrow> ?P x \<Longrightarrow> b_id x = i \<and> b_id (f x) = i" by (simp add: f)
    show "\<And>x. x \<in> set (backups c) \<Longrightarrow> b_id x = i \<Longrightarrow> ?P x \<and> row_ok (b_status (f x)) (active_kinds (operations c') i)"
      using uniq b kinds(2) by metis
  qed
  moreover have "quarantine_timed (backups c')"
    unfolding quarantine_timed_def c' set_update_where
  proof (intro ballI impI, elim imageE)
    fix x y assume st: "b_status x = BackupQuarantined \<or> b_status x = BackupPurging \<or> b_status x = BackupDeleted"
      and x: "x = (if ?P y then f y else y)" and y: "y \<in> set (backups c)"
    show "b_quarantined_at x + 172800 \<le> b_purge_not_before x"
    proof (cases "?P y")
      case True
      with uniq y x have "x = f b" by simp
      with q st show ?thesis by blast
    next
      case False
      with x have "x = y" by simp
      with inv st y show ?thesis unfolding core_inv_def quarantine_timed_def by blast
    qed
  qed
  ultimately show ?thesis using d ids by (simp add: core_inv_def)
qed

text \<open>The two ways an operation row changes: its columns other than kind, backup and activity, or from
  active to finished.\<close>

lemma set_operation_keep:
  assumes "core_inv c" "Operation c k = Some o'"
    and "op_backup_id (g o') = op_backup_id o'" "op_kind_of (g o') = op_kind_of o'" "op_id (g o') = op_id o'"
      "active_op (g o') = active_op o'"
  shows "core_inv (set_operation k g c)"
proof -
  note o = OperationD [OF assms(2)]
  have d: "distinct (map op_id (operations c))" using assms(1) by (simp add: core_inv_defs)
  have uniq: "r = o'" if "r \<in> set (operations c)" "op_id r = k" for r
    using distinct_op_id [OF d that(1)] o that(2) by simp
  have ids: "map op_id (update_where (\<lambda>r. op_id r = k) g (operations c)) = map op_id (operations c)"
    unfolding update_where_def map_map by (rule map_cong) (use uniq o assms(5) in auto)
  have kinds: "active_kinds (update_where (\<lambda>r. op_id r = k) g (operations c)) j = active_kinds (operations c) j" for j
    by (rule active_kinds_keep) (use uniq assms in auto)
  have ops: "ops_wf (backups c) (update_where (\<lambda>r. op_id r = k) g (operations c)) (seq_operation c)"
    unfolding ops_wf_def ids
  proof (intro conjI ballI)
    fix x assume "x \<in> set (update_where (\<lambda>r. op_id r = k) g (operations c))"
    then obtain y where y: "y \<in> set (operations c)" "x = (if op_id y = k then g y else y)"
      by (auto simp: set_update_where)
    then have e: "op_id x = op_id y" "op_backup_id x = op_backup_id y" using uniq [of y] assms(3,5) by auto
    show "0 < op_id x" "op_id x \<le> seq_operation c" "op_backup_id x \<in> b_id ` set (backups c)"
      unfolding e using assms(1) y(1) by (simp_all add: core_inv_defs)
  qed (use assms(1) d in \<open>simp_all add: core_inv_defs\<close>)
  have "coherent (backups c) (update_where (\<lambda>r. op_id r = k) g (operations c))"
    using assms(1) by (simp add: coherent_def kinds core_inv_def)
  with ops assms(1) show ?thesis by (simp add: core_inv_def set_operation_def)
qed

lemma set_operation_finish:
  assumes inv: "core_inv c" and o: "Operation c k = Some o'" "active_op o'" "\<not> active_op (g o')"
    "op_backup_id (g o') = op_backup_id o'" "op_id (g o') = op_id o'"
  shows "distinct (map op_id (operations (set_operation k g c)))"
    "\<And>x. x \<in> set (operations (set_operation k g c)) \<Longrightarrow>
       0 < op_id x \<and> op_id x \<le> seq_operation c \<and> op_backup_id x \<in> b_id ` set (backups c)"
    "\<And>j. j \<noteq> op_backup_id o' \<Longrightarrow> active_kinds (operations (set_operation k g c)) j = active_kinds (operations c) j"
    "active_kinds (operations (set_operation k g c)) (op_backup_id o') = []"
proof -
  note oD = OperationD [OF o(1)]
  have d: "distinct (map op_id (operations c))" using inv by (simp add: core_inv_defs)
  have uniq: "r = o'" if "r \<in> set (operations c)" "op_id r = k" for r
    using distinct_op_id [OF d that(1)] oD that(2) by simp
  have "map op_id (update_where (\<lambda>r. op_id r = k) g (operations c)) = map op_id (operations c)"
    unfolding update_where_def map_map by (rule map_cong) (use uniq oD o in auto)
  with d show "distinct (map op_id (operations (set_operation k g c)))" by (simp add: set_operation_def)
  have old: "\<And>y. y \<in> set (operations c) \<Longrightarrow> 0 < op_id y \<and> op_id y \<le> seq_operation c \<and> op_backup_id y \<in> b_id ` set (backups c)"
    using inv by (simp add: core_inv_defs)
  show "\<And>x. x \<in> set (operations (set_operation k g c)) \<Longrightarrow>
      0 < op_id x \<and> op_id x \<le> seq_operation c \<and> op_backup_id x \<in> b_id ` set (backups c)"
  proof -
    fix x assume "x \<in> set (operations (set_operation k g c))"
    then obtain y where y: "y \<in> set (operations c)" "x = (if op_id y = k then g y else y)"
      by (auto simp: set_operation_def set_update_where)
    then have "op_id x = op_id y \<and> op_backup_id x = op_backup_id y" using uniq [of y] o(4,5) by auto
    with old [OF y(1)] show "0 < op_id x \<and> op_id x \<le> seq_operation c \<and> op_backup_id x \<in> b_id ` set (backups c)" by simp
  qed
  have drop: "active_kinds (operations (set_operation k g c)) j
      = map op_kind_of (filter (\<lambda>r. op_id r \<noteq> k) (active_ops (operations c) j))" for j
    unfolding set_operation_def by simp (rule active_kinds_drop, use uniq o in auto)
  show "\<And>j. j \<noteq> op_backup_id o' \<Longrightarrow> active_kinds (operations (set_operation k g c)) j = active_kinds (operations c) j"
  proof -
    fix j assume "j \<noteq> op_backup_id o'"
    then have "filter (\<lambda>r. op_id r \<noteq> k) (active_ops (operations c) j) = active_ops (operations c) j"
      using uniq by (intro filter_True) (auto simp: active_ops_def)
    then show "active_kinds (operations (set_operation k g c)) j = active_kinds (operations c) j"
      by (simp only: drop) (simp add: active_kinds_def)
  qed
  obtain b where b: "b \<in> set (backups c)" "b_id b = op_backup_id o'"
    using old [of o'] oD by (metis imageE)
  have "active_ops (operations c) (op_backup_id o') = [o']"
    using coherent_active(1) [of "backups c" "operations c" o' b] inv oD o b by (simp add: core_inv_def)
  then show "active_kinds (operations (set_operation k g c)) (op_backup_id o') = []"
    using oD by (simp only: drop) simp
qed

subsection \<open>Preservation\<close>

lemma insert_operationE:
  assumes "insert_operation o' c = Inr c'"
  shows "c' = c\<lparr>operations := operations c @ [o'], seq_operation := seq_operation c + 1\<rparr>"
    "active_kinds (operations c) (op_backup_id o') = []"
  using assms by (auto simp: insert_operation_def active_kinds_def active_ops_def filter_empty_conv list_ex_iff split: if_splits)

lemma new_operation_simps [simp]:
  "op_id (new_operation c i k og ac re now) = seq_operation c + 1"
  "op_backup_id (new_operation c i k og ac re now) = i"
  "op_kind_of (new_operation c i k og ac re now) = k"
  "op_state_of (new_operation c i k og ac re now) = Requested"
  "op_lease_generation (new_operation c i k og ac re now) = 0"
  "op_execution_committed (new_operation c i k og ac re now) = False"
  "active_op (new_operation c i k og ac re now)"
  by (simp_all add: new_operation_def active_op_def)

lemma fresh_operation:
  assumes "core_inv c" "b \<in> set (backups c)" "b_id b = op_backup_id o'" "op_id o' = seq_operation c + 1"
  shows "distinct (map op_id (operations c @ [o']))"
    "\<And>x. x \<in> set (operations c @ [o']) \<Longrightarrow> 0 < op_id x \<and> op_id x \<le> seq_operation c + 1 \<and> op_backup_id x \<in> b_id ` set (backups c)"
proof -
  have w: "distinct (map op_id (operations c))" "0 \<le> seq_operation c"
    "\<And>x. x \<in> set (operations c) \<Longrightarrow> 0 < op_id x \<and> op_id x \<le> seq_operation c \<and> op_backup_id x \<in> b_id ` set (backups c)"
    using assms(1) by (simp_all add: core_inv_defs)
  then show "distinct (map op_id (operations c @ [o']))" using assms(4) by fastforce
  fix x assume "x \<in> set (operations c @ [o'])"
  then consider "x \<in> set (operations c)" | "x = o'" by auto
  then show "0 < op_id x \<and> op_id x \<le> seq_operation c + 1 \<and> op_backup_id x \<in> b_id ` set (backups c)"
    by cases (use w assms(2-4) in \<open>force+\<close>)
qed

text \<open>A request: one backup moves to the status its new operation stands for.\<close>

lemma request_preserves:
  assumes inv: "core_inv c" and sb: "set_backup i st (\<lambda>b. b\<lparr>b_status := st'\<rparr>) c = Some c1"
    and ins: "insert_operation (new_operation c i k og ac re now) c1 = Inr c'"
    and ok: "row_ok st' [k]" "st' = BackupDeleting \<or> st = BackupQuarantined \<and> st' = BackupPurging"
  shows "core_inv c'"
proof -
  obtain b where b: "b \<in> set (backups c)" "b_id b = i" "b_status b = st"
    "c1 = c\<lparr>backups := update_where (\<lambda>b. b_id b = i \<and> b_status b = st) (\<lambda>b. b\<lparr>b_status := st'\<rparr>) (backups c)\<rparr>"
    using sb by (rule set_backupE)
  let ?o = "new_operation c i k og ac re now"
  note I = insert_operationE [OF ins]
  note F = fresh_operation [OF inv b(1), of ?o]
  have one: "active_kinds [?o] j = (if j = i then [k] else [])" for j
    by (simp add: active_kinds_def active_ops_def)
  show ?thesis
  proof (rule core_inv_change [OF inv b(1-3), where f = "\<lambda>b. b\<lparr>b_status := st'\<rparr>"])
    show "b_quarantined_at (b\<lparr>b_status := st'\<rparr>) + 172800 \<le> b_purge_not_before (b\<lparr>b_status := st'\<rparr>)"
      if "b_status (b\<lparr>b_status := st'\<rparr>) = BackupQuarantined \<or> b_status (b\<lparr>b_status := st'\<rparr>) = BackupPurging
        \<or> b_status (b\<lparr>b_status := st'\<rparr>) = BackupDeleted"
      using that ok(2) b inv by (auto simp: core_inv_def quarantine_timed_def)
    show "row_ok (b_status (b\<lparr>b_status := st'\<rparr>)) (active_kinds (operations c') i)"
      using I b(4) ok(1) one [of i] by simp
  qed (use I b F one in \<open>auto\<close>)
qed

lemma RequestQuarantine_inv:
  assumes "core_inv c" "RequestQuarantine E i og ac re now c = Inr (r, c')"
  shows "core_inv c'"
proof -
  from assms(2) obtain c1 where "set_backup i BackupComplete (\<lambda>b. b\<lparr>b_status := BackupDeleting\<rparr>) c = Some c1"
    "insert_operation (new_operation c i Quarantine og ac re now) c1 = Inr c'"
    by (auto simp: RequestQuarantine_def Let_def split: if_splits option.splits sum.splits)
  with assms(1) show ?thesis by (rule request_preserves) simp_all
qed

lemma RequestPurge_inv:
  assumes "core_inv c" "RequestPurge E i og ac re now c = Inr (r, c')"
  shows "core_inv c'"
proof -
  from assms(2) obtain c1 where "set_backup i BackupQuarantined (\<lambda>b. b\<lparr>b_status := BackupPurging\<rparr>) c = Some c1"
    "insert_operation (new_operation c i Purge og ac re now) c1 = Inr c'"
    by (auto simp: RequestPurge_def Let_def split: if_splits option.splits sum.splits)
  with assms(1) show ?thesis by (rule request_preserves) simp_all
qed

lemma update_where_id: "update_where P (\<lambda>x. x) xs = xs"
  by (simp add: update_where_def)

lemma RequestRecovery_inv:
  assumes inv: "core_inv c" and "RequestRecovery i ac re now c = Inr (r, c')"
  shows "core_inv c'"
proof -
  let ?o = "new_operation c i Recover Manual ac re now"
  from assms(2) obtain b where b: "find_backup c i = Some b" "b_status b = BackupQuarantined"
    and ins: "insert_operation ?o c = Inr c'"
    by (auto simp: RequestRecovery_def Let_def split: if_splits option.splits sum.splits)
  note bD = find_backupD [OF b(1)] and I = insert_operationE [OF ins]
  note F = fresh_operation [OF inv, of b ?o]
  have one: "active_kinds [?o] j = (if j = i then [Recover] else [])" for j
    by (simp add: active_kinds_def active_ops_def)
  show ?thesis
  proof (rule core_inv_change [OF inv _ _ b(2), where f = "\<lambda>b. b" and i = i])
    show "row_ok (b_status b) (active_kinds (operations c') i)" using I b one [of i] by simp
    show "b_quarantined_at b + 172800 \<le> b_purge_not_before b"
      using inv b bD unfolding core_inv_def quarantine_timed_def by blast
  qed (use I bD F one in \<open>auto simp: update_where_id\<close>)
qed

text \<open>An operation ends and its backup takes a settled status.\<close>

lemma settle_preserves:
  assumes inv: "core_inv c" and o: "Operation c k = Some o'" "active_op o'"
    and sb: "set_backup (op_backup_id o') st f c = Some c1"
    and g: "\<not> active_op (g o')" "op_backup_id (g o') = op_backup_id o'" "op_id (g o') = op_id o'"
    and f: "\<And>x. b_id (f x) = b_id x" "\<And>x. row_ok (b_status (f x)) []"
      "\<And>x. x \<in> set (backups c) \<Longrightarrow> b_status x = st \<Longrightarrow>
         b_status (f x) = BackupQuarantined \<or> b_status (f x) = BackupPurging \<or> b_status (f x) = BackupDeleted
         \<Longrightarrow> b_quarantined_at (f x) + 172800 \<le> b_purge_not_before (f x)"
  shows "core_inv (set_operation k g c1)"
proof -
  obtain b where b: "b \<in> set (backups c)" "b_id b = op_backup_id o'" "b_status b = st"
    and c1: "c1 = c\<lparr>backups := update_where (\<lambda>b. b_id b = op_backup_id o' \<and> b_status b = st) f (backups c)\<rparr>"
    using sb by (rule set_backupE)
  note S = set_operation_finish [where g = g, OF inv o g]
  have ops: "operations (set_operation k g c1) = operations (set_operation k g c)" by (simp add: set_operation_def c1)
  show ?thesis
  proof (rule core_inv_change [OF inv b, where f = f])
    show "backups (set_operation k g c1) = update_where (\<lambda>b. b_id b = op_backup_id o' \<and> b_status b = st) f (backups c)"
      by (simp add: set_operation_def c1)
    show "row_ok (b_status (f b)) (active_kinds (operations (set_operation k g c1)) (op_backup_id o'))"
      using S(4) ops f(2) by simp
    show "\<And>x. x \<in> set (operations (set_operation k g c1)) \<Longrightarrow>
        0 < op_id x \<and> op_id x \<le> seq_operation (set_operation k g c1) \<and> op_backup_id x \<in> b_id ` set (backups c)"
      using S(2) ops by (simp add: set_operation_def c1)
    show "seq_operation c \<le> seq_operation (set_operation k g c1)" by (simp add: set_operation_def c1)
  qed (use S(1,3) ops f b in simp_all)
qed

lemma purgeNotBefore_margin: "unix now + 172800 \<le> purgeNotBefore now"
proof -
  have "unix (now + 48 * hour_ns) = unix (now + 172800 * second)" by (simp add: hour_ns_def)
  then have "unix (now + 48 * hour_ns) = unix now + 172800" by (simp only: unix_add_seconds)
  then show ?thesis unfolding purgeNotBefore_def by simp
qed

lemma finish_operation_inv:
  assumes inv: "core_inv c" and o: "Operation c (op_id o') = Some o'" "op_state_of o' = Authorized"
    and "finish_operation u inc note o' now c = Inr (r, c')"
  shows "core_inv c'"
proof -
  let ?g = "\<lambda>x. x\<lparr>op_state_of := Confirmed, op_completed_at := unix now, op_error := note\<rparr>"
  from assms(4) obtain c1 r' where c1: "finish_backup o' now c = Some c1"
    and c': "resolveMaintenanceOperationTx (op_id o') now True (set_operation (op_id o') ?g c1) = Inr (r', c')"
    by (auto simp: finish_operation_def split: if_splits option.splits sum.splits)
  have act: "active_op o'" "\<not> active_op (?g o')" using o(2) by (simp_all add: active_op_def)
  note settle = settle_preserves [where g = ?g, OF inv o(1) act(1) _ act(2)]
  have timed: "x \<in> set (backups c) \<Longrightarrow> b_status x = BackupPurging \<Longrightarrow> b_quarantined_at x + 172800 \<le> b_purge_not_before x" for x
    using inv unfolding core_inv_def quarantine_timed_def by blast
  have "core_inv (set_operation (op_id o') ?g c1)"
  proof (cases "op_kind_of o'")
    case Quarantine
    with c1 show ?thesis
      by (intro settle [where st = BackupDeleting and f = "\<lambda>b. b\<lparr>b_status := BackupQuarantined, b_quarantined_at := unix now,
            b_purge_not_before := purgeNotBefore now\<rparr>"]) (simp_all add: finish_backup_def purgeNotBefore_margin)
  next
    case Purge
    with c1 timed show ?thesis
      by (intro settle [where st = BackupPurging and f = "\<lambda>b. b\<lparr>b_status := BackupDeleted, b_purged_at := unix now\<rparr>"])
        (simp_all add: finish_backup_def)
  next
    case Recover
    with c1 show ?thesis
      by (intro settle [where st = BackupQuarantined and f = "\<lambda>b. b\<lparr>b_status := BackupComplete, b_quarantined_at := 0,
            b_purge_not_before := 0\<rparr>"]) (simp_all add: finish_backup_def)
  next
    case Cancel
    with c1 show ?thesis by (simp add: finish_backup_def)
  qed
  then show ?thesis using resolveMaintenance_frame [OF c'] core_inv_same by blast
qed

lemma record_failure_inv:
  assumes inv: "core_inv c" and o: "Operation c (op_id o') = Some o'" and "record_failure E o' d now c = Inr (r, c')"
  shows "core_inv c'"
proof -
  let ?c1 = "\<lambda>e. set_operation (op_id o') (\<lambda>x. x\<lparr>op_error := e\<rparr>) c"
  from assms(3) obtain e c2 where c2: "same_core (?c1 e) c2" and "same_core c2 c'"
    by (auto simp: record_failure_def Let_def same_core_def dest!: openAnomaly_frame split: sum.splits option.splits if_splits)
  then have "same_core (?c1 e) c'" by (rule same_core_trans)
  moreover have "core_inv (?c1 e)" using inv o by (rule set_operation_keep) (simp_all add: active_op_def)
  ultimately show ?thesis using core_inv_same by blast
qed

lemma ConfirmOperation_inv:
  assumes "core_inv c" "ConfirmOperation E k t done d l now c = Inr (r, c')"
  shows "core_inv c'"
proof -
  from assms(2) obtain o' where o: "Operation c k = Some o'"
    by (auto simp: ConfirmOperation_def split: sum.splits option.splits)
  then have k: "op_id o' = k" by (simp add: OperationD)
  show ?thesis
  proof (cases "op_state_of o' = Confirmed \<and> done")
    case True
    with assms o show ?thesis by (auto simp: ConfirmOperation_def split: sum.splits if_splits)
  next
    case False
    with assms(2) o have st: "op_state_of o' = Authorized"
      by (auto simp: ConfirmOperation_def split: sum.splits if_splits)
    show ?thesis
    proof (cases "done")
      case True
      with assms(2) o st show ?thesis
        by (intro finish_operation_inv [OF assms(1) _ st])
          (auto simp: k ConfirmOperation_def split: sum.splits if_splits)
    next
      case False
      with assms(2) o st show ?thesis
        by (intro record_failure_inv [OF assms(1)]) (auto simp: k ConfirmOperation_def split: sum.splits if_splits)
    qed
  qed
qed

lemma ReconcileAuthorized_inv:
  assumes "core_inv c" "ReconcileAuthorized k now c = Inr (r, c')"
  shows "core_inv c'"
proof -
  from assms(2) obtain o' u inc nt where o: "Operation c k = Some o'" "op_state_of o' = Authorized"
    "finish_operation u inc nt o' now c = Inr (r, c')"
    by (auto simp: ReconcileAuthorized_def split: option.splits if_splits)
  then have "op_id o' = k" by (simp add: OperationD)
  with o assms(1) show ?thesis using finish_operation_inv by blast
qed

lemma AuthorizeOperation_inv:
  assumes inv: "core_inv c" and "AuthorizeOperation E tok k l now c = Inr (r, c')"
  shows "core_inv c'"
proof -
  from assms(2) obtain o' where o: "Operation c k = Some o'"
    by (auto simp: AuthorizeOperation_def split: sum.splits option.splits)
  show ?thesis
  proof (cases "op_state_of o' \<noteq> Requested \<or> op_revision o' \<noteq> a_model_revision (automation_state c)")
    case True
    with assms(2) o obtain h n where "c' = set_operation k (\<lambda>x. x\<lparr>op_ticket_hash := h, op_lease_generation := n\<rparr>) c"
      by (auto simp: AuthorizeOperation_def split: sum.splits if_splits)
    then show ?thesis using set_operation_keep [OF inv o] by (simp add: active_op_def)
  next
    case False
    with assms(2) o obtain h t n where "op_state_of o' = Requested"
      "c' = set_operation k (\<lambda>x. x\<lparr>op_state_of := Authorized, op_ticket_hash := h, op_authorized_at := t, op_lease_generation := n\<rparr>) c"
      by (auto simp: AuthorizeOperation_def split: sum.splits if_splits option.splits)
    then show ?thesis using set_operation_keep [OF inv o] by (simp add: active_op_def)
  qed
qed

lemma ValidateOperation_inv:
  assumes inv: "core_inv c" and "ValidateOperation E k t l now c = Inr (r, c')"
  shows "core_inv c'"
proof -
  from assms(2) obtain o' where o: "Operation c k = Some o'"
    and "c' = c \<or> c' = set_operation k (\<lambda>x. x\<lparr>op_execution_committed := True\<rparr>) c"
    by (auto simp: ValidateOperation_def split: sum.splits option.splits if_splits)
  then show ?thesis using inv set_operation_keep [OF inv o] by (auto simp: active_op_def)
qed

lemma ResetAuthorized_inv:
  assumes inv: "core_inv c" and r: "ResetAuthorized k now c = Inr (r, c')"
  shows "core_inv c'"
proof -
  from r obtain o' rv where o: "Operation c k = Some o'" "op_state_of o' = Authorized" "key_revoked c (op_backup_id o') = Some rv"
    by (auto simp: ResetAuthorized_def split: option.splits if_splits)
  have act: "active_op o'" using o(2) by (simp add: active_op_def)
  let ?held = "\<lambda>x. x\<lparr>op_ticket_hash := [], op_lease_generation := 0\<rparr>"
  let ?again = "\<lambda>x. x\<lparr>op_state_of := Requested, op_ticket_hash := [], op_lease_generation := 0, op_authorized_at := 0,
      op_error := reconciledSourceIntact\<rparr>"
  let ?stop = "\<lambda>x. x\<lparr>op_state_of := Cancelled, op_ticket_hash := [], op_lease_generation := 0,
      op_completed_at := unix now, op_error := ''annullata automaticamente: chiave revocata''\<rparr>"
  from r o consider (again) g where "g = ?held \<or> g = ?again" "same_core (set_operation k g c) c'"
    | (stop) st st' c1 where "(st, st') = (BackupPurging, BackupQuarantined) \<or> (st, st') = (BackupDeleting, BackupComplete)"
        "set_backup (op_backup_id o') st (\<lambda>b. b\<lparr>b_status := st'\<rparr>) c = Some c1" "same_core (set_operation k ?stop c1) c'"
    by (auto simp: ResetAuthorized_def Let_def dest!: resolve_after_frame split: option.splits if_splits)
  then show ?thesis
  proof cases
    case again
    then have "core_inv (set_operation k g c)"
      using set_operation_keep [OF inv o(1), of g] o(2) by (auto simp: active_op_def)
    with again(2) show ?thesis using core_inv_same by blast
  next
    case stop
    have timed: "x \<in> set (backups c) \<Longrightarrow> b_status x = BackupPurging \<Longrightarrow> b_quarantined_at x + 172800 \<le> b_purge_not_before x" for x
      using inv unfolding core_inv_def quarantine_timed_def by blast
    have "core_inv (set_operation k ?stop c1)"
      by (rule settle_preserves [where g = ?stop, OF inv o(1) act stop(2)])
        (use stop(1) timed in \<open>auto simp: active_op_def\<close>)
    with stop(3) show ?thesis using core_inv_same by blast
  qed
qed

lemma CancelQuarantineRequest_inv:
  assumes inv: "core_inv c" and r: "CancelQuarantineRequest i ac now c = Inr (r, c')"
  shows "core_inv c'"
proof -
  let ?P = "\<lambda>o'. op_backup_id o' = i \<and> op_kind_of o' = Quarantine \<and> op_state_of o' = Requested"
  let ?g = "\<lambda>x. x\<lparr>op_state_of := Cancelled, op_completed_at := unix now, op_error := ''annullata da '' @ ac\<rparr>"
  from r obtain o' c2 where o: "List.find ?P (operations c) = Some o'"
    and sb: "set_backup i BackupDeleting (\<lambda>b. b\<lparr>b_status := BackupComplete\<rparr>)
        (c\<lparr>operations := update_where ?P ?g (operations c)\<rparr>) = Some c2" and c': "same_core c2 c'"
    by (auto simp: CancelQuarantineRequest_def Let_def same_core_def dest!: resolveMaintenance_frame
        split: option.splits if_splits sum.splits)
  note oD = find_SomeD [OF o]
  have d: "distinct (map op_id (operations c))" using inv by (simp add: core_inv_defs)
  have find: "Operation c (op_id o') = Some o'"
    using oD d by (auto simp: Operation_def find_Some_iff_distinct)
  have act: "active_op o'" using oD by (simp add: active_op_def)
  obtain b where b: "b \<in> set (backups c)" "b_id b = op_backup_id o'"
    using inv oD by (force simp: core_inv_defs)
  have one: "active_ops (operations c) (b_id b) = [o']"
    using coherent_active(1) [of "backups c" "operations c" o' b] inv oD act b by (simp add: core_inv_def)
  have "?P r \<longleftrightarrow> op_id r = op_id o'" if "r \<in> set (operations c)" for r
  proof
    assume P: "?P r"
    then have "r \<in> set (active_ops (operations c) (b_id b))" using that oD b by (simp add: active_ops_def active_op_def)
    then show "op_id r = op_id o'" using one by simp
  qed (use oD distinct_op_id [OF d that] in blast)
  then have eq: "update_where ?P ?g (operations c) = update_where (\<lambda>r. op_id r = op_id o') ?g (operations c)"
    by (simp add: update_where_def)
  let ?f = "\<lambda>b. b\<lparr>b_status := BackupComplete\<rparr>"
  obtain c1 where c1: "set_backup (op_backup_id o') BackupDeleting ?f c = Some c1" "c2 = set_operation (op_id o') ?g c1"
    using sb oD eq by (auto simp: set_backup_def set_operation_def split: if_splits)
  have "core_inv c2"
    unfolding c1(2)
    by (rule settle_preserves [where g = ?g, OF inv find act c1(1)]) (auto simp: active_op_def)
  with c' show ?thesis using core_inv_same by blast
qed

subsection \<open>Deposits\<close>

definition settled :: "status \<Rightarrow> bool" where
  "settled s \<longleftrightarrow> s = BackupReceiving \<or> s = BackupFailed \<or> s = BackupComplete"

lemma row_ok_settled: "settled st \<Longrightarrow> row_ok st ks \<longleftrightarrow> ks = []"
  by (cases "(st, ks)" rule: row_ok.cases) (auto simp: settled_def)

lemma deposit_change:
  assumes inv: "core_inv c" and st: "settled st" "\<And>x. settled (b_status (f x))" "\<And>x. b_id (f x) = b_id x"
  shows "core_inv (c\<lparr>backups := update_where (\<lambda>b. b_id b = i \<and> b_status b = st) f (backups c)\<rparr>)"
proof -
  let ?bs = "update_where (\<lambda>b. b_id b = i \<and> b_status b = st) f (backups c)"
  have ids: "map b_id ?bs = map b_id (backups c)" by (rule map_update_where_inv) (rule st(3))
  then have ids': "b_id ` set ?bs = b_id ` set (backups c)" by (metis list.set_map)
  have row: "row_ok (b_status x) (active_kinds (operations c) (b_id x))
      \<and> (\<not> settled (b_status x) \<longrightarrow> x \<in> set (backups c))" if x: "x \<in> set ?bs" for x
  proof -
    obtain y where y: "y \<in> set (backups c)" "x = (if b_id y = i \<and> b_status y = st then f y else y)"
      using x by (auto simp: set_update_where)
    have "row_ok (b_status y) (active_kinds (operations c) (b_id y))"
      using inv y(1) coherentD unfolding core_inv_def by blast
    then show ?thesis using y st by (auto simp: row_ok_settled)
  qed
  have "coherent ?bs (operations c)" using row by (simp add: coherent_def)
  moreover have "quarantine_timed ?bs"
    unfolding quarantine_timed_def
  proof (intro ballI impI)
    fix x assume x: "x \<in> set ?bs" "b_status x = BackupQuarantined \<or> b_status x = BackupPurging \<or> b_status x = BackupDeleted"
    then have "x \<in> set (backups c)" using row by (auto simp: settled_def)
    with x(2) show "b_quarantined_at x + 172800 \<le> b_purge_not_before x"
      using inv unfolding core_inv_def quarantine_timed_def by blast
  qed
  ultimately show ?thesis using inv ids ids' by (simp add: core_inv_defs)
qed

lemma deposit_insert:
  assumes inv: "core_inv c" and b: "b_id b \<notin> b_id ` set (backups c)" "settled (b_status b)"
  shows "core_inv (c\<lparr>backups := backups c @ [b]\<rparr>)"
proof -
  have "op_backup_id o' \<noteq> b_id b" if "o' \<in> set (operations c)" for o'
    using inv b(1) that unfolding core_inv_defs by metis
  then have "active_ops (operations c) (b_id b) = []" by (auto simp: active_ops_def filter_empty_conv)
  then have "coherent (backups c @ [b]) (operations c)"
    using inv b(2) by (auto simp: coherent_def core_inv_def active_kinds_def settled_def)
  moreover have "quarantine_timed (backups c @ [b])"
    using inv b(2) unfolding core_inv_def quarantine_timed_def by (auto simp: settled_def)
  moreover have "ops_wf (backups c @ [b]) (operations c) (seq_operation c)"
    using inv by (auto simp: core_inv_def ops_wf_def)
  ultimately show ?thesis using inv b(1) by (auto simp: core_inv_def)
qed

lemma set_backup_deposit_inv:
  assumes "core_inv c" "set_backup i st f c = Some c1" "settled st" "\<And>x. settled (b_status (f x))" "\<And>x. b_id (f x) = b_id x"
  shows "core_inv c1"
  using assms(2) by (rule set_backupE) (use deposit_change [OF assms(1,3-5)] in simp)

lemma Complete_inv: "core_inv c \<Longrightarrow> Complete E i now c = Inr (r, c') \<Longrightarrow> core_inv c'"
  by (auto simp: Complete_def settled_def core_inv_same dest!: evaluateCompleted_frame set_backup_deposit_inv [rotated]
      split: option.splits sum.splits)

lemma Fail_inv: "core_inv c \<Longrightarrow> Fail E i re now c = Inr (r, c') \<Longrightarrow> core_inv c'"
  by (auto simp: Fail_def settled_def core_inv_same dest!: openAnomaly_frame set_backup_deposit_inv [rotated]
      split: option.splits sum.splits)

lemma store_reservation_inv:
  assumes "core_inv c" "store_reservation n ex row now c = Inr (i, c')" "b_status row = BackupReceiving"
  shows "core_inv c'"
proof (cases ex)
  case None
  with assms(2) have "b_id (row\<lparr>b_id := i\<rparr>) \<notin> b_id ` set (backups c)" "c' = c\<lparr>backups := backups c @ [row\<lparr>b_id := i\<rparr>]\<rparr>"
    by (auto simp: store_reservation_def list_ex_iff split: sum.splits if_splits)
  then show ?thesis using deposit_insert [OF assms(1)] assms(3) by (simp add: settled_def)
next
  case (Some j)
  with assms(2) have "c' = c\<lparr>backups := update_where (\<lambda>b. b_id b = j \<and> b_status b = BackupFailed)
      (\<lambda>b. b\<lparr>b_status := BackupReceiving, b_started_at := unix now, b_received_at := NoStamp, b_failure := []\<rparr>) (backups c)\<rparr>"
    by (auto simp: store_reservation_def)
  then show ?thesis using deposit_change [OF assms(1)] by (simp add: settled_def)
qed

lemma reservation_simps [simp]:
  "b_id (reservation i k ik m sz d now) = i" "b_status (reservation i k ik m sz d now) = BackupReceiving"
  "b_size (reservation i k ik m sz d now) = sz" "b_key_id (reservation i k ik m sz d now) = k"
  by (simp_all add: reservation_def)

lemma ReserveE:
  assumes "ReserveIdempotentChecked E n t m sz d ik now ch c = Inr (b, c')"
  obtains (existing) "c' = c" | (reserved) i c1 keyID ex where
    "store_reservation n ex (reservation [] keyID ik m sz d now) now c = Inr (i, c1)" "c' = record_attempt keyID i now c1"
    "b = reservation i keyID ik m sz d now"
  using assms by (auto simp: ReserveIdempotentChecked_def split: if_splits sum.splits option.splits idem.splits)

lemma Reserve_inv:
  assumes "core_inv c" "ReserveIdempotentChecked E n t m sz d ik now ch c = Inr (b, c')"
  shows "core_inv c'"
  using assms(2)
proof (cases rule: ReserveE)
  case (reserved i c1 keyID ex)
  have "core_inv c1" by (rule store_reservation_inv [OF assms(1) reserved(1)]) simp
  then show ?thesis using reserved(2) by (simp add: record_attempt_def core_inv_defs)
qed (use assms(1) in simp)

subsection \<open>Revocation\<close>

definition revoke_row :: "string \<Rightarrow> catalog \<Rightarrow> backup \<Rightarrow> backup" where
  "revoke_row keyID c b =
     (if b_key_id b = keyID \<and> b_status b = BackupDeleting \<and> b_id b \<in> set (requested_backups Quarantine c)
      then b\<lparr>b_status := BackupComplete\<rparr>
      else if b_key_id b = keyID \<and> b_status b = BackupPurging \<and> b_id b \<in> set (requested_backups Purge c)
      then b\<lparr>b_status := BackupQuarantined\<rparr> else b)"

definition revoke_op :: "time \<Rightarrow> operation \<Rightarrow> operation" where
  "revoke_op now o' = o'\<lparr>op_state_of := Cancelled, op_ticket_hash := [], op_lease_generation := 0,
     op_completed_at := unix now, op_error := ''annullata automaticamente: chiave revocata''\<rparr>"

lemma revoke_row_simps [simp]:
  "b_id (revoke_row k c b) = b_id b" "b_key_id (revoke_row k c b) = b_key_id b"
  "b_quarantined_at (revoke_row k c b) = b_quarantined_at b" "b_purge_not_before (revoke_row k c b) = b_purge_not_before b"
  "b_size (revoke_row k c b) = b_size b"
  by (simp_all add: revoke_row_def)

lemma revoke_op_simps [simp]:
  "op_id (revoke_op now o') = op_id o'" "op_backup_id (revoke_op now o') = op_backup_id o'" "\<not> active_op (revoke_op now o')"
  by (simp_all add: revoke_op_def active_op_def)

lemma keyed_map: "(\<And>b. b_id (h b) = b_id b \<and> b_key_id (h b) = b_key_id b) \<Longrightarrow>
    map b_id (filter (\<lambda>b. b_key_id b = k) (map h bs)) = map b_id (filter (\<lambda>b. b_key_id b = k) bs)"
  by (induction bs) auto

lemma Revoke_effect:
  assumes "Revoke keyID now c = Inr (r, c')"
  shows "backups c' = map (revoke_row keyID c) (backups c)"
    "operations c' = update_where (revoked_cancellation keyID c) (revoke_op now) (operations c)"
    "seq_operation c' = seq_operation c" "lease_row c' = lease_row c" "automation_state c' = automation_state c"
proof -
  let ?c1 = "c\<lparr>keys := update_where (\<lambda>k. kr_id k = keyID) (\<lambda>k. k\<lparr>kr_revoked := True\<rparr>) (keys c)\<rparr>"
  let ?c2 = "?c1\<lparr>backups := update_where (\<lambda>b. b_key_id b = keyID \<and> b_status b = BackupDeleting
      \<and> b_id b \<in> set (requested_backups Quarantine ?c1)) (\<lambda>b. b\<lparr>b_status := BackupComplete\<rparr>) (backups ?c1)\<rparr>"
  let ?c3 = "?c2\<lparr>backups := update_where (\<lambda>b. b_key_id b = keyID \<and> b_status b = BackupPurging
      \<and> b_id b \<in> set (requested_backups Purge ?c2)) (\<lambda>b. b\<lparr>b_status := BackupQuarantined\<rparr>) (backups ?c2)\<rparr>"
  have b3: "backups ?c3 = map (revoke_row keyID c) (backups c)"
    by (simp add: update_where_def requested_backups_def revoke_row_def)
  have rc: "revoked_cancellation keyID ?c3 = revoked_cancellation keyID c"
    by (rule ext) (simp only: revoked_cancellation_def b3 keyed_map [of "revoke_row keyID c"] revoke_row_simps)
  have ro: "revoke_op now = (\<lambda>o'. o'\<lparr>op_state_of := Cancelled, op_ticket_hash := [], op_lease_generation := 0,
      op_completed_at := unix now, op_error := ''annullata automaticamente: chiave revocata''\<rparr>)"
    by (rule ext) (simp add: revoke_op_def)
  obtain ids where "resolve_all ids now (?c3\<lparr>operations := update_where (revoked_cancellation keyID ?c3) (revoke_op now)
      (operations ?c3)\<rparr>) = Inr c'"
    using assms unfolding ro by (auto simp: Revoke_def Let_def split: if_splits sum.splits)
  note f = resolve_all_frame [OF this]
  show "backups c' = map (revoke_row keyID c) (backups c)"
    "operations c' = update_where (revoked_cancellation keyID c) (revoke_op now) (operations c)"
    "seq_operation c' = seq_operation c" "lease_row c' = lease_row c" "automation_state c' = automation_state c"
    using f b3 rc by (simp_all add: same_core_def)
qed

lemma requested_mem:
  "i \<in> set (requested_backups k c) \<longleftrightarrow> (\<exists>o' \<in> set (operations c). op_state_of o' = Requested \<and> op_kind_of o' = k \<and> op_backup_id o' = i)"
  by (auto simp: requested_backups_def)

lemma cancellation_iff:
  assumes "core_inv c" "b \<in> set (backups c)" "op_backup_id o' = b_id b"
  shows "revoked_cancellation keyID c o' \<longleftrightarrow> op_state_of o' = Requested
    \<and> (op_kind_of o' = Quarantine \<or> op_kind_of o' = Purge) \<and> b_key_id b = keyID"
proof -
  have "b' = b" if "b' \<in> set (backups c)" "b_id b' = b_id b" for b'
    using assms that distinct_b_id unfolding core_inv_def by blast
  then have "b_id b \<in> set (map b_id (filter (\<lambda>b. b_key_id b = keyID) (backups c))) \<longleftrightarrow> b_key_id b = keyID"
    using assms(2) by auto
  then show ?thesis using assms(3) by (simp add: revoked_cancellation_def)
qed

lemma revoke_row_ok:
  assumes inv: "core_inv c" and b: "b \<in> set (backups c)"
  shows "row_ok (b_status (revoke_row keyID c b))
    (active_kinds (update_where (revoked_cancellation keyID c) (revoke_op now) (operations c)) (b_id b))"
proof -
  have co: "coherent (backups c) (operations c)" using inv by (simp add: core_inv_def)
  have k: "active_kinds (update_where (revoked_cancellation keyID c) (revoke_op now) (operations c)) (b_id b)
      = map op_kind_of (filter (\<lambda>r. \<not> revoked_cancellation keyID c r) (active_ops (operations c) (b_id b)))"
    by (rule active_kinds_drop) simp
  show ?thesis
  proof (cases "active_ops (operations c) (b_id b)")
    case Nil
    then have st: "row_ok (b_status b) []" using coherentD [OF co b] by (simp add: active_kinds_def)
    then have "revoke_row keyID c b = b" by (simp add: revoke_row_def)
    then show ?thesis using k Nil st by simp
  next
    case (Cons o' os)
    then have o: "o' \<in> set (operations c)" "active_op o'" "op_backup_id o' = b_id b"
      by (auto simp: active_ops_def dest: filter_eq_ConsD)
    note A = coherent_active [OF co o(1,2) b o(3) [symmetric]]
    have req: "b_id b \<in> set (requested_backups K c) \<longleftrightarrow> op_state_of o' = Requested \<and> op_kind_of o' = K" for K
    proof
      assume "b_id b \<in> set (requested_backups K c)"
      then obtain x where x: "x \<in> set (operations c)" "op_state_of x = Requested" "op_kind_of x = K" "op_backup_id x = b_id b"
        by (auto simp: requested_mem)
      then have "x \<in> set (active_ops (operations c) (b_id b))" by (simp add: active_ops_def active_op_def)
      with A(1) x show "op_state_of o' = Requested \<and> op_kind_of o' = K" by simp
    qed (use o in \<open>auto simp: requested_mem\<close>)
    show ?thesis
      using k A cancellation_iff [OF inv b o(3), of keyID] req
      by (cases "op_kind_of o'") (auto simp: revoke_row_def)
  qed
qed

lemma Revoke_inv:
  assumes inv: "core_inv c" and r: "Revoke keyID now c = Inr (r, c')"
  shows "core_inv c'"
proof -
  note e = Revoke_effect [OF r]
  let ?R = "revoked_cancellation keyID c"
  have ids: "map b_id (backups c') = map b_id (backups c)" by (simp add: e)
  then have ids': "b_id ` set (backups c') = b_id ` set (backups c)" by (metis list.set_map)
  have oids: "map op_id (operations c') = map op_id (operations c)"
    unfolding e by (rule map_update_where_inv) simp
  have "ops_wf (backups c') (operations c') (seq_operation c')"
    unfolding ops_wf_def oids ids' e(3)
  proof (intro conjI ballI)
    fix x assume "x \<in> set (operations c')"
    then obtain y where "y \<in> set (operations c)" "op_id x = op_id y" "op_backup_id x = op_backup_id y"
      unfolding e by (auto simp: set_update_where)
    then show "0 < op_id x" "op_id x \<le> seq_operation c" "op_backup_id x \<in> b_id ` set (backups c)"
      using inv by (simp_all add: core_inv_defs)
  qed (use inv in \<open>simp_all add: core_inv_defs\<close>)
  moreover have "coherent (backups c') (operations c')"
    unfolding coherent_def e using revoke_row_ok [OF inv] by auto
  moreover have "quarantine_timed (backups c')"
    unfolding quarantine_timed_def e
  proof (intro ballI impI)
    fix x assume x: "x \<in> set (map (revoke_row keyID c) (backups c))"
      "b_status x = BackupQuarantined \<or> b_status x = BackupPurging \<or> b_status x = BackupDeleted"
    then obtain y where y: "y \<in> set (backups c)" "x = revoke_row keyID c y" by auto
    then have "b_status y = BackupQuarantined \<or> b_status y = BackupPurging \<or> b_status y = BackupDeleted"
      using x(2) by (auto simp: revoke_row_def split: if_splits)
    with y(1) have "b_quarantined_at y + 172800 \<le> b_purge_not_before y"
      using inv unfolding core_inv_def quarantine_timed_def by blast
    then show "b_quarantined_at x + 172800 \<le> b_purge_not_before x" using y(2) by simp
  qed
  ultimately show ?thesis using inv ids by (simp add: core_inv_def)
qed

end
