(* ===== verification/Store_Steps.thy ===== *)
theory Store_Steps
  imports Store_Invariant Machine
begin

text \<open>
  The store as a transition system: one rule per exported operation of package store that commits.
  The locales of Machine turn preservation into invariants of all reachable catalogues and
  step-wise relations into relations between any two moments; they are interpreted on the store, which
  gives the life cycle of a backup and the properties of destructive operations.
\<close>

subsection \<open>The operations\<close>

inductive store_step :: "env \<Rightarrow> catalog \<Rightarrow> catalog \<Rightarrow> bool" for E where
  PutProfile: "PutProfile p c = Inr (r, c') \<Longrightarrow> store_step E c c'"
| CreateKey: "CreateKey E i t n p c = Inr (r, c') \<Longrightarrow> store_step E c c'"
| Revoke: "Revoke k now c = Inr (r, c') \<Longrightarrow> store_step E c c'"
| Assign: "Assign k p c = Inr (r, c') \<Longrightarrow> store_step E c c'"
| Reserve: "ReserveIdempotentChecked E n t m sz d ik now ch c = Inr (r, c') \<Longrightarrow> store_step E c c'"
| Complete: "Complete E i now c = Inr (r, c') \<Longrightarrow> store_step E c c'"
| Fail: "Fail E i re now c = Inr (r, c') \<Longrightarrow> store_step E c c'"
| SetReserveFree: "SetReserveFree n c = Inr (r, c') \<Longrightarrow> store_step E c c'"
| SetKeyRetentionDays: "SetKeyRetentionDays k d c = Inr (r, c') \<Longrightarrow> store_step E c c'"
| SetupAutomationMode: "SetupAutomationMode E s tz mode now c = Inr (r, c') \<Longrightarrow> store_step E c c'"
| MarkMailTested: "MarkMailTested now c = Inr (r, c') \<Longrightarrow> store_step E c c'"
| EnableAutomation: "EnableAutomation c = Inr (r, c') \<Longrightarrow> store_step E c c'"
| PauseRetention: "PauseRetention re c = Inr (r, c') \<Longrightarrow> store_step E c c'"
| RequestRetentionResume: "RequestRetentionResume now c = Inr (r, c') \<Longrightarrow> store_step E c c'"
| ResumeRetention: "ResumeRetention now c = Inr (r, c') \<Longrightarrow> store_step E c c'"
| BeginRelearn: "BeginRelearn c = Inr (r, c') \<Longrightarrow> store_step E c c'"
| RequestQuarantine: "RequestQuarantine E i og ac re now c = Inr (o', c') \<Longrightarrow> store_step E c c'"
| RequestPurge: "RequestPurge E i og ac re now c = Inr (o', c') \<Longrightarrow> store_step E c c'"
| RequestRecovery: "RequestRecovery i ac re now c = Inr (o', c') \<Longrightarrow> store_step E c c'"
| AuthorizeOperation: "AuthorizeOperation E tok k l now c = Inr (ot, c') \<Longrightarrow> store_step E c c'"
| ValidateOperation: "ValidateOperation E k t l now c = Inr (r, c') \<Longrightarrow> store_step E c c'"
| ConfirmOperation: "ConfirmOperation E k t fin d l now c = Inr (r, c') \<Longrightarrow> store_step E c c'"
| ReconcileAuthorized: "ReconcileAuthorized k now c = Inr (r, c') \<Longrightarrow> store_step E c c'"
| ResetAuthorized: "ResetAuthorized k now c = Inr (r, c') \<Longrightarrow> store_step E c c'"
| CancelQuarantineRequest: "CancelQuarantineRequest i ac now c = Inr (r, c') \<Longrightarrow> store_step E c c'"
| OpenAnomalyAt: "OpenAnomalyAt E s kd ki b d ev now c = Inr (cr, c') \<Longrightarrow> store_step E c c'"
| ResolveAnomaly: "ResolveAnomaly s now c = Inr (cr, c') \<Longrightarrow> store_step E c c'"
| TryClear: "TryClearResolvedMaintenanceBlock k now c = Inr (cr, c') \<Longrightarrow> store_step E c c'"
| AcknowledgeMissing: "AcknowledgeMissingAnomaly k now c = Inr (r, c') \<Longrightarrow> store_step E c c'"
| CreateExclusion: "CreateAnomalyExclusion k st en ac re kinds now c = Inr (ex, c') \<Longrightarrow> store_step E c c'"
| QueueReport: "QueueReport s sub body now c = Inr (r, c') \<Longrightarrow> store_step E c c'"
| QueuePeriodicReport: "QueuePeriodicReport s sub body now c = Inr (r, c') \<Longrightarrow> store_step E c c'"
| ConfirmMail: "ConfirmMail k err v now c = Inr (r, c') \<Longrightarrow> store_step E c c'"
| SaveModel: "SaveModel ki rv tz days v rel rw now c = Inr (r, c') \<Longrightarrow> store_step E c c'"
| SetCheckState: "SetCheckState ms rv now c = Inr (r, c') \<Longrightarrow> store_step E c c'"
| AcquireLease: "AcquireMaintenanceLease ow g now dur c = Inr (l, c') \<Longrightarrow> store_step E c c'"
| ReleaseLease: "ReleaseMaintenanceLease l c = Inr (r, c') \<Longrightarrow> store_step E c c'"
| StartCheck: "StartMonitoringCheck now c = Inr (k, c') \<Longrightarrow> store_step E c c'"
| PlanCheck: "PlanMonitoringCheck E i now c = Inr (pl, c') \<Longrightarrow> store_step E c c'"
| CompleteCheck: "CompleteMonitoringCheck E i oc su ms rv fs now c = Inr (r, c') \<Longrightarrow> store_step E c c'"
| FailCheck: "FailMonitoringCheck i su now c = Inr (r, c') \<Longrightarrow> store_step E c c'"

text \<open>Most operations leave the tables of backups and operations alone.\<close>

definition same_rows :: "catalog \<Rightarrow> catalog \<Rightarrow> bool" where
  "same_rows c c' \<longleftrightarrow> backups c' = backups c \<and> operations c' = operations c \<and> seq_operation c' = seq_operation c
     \<and> l_generation (lease_row c) \<le> l_generation (lease_row c')"

lemma same_core_rows: "same_core c c' \<Longrightarrow> same_rows c c'" by (simp add: same_core_def same_rows_def)

lemma core_inv_rows: "same_rows c c' \<Longrightarrow> core_inv c \<Longrightarrow> core_inv c'"
  by (simp add: same_rows_def core_inv_defs)

lemma automation_rows:
  "PutProfile p c = Inr (r, c') \<Longrightarrow> same_rows c c'"
  "CreateKey E i t n pr c = Inr (kt, c') \<Longrightarrow> same_rows c c'"
  "Assign k pr c = Inr (r, c') \<Longrightarrow> same_rows c c'"
  "SetReserveFree bytes c = Inr (r, c') \<Longrightarrow> same_rows c c'"
  "SetKeyRetentionDays k days c = Inr (r, c') \<Longrightarrow> same_rows c c'"
  "MarkMailTested now c = Inr (r, c') \<Longrightarrow> same_rows c c'"
  "EnableAutomation c = Inr (r, c') \<Longrightarrow> same_rows c c'"
  "PauseRetention re c = Inr (r, c') \<Longrightarrow> same_rows c c'"
  "RequestRetentionResume now c = Inr (r, c') \<Longrightarrow> same_rows c c'"
  "ResumeRetention now c = Inr (r, c') \<Longrightarrow> same_rows c c'"
  "BeginRelearn c = Inr (r, c') \<Longrightarrow> same_rows c c'"
  "SetCheckState ms rv now c = Inr (r, c') \<Longrightarrow> same_rows c c'"
  "SaveModel ki rv tz days v rel rw now c = Inr (r, c') \<Longrightarrow> same_rows c c'"
  by (auto simp: same_rows_def PutProfile_def CreateKey_def Assign_def SetReserveFree_def SetKeyRetentionDays_def
      MarkMailTested_def EnableAutomation_def PauseRetention_def RequestRetentionResume_def ResumeRetention_def
      BeginRelearn_def SetCheckState_def SaveModel_def Let_def split: if_splits sum.splits)

lemma SetupAutomationMode_rows: "SetupAutomationMode E s tz mode now c = Inr (r, c') \<Longrightarrow> same_rows c c'"
  unfolding SetupAutomationMode_def
  by (simp add: same_rows_def fail_running_def split: if_splits) auto

lemma lease_rows:
  "AcquireMaintenanceLease ow g now dur c = Inr (l, c') \<Longrightarrow> same_rows c c'"
  "ReleaseMaintenanceLease l' c = Inr (r, c') \<Longrightarrow> same_rows c c'"
  by (auto simp: same_rows_def AcquireMaintenanceLease_def ReleaseMaintenanceLease_def Let_def split: if_splits)

lemma anomaly_rows:
  "OpenAnomalyAt E s kd ki b d ev now c = Inr (cr, c') \<Longrightarrow> same_rows c c'"
  "ResolveAnomaly s now c = Inr (cr, c') \<Longrightarrow> same_rows c c'"
  "TryClearResolvedMaintenanceBlock k now c = Inr (cr, c') \<Longrightarrow> same_rows c c'"
  "AcknowledgeMissingAnomaly k now c = Inr (r, c') \<Longrightarrow> same_rows c c'"
  "CreateAnomalyExclusion k st en ac re kinds now c = Inr (ex, c') \<Longrightarrow> same_rows c c'"
  subgoal by (auto simp: OpenAnomalyAt_def dest!: openAnomalyAt_frame same_core_rows)
  subgoal by (auto simp: ResolveAnomaly_def Let_def same_rows_def same_core_def dest!: insert_mail_frame split: option.splits if_splits sum.splits)
  subgoal by (auto simp: TryClearResolvedMaintenanceBlock_def Let_def same_rows_def split: list.splits if_splits)
  subgoal by (auto simp: AcknowledgeMissingAnomaly_def Let_def same_rows_def same_core_def dest!: insert_mail_frame split: option.splits if_splits sum.splits)
  subgoal unfolding CreateAnomalyExclusion_def by (auto simp: Let_def same_rows_def split: option.splits if_splits)
  done

lemma queue_rows:
  "QueueReport s sub body now c = Inr (r, c') \<Longrightarrow> same_rows c c'"
  "QueuePeriodicReport s sub body now c = Inr (r, c') \<Longrightarrow> same_rows c c'"
  "ConfirmMail k err v now c = Inr (r, c') \<Longrightarrow> same_rows c c'"
  by (auto simp: QueuePeriodicReport_def QueueReport_def ConfirmMail_def Let_def same_rows_def same_core_def
      dest!: insert_mail_frame split: sum.splits option.splits if_splits)

lemma cleanup_fields [simp]:
  "backups (cleanupMonitoringChecksTx t c) = backups c" "operations (cleanupMonitoringChecksTx t c) = operations c"
  "seq_operation (cleanupMonitoringChecksTx t c) = seq_operation c" "lease_row (cleanupMonitoringChecksTx t c) = lease_row c"
  "automation_state (cleanupMonitoringChecksTx t c) = automation_state c" "keys (cleanupMonitoringChecksTx t c) = keys c"
  "models (cleanupMonitoringChecksTx t c) = models c" "anomalies (cleanupMonitoringChecksTx t c) = anomalies c"
  by (simp_all add: cleanupMonitoringChecksTx_def Let_def)

lemma activate_fields [simp]:
  "backups (activateRetentionAfterCheckTx c) = backups c" "operations (activateRetentionAfterCheckTx c) = operations c"
  "seq_operation (activateRetentionAfterCheckTx c) = seq_operation c" "lease_row (activateRetentionAfterCheckTx c) = lease_row c"
  "anomalies (activateRetentionAfterCheckTx c) = anomalies c"
  by (simp_all add: activateRetentionAfterCheckTx_def)

lemma CompleteMonitoringCheckE:
  assumes "CompleteMonitoringCheck E i oc su ms rv fs now c = Inr (r, c')"
  obtains c1 where "open_findings E fs now c = Inr c1"
    "c' = cleanupMonitoringChecksTx (unix now - check_retention) (activateRetentionAfterCheckTx
       (c1\<lparr>automation_state := (let st' = (if blockingAnomalyCountTx c1 now > 0 then MonitoringAnomaly else ms); a = automation_state c1 in
             if st' = MonitoringLearning
             then a\<lparr>a_state := st', a_model_revision := rv, a_last_check_at := unix now,
                    a_deletion_blocked := True, a_block_reason := ''apprendimento non completato''\<rparr>
             else a\<lparr>a_state := st', a_model_revision := rv, a_last_check_at := unix now\<rparr>),
           checks := update_where (\<lambda>k. mc_id k = i \<and> mc_status k = Running)
             (\<lambda>k. k\<lparr>mc_status := oc, mc_finished_at := Some (unix now), mc_summary := su\<rparr>) (checks c1)\<rparr>))"
proof -
  obtain c1 where "open_findings E fs now c = Inr c1"
    using assms by (cases "open_findings E fs now c") (simp_all add: CompleteMonitoringCheck_def split: if_splits)
  with assms that show thesis by (simp add: CompleteMonitoringCheck_def Let_def split: if_splits)
qed

lemma check_rows:
  "StartMonitoringCheck now c = Inr (k, c') \<Longrightarrow> same_rows c c'"
  "PlanMonitoringCheck E i now c = Inr (pl, c') \<Longrightarrow> same_rows c c'"
  "CompleteMonitoringCheck E i oc su ms rv fs now c = Inr (r, c') \<Longrightarrow> same_rows c c'"
  "FailMonitoringCheck i su now c = Inr (r, c') \<Longrightarrow> same_rows c c'"
  subgoal by (auto simp: StartMonitoringCheck_def Let_def fail_running_def same_rows_def)
  subgoal by (auto simp: PlanMonitoringCheck_def Let_def same_rows_def split: option.splits sum.splits if_splits)
  subgoal by (erule CompleteMonitoringCheckE) (simp add: same_rows_def same_core_def open_findings_frame [unfolded same_core_def])
  subgoal by (auto simp: FailMonitoringCheck_def Let_def same_rows_def)
  done

lemmas rows_frames = automation_rows SetupAutomationMode_rows lease_rows anomaly_rows queue_rows check_rows

lemmas inv_rules = RequestQuarantine_inv RequestPurge_inv RequestRecovery_inv ConfirmOperation_inv ReconcileAuthorized_inv
  AuthorizeOperation_inv ValidateOperation_inv ResetAuthorized_inv CancelQuarantineRequest_inv Complete_inv Fail_inv
  Reserve_inv Revoke_inv

lemma store_step_inv: "store_step E c c' \<Longrightarrow> core_inv c \<Longrightarrow> core_inv c'"
  by (induction rule: store_step.induct) (assumption | erule (1) inv_rules | drule rows_frames, erule (1) core_inv_rows)+

lemma Init_inv: "core_inv Init"
  by (simp add: Init_def core_inv_defs coherent_def quarantine_timed_def)

interpretation store: machine Init "store_step E" core_inv
  by unfold_locales (auto intro: Init_inv store_step_inv)

abbreviation reachable :: "env \<Rightarrow> catalog \<Rightarrow> bool" where
  "reachable E c \<equiv> (store_step E)\<^sup>*\<^sup>* Init c"

subsection \<open>The life of a backup\<close>

fun legal :: "status \<Rightarrow> status \<Rightarrow> bool" where
  "legal BackupReceiving s \<longleftrightarrow> s = BackupReceiving \<or> s = BackupComplete \<or> s = BackupFailed"
| "legal BackupFailed s \<longleftrightarrow> s = BackupFailed \<or> s = BackupReceiving"
| "legal BackupComplete s \<longleftrightarrow> s = BackupComplete \<or> s = BackupDeleting"
| "legal BackupDeleting s \<longleftrightarrow> s = BackupDeleting \<or> s = BackupComplete \<or> s = BackupQuarantined"
| "legal BackupQuarantined s \<longleftrightarrow> s = BackupQuarantined \<or> s = BackupPurging \<or> s = BackupComplete"
| "legal BackupPurging s \<longleftrightarrow> s = BackupPurging \<or> s = BackupQuarantined \<or> s = BackupDeleted"
| "legal BackupDeleted s \<longleftrightarrow> s = BackupDeleted"

definition same_deposit :: "backup \<Rightarrow> backup \<Rightarrow> bool" where
  "same_deposit b b' \<longleftrightarrow> b_id b' = b_id b \<and> b_key_id b' = b_key_id b \<and> b_size b' = b_size b \<and> b_sha256 b' = b_sha256 b
     \<and> b_metadata b' = b_metadata b \<and> b_idempotency_key b' = b_idempotency_key b"

definition moves :: "catalog \<Rightarrow> catalog \<Rightarrow> bool" where
  "moves c c' \<longleftrightarrow> (\<exists>fresh. list_all2 (\<lambda>b b'. same_deposit b b' \<and> legal (b_status b) (b_status b'))
       (backups c) (take (length (backups c)) (backups c')) \<and> backups c' = take (length (backups c)) (backups c') @ fresh
     \<and> (\<forall>b \<in> set fresh. b_status b = BackupReceiving))"

lemma legal_refl [simp]: "legal s s" by (cases s) simp_all

lemma same_deposit_refl [simp]: "same_deposit b b" by (simp add: same_deposit_def)

lemma moves_update:
  assumes "\<And>b. b \<in> set (backups c) \<Longrightarrow> P b \<Longrightarrow> same_deposit b (f b) \<and> legal (b_status b) (b_status (f b))"
    and "backups c' = update_where P f (backups c)"
  shows "moves c c'"
  unfolding moves_def using assms by (intro exI [of _ "[]"]) (auto simp: list_all2_conv_all_nth update_where_def)

lemma moves_append: "backups c' = backups c @ [b] \<Longrightarrow> b_status b = BackupReceiving \<Longrightarrow> moves c c'"
  unfolding moves_def by (intro exI [of _ "[b]"]) (simp add: list_all2_same)

lemma moves_same: "backups c' = backups c \<Longrightarrow> moves c c'"
  unfolding moves_def by (intro exI [of _ "[]"]) (simp add: list_all2_same)

lemma moves_core: "same_core c1 c' \<Longrightarrow> moves c c1 \<Longrightarrow> moves c c'"
  by (simp add: moves_def same_core_def)

lemma moves_set_backup:
  assumes "set_backup i st f c = Some c1" "\<And>b. same_deposit b (f b)" "\<And>b. b_status b = st \<Longrightarrow> legal st (b_status (f b))"
  shows "moves c c1"
proof -
  obtain b where c1: "c1 = c\<lparr>backups := update_where (\<lambda>b. b_id b = i \<and> b_status b = st) f (backups c)\<rparr>"
    using assms(1) by (rule set_backupE)
  show ?thesis by (rule moves_update [where P = "\<lambda>b. b_id b = i \<and> b_status b = st" and f = f]) (use assms(2,3) c1 in simp_all)
qed

lemma set_operation_backups [simp]: "backups (set_operation k g c) = backups c"
  by (simp add: set_operation_def)

lemma moves_set_operation: "moves c c1 \<Longrightarrow> moves c (set_operation k g c1)"
  by (simp add: moves_def)

lemma insert_operation_backups: "insert_operation o' c = Inr c' \<Longrightarrow> backups c' = backups c"
  by (auto simp: insert_operation_def split: if_splits)

lemma request_moves:
  "RequestQuarantine E i og ac re now c = Inr (o', c') \<Longrightarrow> moves c c'"
  "RequestPurge E i og ac re now c = Inr (o', c') \<Longrightarrow> moves c c'"
  "RequestRecovery i ac re now c = Inr (o', c') \<Longrightarrow> moves c c'"
proof -
  assume "RequestQuarantine E i og ac re now c = Inr (o', c')"
  then obtain c1 where "set_backup i BackupComplete (\<lambda>b. b\<lparr>b_status := BackupDeleting\<rparr>) c = Some c1" "insert_operation o' c1 = Inr c'"
    by (auto simp: RequestQuarantine_def Let_def split: if_splits option.splits sum.splits)
  then show "moves c c'"
    using moves_set_backup [of i BackupComplete _ c c1] insert_operation_backups [of o' c1 c'] by (simp add: moves_def same_deposit_def)
next
  assume "RequestPurge E i og ac re now c = Inr (o', c')"
  then obtain c1 where "set_backup i BackupQuarantined (\<lambda>b. b\<lparr>b_status := BackupPurging\<rparr>) c = Some c1" "insert_operation o' c1 = Inr c'"
    by (auto simp: RequestPurge_def Let_def split: if_splits option.splits sum.splits)
  then show "moves c c'"
    using moves_set_backup [of i BackupQuarantined _ c c1] insert_operation_backups [of o' c1 c'] by (simp add: moves_def same_deposit_def)
next
  assume "RequestRecovery i ac re now c = Inr (o', c')"
  then show "moves c c'"
    by (intro moves_same) (auto simp: RequestRecovery_def Let_def dest: insert_operation_backups split: if_splits option.splits sum.splits)
qed

lemma finish_backup_moves: "finish_backup o' now c = Some c1 \<Longrightarrow> moves c c1"
  by (cases "op_kind_of o'") (auto simp: finish_backup_def same_deposit_def elim!: moves_set_backup)

lemma finish_operation_moves: "finish_operation u inc nt o' now c = Inr (r, c') \<Longrightarrow> moves c c'"
  by (auto simp: finish_operation_def dest!: resolveMaintenance_frame
      intro!: moves_core [OF _ moves_set_operation [OF finish_backup_moves]] split: if_splits option.splits sum.splits)

lemma record_failure_moves:
  assumes "record_failure E o' d now c = Inr (r, c')" shows "moves c c'"
proof -
  from assms obtain e c2 where "same_core (set_operation (op_id o') (\<lambda>x. x\<lparr>op_error := e\<rparr>) c) c2" "same_core c2 c'"
    by (auto simp: record_failure_def Let_def same_core_def dest!: openAnomaly_frame split: sum.splits option.splits if_splits)
  then have "backups c' = backups c" by (simp add: same_core_def)
  then show ?thesis by (rule moves_same)
qed

lemma operation_moves:
  "AuthorizeOperation E tok k l now c = Inr (ot, c') \<Longrightarrow> moves c c'"
  "ValidateOperation E k t l now c = Inr (r, c') \<Longrightarrow> moves c c'"
  "ConfirmOperation E k t fin d l now c = Inr (r, c') \<Longrightarrow> moves c c'"
  "ReconcileAuthorized k now c = Inr (r, c') \<Longrightarrow> moves c c'"
  subgoal by (rule moves_same) (auto simp: AuthorizeOperation_def split: sum.splits option.splits if_splits)
  subgoal by (rule moves_same) (auto simp: ValidateOperation_def split: sum.splits option.splits if_splits)
  subgoal by (auto simp: ConfirmOperation_def dest: finish_operation_moves record_failure_moves
        intro: moves_same split: sum.splits option.splits if_splits)
  subgoal by (auto simp: ReconcileAuthorized_def dest: finish_operation_moves split: option.splits if_splits)
  done

lemma reset_moves:
  assumes "ResetAuthorized k now c = Inr (r, c')"
  shows "moves c c'"
proof -
  from assms obtain c1 g where c1: "same_core (set_operation k g c1) c'"
    and "c1 = c \<or> (\<exists>i. set_backup i BackupPurging (\<lambda>b. b\<lparr>b_status := BackupQuarantined\<rparr>) c = Some c1)
      \<or> (\<exists>i. set_backup i BackupDeleting (\<lambda>b. b\<lparr>b_status := BackupComplete\<rparr>) c = Some c1)"
    by (auto simp: ResetAuthorized_def Let_def dest!: resolve_after_frame split: option.splits if_splits)
  then have "moves c c1"
    by (elim disjE exE) (auto simp: same_deposit_def intro: moves_same elim!: moves_set_backup)
  then show ?thesis using c1 moves_core moves_set_operation by blast
qed

lemma cancel_moves:
  assumes "CancelQuarantineRequest i ac now c = Inr (r, c')"
  shows "moves c c'"
proof -
  from assms obtain ops c2 where sb: "set_backup i BackupDeleting (\<lambda>b. b\<lparr>b_status := BackupComplete\<rparr>) (c\<lparr>operations := ops\<rparr>) = Some c2"
    and c': "same_core c2 c'"
    by (auto simp: CancelQuarantineRequest_def Let_def same_core_def dest!: resolveMaintenance_frame
        split: option.splits if_splits sum.splits)
  have "moves (c\<lparr>operations := ops\<rparr>) c2" using sb by (rule moves_set_backup) (simp_all add: same_deposit_def)
  then show ?thesis using moves_core [OF c', of "c\<lparr>operations := ops\<rparr>"] by (simp add: moves_def)
qed

lemma Complete_moves:
  assumes "Complete E i now c = Inr (r, c')" shows "moves c c'"
proof -
  from assms obtain c1 where "set_backup i BackupReceiving
      (\<lambda>b. b\<lparr>b_status := BackupComplete, b_received_at := Stamp now, b_failure := []\<rparr>) c = Some c1" "same_core c1 c'"
    by (auto simp: Complete_def dest: evaluateCompleted_frame split: option.splits sum.splits)
  then show ?thesis using moves_set_backup [of i BackupReceiving _ c c1] moves_core by (simp add: same_deposit_def)
qed

lemma Fail_moves:
  assumes "Fail E i re now c = Inr (r, c')" shows "moves c c'"
proof -
  from assms obtain c1 where "set_backup i BackupReceiving (\<lambda>b. b\<lparr>b_status := BackupFailed, b_failure := re\<rparr>) c = Some c1" "same_core c1 c'"
    by (auto simp: Fail_def dest: openAnomaly_frame split: option.splits sum.splits)
  then show ?thesis using moves_set_backup [of i BackupReceiving _ c c1] moves_core by (simp add: same_deposit_def)
qed

lemma Reserve_moves:
  assumes "ReserveIdempotentChecked E n t m sz d ik now ch c = Inr (b, c')"
  shows "moves c c'"
  using assms
proof (cases rule: ReserveE)
  case (reserved i c1 keyID ex)
  have "backups c' = backups c1" using reserved(2) by (simp add: record_attempt_def)
  moreover have "moves c c1"
  proof (cases ex)
    case None
    with reserved(1) have "backups c1 = backups c @ [(reservation [] keyID ik m sz d now)\<lparr>b_id := i\<rparr>]"
      by (auto simp: store_reservation_def split: sum.splits if_splits)
    then show ?thesis by (rule moves_append) simp
  next
    case (Some j)
    with reserved(1) have "backups c1 = update_where (\<lambda>b. b_id b = j \<and> b_status b = BackupFailed)
      (\<lambda>b. b\<lparr>b_status := BackupReceiving, b_started_at := unix now, b_received_at := NoStamp, b_failure := []\<rparr>) (backups c)"
      by (auto simp: store_reservation_def)
    then show ?thesis by (rule moves_update [rotated]) (auto simp: same_deposit_def)
  qed
  ultimately show ?thesis by (simp add: moves_def)
qed (simp add: moves_same)

lemma Revoke_moves:
  assumes "Revoke k now c = Inr (r, c')" shows "moves c c'"
proof -
  have "backups c' = update_where (\<lambda>_. True) (revoke_row k c) (backups c)"
    using Revoke_effect(1) [OF assms] by (simp add: update_where_def)
  then show ?thesis by (rule moves_update [rotated]) (auto simp: same_deposit_def revoke_row_def)
qed

lemmas moves_rules = request_moves operation_moves reset_moves cancel_moves Complete_moves Fail_moves Reserve_moves Revoke_moves

lemma store_step_moves: "store_step E c c' \<Longrightarrow> moves c c'"
  by (induction rule: store_step.induct) (erule moves_rules | drule rows_frames, rule moves_same, simp only: same_rows_def)+

subsection \<open>What never changes\<close>

definition received :: "status \<Rightarrow> bool" where
  "received s \<longleftrightarrow> s \<noteq> BackupReceiving \<and> s \<noteq> BackupFailed"

text \<open>Rows keep their place and their deposit; a received copy is never received again; a deleted one
  stays deleted; the lease generation never goes back.\<close>

definition preserved :: "catalog \<Rightarrow> catalog \<Rightarrow> bool" where
  "preserved c c' \<longleftrightarrow> length (backups c) \<le> length (backups c')
     \<and> (\<forall>k < length (backups c). same_deposit (backups c ! k) (backups c' ! k)
         \<and> (received (b_status (backups c ! k)) \<longrightarrow> received (b_status (backups c' ! k)))
         \<and> (b_status (backups c ! k) = BackupDeleted \<longrightarrow> b_status (backups c' ! k) = BackupDeleted))
     \<and> l_generation (lease_row c) \<le> l_generation (lease_row c')"

lemma legal_received: "legal s s' \<Longrightarrow> received s \<Longrightarrow> received s'"
  by (cases s) (auto simp: received_def)

lemma moves_preserved:
  assumes "moves c c'" "l_generation (lease_row c) \<le> l_generation (lease_row c')"
  shows "preserved c c'"
proof -
  let ?n = "length (backups c)"
  from assms(1) have all: "list_all2 (\<lambda>b b'. same_deposit b b' \<and> legal (b_status b) (b_status b')) (backups c) (take ?n (backups c'))"
    by (auto simp: moves_def)
  then have "?n \<le> length (backups c')" by (auto dest: list_all2_lengthD)
  moreover have "same_deposit (backups c ! k) (backups c' ! k) \<and> legal (b_status (backups c ! k)) (b_status (backups c' ! k))"
    if "k < ?n" for k using list_all2_nthD [OF all that] that by simp
  ultimately show ?thesis
    unfolding preserved_def using assms(2) legal_received by (metis legal.simps(7))
qed

lemma finish_operation_lease: "finish_operation u inc nt o' now c = Inr (r, c') \<Longrightarrow> lease_row c' = lease_row c"
proof -
  assume "finish_operation u inc nt o' now c = Inr (r, c')"
  then obtain c1 g where "finish_backup o' now c = Some c1" "same_core (set_operation (op_id o') g c1) c'"
    by (auto simp: finish_operation_def dest!: resolveMaintenance_frame split: if_splits option.splits sum.splits)
  then show ?thesis
    by (cases "op_kind_of o'") (auto simp: finish_backup_def set_backup_def same_core_def set_operation_def split: if_splits)
qed

lemma record_failure_lease: "record_failure E o' d now c = Inr (r, c') \<Longrightarrow> lease_row c' = lease_row c"
  by (auto simp: record_failure_def Let_def same_core_def set_operation_def dest!: openAnomaly_frame
      split: sum.splits option.splits if_splits)

lemma operation_lease:
  "RequestQuarantine E i og ac re now c = Inr (o', c') \<Longrightarrow> lease_row c' = lease_row c"
  "RequestPurge E i og ac re now c = Inr (o', c') \<Longrightarrow> lease_row c' = lease_row c"
  "RequestRecovery i ac re now c = Inr (o', c') \<Longrightarrow> lease_row c' = lease_row c"
  "AuthorizeOperation E tok k l now c = Inr (ot, c') \<Longrightarrow> lease_row c' = lease_row c"
  "ValidateOperation E k t l now c = Inr (r, c') \<Longrightarrow> lease_row c' = lease_row c"
  "ConfirmOperation E k t fin d l now c = Inr (r, c') \<Longrightarrow> lease_row c' = lease_row c"
  "ReconcileAuthorized k now c = Inr (r, c') \<Longrightarrow> lease_row c' = lease_row c"
  "ResetAuthorized k now c = Inr (r, c') \<Longrightarrow> lease_row c' = lease_row c"
  "CancelQuarantineRequest i ac now c = Inr (r, c') \<Longrightarrow> lease_row c' = lease_row c"
  subgoal by (auto simp: RequestQuarantine_def Let_def insert_operation_def set_backup_def split: if_splits option.splits sum.splits)
  subgoal by (auto simp: RequestPurge_def Let_def insert_operation_def set_backup_def split: if_splits option.splits sum.splits)
  subgoal by (auto simp: RequestRecovery_def Let_def insert_operation_def split: if_splits option.splits sum.splits)
  subgoal by (auto simp: AuthorizeOperation_def set_operation_def split: sum.splits option.splits if_splits)
  subgoal by (auto simp: ValidateOperation_def set_operation_def split: sum.splits option.splits if_splits)
  subgoal by (auto simp: ConfirmOperation_def dest: finish_operation_lease record_failure_lease split: sum.splits option.splits if_splits)
  subgoal by (auto simp: ReconcileAuthorized_def dest: finish_operation_lease split: option.splits if_splits)
  subgoal by (auto simp: ResetAuthorized_def Let_def set_backup_def same_core_def set_operation_def dest!: resolve_after_frame
        split: option.splits if_splits)
  subgoal by (auto simp: CancelQuarantineRequest_def Let_def set_backup_def same_core_def dest!: resolveMaintenance_frame
        split: option.splits if_splits sum.splits)
  done

lemma deposit_lease:
  "Complete E i now c = Inr (r, c') \<Longrightarrow> lease_row c' = lease_row c"
  "Fail E i re now c = Inr (r, c') \<Longrightarrow> lease_row c' = lease_row c"
  "ReserveIdempotentChecked E n t m sz d ik now ch c = Inr (b, c') \<Longrightarrow> lease_row c' = lease_row c"
  subgoal by (auto simp: Complete_def set_backup_def same_core_def dest!: evaluateCompleted_frame split: option.splits sum.splits if_splits)
  subgoal by (auto simp: Fail_def set_backup_def same_core_def dest!: openAnomaly_frame split: option.splits sum.splits if_splits)
  subgoal by (erule ReserveE) (auto simp: record_attempt_def store_reservation_def split: option.splits sum.splits if_splits)
  done

lemmas lease_frames = operation_lease deposit_lease Revoke_effect(4)

lemma store_step_lease: "store_step E c c' \<Longrightarrow> l_generation (lease_row c) \<le> l_generation (lease_row c')"
  by (induction rule: store_step.induct) (drule lease_frames, simp | drule rows_frames, simp only: same_rows_def)+

interpretation store_history: history Init "store_step E" core_inv preserved
proof unfold_locales
  show "preserved c c" for c by (simp add: preserved_def)
  show "preserved a c" if "preserved a b" "preserved b c" for a b c
    using that unfolding preserved_def by (auto simp: same_deposit_def)
  show "preserved c c'" if "store_step E c c'" for c c'
    using that store_step_moves store_step_lease moves_preserved by blast
qed

end
