(* ===== verification/Local_Api.thy ===== *)
theory Local_Api
  imports Ingest Store_Steps
begin

text \<open>
  The local interface of the writer, internal/localapi/api.go: the commands of the administrator and of
  the maintenance process, each the decoding of its body, its confirmation phrase where it needs one,
  one operation of the store and the status code of its answer; and the physical verification that
  stands between an executed operation and the catalogue. Of the handlers
  that only list the catalogue the snapshot of maintenance is in Monitoring and the others are not modelled. A request whose
  context is cancelled is a call that fails. What JSON decoding makes of a body is part of the request, with the struct's fields
  in their order or the decoder's message.
\<close>

subsection \<open>Replies\<close>

datatype answer = Said string | AnOperation operation | ATicket operation string | ALease lease | AFlag bool
  | ACheck check_row | APlan check_row "(monitoring_model \<times> seconds \<times> seconds) list" | AnExclusion exclusion

datatype reply = ErrorReply int string | Reply int answer

type_synonym 'a body = "string + 'a"
type_synonym handling = "catalog \<Rightarrow> reply \<times> catalog"

definition with_body :: "'a body \<Rightarrow> ('a \<Rightarrow> handling) \<Rightarrow> handling" where
  "with_body b f c = (case b of Inl m \<Rightarrow> (ErrorReply 400 m, c) | Inr x \<Rightarrow> f x c)"

definition requireAdminConfirmation :: "string \<Rightarrow> string \<Rightarrow> handling \<Rightarrow> handling" where
  "requireAdminConfirmation provided expected h c =
     (if provided \<noteq> expected then (ErrorReply 409 (''conferma esplicita richiesta: '' @ expected), c) else h c)"

text \<open>The answer to a transaction: the code of its failure, the code of its success and what is said then.\<close>

definition answering :: "int \<Rightarrow> int \<Rightarrow> ('a \<Rightarrow> answer) \<Rightarrow> (catalog \<Rightarrow> 'a tx) \<Rightarrow> handling" where
  "answering bad good say op c = (case op c of Inl e \<Rightarrow> (ErrorReply bad (error_text e), c) | Inr (x, c') \<Rightarrow> (Reply good (say x), c'))"

definition saying :: "string \<Rightarrow> 'a \<Rightarrow> answer" where
  "saying m = (\<lambda>_. Said m)"

subsection \<open>Commands of the administrator\<close>

definition ConfirmRetentionEnable :: string where "ConfirmRetentionEnable = ''ABILITA''"
definition ConfirmRetentionPause :: string where "ConfirmRetentionPause = ''SOSPENDI''"
definition ConfirmRetentionResume :: string where "ConfirmRetentionResume = ''RIPRENDI''"
definition ConfirmRetentionResumeWhenReady :: string where "ConfirmRetentionResumeWhenReady = ''PRENOTA''"

definition admin_setup :: "env \<Rightarrow> (mail_settings \<times> string \<times> string \<times> string) body \<Rightarrow> time \<Rightarrow> handling" where
  "admin_setup E b now = with_body b (\<lambda>(settings, confirmation, timezone, mode).
     requireAdminConfirmation confirmation (ConfirmAutomationSetup mode)
       (answering 400 200 (saying ''configured'') (SetupAutomationMode E settings timezone mode now)))"

definition admin_enable :: "string body \<Rightarrow> handling" where
  "admin_enable b = with_body b (\<lambda>confirmation. requireAdminConfirmation confirmation ConfirmRetentionEnable
     (answering 409 200 (saying ''enabled'') EnableAutomation))"

definition admin_minimum :: "(string \<times> int) body \<Rightarrow> handling" where
  "admin_minimum b = with_body b (\<lambda>(keyID, days). answering 400 200 (saying ''configured'') (SetKeyRetentionDays keyID days))"

definition admin_pause :: "(string \<times> string) body \<Rightarrow> handling" where
  "admin_pause b = with_body b (\<lambda>(confirmation, reason). requireAdminConfirmation confirmation ConfirmRetentionPause
     (answering 500 200 (saying ''paused'') (PauseRetention reason)))"

definition admin_resume :: "string body \<Rightarrow> time \<Rightarrow> handling" where
  "admin_resume b now = with_body b (\<lambda>confirmation. requireAdminConfirmation confirmation ConfirmRetentionResume
     (answering 409 200 (saying ''resumed'') (ResumeRetention now)))"

definition admin_resume_when_ready :: "string body \<Rightarrow> time \<Rightarrow> handling" where
  "admin_resume_when_ready b now = with_body b (\<lambda>confirmation. requireAdminConfirmation confirmation ConfirmRetentionResumeWhenReady
     (answering 500 200 (saying ''resume_pending'') (RequestRetentionResume now)))"

definition admin_relearn :: handling where
  "admin_relearn = answering 500 200 (saying ''learning'') BeginRelearn"

definition admin_acknowledge :: "int body \<Rightarrow> time \<Rightarrow> handling" where
  "admin_acknowledge b now = with_body b (\<lambda>i. answering 409 200 (saying ''acknowledged'') (AcknowledgeMissingAnomaly i now))"

definition admin_exclude :: "(int \<times> seconds \<times> seconds \<times> string \<times> string \<times> string list) body \<Rightarrow> time \<Rightarrow> handling" where
  "admin_exclude b now = with_body b (\<lambda>(source, startsAt, endsAt, actor, reason, kinds).
     answering 409 201 AnExclusion (CreateAnomalyExclusion source (of_unix startsAt) (of_unix endsAt) actor reason kinds now))"

definition admin_request :: "env \<Rightarrow> (string \<times> string \<times> string) body \<Rightarrow> time \<Rightarrow> handling" where
  "admin_request E b now = with_body b (\<lambda>(backupID, actor, reason).
     answering 409 201 AnOperation (RequestQuarantine E backupID Manual actor reason now))"

definition admin_cancel :: "(string \<times> string) body \<Rightarrow> time \<Rightarrow> handling" where
  "admin_cancel b now = with_body b (\<lambda>(backupID, actor). answering 409 200 (saying ''cancelled'') (CancelQuarantineRequest backupID actor now))"

definition admin_recover :: "(string \<times> string \<times> string) body \<Rightarrow> time \<Rightarrow> handling" where
  "admin_recover b now = with_body b (\<lambda>(backupID, actor, reason).
     answering 409 201 AnOperation (RequestRecovery backupID actor reason now))"

definition admin_mail_test :: "time \<Rightarrow> handling" where
  "admin_mail_test now = answering 500 202 (saying ''queued'')
     (QueueReport (''mail-test:'' @ show_int (unix now)) ''OnlyBackup: mail di prova'' ''La configurazione mail di OnlyBackup funziona.'' now)"

datatype admin_route =
    AutomationSetup "(mail_settings \<times> string \<times> string \<times> string) body" | AutomationEnable "string body"
  | RetentionMinimum "(string \<times> int) body" | RetentionPause "(string \<times> string) body" | RetentionResume "string body"
  | RetentionResumeWhenReady "string body" | MonitoringRelearn | MonitoringAcknowledge "int body"
  | MonitoringExclude "(int \<times> seconds \<times> seconds \<times> string \<times> string \<times> string list) body"
  | RetentionRequest "(string \<times> string \<times> string) body" | RetentionCancel "(string \<times> string) body"
  | RetentionRecover "(string \<times> string \<times> string) body" | MailTest | UnknownAdmin string

text \<open>The POST part of serveAdmin: the caller's Unix identity must be known.\<close>

definition serveAdmin :: "env \<Rightarrow> string \<Rightarrow> bool \<Rightarrow> admin_route \<Rightarrow> time \<Rightarrow> handling" where
  "serveAdmin E method peer route now c =
     (if method \<noteq> ''POST'' then (ErrorReply 405 ''metodo non consentito'', c)
      else if \<not> peer then (ErrorReply 403 ''identita Unix del chiamante non disponibile'', c)
      else (case route of
          AutomationSetup b \<Rightarrow> admin_setup E b now c
        | AutomationEnable b \<Rightarrow> admin_enable b c
        | RetentionMinimum b \<Rightarrow> admin_minimum b c
        | RetentionPause b \<Rightarrow> admin_pause b c
        | RetentionResume b \<Rightarrow> admin_resume b now c
        | RetentionResumeWhenReady b \<Rightarrow> admin_resume_when_ready b now c
        | MonitoringRelearn \<Rightarrow> admin_relearn c
        | MonitoringAcknowledge b \<Rightarrow> admin_acknowledge b now c
        | MonitoringExclude b \<Rightarrow> admin_exclude b now c
        | RetentionRequest b \<Rightarrow> admin_request E b now c
        | RetentionCancel b \<Rightarrow> admin_cancel b now c
        | RetentionRecover b \<Rightarrow> admin_recover b now c
        | MailTest \<Rightarrow> admin_mail_test now c
        | UnknownAdmin p \<Rightarrow> (ErrorReply 404 ''comando amministrativo inesistente'', c)))"

subsection \<open>Physical verification\<close>

text \<open>The file probes of a verification and the faults they may meet.\<close>

datatype probe = ReadArchive | ReadQuarantine | StatArchive | StatQuarantine

type_synonym probes = "probe \<Rightarrow> io_error option"

definition missing :: "io_error option \<Rightarrow> place \<Rightarrow> disk \<Rightarrow> bool" where
  "missing fault p d \<longleftrightarrow> fault = None \<and> Lstat p d = None"

definition validBackupFile :: "env \<Rightarrow> io_error option \<Rightarrow> place \<Rightarrow> backup \<Rightarrow> disk \<Rightarrow> bool" where
  "validBackupFile E fault p b d =
     (case Lstat p d of
        Some (Regular n) \<Rightarrow> (let bytes = content (inodes d ! n) in
          int (length bytes) = b_size b \<and> Verify E fault bytes (b_size b) (b_sha256 b) = None)
      | _ \<Rightarrow> False)"

record seen =
  archiveOK :: bool
  quarantineOK :: bool
  archiveMissing :: bool
  quarantineMissing :: bool

definition look :: "env \<Rightarrow> probes \<Rightarrow> backup \<Rightarrow> disk \<Rightarrow> seen" where
  "look E F b d = \<lparr>archiveOK = validBackupFile E (F ReadArchive) (final (b_id b)) b d,
     quarantineOK = validBackupFile E (F ReadQuarantine) (quarantine (b_id b)) b d,
     archiveMissing = missing (F StatArchive) (final (b_id b)) d,
     quarantineMissing = missing (F StatQuarantine) (quarantine (b_id b)) d\<rparr>"

text \<open>What the files say of an operation: it was carried out, or they are as before it.\<close>

fun shows_done :: "op_kind \<Rightarrow> seen \<Rightarrow> bool" where
  "shows_done Quarantine s \<longleftrightarrow> archiveMissing s \<and> quarantineOK s"
| "shows_done Recover s \<longleftrightarrow> archiveOK s \<and> quarantineMissing s"
| "shows_done Purge s \<longleftrightarrow> quarantineMissing s \<and> archiveMissing s"
| "shows_done Cancel s \<longleftrightarrow> False"

fun shows_untouched :: "op_kind \<Rightarrow> seen \<Rightarrow> bool" where
  "shows_untouched Quarantine s \<longleftrightarrow> archiveOK s \<and> quarantineMissing s"
| "shows_untouched Recover s \<longleftrightarrow> archiveMissing s \<and> quarantineOK s"
| "shows_untouched Purge s \<longleftrightarrow> quarantineOK s \<and> archiveMissing s"
| "shows_untouched Cancel s \<longleftrightarrow> False"

definition verifyCompletedOperation :: "env \<Rightarrow> probes \<Rightarrow> int \<Rightarrow> disk \<Rightarrow> catalog \<Rightarrow> error option" where
  "verifyCompletedOperation E F operationID d c =
     (case Operation c operationID of None \<Rightarrow> Some ErrNoRows | Some o' \<Rightarrow>
     (case find_backup c (op_backup_id o') of None \<Rightarrow> Some ErrNoRows | Some b \<Rightarrow>
        if op_kind_of o' = Cancel then Some (ErrMsg ''tipo operazione non verificabile'')
        else if shows_done (op_kind_of o') (look E F b d) then None
        else Some (ErrMsg ''file assente, nella posizione errata o non corrispondente al catalogo'')))"

text \<open>The lease is checked again after the files were read.\<close>

definition reconcileContext :: "env \<Rightarrow> probes \<Rightarrow> int \<Rightarrow> time \<Rightarrow> lease \<Rightarrow> disk \<Rightarrow> catalog \<Rightarrow> string res \<times> catalog" where
  "reconcileContext E F operationID now l d c =
     (case Operation c operationID of None \<Rightarrow> (Inl ErrNoRows, c) | Some o' \<Rightarrow>
        if op_state_of o' \<noteq> Authorized then (Inl ErrTicket, c)
        else (case find_backup c (op_backup_id o') of None \<Rightarrow> (Inl ErrNoRows, c) | Some b \<Rightarrow>
          if \<not> ValidID (b_id b) then (Inl (ErrMsg ''ID backup non valido''), c)
          else (case ValidateMaintenanceLease l now c of Inl e \<Rightarrow> (Inl e, c) | Inr _ \<Rightarrow>
            if op_kind_of o' = Cancel then (Inl (ErrMsg ''operazione non riconciliabile''), c)
            else if shows_done (op_kind_of o') (look E F b d)
            then (case ReconcileAuthorized operationID now c of Inl e \<Rightarrow> (Inl e, c) | Inr (_, c') \<Rightarrow> (Inr ''confirmed'', c'))
            else if shows_untouched (op_kind_of o') (look E F b d)
            then (case ResetAuthorized operationID now c of Inl e \<Rightarrow> (Inl e, c)
                  | Inr (_, c') \<Rightarrow> (Inr (if op_execution_committed o' then ''resume'' else ''reset''), c'))
            else (let detail = ''esito fisico incerto per operazione '' @ show_int operationID @ '' backup '' @ b_id b in
              (Inl (ErrMsg detail),
               (case OpenAnomaly E (uncertain_key operationID) ''maintenance'' (b_key_id b) (b_id b) detail now c of
                  Inl _ \<Rightarrow> c | Inr (_, c') \<Rightarrow> c'))))))"

subsection \<open>Commands of maintenance\<close>

definition wrap64 :: "int \<Rightarrow> int" where
  "wrap64 x = sint (word_of_int x :: 64 word)"

definition maintenance_lease :: "(string \<times> int \<times> int) body \<Rightarrow> time \<Rightarrow> handling" where
  "maintenance_lease b now = with_body b (\<lambda>(own, generation, seconds).
     answering 409 200 ALease (AcquireMaintenanceLease own generation now (wrap64 (seconds * second))))"

definition maintenance_release :: "lease body \<Rightarrow> handling" where
  "maintenance_release b = with_body b (\<lambda>l. answering 409 200 (saying ''released'') (ReleaseMaintenanceLease l))"

definition the_lease :: "string \<Rightarrow> int \<Rightarrow> lease" where
  "the_lease own generation = \<lparr>l_owner = own, l_generation = generation, l_expires_at = 0\<rparr>"

definition maintenance_authorize :: "env \<Rightarrow> string res \<Rightarrow> (int \<times> string \<times> int) body \<Rightarrow> time \<Rightarrow> handling" where
  "maintenance_authorize E newToken b now = with_body b (\<lambda>(i, own, generation).
     answering 409 200 (\<lambda>(o', ticket). ATicket o' ticket) (AuthorizeOperation E newToken i (the_lease own generation) now))"

definition maintenance_confirm :: "env \<Rightarrow> probes \<Rightarrow> (int \<times> string \<times> bool \<times> string \<times> string \<times> int) body \<Rightarrow> time \<Rightarrow> disk \<Rightarrow> handling" where
  "maintenance_confirm E F b now d = with_body b (\<lambda>(i, ticket, physicalDone, detail, own, generation) c.
     case (if physicalDone then verifyCompletedOperation E F i d c else None) of
       Some e \<Rightarrow> (ErrorReply 409 (''verifica fisica della conferma fallita: '' @ error_text e), c)
     | None \<Rightarrow> answering 409 200 (saying ''confirmed'')
         (ConfirmOperation E i ticket physicalDone detail (the_lease own generation) now) c)"

definition maintenance_validate :: "env \<Rightarrow> (int \<times> string \<times> string \<times> int) body \<Rightarrow> time \<Rightarrow> handling" where
  "maintenance_validate E b now = with_body b (\<lambda>(i, ticket, own, generation).
     answering 409 200 (saying ''valid'') (ValidateOperation E i ticket (the_lease own generation) now))"

definition maintenance_reconcile :: "env \<Rightarrow> probes \<Rightarrow> (int \<times> string \<times> int) body \<Rightarrow> time \<Rightarrow> time \<Rightarrow> disk \<Rightarrow> handling" where
  "maintenance_reconcile E F b now later d = with_body b (\<lambda>(i, own, generation) c.
     case ValidateMaintenanceLease (the_lease own generation) now c of
       Inl e \<Rightarrow> (ErrorReply 409 (error_text e), c)
     | Inr _ \<Rightarrow> (case reconcileContext E F i later (the_lease own generation) d c of
         (Inl e, c') \<Rightarrow> (ErrorReply 409 (error_text e), c')
       | (Inr m, c') \<Rightarrow> (Reply 200 (Said m), c')))"

definition maintenance_clear_block :: "int body \<Rightarrow> time \<Rightarrow> handling" where
  "maintenance_clear_block b now = with_body b (\<lambda>i. answering 409 200 AFlag (TryClearResolvedMaintenanceBlock i now))"

definition origin_of :: "string \<Rightarrow> origin option" where
  "origin_of s = (if s = ''manual'' then Some Manual else if s = ''automatic'' then Some Automatic
     else if s = ''reconcile'' then Some ReconcileOrigin else None)"

definition maintenance_purge :: "env \<Rightarrow> (string \<times> string \<times> string \<times> string) body \<Rightarrow> time \<Rightarrow> handling" where
  "maintenance_purge E b now = with_body b (\<lambda>(backupID, orig, actor, reason). answering 409 201 AnOperation
     (\<lambda>c. case origin_of orig of None \<Rightarrow> Inl (ErrMsg ''richiesta purge non valida'')
           | Some og \<Rightarrow> RequestPurge E backupID og actor reason now c))"

definition maintenance_quarantine :: "env \<Rightarrow> (string \<times> string \<times> string \<times> string) body \<Rightarrow> time \<Rightarrow> handling" where
  "maintenance_quarantine E b now = with_body b (\<lambda>(backupID, orig, actor, reason). answering 409 201 AnOperation
     (\<lambda>c. case origin_of orig of None \<Rightarrow> Inl (ErrMsg ''richiesta retention non valida'')
           | Some og \<Rightarrow> RequestQuarantine E backupID og actor reason now c))"

definition maintenance_open :: "env \<Rightarrow> (string \<times> string \<times> string \<times> string \<times> string \<times> time option) body \<Rightarrow> time \<Rightarrow> handling" where
  "maintenance_open E b now = with_body b (\<lambda>(stableKey, kind, keyID, backupID, detail, eventAt).
     answering 400 200 AFlag (OpenAnomalyAt E stableKey kind keyID backupID detail (case eventAt of None \<Rightarrow> now | Some t \<Rightarrow> t) now))"

definition maintenance_resolve :: "string body \<Rightarrow> time \<Rightarrow> handling" where
  "maintenance_resolve b now = with_body b (\<lambda>stableKey. answering 400 200 AFlag (ResolveAnomaly stableKey now))"

definition maintenance_save_model :: "(string \<times> string \<times> int \<times> int \<times> key_model option \<times> bool \<times> bool) body \<Rightarrow> time \<Rightarrow> handling" where
  "maintenance_save_model b now = with_body b (\<lambda>(keyID, timezone, revision, retentionDays, value, reliable, review).
     answering 400 200 (saying ''saved'') (SaveModel keyID revision timezone retentionDays value reliable review now))"

definition monitoring_state_of :: "string \<Rightarrow> monitoring_state option" where
  "monitoring_state_of s = (if s = ''APPRENDIMENTO'' then Some MonitoringLearning else if s = ''REGOLARE'' then Some MonitoringRegular
     else if s = ''ANOMALIA'' then Some MonitoringAnomaly else if s = ''SOSPESO'' then Some MonitoringPaused else None)"

definition bad_state :: error where "bad_state = ErrMsg ''stato monitoraggio non valido''"

definition maintenance_state :: "(string \<times> int) body \<Rightarrow> time \<Rightarrow> handling" where
  "maintenance_state b now = with_body b (\<lambda>(st, revision). answering 400 200 (saying ''recorded'')
     (\<lambda>c. case monitoring_state_of st of None \<Rightarrow> Inl bad_state | Some ms \<Rightarrow> SetCheckState ms revision now c))"

definition maintenance_report :: "(string \<times> string \<times> string \<times> bool) body \<Rightarrow> time \<Rightarrow> handling" where
  "maintenance_report b now = with_body b (\<lambda>(stableID, subject, text, periodic). answering 400 202 (saying ''queued'')
     (if periodic then QueuePeriodicReport stableID subject text now else QueueReport stableID subject text now))"

definition maintenance_mail_confirm :: "(int \<times> string \<times> int) body \<Rightarrow> time \<Rightarrow> handling" where
  "maintenance_mail_confirm b now = with_body b (\<lambda>(i, err, configVersion).
     answering 400 200 (saying ''recorded'') (ConfirmMail i err configVersion now))"

definition maintenance_check_start :: "time \<Rightarrow> handling" where
  "maintenance_check_start now = answering 500 201 ACheck (StartMonitoringCheck now)"

definition maintenance_check_plan :: "env \<Rightarrow> int body \<Rightarrow> time \<Rightarrow> handling" where
  "maintenance_check_plan E b now = with_body b (\<lambda>i. answering 409 200 (\<lambda>(k, plan). APlan k plan) (PlanMonitoringCheck E i now))"

definition outcome_of :: "string \<Rightarrow> check_status option" where
  "outcome_of s = (if s = ''completed_clean'' then Some CompletedClean
     else if s = ''completed_with_anomalies'' then Some CompletedWithAnomalies else None)"

definition maintenance_check_complete :: "env \<Rightarrow> (int \<times> string \<times> string \<times> string \<times> int \<times> finding list) body \<Rightarrow> time \<Rightarrow> handling" where
  "maintenance_check_complete E b now = with_body b (\<lambda>(i, oc, summary, st, revision, findings). answering 409 200 (saying ''completed'')
     (\<lambda>c. case outcome_of oc of None \<Rightarrow> Inl (ErrMsg ''esito controllo non valido'')
        | Some k \<Rightarrow> (case monitoring_state_of st of
            Some ms \<Rightarrow> CompleteMonitoringCheck E i k summary ms revision findings now c
          | None \<Rightarrow> if (findings = []) \<noteq> (k = CompletedClean) then Inl (ErrMsg ''esito controllo incoerente con le anomalie'')
                    else if length summary > 8192 then Inl (ErrMsg ''riepilogo controllo troppo lungo'') else Inl bad_state)))"

definition maintenance_check_fail :: "(int \<times> string) body \<Rightarrow> time \<Rightarrow> handling" where
  "maintenance_check_fail b now = with_body b (\<lambda>(i, summary). answering 500 200 (saying ''failed'') (FailMonitoringCheck i summary now))"

datatype maintenance_route =
    CheckStart | CheckPlan "int body" | CheckComplete "(int \<times> string \<times> string \<times> string \<times> int \<times> finding list) body"
  | CheckFail "(int \<times> string) body" | Lease "(string \<times> int \<times> int) body" | LeaseRelease "lease body"
  | Authorize "(int \<times> string \<times> int) body" | Confirm "(int \<times> string \<times> bool \<times> string \<times> string \<times> int) body"
  | Validate "(int \<times> string \<times> string \<times> int) body" | ReconcileRoute "(int \<times> string \<times> int) body" | ClearBlock "int body"
  | PurgeRequest "(string \<times> string \<times> string \<times> string) body" | QuarantineRequest "(string \<times> string \<times> string \<times> string) body"
  | AnomalyOpen "(string \<times> string \<times> string \<times> string \<times> string \<times> time option) body" | AnomalyResolve "string body"
  | ModelSave "(string \<times> string \<times> int \<times> int \<times> key_model option \<times> bool \<times> bool) body" | CheckState "(string \<times> int) body"
  | ReportQueue "(string \<times> string \<times> string \<times> bool) body" | MailConfirm "(int \<times> string \<times> int) body" | UnknownMaintenance string

text \<open>The POST part of serveMaintenance; \<open>later\<close> is the clock after the files of a reconciliation were read.\<close>

definition serveMaintenance :: "env \<Rightarrow> string res \<Rightarrow> probes \<Rightarrow> string \<Rightarrow> maintenance_route \<Rightarrow> time \<Rightarrow> time \<Rightarrow> disk \<Rightarrow> handling" where
  "serveMaintenance E newToken F method route now later d c =
     (if method \<noteq> ''POST'' then (ErrorReply 405 ''metodo non consentito'', c)
      else (case route of
          CheckStart \<Rightarrow> maintenance_check_start now c
        | CheckPlan b \<Rightarrow> maintenance_check_plan E b now c
        | CheckComplete b \<Rightarrow> maintenance_check_complete E b now c
        | CheckFail b \<Rightarrow> maintenance_check_fail b now c
        | Lease b \<Rightarrow> maintenance_lease b now c
        | LeaseRelease b \<Rightarrow> maintenance_release b c
        | Authorize b \<Rightarrow> maintenance_authorize E newToken b now c
        | Confirm b \<Rightarrow> maintenance_confirm E F b now d c
        | Validate b \<Rightarrow> maintenance_validate E b now c
        | ReconcileRoute b \<Rightarrow> maintenance_reconcile E F b now later d c
        | ClearBlock b \<Rightarrow> maintenance_clear_block b now c
        | PurgeRequest b \<Rightarrow> maintenance_purge E b now c
        | QuarantineRequest b \<Rightarrow> maintenance_quarantine E b now c
        | AnomalyOpen b \<Rightarrow> maintenance_open E b now c
        | AnomalyResolve b \<Rightarrow> maintenance_resolve b now c
        | ModelSave b \<Rightarrow> maintenance_save_model b now c
        | CheckState b \<Rightarrow> maintenance_state b now c
        | ReportQueue b \<Rightarrow> maintenance_report b now c
        | MailConfirm b \<Rightarrow> maintenance_mail_confirm b now c
        | UnknownMaintenance p \<Rightarrow> (ErrorReply 404 (''comando manutenzione inesistente: '' @ p), c)))"

definition ProtocolVersion :: string where "ProtocolVersion = ''1''"

datatype local_request = Admin bool admin_route | Maintenance "string res" probes time disk maintenance_route

definition handler :: "env \<Rightarrow> string \<Rightarrow> string \<Rightarrow> local_request \<Rightarrow> time \<Rightarrow> handling" where
  "handler E protocol method r now c =
     (if protocol \<noteq> ProtocolVersion then (ErrorReply 412 ''versione protocollo locale incompatibile'', c)
      else (case r of
          Admin peer route \<Rightarrow> serveAdmin E method peer route now c
        | Maintenance newToken F later d route \<Rightarrow> serveMaintenance E newToken F method route now later d c))"

subsection \<open>The interface and the store\<close>

text \<open>An error leaves the catalogue alone, anything else is one operation of the store.\<close>

definition conforms :: "env \<Rightarrow> catalog \<Rightarrow> reply \<times> catalog \<Rightarrow> bool" where
  "conforms E c rc \<longleftrightarrow> (case fst rc of ErrorReply code _ \<Rightarrow> 400 \<le> code \<and> snd rc = c | Reply code _ \<Rightarrow> code < 300 \<and> store_step E c (snd rc))"

lemma conforms_error [simp]: "conforms E c (ErrorReply code m, c') \<longleftrightarrow> 400 \<le> code \<and> c' = c"
  by (simp add: conforms_def)

lemma conforms_body: "(\<And>x. b = Inr x \<Longrightarrow> conforms E c (f x c)) \<Longrightarrow> conforms E c (with_body b f c)"
  by (simp add: with_body_def split: sum.split)

lemma conforms_confirmation: "conforms E c (h c) \<Longrightarrow> conforms E c (requireAdminConfirmation p e h c)"
  by (simp add: requireAdminConfirmation_def)

lemma conforms_answer:
  assumes "\<And>x c'. op c = Inr (x, c') \<Longrightarrow> store_step E c c'" "400 \<le> bad" "good < 300"
  shows "conforms E c (answering bad good say op c)"
  using assms by (cases "op c") (auto simp: answering_def conforms_def)

lemmas conforms_rules = conforms_body conforms_confirmation conforms_answer

lemma admin_command_conforms:
  "conforms E c (admin_setup E b1 now c)"
  "conforms E c (admin_enable b2 c)"
  "conforms E c (admin_minimum b3 c)"
  "conforms E c (admin_pause b4 c)"
  "conforms E c (admin_resume b5 now c)"
  "conforms E c (admin_resume_when_ready b6 now c)"
  "conforms E c (admin_relearn  c)"
  "conforms E c (admin_acknowledge b7 now c)"
  "conforms E c (admin_exclude b8 now c)"
  "conforms E c (admin_request E b9 now c)"
  "conforms E c (admin_cancel b10 now c)"
  "conforms E c (admin_recover b11 now c)"
  "conforms E c (admin_mail_test now c)"
  subgoal unfolding admin_setup_def by (auto intro!: conforms_rules intro: store_step.SetupAutomationMode)
  subgoal unfolding admin_enable_def by (auto intro!: conforms_rules intro: store_step.EnableAutomation)
  subgoal unfolding admin_minimum_def by (auto intro!: conforms_rules intro: store_step.SetKeyRetentionDays)
  subgoal unfolding admin_pause_def by (auto intro!: conforms_rules intro: store_step.PauseRetention)
  subgoal unfolding admin_resume_def by (auto intro!: conforms_rules intro: store_step.ResumeRetention)
  subgoal unfolding admin_resume_when_ready_def by (auto intro!: conforms_rules intro: store_step.RequestRetentionResume)
  subgoal unfolding admin_relearn_def by (auto intro!: conforms_rules intro: store_step.BeginRelearn)
  subgoal unfolding admin_acknowledge_def by (auto intro!: conforms_rules intro: store_step.AcknowledgeMissing)
  subgoal unfolding admin_exclude_def by (auto intro!: conforms_rules intro: store_step.CreateExclusion)
  subgoal unfolding admin_request_def by (auto intro!: conforms_rules intro: store_step.RequestQuarantine)
  subgoal unfolding admin_cancel_def by (auto intro!: conforms_rules intro: store_step.CancelQuarantineRequest)
  subgoal unfolding admin_recover_def by (auto intro!: conforms_rules intro: store_step.RequestRecovery)
  subgoal unfolding admin_mail_test_def by (auto intro!: conforms_rules intro: store_step.QueueReport)
  done

lemma admin_conforms: "conforms E c (serveAdmin E method peer route now c)"
  by (cases route) (simp_all add: serveAdmin_def admin_command_conforms)

lemma confirm_conforms: "conforms E c (maintenance_confirm E F b now d c)"
  unfolding maintenance_confirm_def
proof (rule conforms_body)
  fix x assume "b = Inr x"
  obtain i ticket fin detail own g where x: "x = (i, ticket, fin, detail, own, g)" by (metis prod_cases6)
  have "conforms E c (answering 409 200 (saying ''confirmed'') (ConfirmOperation E i ticket fin detail (the_lease own g) now) c)"
    by (rule conforms_answer) (auto intro: store_step.ConfirmOperation)
  then show "conforms E c ((\<lambda>(i, ticket, physicalDone, detail, own, generation) c.
      case (if physicalDone then verifyCompletedOperation E F i d c else None) of
        Some e \<Rightarrow> (ErrorReply 409 (''verifica fisica della conferma fallita: '' @ error_text e), c)
      | None \<Rightarrow> answering 409 200 (saying ''confirmed'')
          (ConfirmOperation E i ticket physicalDone detail (the_lease own generation) now) c) x c)"
    by (auto simp: x split: option.split)
qed

lemma command_conforms:
  "conforms E c (maintenance_check_start now c)"
  "conforms E c (maintenance_check_plan E b1 now c)"
  "conforms E c (maintenance_check_complete E b2 now c)"
  "conforms E c (maintenance_check_fail b3 now c)"
  "conforms E c (maintenance_lease b4 now c)"
  "conforms E c (maintenance_release b5 c)"
  "conforms E c (maintenance_authorize E tk b6 now c)"
  "conforms E c (maintenance_validate E b7 now c)"
  "conforms E c (maintenance_clear_block b8 now c)"
  "conforms E c (maintenance_purge E b9 now c)"
  "conforms E c (maintenance_quarantine E b10 now c)"
  "conforms E c (maintenance_open E b11 now c)"
  "conforms E c (maintenance_resolve b12 now c)"
  "conforms E c (maintenance_save_model b13 now c)"
  "conforms E c (maintenance_state b14 now c)"
  "conforms E c (maintenance_report b15 now c)"
  "conforms E c (maintenance_mail_confirm b16 now c)"
  subgoal unfolding maintenance_check_start_def by (rule conforms_answer) (auto intro: store_step.StartCheck)
  subgoal unfolding maintenance_check_plan_def by (intro conforms_body) (auto intro!: conforms_answer intro: store_step.PlanCheck)
  subgoal unfolding maintenance_check_complete_def by (intro conforms_body) (auto intro!: conforms_answer intro: store_step.CompleteCheck split: option.split_asm if_split_asm)
  subgoal unfolding maintenance_check_fail_def by (intro conforms_body) (auto intro!: conforms_answer intro: store_step.FailCheck)
  subgoal unfolding maintenance_lease_def by (intro conforms_body) (auto intro!: conforms_answer intro: store_step.AcquireLease)
  subgoal unfolding maintenance_release_def by (intro conforms_body) (auto intro!: conforms_answer intro: store_step.ReleaseLease)
  subgoal unfolding maintenance_authorize_def by (intro conforms_body) (auto intro!: conforms_answer intro: store_step.AuthorizeOperation)
  subgoal unfolding maintenance_validate_def by (intro conforms_body) (auto intro!: conforms_answer intro: store_step.ValidateOperation)
  subgoal unfolding maintenance_clear_block_def by (intro conforms_body) (auto intro!: conforms_answer intro: store_step.TryClear)
  subgoal unfolding maintenance_purge_def by (intro conforms_body) (auto intro!: conforms_answer intro: store_step.RequestPurge split: option.split_asm if_split_asm)
  subgoal unfolding maintenance_quarantine_def by (intro conforms_body) (auto intro!: conforms_answer intro: store_step.RequestQuarantine split: option.split_asm if_split_asm)
  subgoal unfolding maintenance_open_def by (intro conforms_body) (auto intro!: conforms_answer intro: store_step.OpenAnomalyAt)
  subgoal unfolding maintenance_resolve_def by (intro conforms_body) (auto intro!: conforms_answer intro: store_step.ResolveAnomaly)
  subgoal unfolding maintenance_save_model_def by (intro conforms_body) (auto intro!: conforms_answer intro: store_step.SaveModel)
  subgoal unfolding maintenance_state_def by (intro conforms_body) (auto intro!: conforms_answer intro: store_step.SetCheckState split: option.split_asm if_split_asm)
  subgoal unfolding maintenance_report_def by (intro conforms_body) (auto intro!: conforms_answer intro: store_step.QueueReport store_step.QueuePeriodicReport split: option.split_asm if_split_asm)
  subgoal unfolding maintenance_mail_confirm_def by (intro conforms_body) (auto intro!: conforms_answer intro: store_step.ConfirmMail)
  done

lemma maintenance_conforms:
  assumes "\<And>b. route \<noteq> ReconcileRoute b"
  shows "conforms E c (serveMaintenance E newToken F method route now later d c)"
proof (cases "method = ''POST''")
  case True
  then show ?thesis
    using assms by (cases route) (simp_all add: serveMaintenance_def command_conforms confirm_conforms, blast)
qed (simp add: serveMaintenance_def)

text \<open>A reconciliation confirms, resets or, when the files decide nothing, opens an anomaly and fails.\<close>

lemma reconcileContext_cases:
  assumes "reconcileContext E F k now l d c = (r, c')"
  shows "(\<exists>o' b. Operation c k = Some o' \<and> op_state_of o' = Authorized \<and> find_backup c (op_backup_id o') = Some b
      \<and> ValidateMaintenanceLease l now c = Inr ()
      \<and> (r = Inr ''confirmed'' \<and> shows_done (op_kind_of o') (look E F b d) \<and> ReconcileAuthorized k now c = Inr ((), c')
         \<or> r = Inr (if op_execution_committed o' then ''resume'' else ''reset'') \<and> \<not> shows_done (op_kind_of o') (look E F b d)
            \<and> shows_untouched (op_kind_of o') (look E F b d) \<and> ResetAuthorized k now c = Inr ((), c')))
    \<or> (\<exists>e. r = Inl e) \<and> (c' = c \<or> store_step E c c')"
proof (cases "\<exists>e. r = Inl e")
  case True
  then show ?thesis
    using assms by (auto simp: reconcileContext_def Let_def OpenAnomaly_def split: option.splits if_splits sum.splits intro: store_step.OpenAnomalyAt)
next
  case False
  then obtain m where m: "r = Inr m" by (cases r) auto
  note h = assms [unfolded m reconcileContext_def]
  from h obtain o' where o: "Operation c k = Some o'" by (cases "Operation c k") auto
  from h o have st: "op_state_of o' = Authorized" by (auto split: if_splits)
  from h o st obtain b where b: "find_backup c (op_backup_id o') = Some b" by (cases "find_backup c (op_backup_id o')") auto
  from h o st b have l: "ValidateMaintenanceLease l now c = Inr ()"
    by (cases "ValidateMaintenanceLease l now c") (auto split: if_splits)
  let ?fin = "shows_done (op_kind_of o') (look E F b d)" and ?un = "shows_untouched (op_kind_of o') (look E F b d)"
  from h o st b l have "?fin \<and> m = ''confirmed'' \<and> ReconcileAuthorized k now c = Inr ((), c')
    \<or> \<not> ?fin \<and> ?un \<and> m = (if op_execution_committed o' then ''resume'' else ''reset'') \<and> ResetAuthorized k now c = Inr ((), c')"
    by (simp add: Let_def split: if_splits sum.splits prod.splits)
  then show ?thesis using o st b l m by blast
qed

lemma reconcile_conforms:
  assumes "maintenance_reconcile E F b now later d c = (r, c')"
  shows "(case r of ErrorReply code _ \<Rightarrow> 400 \<le> code \<and> (c' = c \<or> store_step E c c') | Reply code _ \<Rightarrow> code < 300 \<and> store_step E c c')"
proof (cases "\<exists>i own g. b = Inr (i, own, g) \<and> ValidateMaintenanceLease (the_lease own g) now c = Inr ()")
  case False
  then show ?thesis using assms by (auto simp: maintenance_reconcile_def with_body_def split: sum.splits prod.splits)
next
  case True
  then obtain i own g where b: "b = Inr (i, own, g)" "ValidateMaintenanceLease (the_lease own g) now c = Inr ()" by blast
  obtain x c1 where x: "reconcileContext E F i later (the_lease own g) d c = (x, c1)" by (metis prod.collapse)
  have c1: "c' = c1" "r = (case x of Inl e \<Rightarrow> ErrorReply 409 (error_text e) | Inr m \<Rightarrow> Reply 200 (Said m))"
    using assms b x by (auto simp: maintenance_reconcile_def with_body_def split: sum.splits)
  show ?thesis using reconcileContext_cases [OF x] c1 by (auto intro: store_step.ReconcileAuthorized store_step.ResetAuthorized)
qed


text \<open>Consent is enforced at the writer: a command of the administrator changes the catalogue only if it
  speaks this protocol, is a POST of a caller whose Unix identity is known, has a body that decodes, and, for the
  setup, the activation, the pause and the two ways to resume, carries exactly the phrase of that command.\<close>

theorem consent_required:
  assumes "handler E protocol method (Admin peer route) now c = (reply, c')" "c' \<noteq> c"
  shows "protocol = ProtocolVersion \<and> method = ''POST'' \<and> peer
    \<and> (case route of
        AutomationSetup b \<Rightarrow> (\<exists>s tz mode. b = Inr (s, ConfirmAutomationSetup mode, tz, mode))
      | AutomationEnable b \<Rightarrow> b = Inr ''ABILITA''
      | RetentionPause b \<Rightarrow> (\<exists>reason. b = Inr (''SOSPENDI'', reason))
      | RetentionResume b \<Rightarrow> b = Inr ''RIPRENDI''
      | RetentionResumeWhenReady b \<Rightarrow> b = Inr ''PRENOTA''
      | UnknownAdmin p \<Rightarrow> False
      | _ \<Rightarrow> True)"
proof -
  have served: "protocol = ProtocolVersion" "method = ''POST''" "peer" "serveAdmin E method peer route now c = (reply, c')"
    using assms by (auto simp: handler_def serveAdmin_def split: if_splits)
  moreover have body: "\<exists>x. b = Inr x \<and> f x c = (reply, c')" if "with_body b f c = (reply, c')" for b :: "'b body" and f
    using that assms(2) by (auto simp: with_body_def split: sum.splits)
  moreover have phrase: "provided = expected" if "requireAdminConfirmation provided expected h c = (reply, c')" for provided expected h
    using that assms(2) by (auto simp: requireAdminConfirmation_def split: if_splits)
  ultimately show ?thesis
    using assms(2) by (cases route)
      (auto simp: serveAdmin_def admin_setup_def admin_enable_def admin_pause_def admin_resume_def admin_resume_when_ready_def
        ConfirmRetentionEnable_def ConfirmRetentionPause_def ConfirmRetentionResume_def ConfirmRetentionResumeWhenReady_def
        with_body_def dest!: phrase split: sum.splits)
qed

end
