(* ===== verification/Maintenance.thy ===== *)
theory Maintenance
  imports Local_Api
begin

text \<open>
  The physical side of retention, internal/maintenance/service.go: processOperations takes the operations of
  its snapshot one by one, renews its lease, gets an authorization, verifies the file, asks for the final
  permission, verifies again and moves or deletes the file, and reports the result. Every call takes its
  outcome as an argument, and nothing is assumed of the snapshot. The lock of execution_lock.go lets one such
  cycle run at a time; the kernel releases it when the process ends. The ticket file is never read back, so
  saving and clearing it only succeed or fail.
\<close>

subsection \<open>Places of an operation\<close>

definition source_of :: "op_kind \<Rightarrow> string \<Rightarrow> place" where
  "source_of k i = (if k = Quarantine then final i else quarantine i)"

definition target_of :: "op_kind \<Rightarrow> string \<Rightarrow> place" where
  "target_of k i = (if k = Quarantine then quarantine i else final i)"

subsection \<open>Verification\<close>

definition source_wrong :: string where "source_wrong = ''file sorgente assente, simbolico o con identita errata''"
definition target_present :: string where "target_present = ''collisione: file destinazione gia presente''"

fun io_text :: "io_error \<Rightarrow> string" where
  "io_text (IOError m) = m"
| "io_text ENOENT = ''no such file or directory''"
| "io_text EEXIST = ''file exists''"
| "io_text ENOSPC = ''no space left on device''"
| "io_text EINVAL = ''invalid argument''"
| "io_text ENOSYS = ''function not implemented''"
| "io_text SqliteFull = ''database or disk is full''"

definition verifyExclusiveSource :: "env \<Rightarrow> io_error option \<Rightarrow> place \<Rightarrow> place \<Rightarrow> backup \<Rightarrow> disk \<Rightarrow> string option" where
  "verifyExclusiveSource E fault src dst b d =
     (if \<not> validBackupFile E fault src b d then Some (case fault of Some e \<Rightarrow> io_text e | None \<Rightarrow> source_wrong)
      else if Lstat dst d \<noteq> None then Some target_present else None)"

definition verifyExclusiveSourceIdentity :: "io_error option \<Rightarrow> place \<Rightarrow> place \<Rightarrow> backup \<Rightarrow> disk \<Rightarrow> string option" where
  "verifyExclusiveSourceIdentity fault src dst b d =
     (case (fault, Lstat src d) of
        (None, Some (Regular n)) \<Rightarrow>
          if int (length (content (inodes d ! n))) \<noteq> b_size b then Some source_wrong
          else if Lstat dst d \<noteq> None then Some target_present else None
      | _ \<Rightarrow> Some source_wrong)"

text \<open>The checks of unlinkVerifiedBefore up to its callback; a symbolic link is opened and then refused.\<close>

definition open_verified :: "env \<Rightarrow> io_error option \<Rightarrow> place \<Rightarrow> backup \<Rightarrow> disk \<Rightarrow> string + node" where
  "open_verified E fault p b d =
     (case Lstat p d of
        None \<Rightarrow> Inl (io_text ENOENT)
      | Some Symlink \<Rightarrow> Inl ''file sostituito durante la verifica''
      | Some Directory \<Rightarrow> Inl ''file da eliminare non valido''
      | Some (Regular n) \<Rightarrow> (let bytes = content (inodes d ! n) in
          if int (length bytes) \<noteq> b_size b then Inl ''file da eliminare non valido''
          else (case Verify E fault bytes (b_size b) (b_sha256 b) of Some m \<Rightarrow> Inl m | None \<Rightarrow> Inr (Regular n))))"

subsection \<open>Calls to the writer\<close>

text \<open>The client sees an answer, an error answer, or a failed transport after which the command may have been
  carried out or not.\<close>

definition call_api :: "outcome \<Rightarrow> handling \<Rightarrow> catalog \<Rightarrow> (string + answer) \<times> catalog" where
  "call_api out h c =
     (case out of
        Works \<Rightarrow> (case h c of (ErrorReply _ m, c') \<Rightarrow> (Inl m, c') | (Reply _ a, c') \<Rightarrow> (Inr a, c'))
      | Fails e \<Rightarrow> (Inl (io_text e), c)
      | Unconfirmed e \<Rightarrow> (Inl (io_text e), snd (h c)))"

definition maintenanceLeaseSeconds :: int where "maintenanceLeaseSeconds = 600"

definition renew :: "outcome \<Rightarrow> time \<Rightarrow> lease \<Rightarrow> catalog \<Rightarrow> (string + lease) \<times> catalog" where
  "renew out now l c =
     (case call_api out (maintenance_lease (Inr (l_owner l, l_generation l, maintenanceLeaseSeconds)) now) c of
        (Inl m, c') \<Rightarrow> (Inl (''rinnovo lease: '' @ m), c')
      | (Inr (ALease l'), c') \<Rightarrow>
          (if l_owner l' \<noteq> l_owner l \<or> l_generation l' \<noteq> l_generation l then Inl (error_text ErrLease) else Inr l', c')
      | (Inr _, c') \<Rightarrow> (Inl (error_text ErrLease), c'))"

subsection \<open>The cycle\<close>

record turn =
  tn_outcome :: outcome
  tn_now :: time
  tn_token :: "string res"
  tn_probes :: probes

definition begin_task :: "operation list \<Rightarrow> backup list \<Rightarrow> lease \<Rightarrow> operation \<Rightarrow> backup \<Rightarrow> task" where
  "begin_task ops bs l o' b = \<lparr>tk_todo = ops, tk_backups = bs, tk_lease = l, tk_op = o', tk_ticket = [], tk_backup = b,
     tk_node = None, tk_stage = NextOperation\<rparr>"

definition to_stage :: "stage \<Rightarrow> task \<Rightarrow> task" where "to_stage s t = t\<lparr>tk_stage := s\<rparr>"

definition give_up :: "failure \<Rightarrow> task \<Rightarrow> task" where "give_up f = to_stage (Returned (Some f))"

text \<open>An error of executeLeased is reported to the writer, unless the lease was lost.\<close>

definition report :: "string \<Rightarrow> task \<Rightarrow> task" where "report m = to_stage (Confirming (Some (Failure m)))"

definition snapshot_backup :: "string \<Rightarrow> backup list \<Rightarrow> backup option" where
  "snapshot_backup i bs = List.find (\<lambda>b. b_id b = i) (rev bs)"

definition to_do :: "operation \<Rightarrow> bool" where
  "to_do o' \<longleftrightarrow> op_state_of o' = Requested \<or> op_state_of o' = Authorized \<and> op_execution_committed o'"

text \<open>The checkpoint: an operation whose execution was committed needs no new permission.\<close>

definition checkpoint :: "task \<Rightarrow> task" where
  "checkpoint t = to_stage (if op_execution_committed (tk_op t) then Rechecking else RenewingAgain) t"

text \<open>The calls to the writer of one cycle.\<close>

definition talk :: "env \<Rightarrow> turn \<Rightarrow> task \<Rightarrow> disk \<Rightarrow> catalog \<Rightarrow> task \<times> catalog" where
  "talk E n t d c =
     (let l = tk_lease t; o' = tk_op t; own = l_owner l; g = l_generation l in
      case tk_stage t of
        Renewing \<Rightarrow> (case renew (tn_outcome n) (tn_now n) l c of
            (Inl m, c') \<Rightarrow> (give_up (LeaseLost m) t, c')
          | (Inr l', c') \<Rightarrow> (to_stage Authorizing (t\<lparr>tk_lease := l'\<rparr>), c'))
      | Authorizing \<Rightarrow>
          (case call_api (tn_outcome n) (maintenance_authorize E (tn_token n) (Inr (op_id o', own, g)) (tn_now n)) c of
            (Inl m, c') \<Rightarrow> (if op_execution_committed o' then give_up (Failure m) t else to_stage NextOperation t, c')
          | (Inr (ATicket a ticket), c') \<Rightarrow>
              (case snapshot_backup (op_backup_id o') (tk_backups t) of
                 None \<Rightarrow> (give_up (Failure ''operazione riferita a backup assente dallo snapshot'') t, c')
               | Some b \<Rightarrow> (to_stage SavingTicket (t\<lparr>tk_op := a, tk_ticket := ticket, tk_backup := b\<rparr>), c'))
          | (Inr _, c') \<Rightarrow> (give_up (Failure ''risposta non valida'') t, c'))
      | RenewingAgain \<Rightarrow> (case renew (tn_outcome n) (tn_now n) l c of
            (Inl m, c') \<Rightarrow> (give_up (LeaseLost m) t, c')
          | (Inr l', c') \<Rightarrow> (to_stage Validating (t\<lparr>tk_lease := l'\<rparr>), c'))
      | Validating \<Rightarrow>
          (case call_api (tn_outcome n) (maintenance_validate E (Inr (op_id o', tk_ticket t, own, g)) (tn_now n)) c of
            (Inl m, c') \<Rightarrow> (give_up (LeaseLost m) t, c')
          | (Inr _, c') \<Rightarrow> (to_stage Rechecking t, c'))
      | Confirming f \<Rightarrow>
          (case call_api (tn_outcome n) (maintenance_confirm E (tn_probes n)
                 (Inr (op_id o', tk_ticket t, f = None, (case f of None \<Rightarrow> [] | Some (Failure m) \<Rightarrow> m | Some (LeaseLost m) \<Rightarrow> m), own, g))
                 (tn_now n) d) c of
            (Inl m, c') \<Rightarrow> (give_up (Failure m) t, c')
          | (Inr _, c') \<Rightarrow> (to_stage (case f of None \<Rightarrow> ClearingTicket | Some e \<Rightarrow> Returned (Some e)) t, c'))
      | _ \<Rightarrow> (t, c))"

text \<open>The local calls: what executeLeased does to the files.\<close>

definition touch :: "env \<Rightarrow> turn \<Rightarrow> task \<Rightarrow> disk \<Rightarrow> task \<times> disk" where
  "touch E n t d =
     (let o' = tk_op t; b = tk_backup t; k = op_kind_of o'; i = b_id b; src = source_of k i; dst = target_of k i;
          fault = io_fault (tn_outcome n);
          attempt = (\<lambda>result s. (case fault of Some e \<Rightarrow> (report (io_text e) t, d)
             | None \<Rightarrow> (case result of Inl e \<Rightarrow> (report (io_text e) t, d) | Inr d' \<Rightarrow> (to_stage s t, d'))))
      in case tk_stage t of
        NextOperation \<Rightarrow>
          (case tk_todo t of [] \<Rightarrow> (to_stage (Returned None) t, d)
           | x # rest \<Rightarrow> (if to_do x then to_stage Renewing (t\<lparr>tk_todo := rest, tk_op := x\<rparr>) else t\<lparr>tk_todo := rest\<rparr>, d))
      | SavingTicket \<Rightarrow> (case fault of Some e \<Rightarrow> (give_up (Failure (io_text e)) t, d) | None \<Rightarrow> (to_stage Verifying t, d))
      | Verifying \<Rightarrow>
          (if \<not> ValidID i \<or> op_backup_id o' \<noteq> i then (report ''identita backup non valida'' t, d)
           else if k = Cancel then (report ''tipo operazione fisica non valido'' t, d)
           else (case verifyExclusiveSource E fault src dst b d of
               Some m \<Rightarrow> (report m t, d)
             | None \<Rightarrow> (if k = Purge then to_stage Opening t else checkpoint t, d)))
      | Opening \<Rightarrow>
          (case open_verified E fault src b d of Inl m \<Rightarrow> (report m t, d) | Inr x \<Rightarrow> (checkpoint (t\<lparr>tk_node := Some x\<rparr>), d))
      | Rechecking \<Rightarrow>
          (if k = Purge
           then (if fault = None \<and> tk_node t \<noteq> None \<and> Lstat src d = tk_node t then (to_stage Removing t, d)
                 else (report ''file sostituito dopo la verifica'' t, d))
           else (case verifyExclusiveSourceIdentity fault src dst b d of Some m \<Rightarrow> (report m t, d) | None \<Rightarrow> (to_stage Renaming t, d)))
      | Renaming \<Rightarrow>
          (if fault = Some ENOSYS \<or> fault = Some EINVAL then (to_stage Linking t, d) else attempt (rename_noreplace src dst d) SyncingFirst)
      | Linking \<Rightarrow> attempt (link_name src dst d) SyncingLink
      | SyncingLink \<Rightarrow> attempt (Inr (fsync_dir (fst dst) d)) RemovingSource
      | RemovingSource \<Rightarrow> attempt (remove_name src d) SyncingFirst
      | Removing \<Rightarrow> attempt (remove_name src d) SyncingFirst
      | SyncingFirst \<Rightarrow> attempt (Inr (fsync_dir (fst src) d)) (if k = Purge then Confirming None else SyncingSecond)
      | SyncingSecond \<Rightarrow> attempt (Inr (fsync_dir (fst dst) d)) (Confirming None)
      | ClearingTicket \<Rightarrow> (case fault of Some e \<Rightarrow> (give_up (Failure (io_text e)) t, d) | None \<Rightarrow> (to_stage NextOperation t, d))
      | _ \<Rightarrow> (t, d))"

definition talks :: "stage \<Rightarrow> bool" where
  "talks s \<longleftrightarrow> (case s of Renewing \<Rightarrow> True | Authorizing \<Rightarrow> True | RenewingAgain \<Rightarrow> True | Validating \<Rightarrow> True | Confirming _ \<Rightarrow> True | _ \<Rightarrow> False)"

definition processOperations :: "env \<Rightarrow> turn \<Rightarrow> task \<Rightarrow> world \<Rightarrow> world" where
  "processOperations E n t w =
     (if talks (tk_stage t) then (case talk E n t (disk_of w) (cat w) of (t', c') \<Rightarrow> w\<lparr>cat := c', task_of := Some t'\<rparr>)
      else (case touch E n t (disk_of w) of (t', d') \<Rightarrow> w\<lparr>disk_of := d', task_of := Some t'\<rparr>))"

end
