(* ===== verification/Policy_Forecast.thy ===== *)
theory Policy_Forecast
  imports Policy_Match
begin

text \<open>
  The forecasts of internal/policy: the size of one expected copy (forecastSize), the largest volume
  of a rolling 48-hour window (Forecast48Hours) and the next pending copy of a key
  (ForecastNextBackup). Sizes are computed in float64 and summed in 64-bit words with the source's
  overflow checks.
\<close>

definition ForecastSafetyMargin :: f64 where "ForecastSafetyMargin = f_0_2"

definition hours48 :: int where "hours48 = 48 * hour_ns"
definition days7 :: int where "days7 = 7 * 24 * hour_ns"

definition invalid_appointment :: "appointment \<Rightarrow> bool" where
  "invalid_appointment app \<longleftrightarrow> MinuteOfDay app < 0 \<or> MinuteOfDay app \<ge> 24 * 60 \<or> MedianSize app \<le> 0
     \<or> f_lt (GrowthPerDay app) (Fin 0)"

definition forecastSize :: "key_model \<Rightarrow> appointment \<Rightarrow> time \<Rightarrow> f64 \<Rightarrow> u64 res" where
  "forecastSize learned app at_time margin =
     (if invalid_appointment app then Inl (ErrMsg ''modello di previsione non valido'')
      else (let days = days_since at_time (km_learned_at learned);
                projected = f_add (f_of_int (MedianSize app)) (f_mul (GrowthPerDay app) days);
                sz = f_ceil (f_mul projected (f_add (Fin 1) margin))
            in case sz of
                 Fin q \<Rightarrow> if f_le projected (Fin 0) \<or> q \<ge> 2 ^ 64
                          then Inl (ErrMsg ''previsione spazio non rappresentabile'')
                          else Inr (word_of_int \<lfloor>q\<rfloor>)
               | _ \<Rightarrow> Inl (ErrMsg ''previsione spazio non rappresentabile'')))"

type_synonym event = "time \<times> u64"

fun app_events :: "key_model \<Rightarrow> location \<Rightarrow> time \<Rightarrow> time \<Rightarrow> time \<Rightarrow> appointment list \<Rightarrow> event list res" where
  "app_events learned loc now eventLimit day [] = Inr []"
| "app_events learned loc now eventLimit day (app # apps) =
     (if invalid_appointment app then Inl (ErrMsg ''modello di previsione non valido'')
      else (let t = appointmentTime day (MinuteOfDay app) loc in
        if t < now \<or> \<not> t < eventLimit then app_events learned loc now eventLimit day apps
        else (case forecastSize learned app t ForecastSafetyMargin of
            Inl e \<Rightarrow> Inl e
          | Inr sz \<Rightarrow> (case app_events learned loc now eventLimit day apps of
                Inl e \<Rightarrow> Inl e | Inr es \<Rightarrow> Inr ((t, sz) # es)))))"

fun day_events :: "key_model \<Rightarrow> location \<Rightarrow> time \<Rightarrow> time \<Rightarrow> time list \<Rightarrow> event list res" where
  "day_events learned loc now eventLimit [] = Inr []"
| "day_events learned loc now eventLimit (day # days) =
     (case app_events learned loc now eventLimit day (km_schedule learned (Weekday loc day)) of
        Inl e \<Rightarrow> Inl e
      | Inr es \<Rightarrow> (case day_events learned loc now eventLimit days of
            Inl e \<Rightarrow> Inl e | Inr es' \<Rightarrow> Inr (es @ es')))"

fun model_events :: "tzdb \<Rightarrow> time \<Rightarrow> time \<Rightarrow> key_model list \<Rightarrow> event list res" where
  "model_events LoadLocation now eventLimit [] = Inr []"
| "model_events LoadLocation now eventLimit (m # ms) =
     (if \<not> km_reliable m \<or> km_review m then model_events LoadLocation now eventLimit ms
      else (case LoadLocation (km_timezone m) of
          None \<Rightarrow> Inl (ErrMsg ''fuso non valido'')
        | Some loc \<Rightarrow>
            (case day_events m loc now eventLimit (days_between loc (localMidnight now loc) eventLimit) of
               Inl e \<Rightarrow> Inl e
             | Inr es \<Rightarrow> (case model_events LoadLocation now eventLimit ms of
                   Inl e \<Rightarrow> Inl e | Inr es' \<Rightarrow> Inr (es @ es')))))"

definition in_window :: "time \<Rightarrow> event \<Rightarrow> bool" where
  "in_window start e \<longleftrightarrow> \<not> (fst e < start \<or> \<not> fst e < start + hours48)"

fun window_sum :: "time \<Rightarrow> event list \<Rightarrow> u64 \<Rightarrow> u64 res" where
  "window_sum start [] s = Inr s"
| "window_sum start (e # es) s =
     (if \<not> in_window start e then window_sum start es s
      else if MaxUint64 - s < snd e then Inl (ErrMsg ''previsione spazio non rappresentabile'')
      else window_sum start es (s + snd e))"

fun largest_window :: "event list \<Rightarrow> time list \<Rightarrow> u64 \<Rightarrow> u64 res" where
  "largest_window es [] largest = Inr largest"
| "largest_window es (start # starts) largest =
     (case window_sum start es 0 of
        Inl e \<Rightarrow> Inl e
      | Inr s \<Rightarrow> largest_window es starts (if s > largest then s else largest))"

definition Forecast48Hours :: "tzdb \<Rightarrow> key_model list \<Rightarrow> time \<Rightarrow> u64 res" where
  "Forecast48Hours LoadLocation models now =
     (let windowStartLimit = now + days7; eventLimit = windowStartLimit + hours48 in
      case model_events LoadLocation now eventLimit models of
        Inl e \<Rightarrow> Inl e
      | Inr evs \<Rightarrow>
          (let events = sort_key fst evs;
               starts = now # map fst (filter (\<lambda>e. fst e < windowStartLimit) events)
           in largest_window events starts 0))"

subsection \<open>The next copy of a key\<close>

record next_state =
  ns_satisfied :: "time \<times> appointment \<Rightarrow> int"
  ns_next :: time
  ns_size :: u64
  ns_pending :: u64

fun next_apps :: "key_model \<Rightarrow> location \<Rightarrow> time \<Rightarrow> time \<Rightarrow> appointment list \<Rightarrow> next_state \<Rightarrow> next_state res" where
  "next_apps learned loc now day [] st = Inr st"
| "next_apps learned loc now day (app # apps) st =
     (let t = appointmentTime day (MinuteOfDay app) loc in
      if t + ScheduleTolerance < now then next_apps learned loc now day apps st
      else if ns_satisfied st (t, app) > 0
      then next_apps learned loc now day apps
             (st\<lparr>ns_satisfied := (ns_satisfied st)((t, app) := ns_satisfied st (t, app) - 1)\<rparr>)
      else (case forecastSize learned app t (Fin 0) of
          Inl e \<Rightarrow> Inl e
        | Inr projected \<Rightarrow>
            if \<not> t > now
            then next_apps learned loc now day apps (st\<lparr>ns_pending := max (ns_pending st) projected\<rparr>)
            else if ns_next st = zero_time \<or> t < ns_next st
            then next_apps learned loc now day apps (st\<lparr>ns_next := t, ns_size := projected\<rparr>)
            else if t = ns_next st \<and> projected > ns_size st
            then next_apps learned loc now day apps (st\<lparr>ns_size := projected\<rparr>)
            else next_apps learned loc now day apps st))"

fun next_days :: "key_model \<Rightarrow> location \<Rightarrow> time \<Rightarrow> time list \<Rightarrow> next_state \<Rightarrow> next_state res" where
  "next_days learned loc now [] st = Inr st"
| "next_days learned loc now (day # days) st =
     (case next_apps learned loc now day (km_schedule learned (Weekday loc day)) st of
        Inl e \<Rightarrow> Inl e | Inr st' \<Rightarrow> next_days learned loc now days st')"

fun satisfied_slots :: "(check_slot \<times> int) list \<Rightarrow> time \<times> appointment \<Rightarrow> int" where
  "satisfied_slots [] = (\<lambda>_. 0)"
| "satisfied_slots ((s, k) # xs) = (let m = satisfied_slots xs in
     if k \<ge> 0 then m((cs_at s, cs_app s) := m (cs_at s, cs_app s) + 1) else m)"

definition ForecastNextBackup :: "tzdb \<Rightarrow> key_model \<Rightarrow> time \<Rightarrow> observation list \<Rightarrow> u64 res" where
  "ForecastNextBackup LoadLocation learned now observations =
     (if \<not> km_reliable learned \<or> km_review learned then Inr 0
      else (case LoadLocation (km_timezone learned) of
          None \<Rightarrow> Inl (ErrMsg ''fuso non valido'')
        | Some loc \<Rightarrow>
            (let (slots, _, _, matches) =
                   matchAppointments learned observations (now - ScheduleTolerance) (now + ScheduleTolerance) now loc;
                 first = localMidnight (now - ScheduleTolerance) loc;
                 days = map (\<lambda>i. AddDate loc first (int i)) [0..<9]
             in case next_days learned loc now days
                   \<lparr>ns_satisfied = satisfied_slots (zip slots matches), ns_next = zero_time, ns_size = 0, ns_pending = 0\<rparr> of
                  Inl e \<Rightarrow> Inl e
                | Inr st \<Rightarrow> Inr (max (ns_size st) (ns_pending st)))))"

subsection \<open>Window sums are exact\<close>

definition exact_window :: "event list \<Rightarrow> time \<Rightarrow> int" where
  "exact_window es start = sum_where (in_window start) (\<lambda>e. uint (snd e)) es"

lemma window_sum_exact:
  "window_sum start es s = Inr r \<Longrightarrow> uint r = uint s + exact_window es start"
proof (induction es arbitrary: s)
  case (Cons e es)
  show ?case
  proof (cases "in_window start e")
    case True
    then have ok: "\<not> MaxUint64 - s < snd e" and rec: "window_sum start es (s + snd e) = Inr r"
      using Cons.prems by (auto split: if_splits)
    have "uint (MaxUint64 - s) = 2 ^ 64 - 1 - uint s"
      using uint_le_max [of s] by (subst uint_sub_lem [THEN iffD1]) simp_all
    then have "uint s + uint (snd e) < 2 ^ 64" using ok by (simp add: word_less_def)
    then have "uint (s + snd e) = uint s + uint (snd e)" by (subst uint_add_lem [THEN iffD1]) simp_all
    then show ?thesis using Cons.IH [OF rec] True by (simp add: exact_window_def)
  qed (use Cons in \<open>simp add: exact_window_def\<close>)
qed (simp add: exact_window_def)

lemma largest_window_spec:
  assumes "largest_window es starts l = Inr w"
  shows "uint l \<le> uint w" "s \<in> set starts \<Longrightarrow> exact_window es s \<le> uint w"
    "w = l \<or> (\<exists>s \<in> set starts. exact_window es s = uint w)"
  using assms
proof (induction starts arbitrary: l)
  case (Cons t starts)
  {
    case 1
    then obtain r where "largest_window es starts (if r > l then r else l) = Inr w" by (auto split: sum.splits)
    from Cons.IH(1) [OF this] show ?case by (auto simp: word_less_def split: if_splits)
  next
    case 2
    then obtain r where r: "window_sum t es 0 = Inr r" "largest_window es starts (if r > l then r else l) = Inr w"
      by (auto split: sum.splits)
    then show ?case
      using Cons.IH(1) [OF r(2)] Cons.IH(2) [OF _ r(2)] 2 window_sum_exact [OF r(1)]
      by (auto simp: word_less_def split: if_splits)
  next
    case 3
    then obtain r where r: "window_sum t es 0 = Inr r" "largest_window es starts (if r > l then r else l) = Inr w"
      by (auto split: sum.splits)
    then show ?case
      using Cons.IH(3) [OF r(2)] window_sum_exact [OF r(1)] by (auto split: if_splits)
  }
qed auto

text \<open>A window that holds an event before the start limit is dominated by the window that starts at its
  first event.\<close>

lemma exact_window_le:
  assumes "s \<le> s'" "\<And>e. e \<in> set es \<Longrightarrow> in_window s e \<Longrightarrow> s' \<le> fst e"
  shows "exact_window es s \<le> exact_window es s'"
  using assms(2)
proof (induction es)
  case (Cons e es)
  have "in_window s e \<Longrightarrow> in_window s' e" using assms(1) Cons.prems [of e] by (auto simp: in_window_def)
  moreover have "exact_window es s \<le> exact_window es s'" using Cons by simp
  ultimately show ?case using uint_ge_0 [of "snd e"] unfolding exact_window_def sum_where_Cons by (smt (verit))
qed (simp add: exact_window_def)

lemma exact_window_nonneg: "0 \<le> exact_window es s"
  by (simp add: exact_window_def sum_where_nonneg)

lemma exact_window_sort: "exact_window (sort_key f es) s = exact_window es s"
proof -
  have "mset (sort_key f es) = mset es" by simp
  then have "mset (map (\<lambda>e. uint (snd e)) (filter (in_window s) (sort_key f es)))
      = mset (map (\<lambda>e. uint (snd e)) (filter (in_window s) es))" by simp
  then show ?thesis unfolding exact_window_def sum_where_def by (metis sum_mset_sum_list)
qed

text \<open>The events a forecast is about.\<close>

definition forecast_events :: "tzdb \<Rightarrow> key_model list \<Rightarrow> time \<Rightarrow> event list res" where
  "forecast_events LoadLocation models now = model_events LoadLocation now (now + days7 + hours48) models"

lemma app_events_times:
  "app_events learned loc now until day apps = Inr es \<Longrightarrow> e \<in> set es \<Longrightarrow> now \<le> fst e \<and> fst e < until"
  by (induction apps arbitrary: es) (force simp: Let_def split: if_splits sum.splits)+

lemma day_events_times:
  "day_events learned loc now until days = Inr es \<Longrightarrow> e \<in> set es \<Longrightarrow> now \<le> fst e \<and> fst e < until"
  by (induction days arbitrary: es) (auto dest: app_events_times split: sum.splits)

lemma model_events_times:
  "model_events LoadLocation now until models = Inr es \<Longrightarrow> e \<in> set es \<Longrightarrow> now \<le> fst e \<and> fst e < until"
  by (induction models arbitrary: es) (auto dest: day_events_times split: if_splits sum.splits option.splits)

lemma Forecast48HoursE:
  assumes "Forecast48Hours LoadLocation models now = Inr w"
  obtains evs where "forecast_events LoadLocation models now = Inr evs"
    "largest_window (sort_key fst evs)
       (now # map fst (filter (\<lambda>e. fst e < now + days7) (sort_key fst evs))) 0 = Inr w"
  using assms by (auto simp: Forecast48Hours_def forecast_events_def Let_def split: sum.splits)


subsection \<open>A window the forecast does not look at\<close>

text \<open>A weekly copy at midnight that grows by 100 bytes a day, seen at its appointment.\<close>

definition weekly_app :: appointment where
  "weekly_app = \<lparr>MinuteOfDay = 0, MedianSize = 100, GrowthPerDay = Fin 100, MedianResidual = Fin 0\<rparr>"

definition weekly_model :: key_model where
  "weekly_model = \<lparr>km_key_id = ''k'', km_timezone = ''UTC'', km_learned_at = 0,
     km_schedule = (\<lambda>d. if d = 4 then [weekly_app] else []), km_reliable = True, km_review = False, km_reason = []\<rparr>"

lemma weekly_events:
  "forecast_events (\<lambda>_. Some UTC) [weekly_model] 0 = Inr [(0, 120), (7 * 86400 * second, 960)]"
  by code_simp

lemma weekly_forecast: "Forecast48Hours (\<lambda>_. Some UTC) [weekly_model] 0 = Inr 120"
proof -
  have "model_events (\<lambda>_. Some UTC) 0 (0 + days7 + hours48) [weekly_model] = Inr [(0, 120), (7 * 86400 * second, 960)]"
    using weekly_events by (simp only: forecast_events_def)
  then show ?thesis
    unfolding Forecast48Hours_def Let_def
    by (simp only: sum.case) (simp add: in_window_def days7_def hours48_def hour_ns_def second_def MaxUint64_def)
qed


text \<open>The forecast is not the largest of all the windows that start within seven days: a window whose
  first copy falls after the seventh day is not examined. A weekly copy of 100 bytes that grows by 100
  bytes a day, observed at its appointment, is forecast at 120 bytes, while the window that starts on
  the sixth day holds 960.\<close>

theorem Forecast48Hours_late_window:
  "Forecast48Hours (\<lambda>_. Some UTC) [weekly_model] 0 = Inr 120
   \<and> (\<exists>evs s. forecast_events (\<lambda>_. Some UTC) [weekly_model] 0 = Inr evs \<and> 0 \<le> s \<and> s < 0 + days7
        \<and> exact_window evs s = 960)"
proof (intro conjI exI)
  show "exact_window [(0, 120), (7 * 86400 * second, 960)] (6 * 86400 * second) = 960"
    by (simp add: exact_window_def in_window_def hours48_def hour_ns_def second_def)
qed (simp_all add: weekly_forecast weekly_events days7_def hour_ns_def second_def)

end
