(* ===== verification/Float64_Order.thy ===== *)
theory Float64_Order
  imports Float64
begin

text \<open>
  The order of float64 values. It is the one sort.Float64s uses, with NaN first; rounding is shown to be
  monotone for it, which bounds every sum, product and quotient by exactly representable values.
\<close>

text \<open>math.Round rounds half away from zero.\<close>

fun f_round :: "f64 \<Rightarrow> f64" where
  "f_round (Fin q) = Fin (of_int (if 0 \<le> q then \<lfloor>q + 1 / 2\<rfloor> else - \<lfloor>1 / 2 - q\<rfloor>))"
| "f_round x = x"

text \<open>The order of sort.Float64s: NaN first.\<close>

fun f_rank :: "f64 \<Rightarrow> nat" where
  "f_rank NaN = 0" | "f_rank NInf = 1" | "f_rank (Fin q) = 2" | "f_rank PInf = 3"

fun f_value :: "f64 \<Rightarrow> rat" where
  "f_value (Fin q) = q" | "f_value x = 0"

instantiation f64 :: linorder
begin

definition less_eq_f64 :: "f64 \<Rightarrow> f64 \<Rightarrow> bool" where
  "less_eq_f64 a b \<longleftrightarrow> f_rank a < f_rank b \<or> f_rank a = f_rank b \<and> f_value a \<le> f_value b"

definition less_f64 :: "f64 \<Rightarrow> f64 \<Rightarrow> bool" where
  "less_f64 a b \<longleftrightarrow> f_rank a < f_rank b \<or> f_rank a = f_rank b \<and> f_value a < f_value b"

instance
proof
  fix a b :: f64
  show "a \<le> b \<Longrightarrow> b \<le> a \<Longrightarrow> a = b"
    by (cases a; cases b) (auto simp: less_eq_f64_def)
qed (auto simp: less_eq_f64_def less_f64_def)

end

subsection \<open>The binary logarithm\<close>

lemma pow2_powi: "pow2 k = 2 powi k"
  by (simp add: pow2_def power_int_def inverse_eq_divide power_divide)

lemma pow2_nonneg [simp]: "0 \<le> pow2 k" "pow2 k \<noteq> 0" "\<not> pow2 k \<le> 0"
  using pow2_pos [of k] by linarith+

lemma pow2_less: "a < b \<Longrightarrow> pow2 a < pow2 b"
  unfolding pow2_powi by (rule power_int_strict_increasing) simp_all

lemma pow2_less_iff [simp]: "pow2 a < pow2 b \<longleftrightarrow> a < b" "pow2 a \<le> pow2 b \<longleftrightarrow> a \<le> b"
  using pow2_less [of a b] pow2_less [of b a] by (cases a b rule: linorder_cases; simp)+

lemma pow2_divide: "pow2 a / pow2 b = pow2 (a - b)"
  by (simp add: pow2_powi power_int_diff)

lemma pow2_nat: "0 \<le> k \<Longrightarrow> pow2 k = of_int (2 ^ nat k)"
  by (simp add: pow2_def)

lemma int_bits_bounds: "0 < n \<Longrightarrow> 0 < int_bits n \<and> 2 ^ nat (int_bits n - 1) \<le> n \<and> n < 2 ^ nat (int_bits n)"
proof (induction n rule: int_bits.induct)
  case (1 n)
  have b: "int_bits n = 1 + int_bits (n div 2)" using 1 by (subst int_bits.simps) simp
  show ?case
  proof (cases "n = 1")
    case True
    then show ?thesis unfolding b by (simp add: int_bits.simps)
  next
    case False
    then have p: "0 < n div 2" using 1 by simp
    let ?k = "int_bits (n div 2)"
    have k: "0 < ?k" "2 ^ nat (?k - 1) \<le> n div 2" "n div 2 < 2 ^ nat ?k" using 1 p by simp_all
    have e: "nat (1 + ?k) = Suc (nat ?k)" "nat ?k = Suc (nat (?k - 1))" using k(1) by simp_all
    have "2 * 2 ^ nat (?k - 1) \<le> n" "n < 2 * 2 ^ nat ?k" using k(2,3) by linarith+
    then show ?thesis using k(1) unfolding b e(1) by (simp add: e(2))
  qed
qed

lemma ilog2_bounds:
  assumes "0 < q"
  shows "pow2 (ilog2 q) \<le> q \<and> q < pow2 (ilog2 q + 1)"
proof -
  obtain n d where nd: "quotient_of q = (n, d)" by (cases "quotient_of q")
  have d: "0 < d" using nd by (rule quotient_of_denom_pos)
  have q: "q = of_int n / of_int d" using nd by (rule quotient_of_div)
  have n: "0 < n" using assms d unfolding q by (simp add: zero_less_divide_iff)
  define a b where "a = int_bits n" and "b = int_bits d"
  have a: "0 < a" "pow2 (a - 1) \<le> of_int n" "of_int n < pow2 a"
    using int_bits_bounds [OF n] unfolding a_def by (simp_all add: pow2_nat of_int_less_iff of_int_le_iff del: of_int_power)
  have b: "0 < b" "pow2 (b - 1) \<le> of_int d" "of_int d < pow2 b"
    using int_bits_bounds [OF d] unfolding b_def by (simp_all add: pow2_nat of_int_less_iff of_int_le_iff del: of_int_power)
  have "q < pow2 a / pow2 (b - 1)" unfolding q using a b d n by (intro frac_less) simp_all
  then have hi: "q < pow2 (a - b + 1)" by (simp add: pow2_divide algebra_simps)
  have "pow2 (a - 1) / pow2 b < q" unfolding q using a b d n by (intro frac_less2) simp_all
  then have lo: "pow2 (a - b - 1) < q" by (simp add: pow2_divide algebra_simps)
  have "ilog2 q = (if pow2 (a - b) \<le> q then a - b else a - b - 1)" by (simp add: ilog2_def nd a_def b_def Let_def)
  then show ?thesis using lo hi by auto
qed

lemma ilog2_mono:
  assumes "0 < p" "p \<le> q"
  shows "ilog2 p \<le> ilog2 q"
proof -
  have "pow2 (ilog2 p) < pow2 (ilog2 q + 1)" using ilog2_bounds [of p] ilog2_bounds [of q] assms by linarith
  then show ?thesis by simp
qed

lemma ilog2_0 [simp]: "ilog2 0 = - 2"
  by (simp add: ilog2_def int_bits.simps Let_def)

subsection \<open>Rounding is monotone\<close>

definition ulp_exponent :: "rat \<Rightarrow> int" where "ulp_exponent a = max (ilog2 a - 52) (- 1074)"
definition significand :: "rat \<Rightarrow> rat" where "significand a = of_int (round_even (a / pow2 (ulp_exponent a))) * pow2 (ulp_exponent a)"

lemma rnd_pos: "0 < q \<Longrightarrow> rnd q = (if ilog2 (significand q) \<ge> 1024 then PInf else Fin (significand q))"
  by (simp add: rnd_def significand_def ulp_exponent_def Let_def)

lemma rnd_neg: "rnd (- q) = f_neg (rnd q)"
  by (simp add: rnd_def Let_def)

lemma round_even_le_pow2: "q \<le> pow2 k \<Longrightarrow> 0 \<le> k \<Longrightarrow> of_int (round_even q) \<le> pow2 k"
  using round_even_mono [of q "pow2 k"] by (simp add: pow2_nat del: of_int_power)

lemma round_even_ge_pow2: "pow2 k \<le> q \<Longrightarrow> 0 \<le> k \<Longrightarrow> pow2 k \<le> of_int (round_even q)"
  using round_even_mono [of "pow2 k" q] by (simp add: pow2_nat del: of_int_power)

lemma significand_mono:
  assumes "0 < p" "p \<le> q"
  shows "significand p \<le> significand q"
proof -
  let ?e = "ulp_exponent p" and ?f = "ulp_exponent q" and ?l = "ilog2 q"
  have ef: "?e \<le> ?f" using ilog2_mono [OF assms] by (simp add: ulp_exponent_def)
  show ?thesis
  proof (cases "?e = ?f")
    case True
    have "round_even (p / pow2 ?f) \<le> round_even (q / pow2 ?f)" using assms by (intro round_even_mono divide_right_mono) simp_all
    then show ?thesis unfolding significand_def True by (intro mult_right_mono) simp_all
  next
    case False
    then have f: "?f = ?l - 52" and l: "ilog2 p + 1 \<le> ?l" and k: "0 \<le> ?l - ?e" using ef by (auto simp: ulp_exponent_def)
    have "p < pow2 (ilog2 p + 1)" using ilog2_bounds assms by simp
    also have "\<dots> \<le> pow2 ?l" using l by simp
    finally have "p / pow2 ?e \<le> pow2 ?l / pow2 ?e" by (intro divide_right_mono) simp_all
    then have "of_int (round_even (p / pow2 ?e)) \<le> pow2 (?l - ?e)" using k by (intro round_even_le_pow2) (simp_all add: pow2_divide)
    then have "significand p \<le> pow2 (?l - ?e) * pow2 ?e" unfolding significand_def by (intro mult_right_mono) simp_all
    also have "\<dots> = pow2 ?l" by (simp add: pow2_divide [symmetric])
    also have "\<dots> = pow2 52 * pow2 ?f" by (simp add: f pow2_divide [symmetric])
    also have "\<dots> \<le> significand q"
    proof -
      have "pow2 ?l \<le> q" using ilog2_bounds [of q] assms by simp
      then have "pow2 ?l / pow2 ?f \<le> q / pow2 ?f" by (intro divide_right_mono) simp_all
      then have "pow2 52 \<le> q / pow2 ?f" unfolding pow2_divide by (simp add: f)
      then show ?thesis unfolding significand_def by (intro mult_right_mono round_even_ge_pow2) simp_all
    qed
    finally show ?thesis .
  qed
qed

lemma significand_nonneg: "0 < q \<Longrightarrow> 0 \<le> significand q"
  using round_even_mono [of 0 "q / pow2 (ulp_exponent q)"] round_even_int [of 0] by (simp add: significand_def zero_le_mult_iff)

lemma Fin_le [simp]: "Fin a \<le> Fin b \<longleftrightarrow> a \<le> b" "Fin a \<le> PInf" "NInf \<le> Fin a" "NInf \<le> PInf" "\<not> PInf \<le> Fin a" "\<not> Fin a \<le> NInf" "\<not> PInf \<le> NInf"
  by (simp_all add: less_eq_f64_def)

lemma rnd_mono_pos:
  assumes "0 < p" "p \<le> q"
  shows "rnd p \<le> rnd q"
proof -
  have s: "significand p \<le> significand q" by (rule significand_mono [OF assms])
  have "ilog2 (significand q) \<ge> 1024" if "ilog2 (significand p) \<ge> 1024"
  proof -
    have "0 < significand p" using that significand_nonneg [OF assms(1)] by (cases "significand p = 0") simp_all
    then show ?thesis using ilog2_mono [OF _ s] that by linarith
  qed
  then show ?thesis using assms s by (simp add: rnd_pos)
qed

lemma rnd_nonneg: "0 \<le> q \<Longrightarrow> Fin 0 \<le> rnd q"
  using significand_nonneg [of q] by (cases "q = 0") (simp_all add: rnd_pos)

lemma f_neg_mono: "a \<noteq> NaN \<Longrightarrow> b \<noteq> NaN \<Longrightarrow> a \<le> b \<Longrightarrow> f_neg b \<le> f_neg a"
  by (cases a; cases b) simp_all

lemma rnd_mono:
  assumes "p \<le> q"
  shows "rnd p \<le> rnd q"
proof (cases "0 < p")
  case True
  then show ?thesis using assms by (rule rnd_mono_pos)
next
  case False
  have low: "rnd p \<le> Fin 0" using f_neg_mono [OF _ _ rnd_nonneg [of "- p"]] False by (simp add: rnd_neg [symmetric])
  show ?thesis
  proof (cases "0 \<le> q")
    case True
    then show ?thesis using order_trans [OF low rnd_nonneg [of q]] by simp
  next
    case False
    then show ?thesis using f_neg_mono [OF _ _ rnd_mono_pos [of "- q" "- p"]] assms by (simp add: rnd_neg [symmetric])
  qed
qed

text \<open>Bounds by integers that are represented exactly.\<close>

lemma rnd_ge_int: "of_int i \<le> q \<Longrightarrow> \<bar>i\<bar> < 2 ^ 53 \<Longrightarrow> Fin (of_int i) \<le> rnd q"
  using rnd_mono [of "of_int i" q] by (simp add: rnd_int)

lemma rnd_le_int: "q \<le> of_int i \<Longrightarrow> \<bar>i\<bar> < 2 ^ 53 \<Longrightarrow> rnd q \<le> Fin (of_int i)"
  using rnd_mono [of q "of_int i"] by (simp add: rnd_int)

lemma between_Fin: "Fin a \<le> x \<Longrightarrow> x \<le> Fin b \<Longrightarrow> \<exists>r. x = Fin r \<and> a \<le> r \<and> r \<le> b"
  by (cases x) (simp_all add: less_eq_f64_def)

lemma rnd_between:
  assumes "of_int i \<le> q" "q \<le> of_int j" "\<bar>i\<bar> < 2 ^ 53" "\<bar>j\<bar> < 2 ^ 53"
  shows "\<exists>r. rnd q = Fin r \<and> of_int i \<le> r \<and> r \<le> of_int j"
  using between_Fin [OF rnd_ge_int [OF assms(1,3)] rnd_le_int [OF assms(2,4)]] .

end
