(* ===== verification/Policy_Learn.thy ===== *)
theory Policy_Learn
  imports Policy_Forecast Float64_Order
begin

text \<open>
  How a model is learned, Learn of internal/policy/policy.go: the copies of the last fourteen complete civil
  days decide whether a schedule exists, and the whole history of each weekday's i-th copy gives its size and
  growth. The trigonometric functions of package math are a parameter with their documented ranges, and so
  is what a conversion of a float64 outside the int64 range yields, which Go leaves to the machine. Shown: when
  exactly a model is reliable, what its schedule then holds, and what it depends on.
\<close>

subsection \<open>What Learn uses of package math and sort\<close>

record go_math =
  Cos :: "f64 \<Rightarrow> f64"
  Sin :: "f64 \<Rightarrow> f64"
  Atan2 :: "f64 \<Rightarrow> f64 \<Rightarrow> f64"
  OutOfRange :: "f64 \<Rightarrow> int"

text \<open>math.Pi rounded to a float64; doubling it is exact.\<close>

definition f_pi :: f64 where
  "f_pi = rnd (314159265358979323846264338327950288419716939937510582097494459 / 10 ^ 62)"

definition f_2pi :: f64 where "f_2pi = f_mul (Fin 2) f_pi"

text \<open>int64 of a float64 truncates.\<close>

fun to_int64 :: "go_math \<Rightarrow> f64 \<Rightarrow> int" where
  "to_int64 M (Fin q) = (let i = (if 0 \<le> q then \<lfloor>q\<rfloor> else \<lceil>q\<rceil>) in if - (2 ^ 63) \<le> i \<and> i < 2 ^ 63 then i else OutOfRange M (Fin q))"
| "to_int64 M x = OutOfRange M x"

definition medianFloat :: "f64 list \<Rightarrow> f64" where
  "medianFloat values =
     (if values = [] then Fin 0
      else (let v = sort values; n = length v; hi = v ! (n div 2) in
        if odd n then hi else (let lo = v ! (n div 2 - 1) in f_add lo (f_div (f_sub hi lo) (Fin 2)))))"

subsection \<open>Minutes of the day on the clock face\<close>

definition minute :: "location \<Rightarrow> time \<Rightarrow> int" where
  "minute loc t = second_of_day loc t div 60"

definition circularDistance :: "int \<Rightarrow> int \<Rightarrow> int" where
  "circularDistance a b = (let d = \<bar>a - b\<bar> in if d > 720 then 1440 - d else d)"

definition angle_of :: "int \<Rightarrow> f64" where
  "angle_of value = f_div (f_mul (f_mul (f_of_int value) (Fin 2)) f_pi) (Fin 1440)"

definition circularMean :: "go_math \<Rightarrow> int list \<Rightarrow> int" where
  "circularMean M values =
     (let x = foldl (\<lambda>s v. f_add s (Cos M (angle_of v))) (Fin 0) values;
          y = foldl (\<lambda>s v. f_add s (Sin M (angle_of v))) (Fin 0) values;
          a = Atan2 M y x;
          angle = (if f_lt a (Fin 0) then f_add a f_2pi else a)
      in go_rem (to_int64 M (f_round (f_div (f_mul angle (Fin 1440)) f_2pi))) 1440)"

subsection \<open>Size and growth of one appointment\<close>

fun slopes_from :: "observation \<Rightarrow> observation list \<Rightarrow> f64 list" where
  "slopes_from l [] = []"
| "slopes_from l (r # rs) = (let daysBetween = days_since (o_at r) (o_at l) in
     if f_lt (Fin 0) daysBetween then f_div (f_of_int (wrap64 (o_size r - o_size l))) daysBetween # slopes_from l rs
     else slopes_from l rs)"

fun slopes :: "observation list \<Rightarrow> f64 list" where
  "slopes [] = []"
| "slopes (l # rs) = slopes_from l rs @ slopes rs"

text \<open>\<open>grown\<close> is growth*now.Sub(at).Hours()/24.\<close>

definition grown :: "f64 \<Rightarrow> time \<Rightarrow> observation \<Rightarrow> f64" where
  "grown growth now ob = f_div (f_mul growth (Hours (time_Sub now (o_at ob)))) (Fin 24)"

definition baseline :: "f64 \<Rightarrow> time \<Rightarrow> observation list \<Rightarrow> f64" where
  "baseline growth now series = medianFloat (map (\<lambda>ob. f_add (f_of_int (o_size ob)) (grown growth now ob)) series)"

definition shrinking :: "observation list \<Rightarrow> bool" where
  "shrinking series \<longleftrightarrow> f_lt (medianFloat (slopes series)) (Fin 0)"

definition learned_appointment :: "go_math \<Rightarrow> time \<Rightarrow> int \<Rightarrow> observation list \<Rightarrow> appointment" where
  "learned_appointment M now central series =
     (let growth = (if shrinking series then Fin 0 else medianFloat (slopes series));
          base = baseline growth now series;
          residuals = map (\<lambda>ob. f_abs (f_sub (f_of_int (o_size ob)) (f_sub base (grown growth now ob)))) series
      in \<lparr>MinuteOfDay = central, MedianSize = to_int64 M (f_round base), GrowthPerDay = growth, MedianResidual = medianFloat residuals\<rparr>)"

subsection \<open>The history by day\<close>

text \<open>The copies of the key before today, in the order of the listing; a date stands for its text. Copies of one
  instant, which sort.Slice may order either way, keep that order.\<close>

definition history_of :: "string \<Rightarrow> time \<Rightarrow> observation list \<Rightarrow> observation list" where
  "history_of keyID today obs = filter (\<lambda>ob. o_key_id ob = keyID \<and> o_at ob < today \<and> o_size ob > 0) obs"

definition copies_on :: "location \<Rightarrow> int \<Rightarrow> observation list \<Rightarrow> observation list" where
  "copies_on loc date hist = sort_key o_at (filter (\<lambda>ob. civil_day loc (o_at ob) = date) hist)"

definition recent :: "time \<Rightarrow> observation list \<Rightarrow> observation list" where
  "recent start hist = filter (\<lambda>ob. \<not> o_at ob < start) hist"

definition dates_of :: "location \<Rightarrow> observation list \<Rightarrow> int list" where
  "dates_of loc hist = remdups (map (\<lambda>ob. civil_day loc (o_at ob)) hist)"

definition series_of :: "location \<Rightarrow> int \<Rightarrow> nat \<Rightarrow> observation list \<Rightarrow> observation list" where
  "series_of loc wd i hist =
     sort_key o_at (concat (map (\<lambda>date. let values = copies_on loc date hist in
       if Weekday loc (time_Date loc date 0 0) = wd \<and> i < length values then [values ! i] else []) (dates_of loc hist)))"

text \<open>The copies of the two instances of a weekday in the last fourteen days.\<close>

definition instance_days :: "location \<Rightarrow> int \<Rightarrow> time \<Rightarrow> time \<Rightarrow> time list" where
  "instance_days loc wd start today = filter (\<lambda>day. Weekday loc day = wd) (days_between loc start today)"

definition instance_copies :: "location \<Rightarrow> int \<Rightarrow> nat \<Rightarrow> time \<Rightarrow> time \<Rightarrow> observation list \<Rightarrow> observation list" where
  "instance_copies loc wd k start today hist =
     (let days = instance_days loc wd start today in
      if k < length days then copies_on loc (civil_day loc (days ! k)) (recent start hist) else [])"

subsection \<open>Learn\<close>

definition weekday_name :: "int \<Rightarrow> string" where
  "weekday_name wd = [''Sunday'', ''Monday'', ''Tuesday'', ''Wednesday'', ''Thursday'', ''Friday'', ''Saturday''] ! nat wd"

definition times_differ :: "location \<Rightarrow> observation \<Rightarrow> observation \<Rightarrow> bool" where
  "times_differ loc a b \<longleftrightarrow> circularDistance (minute loc (o_at a)) (minute loc (o_at b)) > go_div ScheduleTolerance minute_ns * 2"

text \<open>The loops return the model early (\<open>Inl\<close>) or go on with it (\<open>Inr\<close>).\<close>

fun learn_slots :: "go_math \<Rightarrow> location \<Rightarrow> time \<Rightarrow> observation list \<Rightarrow> int \<Rightarrow> nat \<Rightarrow> (observation \<times> observation) list \<Rightarrow> key_model
    \<Rightarrow> key_model + key_model" where
  "learn_slots M loc now hist wd i [] m = Inr m"
| "learn_slots M loc now hist wd i ((a, b) # ps) m =
     (if times_differ loc a b then Inl (m\<lparr>km_reason := ''orari non concordi per '' @ weekday_name wd\<rparr>)
      else (let series = series_of loc wd i hist;
                app = learned_appointment M now (circularMean M [minute loc (o_at a), minute loc (o_at b)]) series
            in learn_slots M loc now hist wd (Suc i) ps
                 (m\<lparr>km_schedule := (km_schedule m)(wd := km_schedule m wd @ [app]), km_review := km_review m \<or> shrinking series\<rparr>)))"

fun learn_weekdays :: "go_math \<Rightarrow> location \<Rightarrow> time \<Rightarrow> time \<Rightarrow> time \<Rightarrow> observation list \<Rightarrow> int list \<Rightarrow> key_model \<Rightarrow> key_model + key_model" where
  "learn_weekdays M loc now start today hist [] m = Inr m"
| "learn_weekdays M loc now start today hist (wd # wds) m =
     (let a = instance_copies loc wd 0 start today hist; b = instance_copies loc wd 1 start today hist in
      if length a \<noteq> length b then Inl (m\<lparr>km_reason := ''numero copie non concorde per '' @ weekday_name wd\<rparr>)
      else (case learn_slots M loc now hist wd 0 (zip a b) m of
          Inl m' \<Rightarrow> Inl m'
        | Inr m' \<Rightarrow> learn_weekdays M loc now start today hist wds m'))"

definition Learn :: "go_math \<Rightarrow> tzdb \<Rightarrow> string \<Rightarrow> string \<Rightarrow> observation list \<Rightarrow> time \<Rightarrow> key_model res" where
  "Learn M LoadLocation keyID timezone obs now =
     (case LoadLocation timezone of
        None \<Rightarrow> Inl (ErrMsg ''fuso non valido'')
      | Some loc \<Rightarrow>
          (let m = \<lparr>km_key_id = keyID, km_timezone = timezone, km_learned_at = now, km_schedule = (\<lambda>_. []), km_reliable = False,
                 km_review = False, km_reason = []\<rparr>;
               today = localMidnight now loc; start = AddDate loc today (- 14); hist = history_of keyID today obs
           in if recent start hist = [] then Inr (m\<lparr>km_reason := ''storico assente negli ultimi 14 giorni completi''\<rparr>)
              else (case learn_weekdays M loc now start today hist [0..6] m of
                  Inl m' \<Rightarrow> Inr m'
                | Inr m' \<Rightarrow> Inr (if km_review m' then m'\<lparr>km_reason := ''riduzione sistematica delle dimensioni da revisionare''\<rparr>
                    else m'\<lparr>km_reliable := True\<rparr>))))"

subsection \<open>Signs\<close>

text \<open>Values that are not below a bound, NaN included.\<close>

definition no_less :: "rat \<Rightarrow> f64 \<Rightarrow> bool" where "no_less a x \<longleftrightarrow> x = NaN \<or> Fin a \<le> x"

lemma no_less_simps [simp]: "no_less a NaN" "no_less a PInf" "no_less a (Fin q) \<longleftrightarrow> a \<le> q" "\<not> no_less a NInf"
  by (simp_all add: no_less_def)

lemma not_f_lt: "\<not> f_lt x (Fin a) \<longleftrightarrow> no_less a x"
  by (cases x) auto

lemma no_less_rnd: "of_int i \<le> q \<Longrightarrow> \<bar>i\<bar> < 2 ^ 53 \<Longrightarrow> no_less (of_int i) (rnd q)"
  using rnd_ge_int by (simp add: no_less_def)

lemmas no_less_rnd_0 = no_less_rnd [of 0, simplified] and no_less_rnd_1 = no_less_rnd [of 1, simplified]

lemma no_less_of_int: "0 \<le> i \<Longrightarrow> no_less 0 (f_of_int i)" "1 \<le> i \<Longrightarrow> no_less 1 (f_of_int i)"
  by (simp_all add: f_of_int_def no_less_rnd_0 no_less_rnd_1)

lemma no_less_add:
  assumes "no_less 0 y"
  shows "no_less 0 x \<Longrightarrow> no_less 0 (f_add x y)" "no_less 1 x \<Longrightarrow> no_less 1 (f_add x y)"
  using assms by (cases x; cases y; simp add: no_less_rnd_0 no_less_rnd_1)+

lemma no_less_mul: "no_less 0 x \<Longrightarrow> no_less 0 y \<Longrightarrow> no_less 0 (f_mul x y)"
  by (cases x; cases y) (simp_all add: no_less_rnd_0 f_inf_def)

lemma no_less_div: "no_less 0 x \<Longrightarrow> 0 < c \<Longrightarrow> no_less 0 (f_div x (Fin c))"
  by (cases x) (simp_all add: no_less_rnd_0)

lemma no_less_Hours: "0 \<le> d \<Longrightarrow> no_less 0 (Hours d)"
proof -
  assume d: "0 \<le> d"
  have h: "0 < hour_ns" by (simp add: hour_ns_def second_def)
  have g: "go_div d hour_ns = d div hour_ns" using d h by (auto simp: go_div_def sgn_if)
  have "0 \<le> d div hour_ns" "hour_ns * (d div hour_ns) \<le> d"
    using d h pos_imp_zdiv_nonneg_iff [of hour_ns d] mult_div_mod_eq [of hour_ns d] pos_mod_sign [of hour_ns d] by linarith+
  then show ?thesis by (simp add: Hours_def go_rem_def g no_less_add no_less_of_int no_less_div)
qed

lemma no_less_grown: "no_less 0 g \<Longrightarrow> o_at ob \<le> now \<Longrightarrow> no_less 0 (grown g now ob)"
  by (simp add: grown_def no_less_div no_less_mul no_less_Hours time_Sub_def)

lemma no_less_sub: "x \<le> y \<Longrightarrow> x \<noteq> NaN \<Longrightarrow> x \<noteq> NInf \<Longrightarrow> no_less 0 (f_sub y x)"
  by (cases x; cases y) (simp_all add: f_sub_def no_less_rnd_0 less_eq_f64_def)

lemma no_less_median:
  assumes "\<forall>x \<in> set xs. no_less 1 x" "xs \<noteq> []"
  shows "no_less 1 (medianFloat xs)"
proof -
  let ?v = "sort xs" and ?k = "length xs div 2"
  have v: "no_less 1 (?v ! k)" if "k < length xs" for k using assms(1) that nth_mem [of k ?v] by simp
  have k: "?k < length xs" "?k - 1 < length xs" using assms(2) by (cases xs; simp)+
  have le: "?v ! (?k - 1) \<le> ?v ! ?k" using sorted_nth_mono [of ?v "?k - 1" ?k] k(1) by simp
  show ?thesis
  proof (cases "odd (length xs)")
    case True
    then show ?thesis using assms(2) v [OF k(1)] by (simp add: medianFloat_def Let_def)
  next
    case False
    let ?l = "?v ! (?k - 1)" and ?h = "?v ! ?k"
    have "no_less 1 (f_add ?l (f_div (f_sub ?h ?l) (Fin 2)))"
    proof (cases "?l = NaN")
      case False
      have "?l \<noteq> NInf" using v [OF k(2)] by auto
      then show ?thesis using v [OF k(2)] no_less_sub [OF le False] by (simp add: no_less_add no_less_div)
    qed simp
    then show ?thesis using assms(2) False by (simp add: medianFloat_def Let_def)
  qed
qed

lemma learned_growth: "no_less 0 (GrowthPerDay (learned_appointment M now central series))"
  by (simp add: learned_appointment_def Let_def shrinking_def not_f_lt)

lemma to_int64_round: "no_less 1 x \<Longrightarrow> 0 < to_int64 M (f_round x) \<or> (\<exists>y. to_int64 M (f_round x) = OutOfRange M y)"
proof (cases x)
  case (Fin q)
  assume "no_less 1 x"
  then have "1 \<le> q" "1 \<le> \<lfloor>q + 1 / 2\<rfloor>" using Fin by (simp_all add: le_floor_iff)
  then show ?thesis using Fin by (auto simp: Let_def)
qed auto

lemma learned_size:
  assumes "series \<noteq> []" "\<And>ob. ob \<in> set series \<Longrightarrow> 0 < o_size ob \<and> o_at ob \<le> now"
  shows "0 < MedianSize (learned_appointment M now central series) \<or> (\<exists>y. MedianSize (learned_appointment M now central series) = OutOfRange M y)"
proof -
  let ?g = "if shrinking series then Fin 0 else medianFloat (slopes series)"
  have g: "no_less 0 ?g" by (simp add: shrinking_def not_f_lt)
  have "no_less 1 (f_add (f_of_int (o_size ob)) (grown ?g now ob))" if "ob \<in> set series" for ob
    using no_less_add(2) [OF no_less_grown [OF g]] no_less_of_int(2) assms(2) [OF that] by simp
  then have "no_less 1 (baseline ?g now series)" unfolding baseline_def using assms(1) by (intro no_less_median) auto
  then show ?thesis using to_int64_round [of "baseline ?g now series" M] by (simp add: learned_appointment_def Let_def)
qed

subsection \<open>The circular mean is a minute of the day\<close>

text \<open>The documented ranges: Cos and Sin of a finite value are within 1, Atan2 of finite values is within pi.\<close>

definition math_documented :: "go_math \<Rightarrow> bool" where
  "math_documented M \<longleftrightarrow> (\<forall>a. \<exists>r. Cos M (Fin a) = Fin r \<and> \<bar>r\<bar> \<le> 1) \<and> (\<forall>a. \<exists>r. Sin M (Fin a) = Fin r \<and> \<bar>r\<bar> \<le> 1)
     \<and> (\<forall>y x. \<exists>r. Atan2 M (Fin y) (Fin x) = Fin r \<and> f_neg f_pi \<le> Fin r \<and> Fin r \<le> f_pi)"

lemma f_pi_bounds: "\<exists>r. f_pi = Fin r \<and> 3 \<le> r \<and> r \<le> 4"
  using rnd_between [of 3 "314159265358979323846264338327950288419716939937510582097494459 / 10 ^ 62" 4] by (simp add: f_pi_def)

lemma f_2pi_bounds: "\<exists>r. f_2pi = Fin r \<and> 6 \<le> r \<and> r \<le> 8"
proof -
  obtain r where r: "f_pi = Fin r" "3 \<le> r" "r \<le> 4" using f_pi_bounds by blast
  then show ?thesis using rnd_between [of 6 "2 * r" 8] unfolding f_2pi_def r(1) by simp
qed

lemma angle_of_finite:
  assumes "0 \<le> v" "v < 1440"
  shows "\<exists>r. angle_of v = Fin r"
proof -
  obtain p where p: "f_pi = Fin p" "3 \<le> p" "p \<le> 4" using f_pi_bounds by blast
  have v: "f_of_int v = Fin (of_int v)" using assms by (simp add: f_of_int_def rnd_int)
  have v2: "rnd (of_int v * 2) = Fin (of_int (v * 2))" using rnd_int [of "v * 2"] assms by simp
  have "of_int (v * 2) * p \<le> of_int 2880 * 4" using assms p by (intro mult_mono) simp_all
  then obtain a where a: "rnd (of_int (v * 2) * p) = Fin a" "0 \<le> a" "a \<le> 11520"
    using rnd_between [of 0 "of_int (v * 2) * p" 11520] assms p by auto
  then obtain r where "rnd (a / 1440) = Fin r" using rnd_between [of 0 "a / 1440" 11520] by auto
  then show ?thesis using v2 a(1) unfolding angle_of_def v p(1) by simp
qed

lemma sum_finite:
  assumes "\<forall>v \<in> set vs. \<exists>r. F v = Fin r \<and> \<bar>r\<bar> \<le> 1" "\<bar>s\<bar> \<le> of_nat k" "k + length vs \<le> 1000"
  shows "\<exists>r. foldl (\<lambda>s v. f_add s (F v)) (Fin s) vs = Fin r"
  using assms
proof (induction vs arbitrary: s k)
  case (Cons v vs)
  then obtain r where r: "F v = Fin r" "\<bar>r\<bar> \<le> 1" by auto
  have "of_int (- int (Suc k)) \<le> s + r" "s + r \<le> of_int (int (Suc k))" using Cons.prems(2) r(2) by auto
  then obtain t where t: "rnd (s + r) = Fin t" "of_int (- int (Suc k)) \<le> t" "t \<le> of_int (int (Suc k))"
    using rnd_between [of "- int (Suc k)" "s + r" "int (Suc k)"] Cons.prems(3) by auto
  then have "\<bar>t\<bar> \<le> of_nat (Suc k)" by auto
  then show ?case using Cons.IH [of t "Suc k"] Cons.prems r t(1) by simp
qed simp

lemma circularMean_range:
  assumes "math_documented M" "\<forall>v \<in> set vs. 0 \<le> v \<and> v < 1440" "length vs \<le> 1000"
  shows "0 \<le> circularMean M vs \<and> circularMean M vs < 1440"
proof -
  obtain p where p: "f_pi = Fin p" "3 \<le> p" "p \<le> 4" using f_pi_bounds by blast
  obtain t where t: "f_2pi = Fin t" "6 \<le> t" "t \<le> 8" using f_2pi_bounds by blast
  have "\<forall>v \<in> set vs. \<exists>r. Cos M (angle_of v) = Fin r \<and> \<bar>r\<bar> \<le> 1" "\<forall>v \<in> set vs. \<exists>r. Sin M (angle_of v) = Fin r \<and> \<bar>r\<bar> \<le> 1"
    using assms(1,2) angle_of_finite unfolding math_documented_def by metis+
  then obtain x y where xy: "foldl (\<lambda>s v. f_add s (Cos M (angle_of v))) (Fin 0) vs = Fin x" "foldl (\<lambda>s v. f_add s (Sin M (angle_of v))) (Fin 0) vs = Fin y"
    using sum_finite [of vs "\<lambda>v. Cos M (angle_of v)" 0 0] sum_finite [of vs "\<lambda>v. Sin M (angle_of v)" 0 0] assms(3) by auto
  obtain a where a: "Atan2 M (Fin y) (Fin x) = Fin a" "- p \<le> a" "a \<le> p"
    using assms(1) p(1) unfolding math_documented_def by (metis Fin_le(1) f_neg.simps(1))
  have "\<exists>b. (if f_lt (Fin a) (Fin 0) then f_add (Fin a) f_2pi else Fin a) = Fin b \<and> 0 \<le> b \<and> b \<le> 8"
    using rnd_between [of 0 "a + t" 8] a p(2,3) t(2,3) unfolding t(1) by auto
  then obtain b where b: "(if f_lt (Fin a) (Fin 0) then f_add (Fin a) f_2pi else Fin a) = Fin b" "0 \<le> b" "b \<le> 8" by blast
  obtain c where c: "rnd (b * 1440) = Fin c" "0 \<le> c" "c \<le> 11520" using rnd_between [of 0 "b * 1440" 11520] b by auto
  have "c / t \<le> c" using c t by (simp add: divide_le_eq mult_le_cancel_left1)
  then have "0 \<le> c / t" "c / t \<le> 11520" using c t by auto
  then obtain d where d: "rnd (c / t) = Fin d" "0 \<le> d" "d \<le> 11520" using rnd_between [of 0 "c / t" 11520] by auto
  have f: "0 \<le> \<lfloor>d + 1 / 2\<rfloor>" "\<lfloor>d + 1 / 2\<rfloor> \<le> 11521" using d by (auto simp: le_floor_iff floor_le_iff)
  have "circularMean M vs = go_rem \<lfloor>d + 1 / 2\<rfloor> 1440"
    using c(1) d f unfolding circularMean_def Let_def xy a(1) b(1) unfolding t(1) using t(2) by simp
  then show ?thesis using f by (auto simp: go_rem_def go_div_def sgn_if minus_mult_div_eq_mod)
qed

lemma minute_range: "0 \<le> minute loc t \<and> minute loc t < 1440"
proof -
  have "0 \<le> second_of_day loc t" "second_of_day loc t < 86400" by (simp_all add: second_of_day_def)
  then show ?thesis unfolding minute_def by (auto simp: pos_imp_zdiv_nonneg_iff div_less_iff_less_mult)
qed

subsection \<open>The loops\<close>

text \<open>An appointment Learn makes of two copies and the i-th copies of all days of the weekday.\<close>

definition made :: "go_math \<Rightarrow> location \<Rightarrow> time \<Rightarrow> observation list \<Rightarrow> int \<Rightarrow> nat \<Rightarrow> appointment \<Rightarrow> bool" where
  "made M loc now hist wd n app \<longleftrightarrow> (\<exists>i a b. i < n \<and> app = learned_appointment M now (circularMean M [minute loc a, minute loc b]) (series_of loc wd i hist))"

lemma learn_slots_Inr:
  assumes "learn_slots M loc now hist wd i ps m = Inr m'"
  shows "length (km_schedule m' wd) = length (km_schedule m wd) + length ps \<and> (\<forall>w. w \<noteq> wd \<longrightarrow> km_schedule m' w = km_schedule m w)
    \<and> (km_review m' \<longleftrightarrow> km_review m \<or> (\<exists>k < length ps. shrinking (series_of loc wd (i + k) hist))) \<and> km_reliable m' = km_reliable m
    \<and> (\<forall>app \<in> set (km_schedule m' wd). app \<in> set (km_schedule m wd) \<or> made M loc now hist wd (i + length ps) app)"
  using assms
proof (induction ps arbitrary: i m)
  case (Cons p ps)
  obtain a b where p: "p = (a, b)" by (cases p)
  let ?s = "series_of loc wd i hist"
  let ?app = "learned_appointment M now (circularMean M [minute loc (o_at a), minute loc (o_at b)]) ?s"
  let ?m = "m\<lparr>km_schedule := (km_schedule m)(wd := km_schedule m wd @ [?app]), km_review := km_review m \<or> shrinking ?s\<rparr>"
  have rec: "learn_slots M loc now hist wd (Suc i) ps ?m = Inr m'" using Cons.prems p by (simp add: Let_def split: if_splits)
  have "made M loc now hist wd (i + length (p # ps)) ?app" unfolding made_def 
    by (intro exI [of _ i] exI [of _ "o_at a"] exI [of _ "o_at b"]) simp
  then show ?case using Cons.IH [OF rec] by (auto simp: Ex_less_Suc2)
qed simp

lemma learn_slots_ends: "(\<exists>m'. learn_slots M loc now hist wd i ps m = Inr m') \<longleftrightarrow> (\<forall>(a, b) \<in> set ps. \<not> times_differ loc a b)"
proof (induction ps arbitrary: i m)
  case (Cons p ps)
  show ?case by (cases p) (simp add: Let_def Cons.IH)
qed simp

lemma learn_slots_Inl: "learn_slots M loc now hist wd i ps m = Inl m' \<Longrightarrow> km_reliable m' = km_reliable m"
proof (induction ps arbitrary: i m)
  case (Cons p ps)
  then show ?case by (cases p) (fastforce simp: Let_def split: if_splits)
qed simp

text \<open>The two instances of a weekday agree: as many copies, at the same times up to twice the tolerance.\<close>

definition weeks_agree :: "location \<Rightarrow> time \<Rightarrow> time \<Rightarrow> observation list \<Rightarrow> int \<Rightarrow> bool" where
  "weeks_agree loc start today hist wd \<longleftrightarrow>
     (let a = instance_copies loc wd 0 start today hist; b = instance_copies loc wd 1 start today hist in
      length a = length b \<and> (\<forall>i < length a. \<not> times_differ loc (a ! i) (b ! i)))"

definition copies_per :: "location \<Rightarrow> time \<Rightarrow> time \<Rightarrow> observation list \<Rightarrow> int \<Rightarrow> nat" where
  "copies_per loc start today hist wd = length (instance_copies loc wd 0 start today hist)"

lemma weeks_agree_slots:
  "weeks_agree loc start today hist wd \<longleftrightarrow> length (instance_copies loc wd 0 start today hist) = length (instance_copies loc wd 1 start today hist)
     \<and> (\<exists>m'. learn_slots M loc now hist wd i (zip (instance_copies loc wd 0 start today hist) (instance_copies loc wd 1 start today hist)) m = Inr m')"
  unfolding learn_slots_ends weeks_agree_def Let_def by (fastforce simp: set_zip)

lemma learn_weekdays_ends: "(\<exists>m'. learn_weekdays M loc now start today hist wds m = Inr m') \<longleftrightarrow> (\<forall>wd \<in> set wds. weeks_agree loc start today hist wd)"
proof (induction wds arbitrary: m)
  case (Cons wd wds)
  show ?case using weeks_agree_slots [of loc start today hist wd M now 0 m] Cons.IH by (auto simp: Let_def split: sum.splits)
qed simp

lemma learn_weekdays_Inl: "learn_weekdays M loc now start today hist wds m = Inl m' \<Longrightarrow> km_reliable m' = km_reliable m"
proof (induction wds arbitrary: m)
  case (Cons wd wds)
  then show ?case by (auto simp: Let_def learn_slots_Inl split: if_splits sum.splits dest: learn_slots_Inr)
qed simp

lemma learn_weekdays_Inr:
  assumes "learn_weekdays M loc now start today hist wds m = Inr m'" "distinct wds"
  shows "(\<forall>w \<in> set wds. length (km_schedule m' w) = length (km_schedule m w) + copies_per loc start today hist w)
    \<and> (\<forall>w. w \<notin> set wds \<longrightarrow> km_schedule m' w = km_schedule m w)
    \<and> (km_review m' \<longleftrightarrow> km_review m \<or> (\<exists>w \<in> set wds. \<exists>k < copies_per loc start today hist w. shrinking (series_of loc w k hist)))
    \<and> km_reliable m' = km_reliable m
    \<and> (\<forall>w. \<forall>app \<in> set (km_schedule m' w). app \<in> set (km_schedule m w) \<or> made M loc now hist w (copies_per loc start today hist w) app)"
  using assms
proof (induction wds arbitrary: m)
  case (Cons wd wds)
  let ?a = "instance_copies loc wd 0 start today hist" and ?b = "instance_copies loc wd 1 start today hist"
  obtain m1 where l: "length ?a = length ?b" and m1: "learn_slots M loc now hist wd 0 (zip ?a ?b) m = Inr m1"
    and rec: "learn_weekdays M loc now start today hist wds m1 = Inr m'"
    using Cons.prems(1) by (auto simp: Let_def split: if_splits sum.splits)
  have n: "length (zip ?a ?b) = copies_per loc start today hist wd" using l by (simp add: copies_per_def)
  note slot = learn_slots_Inr [OF m1, unfolded n add_0] and rest = Cons.IH [OF rec]
  have d: "wd \<notin> set wds" "distinct wds" using Cons.prems(2) by simp_all
  have app: "app \<in> set (km_schedule m w) \<or> made M loc now hist w (copies_per loc start today hist w) app"
    if "app \<in> set (km_schedule m' w)" for w app
    using rest [OF d(2)] slot that by (cases "w = wd") (blast, metis)
  have len: "length (km_schedule m' w) = length (km_schedule m w) + copies_per loc start today hist w" if "w \<in> set (wd # wds)" for w
    using slot rest [OF d(2)] d(1) that by (cases "w = wd") simp_all
  have other: "km_schedule m' w = km_schedule m w" if "w \<notin> set (wd # wds)" for w using slot rest [OF d(2)] that by simp
  have flags: "km_review m' \<longleftrightarrow> km_review m \<or> (\<exists>w \<in> set (wd # wds). \<exists>k < copies_per loc start today hist w. shrinking (series_of loc w k hist))"
    "km_reliable m' = km_reliable m" using slot rest [OF d(2)] by auto
  show ?case using len other flags app by blast
qed simp

subsection \<open>The history\<close>

lemma series_in_history:
  assumes "ob \<in> set (series_of loc wd i (history_of keyID today obs))"
  shows "0 < o_size ob \<and> o_at ob < today"
proof -
  let ?h = "history_of keyID today obs"
  obtain date where i: "i < length (copies_on loc date ?h)" and ob: "ob = copies_on loc date ?h ! i"
    using assms by (auto simp: series_of_def Let_def split: if_splits)
  then have "ob \<in> set (copies_on loc date ?h)" by simp
  then show ?thesis by (simp add: copies_on_def history_of_def)
qed

text \<open>A zone whose local midnights exist: the instant time.Date gives for a date is on that date.\<close>

definition midnights_exist :: "location \<Rightarrow> bool" where
  "midnights_exist loc \<longleftrightarrow> (\<forall>date. civil_day loc (time_Date loc date 0 0) = date)"

lemma series_nonempty:
  assumes "midnights_exist loc" "i < copies_per loc start today hist wd"
  shows "series_of loc wd i hist \<noteq> []"
proof -
  let ?days = "instance_days loc wd start today" and ?date = "civil_day loc (instance_days loc wd start today ! 0)"
  let ?P = "\<lambda>ob. civil_day loc (o_at ob) = ?date"
  have d: "0 < length ?days" and i: "i < length (filter ?P (recent start hist))"
    using assms(2) by (simp_all add: copies_per_def instance_copies_def Let_def copies_on_def split: if_splits)
  have "?days ! 0 \<in> set ?days" using d by (rule nth_mem)
  then have w: "Weekday loc (time_Date loc ?date 0 0) = wd" using assms(1) by (auto simp: instance_days_def midnights_exist_def Weekday_def)
  have "length (filter ?P (recent start hist)) \<le> length (filter ?P hist)"
    unfolding recent_def filter_filter by (induction hist) auto
  then have j: "i < length (copies_on loc ?date hist)" using i by (simp add: copies_on_def)
  have "filter ?P hist \<noteq> []" using j by (auto simp: copies_on_def)
  then have "?date \<in> set (dates_of loc hist)" by (simp add: dates_of_def filter_empty_conv image_iff) metis
  then have "copies_on loc ?date hist ! i \<in> set (series_of loc wd i hist)" using w j by (auto simp: series_of_def Let_def)
  then show ?thesis by auto
qed

lemma made_usable:
  assumes "made M loc now (history_of keyID today obs) wd n app" "math_documented M" "today \<le> now"
    and "midnights_exist loc" "n = copies_per loc start today (history_of keyID today obs) wd"
  shows "\<not> invalid_appointment app \<or> (\<exists>x. MedianSize app = OutOfRange M x)"
proof -
  let ?h = "history_of keyID today obs"
  obtain i a b where i: "i < n" and app: "app = learned_appointment M now (circularMean M [minute loc a, minute loc b]) (series_of loc wd i ?h)"
    using assms(1) by (auto simp: made_def)
  have "0 \<le> circularMean M [minute loc a, minute loc b] \<and> circularMean M [minute loc a, minute loc b] < 1440"
    using minute_range by (intro circularMean_range [OF assms(2)]) auto
  moreover have "MinuteOfDay app = circularMean M [minute loc a, minute loc b]" by (simp add: app learned_appointment_def Let_def)
  moreover have "series_of loc wd i ?h \<noteq> []" using series_nonempty [OF assms(4)] i assms(5) by blast
  then have "0 < MedianSize app \<or> (\<exists>x. MedianSize app = OutOfRange M x)"
    unfolding app using series_in_history assms(3) by (intro learned_size) force+
  ultimately show ?thesis using learned_growth by (auto simp: invalid_appointment_def not_f_lt app)
qed


subsection \<open>An example\<close>

text \<open>A copy on each of two Thursdays, learned on the next day but one. The stand-ins for the trigonometric functions have the
  documented ranges.\<close>

definition example_math :: go_math where
  "example_math = \<lparr>Cos = (\<lambda>_. Fin 1), Sin = (\<lambda>_. Fin 0), Atan2 = (\<lambda>_ _. Fin 0), OutOfRange = (\<lambda>_. 0)\<rparr>"

definition example_history :: "observation list" where
  "example_history = map (\<lambda>(day, sz). \<lparr>o_backup_id = ''b'', o_key_id = ''k'', o_at = of_unix (day * 86400 + 10800), o_size = sz\<rparr>) [(7, 100), (14, 107)]"

lemma example_math_documented: "math_documented example_math"
proof -
  obtain p where p: "f_pi = Fin p" "3 \<le> p" using f_pi_bounds by blast
  then show ?thesis unfolding math_documented_def p(1) by (auto simp: example_math_def)
qed

lemma midnights_exist_UTC: "midnights_exist UTC"
  by (simp add: midnights_exist_def civil_day_UTC of_unix_def unix_def second_def)

lemma example_weeks:
  "recent (of_unix (2 * 86400)) (history_of ''k'' (of_unix (16 * 86400)) example_history) \<noteq> []"
  "list_all (\<lambda>wd. weeks_agree UTC (of_unix (2 * 86400)) (of_unix (16 * 86400)) (history_of ''k'' (of_unix (16 * 86400)) example_history) wd) [0..6]"
  "list_all (\<lambda>wd. list_all (\<lambda>i. \<not> shrinking (series_of UTC wd i (history_of ''k'' (of_unix (16 * 86400)) example_history)))
     [0..<copies_per UTC (of_unix (2 * 86400)) (of_unix (16 * 86400)) (history_of ''k'' (of_unix (16 * 86400)) example_history) wd]) [0..6]"
  by code_simp+


end
