(* ===== verification/Monitoring.thy ===== *)
theory Monitoring
  imports Maintenance Policy_Learn
begin

text \<open>
  What the maintenance process sees and what it concludes from it, internal/maintenance/service.go: the snapshot the
  writer gives it (GET /v1/snapshot of internal/localapi/api.go, its pages joined as in Snapshot_Pages), the audit of the files against the
  catalogue, the observations of a key, the space findings, the summary of a check, and the retention requests it makes.
  A cancelled context ends the cycle before such a result is used; it is a failed step of the cycle.
\<close>

subsection \<open>The snapshot\<close>

definition Keys :: "catalog \<Rightarrow> key list" where
  "Keys c = map (\<lambda>k. \<lparr>k_id = kr_id k, k_name = kr_name k, k_profile = kr_profile k, k_revoked = kr_revoked k\<rparr>)
     (sort_key (\<lambda>k. (kr_name k, kr_id k)) (keys c))"

text \<open>The active operations and the last hundred; rows of the table are in the order of their identifiers.\<close>

definition SnapshotOperations :: "catalog \<Rightarrow> operation list" where
  "SnapshotOperations c = (let newest = set (map op_id (drop (length (operations c) - 100) (operations c))) in
     filter (\<lambda>o'. active_op o' \<or> op_id o' \<in> newest) (operations c))"

definition Anomalies :: "bool \<Rightarrow> catalog \<Rightarrow> anomaly list" where
  "Anomalies activeOnly c = sort_key (\<lambda>a. (an_opened_at a, an_id a)) (filter (\<lambda>a. activeOnly \<longrightarrow> open_anomaly a) (anomalies c))"

definition AcknowledgedMissingBackupIDs :: "catalog \<Rightarrow> string list" where
  "AcknowledgedMissingBackupIDs c = remdups (sort (map an_backup_id
     (filter (\<lambda>a. an_kind a = ''file_missing'' \<and> an_acknowledged_at a \<noteq> 0 \<and> an_backup_id a \<noteq> []) (anomalies c))))"

definition AnomalyExclusions :: "catalog \<Rightarrow> exclusion list" where
  "AnomalyExclusions c = map (\<lambda>e. e\<lparr>ex_kinds := sort (ex_kinds e)\<rparr>) (filter (\<lambda>e. ex_kinds e \<noteq> []) (exclusions c))"

record snapshot =
  sn_status :: automation_status
  sn_settings :: mail_settings
  sn_keys :: "key list"
  sn_quotas :: "quota list"
  sn_backups :: "backup list"
  sn_operations :: "operation list"
  sn_anomalies :: "anomaly list"
  sn_exclusions :: "exclusion list"
  sn_missing :: "string list"
  sn_models :: "(string \<times> key_model option) list"

fun quotas_of :: "time \<Rightarrow> catalog \<Rightarrow> key list \<Rightarrow> quota list res" where
  "quotas_of now c [] = Inr []"
| "quotas_of now c (k # ks) = (case Quota (k_id k) now c of Inl e \<Rightarrow> Inl e
     | Inr q \<Rightarrow> (case quotas_of now c ks of Inl e \<Rightarrow> Inl e | Inr qs \<Rightarrow> Inr (q # qs)))"

definition maintenance_snapshot :: "time \<Rightarrow> catalog \<Rightarrow> snapshot res" where
  "maintenance_snapshot now c =
     (case quotas_of now c (Keys c) of Inl e \<Rightarrow> Inl e
      | Inr qs \<Rightarrow> Inr \<lparr>sn_status = AutomationStatus c, sn_settings = MailSettings c, sn_keys = Keys c, sn_quotas = qs,
          sn_backups = SnapshotBackups c, sn_operations = SnapshotOperations c, sn_anomalies = Anomalies True c,
          sn_exclusions = AnomalyExclusions c, sn_missing = AcknowledgedMissingBackupIDs c, sn_models = LoadModels c\<rparr>)"

subsection \<open>The audit of the files\<close>

datatype audit_probe = StatFile place | ReadFile place | ListDirectory directory

type_synonym audit_faults = "audit_probe \<Rightarrow> io_error option"

definition expected_place :: "backup \<Rightarrow> place option" where
  "expected_place b = (case b_status b of
       BackupReceiving \<Rightarrow> Some (final (b_id b)) | BackupComplete \<Rightarrow> Some (final (b_id b)) | BackupDeleting \<Rightarrow> Some (final (b_id b))
     | BackupQuarantined \<Rightarrow> Some (quarantine (b_id b)) | BackupPurging \<Rightarrow> Some (quarantine (b_id b)) | _ \<Rightarrow> None)"

definition file_finding :: "string \<Rightarrow> string \<Rightarrow> string \<Rightarrow> backup \<Rightarrow> finding" where
  "file_finding prefix kind detail b = \<lparr>f_stable_key = prefix @ b_id b, f_kind = kind, f_key_id = b_key_id b, f_backup_id = b_id b,
     f_detail = detail, f_at = zero_time\<rparr>"

definition catalog_finding :: "string \<Rightarrow> string \<Rightarrow> finding" where
  "catalog_finding stableKey detail = \<lparr>f_stable_key = stableKey, f_kind = ''catalog'', f_key_id = [], f_backup_id = [], f_detail = detail, f_at = zero_time\<rparr>"

definition missing_finding :: "backup \<Rightarrow> finding" where
  "missing_finding = file_finding ''file-missing:'' ''file_missing'' ''file registrato nel catalogo ma fisicamente assente''"

definition mismatch_finding :: "backup \<Rightarrow> finding" where
  "mismatch_finding = file_finding ''catalog-file:'' ''catalog'' ''catalogo e file non concordano''"

definition backup_findings :: "env \<Rightarrow> audit_faults \<Rightarrow> string list \<Rightarrow> disk \<Rightarrow> backup \<Rightarrow> finding list" where
  "backup_findings E F acknowledged d b =
     (if b_status b = BackupReceiving then []
      else (case expected_place b of None \<Rightarrow> []
        | Some p \<Rightarrow>
            if F (StatFile p) = Some ENOENT \<or> F (StatFile p) = None \<and> Lstat p d = None
            then (if b_id b \<in> set acknowledged then [] else [missing_finding b])
            else if F (StatFile p) \<noteq> None \<or> \<not> validBackupFile E (F (ReadFile p)) p b d then [mismatch_finding b] else []))"

definition directory_name :: "directory \<Rightarrow> string" where
  "directory_name dir = (if dir = QuarantineDir then ''quarantine'' else ''backups'')"

definition relative :: "place \<Rightarrow> string" where
  "relative p = directory_name (fst p) @ ''/'' @ snd p"

definition unexpected_prefix :: string where "unexpected_prefix = ''unexpected-file:''"

definition unexpected_finding :: "place \<Rightarrow> finding" where
  "unexpected_finding p = catalog_finding (unexpected_prefix @ relative p) (''file inatteso o nella posizione errata: '' @ relative p)"

definition expected_places :: "backup list \<Rightarrow> place list" where
  "expected_places bs = concat (map (\<lambda>b. case expected_place b of None \<Rightarrow> [] | Some p \<Rightarrow> [p]) bs)"

definition directory_findings :: "audit_faults \<Rightarrow> backup list \<Rightarrow> disk \<Rightarrow> directory \<Rightarrow> finding list" where
  "directory_findings F bs d dir =
     (case F (ListDirectory dir) of
        Some e \<Rightarrow> [catalog_finding (''catalog-directory:'' @ directory_name dir) (io_text e)]
      | None \<Rightarrow> map (\<lambda>n. unexpected_finding (dir, n)) (filter (\<lambda>n. relative (dir, n) \<notin> set (map relative (expected_places bs))) (sort (ReadDir dir d))))"

definition fileFindings :: "env \<Rightarrow> audit_faults \<Rightarrow> snapshot \<Rightarrow> disk \<Rightarrow> finding list" where
  "fileFindings E F sn d = concat (map (backup_findings E F (sn_missing sn) d) (sn_backups sn))
     @ concat (map (directory_findings F (sn_backups sn) d) [Archive, QuarantineDir])"

text \<open>A file that was unexpected may belong to a backup the writer completed in the meantime: it is compared with a later snapshot.\<close>

definition after_prefix :: "string \<Rightarrow> string \<Rightarrow> string option" where
  "after_prefix pre s = (if take (length pre) s = pre then Some (drop (length pre) s) else None)"

definition expected_backup :: "backup list \<Rightarrow> string \<Rightarrow> (place \<times> backup) option" where
  "expected_backup bs rel = map_option (\<lambda>b. (the (expected_place b), b))
     (List.find (\<lambda>b. expected_place b \<noteq> None \<and> relative (the (expected_place b)) = rel) (rev bs))"

definition still_unexpected :: "env \<Rightarrow> audit_faults \<Rightarrow> snapshot \<Rightarrow> disk \<Rightarrow> finding \<Rightarrow> bool" where
  "still_unexpected E F sn d f =
     (case (if f_kind f = ''catalog'' then after_prefix unexpected_prefix (f_stable_key f) else None) of
        None \<Rightarrow> True
      | Some rel \<Rightarrow> (case expected_backup (sn_backups sn) rel of None \<Rightarrow> True | Some (p, b) \<Rightarrow> \<not> validBackupFile E (F (ReadFile p)) p b d))"

definition verifyUnexpectedFiles :: "env \<Rightarrow> audit_faults \<Rightarrow> finding list \<Rightarrow> snapshot \<Rightarrow> disk \<Rightarrow> finding list" where
  "verifyUnexpectedFiles E F findings sn d = filter (still_unexpected E F sn d) findings"

subsection \<open>Copies\<close>

definition recoverableBackups :: "snapshot \<Rightarrow> backup list" where
  "recoverableBackups sn = filter (\<lambda>b. b_id b \<notin> set (sn_missing sn)) (sn_backups sn)"

definition observations :: "backup list \<Rightarrow> exclusion list \<Rightarrow> observation list" where
  "observations bs exs = concat (map (\<lambda>b. case b_received_at b of
       Stamp t \<Rightarrow> if b_status b = BackupReceiving \<or> b_status b = BackupFailed
           \<or> list_ex (\<lambda>e. ex_key_id e = b_key_id b \<and> unix t \<ge> ex_starts_at e \<and> unix t \<le> ex_ends_at e) exs then []
         else [\<lparr>o_backup_id = b_id b, o_key_id = b_key_id b, o_at = t, o_size = b_size b\<rparr>]
     | _ \<Rightarrow> []) bs)"

subsection \<open>Space\<close>

definition u64_of :: "int \<Rightarrow> u64" where "u64_of i = word_of_int i"

definition catalog_bytes :: "snapshot \<Rightarrow> u64" where
  "catalog_bytes sn = sum_list (map (\<lambda>b. u64_of (b_size b)) (filter (\<lambda>b. b_status b = BackupReceiving \<or> present_status (b_status b)) (recoverableBackups sn)))"

definition capacity_finding :: "string \<Rightarrow> string \<Rightarrow> finding" where
  "capacity_finding stableKey detail = \<lparr>f_stable_key = stableKey, f_kind = ''capacity'', f_key_id = [], f_backup_id = [], f_detail = detail, f_at = zero_time\<rparr>"

definition window_finding :: finding where
  "window_finding = capacity_finding ''capacity:retention-window''
     ''spazio insufficiente per i minimi di conservazione impostati per chiave, giorno corrente, quarantena e riserva; intervento amministrativo richiesto''"

definition margin_finding :: finding where
  "margin_finding = capacity_finding QuarantineMarginAnomalyKey ''spazio disponibile insufficiente per 48 ore di depositi e riserva durante la quarantena''"

definition capacity_findings :: "filesystem \<Rightarrow> snapshot \<Rightarrow> u64 \<Rightarrow> u64 \<Rightarrow> finding list res" where
  "capacity_findings fs sn expected48h required =
     (case fs_Bytes fs of Inl e \<Rightarrow> Inl e
      | Inr (tot, used, available) \<Rightarrow>
          (let bytes = catalog_bytes sn; otherUsed = (if used > bytes then used - bytes else 0);
               reserve = u64_of (a_reserve_free (as_row (sn_status sn)))
           in Inr ((if tot \<le> otherUsed \<or> tot - otherUsed \<le> reserve \<or> tot - otherUsed - reserve < required then [window_finding] else [])
                @ (if expected48h > MaxUint64 - reserve \<or> available < expected48h + reserve then [margin_finding] else []))))"

subsection \<open>The summary of a check\<close>

definition kinds_of :: "finding list \<Rightarrow> string list" where
  "kinds_of fs = remdups (sort (map f_kind fs))"

fun join_text :: "string \<Rightarrow> string list \<Rightarrow> string" where
  "join_text sep [] = []"
| "join_text sep [x] = x"
| "join_text sep (x # y # xs) = x @ sep @ join_text sep (y # xs)"

definition findingsSummary :: "finding list \<Rightarrow> string" where
  "findingsSummary fs = (if fs = [] then ''nessuna anomalia''
     else show_nat (length fs) @ '' anomalie: '' @ join_text '', ''
       (map (\<lambda>k. k @ ''='' @ show_nat (count_where (\<lambda>f. f_kind f = k) fs)) (kinds_of fs)))"

subsection \<open>Retention requests\<close>

definition revoked_in :: "snapshot \<Rightarrow> string \<Rightarrow> bool" where
  "revoked_in sn k \<longleftrightarrow> (case List.find (\<lambda>x. k_id x = k) (rev (sn_keys sn)) of None \<Rightarrow> False | Some x \<Rightarrow> k_revoked x)"

definition protected_in :: "tzdb \<Rightarrow> snapshot \<Rightarrow> time \<Rightarrow> backup \<Rightarrow> bool \<times> error option" where
  "protected_in tz sn now b = RetentionProtected tz b now (a_timezone (as_row (sn_status sn))) (RetentionDaysForKey (sn_status sn) (b_key_id b))"

text \<open>The bytes that operations under way will free.\<close>

fun pending_bytes :: "tzdb \<Rightarrow> snapshot \<Rightarrow> time \<Rightarrow> backup list \<Rightarrow> u64 \<Rightarrow> u64 res" where
  "pending_bytes tz sn now [] n = Inr n"
| "pending_bytes tz sn now (b # bs) n =
     (if b_status b = BackupDeleting \<or> b_status b = BackupQuarantined \<or> b_status b = BackupPurging
      then (case protected_in tz sn now b of
          (_, Some e) \<Rightarrow> Inl e
        | (protected, None) \<Rightarrow> pending_bytes tz sn now bs (if \<not> protected \<and> \<not> revoked_in sn (b_key_id b) then n + u64_of (b_size b) else n))
      else pending_bytes tz sn now bs n)"

definition selection_of :: "tzdb \<Rightarrow> snapshot \<Rightarrow> filesystem \<Rightarrow> u64 \<Rightarrow> time \<Rightarrow> selection res" where
  "selection_of tz sn fs expected48h now =
     (case pending_bytes tz sn now (recoverableBackups sn) 0 of Inl e \<Rightarrow> Inl e
      | Inr pending \<Rightarrow> (let st = sn_status sn; a = as_row st in
          Select tz \<lparr>si_now = now, si_timezone = a_timezone a, si_filesystem = fs, si_threshold = a_threshold a,
            si_retention_days = a_retention_days a, si_key_retention_days = as_key_days st, si_expected48h = expected48h,
            si_pending_purge = pending, si_backups = recoverableBackups sn, si_revoked = revoked_in sn\<rparr>))"

definition may_purge :: "snapshot \<Rightarrow> time \<Rightarrow> backup \<Rightarrow> bool" where
  "may_purge sn now b \<longleftrightarrow> b_status b = BackupQuarantined \<and> \<not> revoked_in sn (b_key_id b) \<and> b_purge_not_before b \<noteq> 0
     \<and> b_purge_not_before b \<le> unix now"

end
