(* ===== verification/Cycle.thy ===== *)
theory Cycle
  imports Monitoring
begin

text \<open>
  One cycle of maintenance, RunOnce of internal/maintenance/service.go, as a program that asks and is told: every call to
  the writer, every local step that can fail and every reading of the world is a question, and the rest of the program is a
  function of the answer. Nothing is assumed of the answers, so that other clients of the writer may act between any
  two questions, any call may fail, and a lease that its guard lost in the meantime makes the calls after it fail. Physical
  execution (processOperations) is one question here, its calls are those of the theory Maintenance. The
  text of the periodic report is not modelled.
\<close>

subsection \<open>Programs\<close>

text \<open>What maintenance keeps of its own between cycles; the time of its last change is never read.\<close>

record local_state =
  ls_settings :: mail_settings
  ls_failure_opened :: seconds
  ls_failure_mailed :: seconds

definition no_state :: local_state where
  "no_state = \<lparr>ls_settings = \<lparr>ms_host = [], ms_port = 0, ms_tls = False, ms_from = [], ms_recipients = [], ms_version = 0\<rparr>,
     ls_failure_opened = 0, ls_failure_mailed = 0\<rparr>"

datatype ask = LockExecution | Call maintenance_route | ReadSnapshot | LoadLocalState | SaveState local_state
  | ClearTicket | Execute "operation list" "backup list" | MeasureFilesystem | AuditFiles snapshot | VerifyFiles "finding list" snapshot
  | PeriodicReport string | ReadDueMail | SendMail mail_settings mail

datatype told = Failed string | Answered answer | TheSnapshot snapshot | TheState local_state | TheFilesystem filesystem
  | TheFindings "finding list" | TheMail "mail list" | Okay

datatype 'a prog = Finish 'a | Ask ask "told \<Rightarrow> 'a prog"

primrec bind_prog :: "'a prog \<Rightarrow> ('a \<Rightarrow> 'b prog) \<Rightarrow> 'b prog" where
  "bind_prog (Finish x) f = f x"
| "bind_prog (Ask q k) f = Ask q (\<lambda>r. bind_prog (k r) f)"

text \<open>An error ends the program at once, as the returns of the source do.\<close>

definition and_then :: "(string + 'a) prog \<Rightarrow> ('a \<Rightarrow> (string + 'b) prog) \<Rightarrow> (string + 'b) prog" where
  "and_then p f = bind_prog p (\<lambda>x. case x of Inl e \<Rightarrow> Finish (Inl e) | Inr a \<Rightarrow> f a)"

definition lift_error :: "'a res \<Rightarrow> (string + 'a) prog" where
  "lift_error x = Finish (case x of Inl e \<Rightarrow> Inl (error_text e) | Inr a \<Rightarrow> Inr a)"

definition no_answer :: string where "no_answer = ''risposta non valida''"

text \<open>A question whose answer has to be of one kind.\<close>

definition ask_for :: "(told \<Rightarrow> 'a option) \<Rightarrow> ask \<Rightarrow> (string + 'a) prog" where
  "ask_for view q = Ask q (\<lambda>r. Finish (case r of Failed e \<Rightarrow> Inl e | _ \<Rightarrow> (case view r of None \<Rightarrow> Inl no_answer | Some x \<Rightarrow> Inr x)))"

definition ask_done :: "ask \<Rightarrow> (string + unit) prog" where "ask_done = ask_for (\<lambda>_. Some ())"
definition ask_snapshot :: "(string + snapshot) prog" where "ask_snapshot = ask_for (\<lambda>r. case r of TheSnapshot s \<Rightarrow> Some s | _ \<Rightarrow> None) ReadSnapshot"
definition ask_findings :: "ask \<Rightarrow> (string + finding list) prog" where "ask_findings = ask_for (\<lambda>r. case r of TheFindings fs \<Rightarrow> Some fs | _ \<Rightarrow> None)"

text \<open>A call whose outcome is ignored.\<close>

definition ignoring :: "ask \<Rightarrow> 'a \<Rightarrow> 'a prog" where "ignoring q x = Ask q (\<lambda>_. Finish x)"

fun for_each :: "('a \<Rightarrow> (string + unit) prog) \<Rightarrow> 'a list \<Rightarrow> (string + unit) prog" where
  "for_each f [] = Finish (Inr ())"
| "for_each f (x # xs) = and_then (f x) (\<lambda>_. for_each f xs)"

subsection \<open>Monitoring of the keys\<close>

type_synonym known_models = "string \<Rightarrow> key_model option"

definition usable :: "key_model \<Rightarrow> bool" where "usable m \<longleftrightarrow> km_reliable m \<and> \<not> km_review m"

fun learn_keys :: "go_math \<Rightarrow> tzdb \<Rightarrow> snapshot \<Rightarrow> int \<Rightarrow> time \<Rightarrow> key list \<Rightarrow> known_models \<Rightarrow> bool \<Rightarrow> nat \<Rightarrow> (string + known_models \<times> bool \<times> nat) prog" where
  "learn_keys M tz sn revision now [] known allReliable active = Finish (Inr (known, allReliable, active))"
| "learn_keys M tz sn revision now (k # ks) known allReliable active =
     (if k_revoked k then learn_keys M tz sn revision now ks known allReliable active
      else (case known (k_id k) of
          Some m \<Rightarrow> learn_keys M tz sn revision now ks known (allReliable \<and> usable m) (Suc active)
        | None \<Rightarrow> (let zone = a_timezone (as_row (sn_status sn)) in
            and_then (lift_error (Learn M tz (k_id k) zone (observations (sn_backups sn) (sn_exclusions sn)) now)) (\<lambda>m.
            and_then (ask_done (Call (ModelSave (Inr (k_id k, zone, revision, max (RetentionDaysForKey (sn_status sn) (k_id k)) MinimumDays, Some m,
                km_reliable m, km_review m))))) (\<lambda>_.
            learn_keys M tz sn revision now ks (known(k_id k \<mapsto> m)) (allReliable \<and> usable m) (Suc active))))))"

fun plan_findings :: "tzdb \<Rightarrow> observation list \<Rightarrow> time \<Rightarrow> (monitoring_model \<times> seconds \<times> seconds) list \<Rightarrow> string + finding list" where
  "plan_findings tz all now [] = Inr []"
| "plan_findings tz all now ((mm, fromT, toT) # plan) =
     (case mm_model mm of None \<Rightarrow> Inl ''modello non decodificabile''
      | Some m \<Rightarrow> (case plan_findings tz all now plan of Inl e \<Rightarrow> Inl e
          | Inr fs \<Rightarrow> Inr (CheckPeriod tz m all (of_unix fromT) (of_unix toT) now @ fs)))"

definition quota_finding :: "string \<Rightarrow> int \<Rightarrow> u64 \<Rightarrow> finding" where
  "quota_finding k available nextSize = \<lparr>f_stable_key = ''quota:'' @ k, f_kind = ''capacity'', f_key_id = k, f_backup_id = [],
     f_detail = ''quota insufficiente per il prossimo backup previsto: chiave '' @ k @ '', disponibili '' @ show_int available
       @ '' byte, previsti '' @ show_int (uint nextSize) @ '' byte'', f_at = zero_time\<rparr>"

definition quota_findings :: "snapshot \<Rightarrow> string \<Rightarrow> u64 \<Rightarrow> finding list" where
  "quota_findings sn k nextSize =
     (case List.find (\<lambda>q. q_key_id q = k) (rev (sn_quotas sn)) of None \<Rightarrow> []
      | Some q \<Rightarrow> (let available = wrap64 (TotalBytes (q_profile q) - q_used q - q_reserved q) in
          if available < 0 \<or> u64_of available < nextSize then [quota_finding k available nextSize] else []))"

fun forecast_keys :: "tzdb \<Rightarrow> snapshot \<Rightarrow> time \<Rightarrow> observation list \<Rightarrow> known_models \<Rightarrow> key list \<Rightarrow> (key_model list \<times> finding list) res" where
  "forecast_keys tz sn now all known [] = Inr ([], [])"
| "forecast_keys tz sn now all known (k # ks) =
     (case (if k_revoked k then None else known (k_id k)) of
        None \<Rightarrow> forecast_keys tz sn now all known ks
      | Some m \<Rightarrow> if \<not> usable m then forecast_keys tz sn now all known ks
          else (case ForecastNextBackup tz m now all of Inl e \<Rightarrow> Inl e
            | Inr nextSize \<Rightarrow> (case forecast_keys tz sn now all known ks of Inl e \<Rightarrow> Inl e
                | Inr (ms, fs) \<Rightarrow> Inr (m # ms, quota_findings sn (k_id k) nextSize @ fs))))"

fun required_bytes :: "tzdb \<Rightarrow> snapshot \<Rightarrow> time \<Rightarrow> key_model list \<Rightarrow> u64 \<Rightarrow> u64 res" where
  "required_bytes tz sn now [] required = Inr required"
| "required_bytes tz sn now (m # ms) required =
     (case Forecast48Hours tz [m] now of Inl e \<Rightarrow> Inl e
      | Inr forecast \<Rightarrow> (let daily = DailyRequirement forecast; days = RetentionDaysForKey (sn_status sn) (km_key_id m); span = u64_of (days + 3) in
          if days < MinimumDays \<or> days > 365000 then Inl (ErrMsg ''minimo di conservazione non valido'')
          else if daily > (MaxUint64 - required) div span then Inl (ErrMsg ''previsione spazio non rappresentabile'')
          else required_bytes tz sn now ms (required + daily * span)))"

definition known_in :: "snapshot \<Rightarrow> known_models" where
  "known_in sn k = (case map_of (rev (sn_models sn)) k of Some (Some m) \<Rightarrow> Some m | _ \<Rightarrow> None)"

definition revision_of :: "snapshot \<Rightarrow> time \<Rightarrow> int" where
  "revision_of sn now = (let r = a_model_revision (as_row (sn_status sn)) in if r = 0 then now else r)"

definition ask_plan :: "int \<Rightarrow> (string + (monitoring_model \<times> seconds \<times> seconds) list) prog" where
  "ask_plan checkID = ask_for (\<lambda>r. case r of Answered (APlan _ plan) \<Rightarrow> Some plan | _ \<Rightarrow> None) (Call (CheckPlan (Inr checkID)))"

definition monitor :: "go_math \<Rightarrow> tzdb \<Rightarrow> snapshot \<Rightarrow> int \<Rightarrow> time \<Rightarrow> (string + finding list \<times> bool \<times> u64 \<times> u64) prog" where
  "monitor M tz sn checkID now =
     (if a_timezone (as_row (sn_status sn)) = [] then Finish (Inr ([], False, 0, 0))
      else (let all = observations (sn_backups sn) [] in
        and_then (learn_keys M tz sn (revision_of sn now) now (sn_keys sn) (known_in sn) True 0) (\<lambda>(known, reliable, active).
        and_then (ask_plan checkID) (\<lambda>plan.
        and_then (Finish (plan_findings tz all now plan)) (\<lambda>periodFindings.
        and_then (lift_error (forecast_keys tz sn now all known (sn_keys sn))) (\<lambda>(forecastModels, quotaFindings).
        if reliable \<and> active \<noteq> 0
        then and_then (lift_error (required_bytes tz sn now forecastModels 0)) (\<lambda>required.
             and_then (lift_error (Forecast48Hours tz forecastModels now)) (\<lambda>expected48h.
             Finish (Inr (periodFindings @ quotaFindings, True, expected48h, required))))
        else Finish (Inr (periodFindings @ quotaFindings, False, 0, 0))))))))"

subsection \<open>Before the decisions\<close>

definition saveLocalState :: "mail_settings \<Rightarrow> (string + unit) prog" where
  "saveLocalState st = Ask LoadLocalState (\<lambda>r. ask_done (SaveState ((case r of TheState s \<Rightarrow> s | _ \<Rightarrow> no_state)\<lparr>ls_settings := st\<rparr>)))"

definition reconcileWriterFailure :: "(string + unit) prog" where
  "reconcileWriterFailure = Ask LoadLocalState (\<lambda>r. case r of
       TheState s \<Rightarrow>
         if ls_failure_opened s = 0 then Finish (Inr ())
         else (let key = ''writer-unavailable:'' @ show_int (ls_failure_opened s) in
           and_then (ask_done (Call (AnomalyOpen (Inr (key, ''service'', [], [], ''writer non disponibile durante il periodo registrato dallo stato locale maintenance'', None))))) (\<lambda>_.
           and_then (ask_done (Call (AnomalyResolve (Inr key)))) (\<lambda>_.
           ask_done (SaveState (s\<lparr>ls_failure_opened := 0, ls_failure_mailed := 0\<rparr>)))))
     | _ \<Rightarrow> Finish (Inr ()))"

definition reconcile :: "lease \<Rightarrow> operation list \<Rightarrow> (string + unit) prog" where
  "reconcile l ops = (let authorized = filter (\<lambda>o'. op_state_of o' = Authorized) ops in
     and_then (for_each (\<lambda>o'. ask_done (Call (ReconcileRoute (Inr (op_id o', l_owner l, l_generation l))))) authorized) (\<lambda>_.
     if authorized = [] then Finish (Inr ()) else ask_done ClearTicket))"

definition recorded_kind :: "string \<Rightarrow> bool" where
  "recorded_kind k \<longleftrightarrow> k \<in> set [''size'', ''catalog'', ''filesystem'', ''model'', ''capacity'']"

text \<open>The kinds schedule_missing, file_missing and extra are never resolved here; the other recorded ones are when they are no longer found.\<close>

definition recordFindings :: "snapshot \<Rightarrow> finding list \<Rightarrow> (string + unit) prog" where
  "recordFindings sn fs = for_each (\<lambda>a. ask_done (Call (AnomalyResolve (Inr (an_stable_key a)))))
     (filter (\<lambda>a. recorded_kind (an_kind a) \<and> an_stable_key a \<notin> set (map f_stable_key fs)) (sn_anomalies sn))"

subsection \<open>Retention requests\<close>

definition contains_text :: "string \<Rightarrow> string \<Rightarrow> bool" where
  "contains_text pat s \<longleftrightarrow> list_ex (\<lambda>k. take (length pat) (drop k s) = pat) [0..<Suc (length s)]"

fun purge_all :: "tzdb \<Rightarrow> string \<Rightarrow> snapshot \<Rightarrow> time \<Rightarrow> backup list \<Rightarrow> (string + unit) prog" where
  "purge_all tz owner sn now [] = Finish (Inr ())"
| "purge_all tz owner sn now (b # bs) =
     (if \<not> may_purge sn now b then purge_all tz owner sn now bs
      else (case protected_in tz sn now b of
          (_, Some e) \<Rightarrow> Finish (Inl (error_text e))
        | (True, None) \<Rightarrow> purge_all tz owner sn now bs
        | (False, None) \<Rightarrow> Ask (Call (PurgeRequest (Inr (b_id b, ''automatic'', owner, ''quarantena minima completata''))))
            (\<lambda>r. case r of Failed e \<Rightarrow> if contains_text ''UNIQUE'' e then purge_all tz owner sn now bs else Finish (Inl e)
              | _ \<Rightarrow> purge_all tz owner sn now bs)))"

definition schedulePurges :: "tzdb \<Rightarrow> string \<Rightarrow> snapshot \<Rightarrow> time \<Rightarrow> (string + unit) prog" where
  "schedulePurges tz owner sn now = purge_all tz owner sn now (recoverableBackups sn)"

definition date_text :: "time \<Rightarrow> string" where
  "date_text t = (let (y, m, d) = civil_date (civil_day UTC t) in pad 4 y @ ''-'' @ pad 2 m @ ''-'' @ pad 2 d)"

definition shortfall_report :: "selection \<Rightarrow> time \<Rightarrow> maintenance_route" where
  "shortfall_report s now = ReportQueue (Inr (''retention-shortfall:'' @ date_text now, ''OnlyBackup: anomalia spazio liberabile insufficiente'',
     ''La retention richiede '' @ show_int (uint (BytesNeeded s)) @ '' byte, puo selezionarne '' @ show_int (uint (SelectedBytes s)) @ '' e ne mancano ''
       @ show_int (uint (ShortfallBytes s)) @ ''. Tutti i candidati consentiti sono stati richiesti; nessun backup protetto e stato toccato.'', False))"

definition scheduleAutomatic :: "tzdb \<Rightarrow> string \<Rightarrow> snapshot \<Rightarrow> filesystem \<Rightarrow> u64 \<Rightarrow> time \<Rightarrow> (string + unit) prog" where
  "scheduleAutomatic tz owner sn fs expected48h now =
     and_then (lift_error (selection_of tz sn fs expected48h now)) (\<lambda>s.
     and_then (for_each (\<lambda>b. ask_done (Call (QuarantineRequest (Inr (b_id b, ''automatic'', owner,
         ''filesystem almeno all'80%; lotto minimo 10%; giorno completo oltre il minimo della chiave''))))) (Candidates s)) (\<lambda>_.
     if ShortfallBytes s \<noteq> 0 then ask_done (Call (shortfall_report s now)) else Finish (Inr ())))"

subsection \<open>Mail\<close>

text \<open>A message that could not be sent opens an anomaly, one that was sent resolves it. Without a mail host nothing is read.\<close>

definition smtp_finding :: "string \<Rightarrow> maintenance_route" where
  "smtp_finding e = AnomalyOpen (Inr (''smtp:delivery'', ''smtp'', [], [], e, None))"

definition deliver_one :: "mail_settings \<Rightarrow> mail \<Rightarrow> (string + unit) prog" where
  "deliver_one st m = Ask (SendMail st m) (\<lambda>r. (let err = (case r of Failed e \<Rightarrow> e | _ \<Rightarrow> []) in
     and_then (ask_done (Call (MailConfirm (Inr (ml_id m, err, ms_version st))))) (\<lambda>_.
     (case r of Failed e \<Rightarrow> ignoring (Call (smtp_finding e)) (Inr ()) | _ \<Rightarrow> ignoring (Call (AnomalyResolve (Inr ''smtp:delivery''))) (Inr ())))))"

definition deliverMail :: "mail_settings \<Rightarrow> (string + unit) prog" where
  "deliverMail st = (if ms_host st = [] then Finish (Inr ())
     else and_then (ask_for (\<lambda>r. case r of TheMail ms \<Rightarrow> Some ms | _ \<Rightarrow> None) ReadDueMail) (for_each (deliver_one st)))"

text \<open>A writer that does not answer is reported with the settings kept from the last cycle, once in 24 hours.\<close>

definition writer_down :: "seconds \<Rightarrow> string \<Rightarrow> mail" where
  "writer_down opened failure = \<lparr>ml_id = 0, ml_stable_id = ''writer-down:'' @ show_int opened, ml_kind = ''anomaly'', ml_subject = ''OnlyBackup: writer non disponibile'',
     ml_body = failure, ml_created_at = 0, ml_attempts = 0, ml_next_attempt_at = 0, ml_claimed_at = 0, ml_sent_at = 0, ml_last_error = []\<rparr>"

definition NotifyWriterFailure :: "time \<Rightarrow> string \<Rightarrow> (string + unit) prog" where
  "NotifyWriterFailure now failure =
     and_then (ask_for (\<lambda>r. case r of TheState s \<Rightarrow> Some s | _ \<Rightarrow> None) LoadLocalState) (\<lambda>s0.
     let s = (if ls_failure_opened s0 = 0 then s0\<lparr>ls_failure_opened := unix now\<rparr> else s0) in
     if ls_failure_mailed s \<noteq> 0 \<and> unix now - ls_failure_mailed s < 86400 then Finish (Inr ())
     else and_then (ask_done (SendMail (ls_settings s) (writer_down (ls_failure_opened s) failure))) (\<lambda>_.
       ask_done (SaveState (s\<lparr>ls_failure_mailed := unix now\<rparr>))))"

subsection \<open>The cycle\<close>

text \<open>How far a cycle came: its error, whether its check was completed, and the mail settings of the last snapshot it read.\<close>

record reached =
  re_error :: "string option"
  re_completed :: bool
  re_settings :: "mail_settings option"

definition stopped :: "bool \<Rightarrow> mail_settings option \<Rightarrow> string \<Rightarrow> reached prog" where
  "stopped completed st e = Finish \<lparr>re_error = Some e, re_completed = completed, re_settings = st\<rparr>"

definition proceed :: "(string \<Rightarrow> reached prog) \<Rightarrow> (string + 'a) prog \<Rightarrow> ('a \<Rightarrow> reached prog) \<Rightarrow> reached prog" where
  "proceed stop p f = bind_prog p (\<lambda>x. case x of Inl e \<Rightarrow> stop e | Inr a \<Rightarrow> f a)"

definition reminder_lines :: "time \<Rightarrow> anomaly list \<Rightarrow> string list" where
  "reminder_lines now as = sort (map (\<lambda>a. an_stable_key a @ '': '' @ an_detail a) (filter (\<lambda>a. unix now - an_opened_at a \<ge> 86400) as))"

definition remind :: "time \<Rightarrow> anomaly list \<Rightarrow> (string + unit) prog" where
  "remind now as = (let ls = reminder_lines now as in
     if ls = [] then Finish (Inr ())
     else ask_done (Call (ReportQueue (Inr (''reminder:'' @ show_int (go_div (unix now) 86400), ''OnlyBackup: promemoria anomalie attive'',
       join_text [CHR 0x0A] ls, False)))))"

definition report_when_due :: "time \<Rightarrow> automation_status \<Rightarrow> (string + unit) prog" where
  "report_when_due now st = (let due = a_next_report_at (as_row st) in
     if due = 0 \<or> unix now \<ge> due then ask_done (PeriodicReport (''report:'' @ show_int (go_div (unix now) 259200))) else Finish (Inr ()))"

definition retention_open :: "automation_status \<Rightarrow> bool" where
  "retention_open st \<longleftrightarrow> a_enabled (as_row st) \<and> \<not> as_blocked st \<and> as_shown_state st = MonitoringRegular"

definition execute_work :: "mail_settings \<Rightarrow> reached prog" where
  "execute_work st =
     proceed (stopped True (Some st)) ask_snapshot (\<lambda>work.
     proceed (stopped True (Some (sn_settings work))) (ask_done (Execute (sn_operations work) (sn_backups work))) (\<lambda>_.
     Finish \<lparr>re_error = None, re_completed = True, re_settings = Some (sn_settings work)\<rparr>))"

definition schedule :: "tzdb \<Rightarrow> string \<Rightarrow> snapshot \<Rightarrow> filesystem \<Rightarrow> u64 \<Rightarrow> time \<Rightarrow> (string + unit) prog" where
  "schedule tz owner sn fs expected48h now =
     (if retention_open (sn_status sn)
      then and_then (schedulePurges tz owner sn now) (\<lambda>_. scheduleAutomatic tz owner sn fs expected48h now) else Finish (Inr ()))"

definition decide :: "tzdb \<Rightarrow> string \<Rightarrow> snapshot \<Rightarrow> filesystem \<Rightarrow> u64 \<Rightarrow> time \<Rightarrow> reached prog" where
  "decide tz owner sn fs expected48h now =
     (let stop = stopped True (Some (sn_settings sn)) in
      proceed stop (remind now (sn_anomalies sn)) (\<lambda>_.
      proceed stop (report_when_due now (sn_status sn)) (\<lambda>_.
      proceed stop (schedule tz owner sn fs expected48h now) (\<lambda>_.
      execute_work (sn_settings sn)))))"

text \<open>After the check was completed. Decisions use the catalogue the findings came from with the status and anomalies read again after the completion.\<close>

definition decided :: "snapshot \<Rightarrow> snapshot \<Rightarrow> snapshot" where
  "decided sn st = sn\<lparr>sn_status := sn_status st, sn_anomalies := sn_anomalies st\<rparr>"

definition act :: "tzdb \<Rightarrow> string \<Rightarrow> snapshot \<Rightarrow> filesystem \<Rightarrow> finding list \<Rightarrow> u64 \<Rightarrow> time \<Rightarrow> reached prog" where
  "act tz owner sn fs findings expected48h now =
     (let stop = stopped True (Some (sn_settings sn)) in
      proceed stop (for_each (\<lambda>o'. ask_done (Call (ClearBlock (Inr (op_id o'))))) (sn_operations sn)) (\<lambda>_.
      proceed stop (recordFindings sn findings) (\<lambda>_.
      proceed stop ask_snapshot (\<lambda>refreshed. decide tz owner (decided sn refreshed) fs expected48h now))))"

definition completion :: "int \<Rightarrow> finding list \<Rightarrow> bool \<Rightarrow> int \<Rightarrow> maintenance_route" where
  "completion checkID findings reliable revision = CheckComplete (Inr (checkID,
     (if findings = [] then ''completed_clean'' else ''completed_with_anomalies''), findingsSummary findings,
     (if reliable then ''REGOLARE'' else ''APPRENDIMENTO''), revision, findings))"

text \<open>The findings of the cycle and its completion.\<close>

definition evaluate :: "go_math \<Rightarrow> tzdb \<Rightarrow> string \<Rightarrow> int \<Rightarrow> time \<Rightarrow> snapshot \<Rightarrow> filesystem \<Rightarrow> finding list \<Rightarrow> reached prog" where
  "evaluate M tz owner checkID now sn fs fileFinds =
     (let stop = stopped False (Some (sn_settings sn)) in
      proceed stop (monitor M tz sn checkID now) (\<lambda>(monitoring, reliable, expected48h, required).
      proceed stop (if reliable then lift_error (capacity_findings fs sn expected48h required) else Finish (Inr [])) (\<lambda>space.
      let findings = fileFinds @ monitoring @ space in
      proceed stop (ask_done (Call (completion checkID findings reliable (revision_of sn now)))) (\<lambda>_.
      act tz owner sn fs findings expected48h now))))"

definition filesystem_finding :: "string \<Rightarrow> maintenance_route" where
  "filesystem_finding e = AnomalyOpen (Inr (''filesystem:archive'', ''filesystem'', [], [], e, None))"

definition committed_ops :: "snapshot \<Rightarrow> operation list" where
  "committed_ops sn = filter (\<lambda>o'. op_state_of o' = Authorized \<and> op_execution_committed o') (sn_operations sn)"

definition inspect :: "go_math \<Rightarrow> tzdb \<Rightarrow> string \<Rightarrow> int \<Rightarrow> time \<Rightarrow> snapshot \<Rightarrow> reached prog" where
  "inspect M tz owner checkID now sn =
     Ask MeasureFilesystem (\<lambda>r. case r of
         TheFilesystem fs \<Rightarrow>
           proceed (stopped False (Some (sn_settings sn))) (ask_findings (AuditFiles sn)) (\<lambda>found.
           proceed (stopped False (Some (sn_settings sn))) ask_snapshot (\<lambda>verified.
           proceed (stopped False (Some (sn_settings sn))) (ask_findings (VerifyFiles found verified)) (\<lambda>fileFinds.
           evaluate M tz owner checkID now verified fs fileFinds)))
       | _ \<Rightarrow> (let e = (case r of Failed e \<Rightarrow> e | _ \<Rightarrow> no_answer) in
           bind_prog (ignoring (Call (filesystem_finding e)) ()) (\<lambda>_. stopped False (Some (sn_settings sn)) e)))"

definition cycle :: "go_math \<Rightarrow> tzdb \<Rightarrow> string \<Rightarrow> lease \<Rightarrow> check_row \<Rightarrow> reached prog" where
  "cycle M tz owner l check =
     proceed (stopped False None) ask_snapshot (\<lambda>sn0.
     let stop0 = stopped False (Some (sn_settings sn0)) in
     proceed stop0 (saveLocalState (sn_settings sn0)) (\<lambda>_.
     proceed stop0 reconcileWriterFailure (\<lambda>_.
     proceed stop0 (reconcile l (sn_operations sn0)) (\<lambda>_.
     proceed stop0 ask_snapshot (\<lambda>sn1.
     let stop1 = stopped False (Some (sn_settings sn1)) in
     proceed stop1 (ask_done (Execute (committed_ops sn1) (sn_backups sn1))) (\<lambda>_.
     proceed stop1 (if committed_ops sn1 = [] then Finish (Inr sn1) else ask_snapshot) (\<lambda>sn.
     inspect M tz owner (mc_id check) (of_unix (mc_started_at check)) sn)))))))"

text \<open>The deferred functions of RunOnce: an unfinished check is failed, then the lease is released, then mail is delivered.\<close>

definition check_failed :: "check_row \<Rightarrow> reached \<Rightarrow> maintenance_route" where
  "check_failed check r = CheckFail (Inr (mc_id check, case re_error r of None \<Rightarrow> ''controllo interrotto'' | Some e \<Rightarrow> e))"

definition checked_cycle :: "go_math \<Rightarrow> tzdb \<Rightarrow> string \<Rightarrow> lease \<Rightarrow> reached prog" where
  "checked_cycle M tz owner l =
     proceed (stopped True None) (ask_for (\<lambda>r. case r of Answered (ACheck k) \<Rightarrow> Some k | _ \<Rightarrow> None) (Call CheckStart)) (\<lambda>check.
     bind_prog (cycle M tz owner l check) (\<lambda>r. if re_completed r then Finish r else ignoring (Call (check_failed check r)) r))"

definition RunOnce :: "go_math \<Rightarrow> tzdb \<Rightarrow> string \<Rightarrow> string option prog" where
  "RunOnce M tz owner =
     bind_prog (and_then (ask_done LockExecution) (\<lambda>_.
       ask_for (\<lambda>r. case r of Answered (ALease l) \<Rightarrow> Some l | _ \<Rightarrow> None) (Call (Lease (Inr (owner, 0, maintenanceLeaseSeconds)))))) (\<lambda>x. case x of
         Inl e \<Rightarrow> Finish (Some e)
       | Inr l \<Rightarrow>
           bind_prog (checked_cycle M tz owner l) (\<lambda>r.
           bind_prog (ignoring (Call (LeaseRelease (Inr l))) r) (\<lambda>r.
           (case re_settings r of None \<Rightarrow> Finish (re_error r)
            | Some st \<Rightarrow> bind_prog (deliverMail st) (\<lambda>m. Finish (case re_error r of Some e \<Rightarrow> Some e | None \<Rightarrow> (case m of Inl e \<Rightarrow> Some e | Inr _ \<Rightarrow> None)))))))"

end
