(* ===== verification/Codec.thy ===== *)
theory Codec
  imports Model
begin

text \<open>
  The encodings of internal/model/model.go: hex.EncodeToString and hex.DecodeString,
  base64.RawURLEncoding.EncodeToString, and what json.Marshal makes of the metadata. Random
  identifiers are these encodings of the bytes rand.Read delivers, which are an argument. They are shown
  to pass the validators of every boundary, and the metadata header to stay within the limit the
  receiver puts on it.
\<close>

subsection \<open>Hexadecimal\<close>

definition hex_digit :: "nat \<Rightarrow> char" where
  "hex_digit d = char_of (if d < 10 then 48 + d else 87 + d)"

definition hex_encode :: "string \<Rightarrow> string" where
  "hex_encode s = concat (map (\<lambda>c. [hex_digit (byte_of c div 16), hex_digit (byte_of c mod 16)]) s)"

definition hex_value :: "char \<Rightarrow> nat option" where
  "hex_value c = (let b = byte_of c in
     if 48 \<le> b \<and> b \<le> 57 then Some (b - 48) else if 97 \<le> b \<and> b \<le> 102 then Some (b - 87)
     else if 65 \<le> b \<and> b \<le> 70 then Some (b - 55) else None)"

text \<open>DecodeString: None is its error.\<close>

fun hex_decode :: "string \<Rightarrow> string option" where
  "hex_decode [] = Some []"
| "hex_decode [c] = None"
| "hex_decode (a # b # s) =
     (case (hex_value a, hex_value b, hex_decode s) of
        (Some x, Some y, Some r) \<Rightarrow> Some (char_of (16 * x + y) # r) | _ \<Rightarrow> None)"

definition lower_ascii :: "char \<Rightarrow> char" where
  "lower_ascii c = (let b = byte_of c in if 65 \<le> b \<and> b \<le> 90 then char_of (b + 32) else c)"

subsection \<open>Base64\<close>

text \<open>The alphabet of RFC 4648 for URLs, without padding.\<close>

definition b64_char :: "nat \<Rightarrow> char" where
  "b64_char d = char_of (if d < 26 then 65 + d else if d < 52 then 71 + d else if d < 62 then d - 4 else if d = 62 then 45 else 95)"

fun b64_encode :: "string \<Rightarrow> string" where
  "b64_encode [] = []"
| "b64_encode [a] = (let x = byte_of a in [b64_char (x div 4), b64_char (x mod 4 * 16)])"
| "b64_encode [a, b] = (let x = byte_of a; y = byte_of b in
     [b64_char (x div 4), b64_char (x mod 4 * 16 + y div 16), b64_char (y mod 16 * 4)])"
| "b64_encode (a # b # c # s) = (let x = byte_of a; y = byte_of b; z = byte_of c in
     [b64_char (x div 4), b64_char (x mod 4 * 16 + y div 16), b64_char (y mod 16 * 4 + z div 64), b64_char (z mod 64)] @ b64_encode s)"

subsection \<open>Random identifiers\<close>

definition NewToken :: "string res \<Rightarrow> string res" where
  "NewToken b = (case b of Inl e \<Rightarrow> Inl e | Inr bytes \<Rightarrow> Inr (''obk_'' @ b64_encode bytes))"

definition NewID :: "string res \<Rightarrow> string res" where
  "NewID b = (case b of Inl e \<Rightarrow> Inl e | Inr bytes \<Rightarrow> Inr (hex_encode bytes))"

definition NewIdempotencyKey :: "string res \<Rightarrow> string res" where
  "NewIdempotencyKey b = (case b of Inl e \<Rightarrow> Inl e | Inr bytes \<Rightarrow> Inr (''obi_'' @ b64_encode bytes))"

subsection \<open>Metadata\<close>

definition json_unicode :: "nat \<Rightarrow> string" where
  "json_unicode r = [CHR 92, CHR ''u'', hex_digit (r div 4096 mod 16), hex_digit (r div 256 mod 16), hex_digit (r div 16 mod 16), hex_digit (r mod 16)]"

text \<open>json.Marshal of a rune: quote and backslash, the controls with a letter of their own, the other
  controls, the three characters of HTML, the two line separators, and bytes that are not UTF-8.\<close>

definition json_rune :: "nat \<times> bool \<times> string \<Rightarrow> string" where
  "json_rune x = (case x of (r, ok, raw) \<Rightarrow>
     if \<not> ok then json_unicode 0xFFFD
     else if r = 34 \<or> r = 92 then CHR 92 # raw
     else if r = 8 then [CHR 92, CHR ''b''] else if r = 12 then [CHR 92, CHR ''f'']
     else if r = 10 then [CHR 92, CHR ''n''] else if r = 13 then [CHR 92, CHR ''r''] else if r = 9 then [CHR 92, CHR ''t'']
     else if r < 32 \<or> r = 60 \<or> r = 62 \<or> r = 38 \<or> r = 0x2028 \<or> r = 0x2029 then json_unicode r
     else raw)"

definition json_string :: "string \<Rightarrow> string" where
  "json_string s = [CHR 34] @ concat (map json_rune (chunks s)) @ [CHR 34]"

definition json_field :: "string \<Rightarrow> string \<Rightarrow> string" where
  "json_field name v = json_string name @ '':'' @ json_string v"

definition json_metadata :: "metadata \<Rightarrow> string" where
  "json_metadata m = ''{'' @ json_field ''description'' (Description m) @ '','' @ json_field ''original_name'' (OriginalName m)
     @ (if ContentFormat m = [] then [] else '','' @ json_field ''content_format'' (ContentFormat m)) @ ''}''"

definition EncodeMetadata :: "metadata \<Rightarrow> string res" where
  "EncodeMetadata m = (case Metadata_Validate m of Inl e \<Rightarrow> Inl e | Inr _ \<Rightarrow> Inr (b64_encode (json_metadata m)))"

subsection \<open>Hexadecimal is what the validators accept\<close>

lemma byte_of_char [simp]: "n < 256 \<Longrightarrow> byte_of (char_of n) = n"
  by (simp add: byte_of_def)

lemma char_of_byte [simp]: "char_of (byte_of c) = c"
  by (simp add: byte_of_def)

lemma hex_digit_lower: "d < 16 \<Longrightarrow> is_lower_hex (hex_digit d)"
  by (auto simp: is_lower_hex_def hex_digit_def)

lemma hex_value_digit [simp]: "d < 16 \<Longrightarrow> hex_value (hex_digit d) = Some d"
  by (auto simp: hex_value_def hex_digit_def)

lemma byte_div_16 [simp]: "byte_of c div 16 < 16"
  using byte_of_less [of c] by (simp add: less_mult_imp_div_less)

lemma hex_encode_simps [simp]:
  "hex_encode [] = []" "hex_encode (c # s) = hex_digit (byte_of c div 16) # hex_digit (byte_of c mod 16) # hex_encode s"
  by (simp_all add: hex_encode_def)

lemma length_hex_encode [simp]: "length (hex_encode s) = 2 * length s"
  by (induction s) auto

lemma hex_encode_lower: "list_all is_lower_hex (hex_encode s)"
  by (induction s) (simp_all add: hex_digit_lower)

lemma hex_decode_encode [simp]: "hex_decode (hex_encode s) = Some s"
  by (induction s) simp_all

lemma hex_value_lower: "is_lower_hex c \<Longrightarrow> \<exists>v. hex_value c = Some v \<and> v < 16"
  by (auto simp: is_lower_hex_def hex_value_def Let_def)

lemma lower_hex_same: "hex_value c \<noteq> None \<Longrightarrow> lower_ascii c = c \<longleftrightarrow> is_lower_hex c"
proof -
  have "char_of (byte_of c + 32) \<noteq> c" if "65 \<le> byte_of c" "byte_of c \<le> 70"
  proof
    assume "char_of (byte_of c + 32) = c"
    then have "byte_of (char_of (byte_of c + 32)) = byte_of c" by simp
    then show False using that by simp
  qed
  then show "hex_value c \<noteq> None \<Longrightarrow> ?thesis" by (auto simp: lower_ascii_def is_lower_hex_def hex_value_def Let_def split: if_splits)
qed

text \<open>The validators test what DecodeString and ToLower test.\<close>

lemma hex_decodes:
  "(\<exists>b. hex_decode s = Some b \<and> length b = n) \<and> map lower_ascii s = s \<longleftrightarrow> length s = 2 * n \<and> list_all is_lower_hex s"
proof (induction s arbitrary: n rule: hex_decode.induct)
  case (3 a b s)
  note IH = "3.IH"
  show ?case
  proof (cases n)
    case 0
    then show ?thesis by (auto split: option.splits)
  next
    case (Suc k)
    have "(\<exists>r. hex_decode (a # b # s) = Some r \<and> length r = n) \<longleftrightarrow>
        hex_value a \<noteq> None \<and> hex_value b \<noteq> None \<and> (\<exists>r. hex_decode s = Some r \<and> length r = k)"
      using Suc by (auto split: option.splits)
    moreover have "hex_value a \<noteq> None \<and> lower_ascii a = a \<longleftrightarrow> is_lower_hex a" "hex_value b \<noteq> None \<and> lower_ascii b = b \<longleftrightarrow> is_lower_hex b"
      using lower_hex_same hex_value_lower by (metis option.distinct(1))+
    ultimately show ?thesis using IH [of k] Suc by auto
  qed
qed auto

lemma ValidDigest_decodes: "ValidDigest s \<longleftrightarrow> (\<exists>b. hex_decode s = Some b \<and> length b = 32) \<and> map lower_ascii s = s"
  using hex_decodes [of s 32] by (simp add: ValidDigest_def)

subsection \<open>Generated identifiers\<close>

definition b64_byte :: "char \<Rightarrow> bool" where
  "b64_byte c \<longleftrightarrow> idem_rune (byte_of c)"

lemma b64_char_byte [simp]: "d < 64 \<Longrightarrow> b64_byte (b64_char d)"
  by (auto simp: b64_byte_def b64_char_def idem_rune_def)

lemma b64_parts [simp]:
  "byte_of a div 4 < 64" "byte_of a mod 4 * 16 < 64" "byte_of a mod 4 * 16 + byte_of b div 16 < 64"
  "byte_of b mod 16 * 4 < 64" "byte_of b mod 16 * 4 + byte_of c div 64 < 64"
proof -
  have q: "byte_of a div 4 < 64" "byte_of b div 16 < 16" "byte_of c div 64 < 4"
    using byte_of_less [of a] byte_of_less [of b] byte_of_less [of c] by (simp_all add: less_mult_imp_div_less)
  have m: "byte_of a mod 4 < 4" "byte_of b mod 16 < 16" by simp_all
  show "byte_of a div 4 < 64" "byte_of a mod 4 * 16 < 64" "byte_of a mod 4 * 16 + byte_of b div 16 < 64"
    "byte_of b mod 16 * 4 < 64" "byte_of b mod 16 * 4 + byte_of c div 64 < 64"
    using q m by linarith+
qed

lemma b64_encode_bytes: "list_all b64_byte (b64_encode s)"
  by (induction s rule: b64_encode.induct) (simp_all add: Let_def)

lemma length_b64_encode: "length (b64_encode s) = (4 * length s + 2) div 3"
  by (induction s rule: b64_encode.induct) (simp_all add: Let_def)

lemma b64_encode_Nil [simp]: "b64_encode s = [] \<longleftrightarrow> s = []"
  by (cases s rule: b64_encode.cases) (simp_all add: Let_def)

lemma b64_ascii: "b64_byte c \<Longrightarrow> byte_of c < 0x80 \<and> \<not> byte_of c < 33 \<and> \<not> 126 < byte_of c"
  by (auto simp: b64_byte_def idem_rune_def)

lemma b64_text:
  assumes "list_all b64_byte s"
  shows "runes s = map byte_of s"
  using assms b64_ascii by (intro runes_ascii) (auto simp: list_all_iff)

text \<open>Generated identifiers are well formed: whatever bytes the random source delivers, a new backup
  identifier passes ValidID and decodes to those bytes, a new key passes ValidToken and a new idempotency key
  passes ValidIdempotencyKey.\<close>

lemma generated_identifiers_valid:
  assumes "length r16 = 16" "length r32 = 32"
  shows "(\<exists>i. NewID (Inr r16) = Inr i \<and> ValidID i \<and> hex_decode i = Some r16)
    \<and> (\<exists>t. NewToken (Inr r32) = Inr t \<and> ValidToken t) \<and> (\<exists>k. NewIdempotencyKey (Inr r32) = Inr k \<and> ValidIdempotencyKey k)"
proof -
  let ?e = "b64_encode r32"
  have l: "length ?e = 43" using assms(2) by (simp add: length_b64_encode)
  have all: "list_all b64_byte (''obk_'' @ ?e)" "list_all b64_byte (''obi_'' @ ?e)"
    using b64_encode_bytes [of r32] by (simp_all add: b64_byte_def idem_rune_def byte_of_def)
  have "ValidID (hex_encode r16)" using assms(1) hex_encode_lower by (simp add: ValidID_def)
  moreover have "ValidToken (''obk_'' @ ?e)"
    using l all(1) b64_text [OF all(1)] b64_ascii unfolding ValidToken_def by (auto simp: list_all_iff)
  moreover have "ValidIdempotencyKey (''obi_'' @ ?e)"
    using l all(2) b64_text [OF all(2)] unfolding ValidIdempotencyKey_def by (auto simp: list_all_iff b64_byte_def)
  ultimately show ?thesis by (simp add: NewID_def NewToken_def NewIdempotencyKey_def)
qed

subsection \<open>The size of the metadata header\<close>

lemma decode_rune_short: "decode_rune bs = Some (r, w) \<Longrightarrow> w \<le> 4"
  by (cases bs) (auto simp: Let_def seq_len_def split: if_splits list.splits prod.splits)

lemma chunk_width: "\<forall>(r, ok, raw) \<in> set (chunks s). length raw \<le> 4"
proof (induction s rule: chunks.induct)
  case (1 s)
  show ?case
  proof (cases "decode_rune (map byte_of s)")
    case None
    then show ?thesis using 1 by (cases "s = []") (auto simp: chunks.simps [of s])
  next
    case (Some x)
    then obtain r w where x: "decode_rune (map byte_of s) = Some (r, w)" by (cases x) auto
    then have "w \<le> 4" by (rule decode_rune_short)
    then show ?thesis using 1(2) [of "(r, w)" r w] x by (cases "s = []") (auto simp: chunks.simps [of s])
  qed
qed

lemma json_rune_length:
  assumes "x \<in> set (chunks s)"
  shows "length (json_rune x) \<le> 6"
proof -
  obtain r ok raw where "x = (r, ok, raw)" by (cases x)
  moreover from this have "length raw \<le> 4" using chunk_width [of s] assms by auto
  ultimately show ?thesis by (auto simp: json_rune_def json_unicode_def)
qed

lemma json_string_length: "length (json_string s) \<le> 6 * rune_count s + 2"
proof -
  have "length (concat (map json_rune xs)) \<le> 6 * length xs" if "\<And>x. x \<in> set xs \<Longrightarrow> length (json_rune x) \<le> 6" for xs
    using that by (induction xs) (auto simp: add_mono)
  from this [of "chunks s"] json_rune_length show ?thesis by (simp add: json_string_def rune_count_def runes_def)
qed

lemma EncodeMetadataE:
  assumes "EncodeMetadata m = Inr s"
  obtains "s = b64_encode (json_metadata m)" "rune_count (Description m) \<le> 1000" "rune_count (OriginalName m) \<le> 255"
    "ContentFormat m = [] \<or> ContentFormat m = ContentFormatAgeV1"
  using assms by (auto simp: EncodeMetadata_def Metadata_Validate_def Let_def split: sum.splits if_splits)

lemma field_names: "rune_count ''description'' = 11" "rune_count ''original_name'' = 13" "rune_count ''content_format'' = 14"
    "rune_count ContentFormatAgeV1 = 6"
  by code_simp+

lemma json_metadata_length:
  assumes "rune_count (Description m) \<le> 1000" "rune_count (OriginalName m) \<le> 255" "ContentFormat m = [] \<or> ContentFormat m = ContentFormatAgeV1"
  shows "length (json_metadata m) \<le> 7900"
proof -
  note b = json_string_length [of "''description''"] json_string_length [of "''original_name''"] json_string_length [of "''content_format''"]
    json_string_length [of ContentFormatAgeV1] json_string_length [of "Description m"] json_string_length [of "OriginalName m"]
  show ?thesis using assms b by (auto simp: json_metadata_def json_field_def field_names)
qed

text \<open>The metadata the client accepts always reach the receiver: the header EncodeMetadata makes of them is within
  the 12 KiB DecodeMetadata reads, whatever the characters, and has only characters of the URL alphabet.\<close>

lemma EncodeMetadata_fits:
  assumes "EncodeMetadata m = Inr s"
  shows "length s \<le> 12 * 1024 \<and> list_all (\<lambda>c. idem_rune (byte_of c)) s"
  using assms
proof (rule EncodeMetadataE)
  assume h: "s = b64_encode (json_metadata m)" "rune_count (Description m) \<le> 1000" "rune_count (OriginalName m) \<le> 255"
    "ContentFormat m = [] \<or> ContentFormat m = ContentFormatAgeV1"
  show ?thesis using json_metadata_length [OF h(2-4)] b64_encode_bytes [of "json_metadata m"]
    by (simp add: h(1) length_b64_encode b64_byte_def list_all_iff)
qed

end
