(* ===== verification/Recovery.thy ===== *)
theory Recovery
  imports Codec Ingest
begin

text \<open>
  Encryption before an upload and recovery from an archive: internal/cryptfile/cryptfile.go and
  cmd/onlybackup-recover. The file system of the machine is an association list from paths to files; a hard
  link gives a second name to a file that is not written again, so that the two names are equal entries.
  Every system call takes a failure from an argument, copying included. The age library is not part of the
  program: what the code calls of it is the record \<open>age\<close>, and what its documentation promises of a key pair
  is \<open>age_documented\<close>. Texts that only wrap the error of a call are not modelled. The name os.CreateTemp chooses
  is an argument, and a context cancelled during a copy is a failure of that copy.
\<close>

subsection \<open>The age library\<close>

text \<open>Encrypt is the sequence of writes it makes for a recipient, its randomness and a plaintext. Decrypt fails on
  the header, or delivers a plaintext and whether its stream ended without error.\<close>

record ('r, 'i) age =
  ParseX25519Recipient :: "string \<Rightarrow> 'r option"
  Encrypt :: "'r \<Rightarrow> string \<Rightarrow> string \<Rightarrow> string list"
  ParseIdentities :: "string \<Rightarrow> 'i list option"
  Decrypt :: "'i list \<Rightarrow> string \<Rightarrow> (string \<times> bool) option"
  identity_String :: "'i \<Rightarrow> string"
  recipient_String :: "'i \<Rightarrow> string"

definition identity_text :: "('r, 'i) age \<Rightarrow> 'i \<Rightarrow> string" where
  "identity_text A i = ''# created by onlybackup-recover'' @ [CHR 10] @ identity_String A i @ [CHR 10]"

definition age_documented :: "('r, 'i) age \<Rightarrow> 'i \<Rightarrow> bool" where
  "age_documented A i \<longleftrightarrow> ParseIdentities A (identity_text A i) = Some [i] \<and> length (identity_text A i) \<le> 64 * 1024
     \<and> (\<exists>r. ParseX25519Recipient A (trim_space (recipient_String A i)) = Some r
          \<and> (\<forall>rand p. Decrypt A [i] (concat (Encrypt A r rand p)) = Some (p, True)))"

subsection \<open>Local files\<close>

record local_file =
  lf_bytes :: string
  lf_mode :: int

datatype local_node = LocalFile local_file | LocalOther

type_synonym files = "(string \<times> local_node) list"

definition file_at :: "string \<Rightarrow> files \<Rightarrow> local_node option" where
  "file_at p fs = map_of fs p"

datatype file_call = OpenIdentity | StatIdentity | ReadIdentity | OpenSource | StatSource | CreateFirst | RestrictFirst
  | CopyFirst | CloseEncrypted | CloseSource | SyncFirst | StatFirst | SeekFirst | CloseFirst | RemoveFirst
  | CreateSecond | RestrictSecond | CopySecond | SyncSecond | CloseSecond | RemoveSecond | LinkOutput | SyncOutput
  | OpenReceipt | StatReceipt | OpenState | OpenKey | StatKey | ReadKey | ConfigureTls | CheckContext

type_synonym faults = "file_call \<Rightarrow> io_error option"

definition not_regular :: io_error where "not_regular = IOError ''richiesto un file regolare non simbolico''"

definition OpenRegular :: "io_error option \<Rightarrow> string \<Rightarrow> files \<Rightarrow> io_error + local_file" where
  "OpenRegular fault p fs =
     (case fault of Some e \<Rightarrow> Inl e
      | None \<Rightarrow> (case file_at p fs of None \<Rightarrow> Inl ENOENT | Some LocalOther \<Rightarrow> Inl not_regular | Some (LocalFile f) \<Rightarrow> Inr f))"

text \<open>os.CreateTemp and open with O_CREATE and O_EXCL: a new empty file only its owner may read.\<close>

definition create_file :: "io_error option \<Rightarrow> string \<Rightarrow> files \<Rightarrow> io_error + files" where
  "create_file fault p fs =
     (case fault of Some e \<Rightarrow> Inl e
      | None \<Rightarrow> if file_at p fs \<noteq> None then Inl EEXIST else Inr (AList.update p (LocalFile \<lparr>lf_bytes = [], lf_mode = 384\<rparr>) fs))"

definition write_file :: "string \<Rightarrow> string \<Rightarrow> files \<Rightarrow> files" where
  "write_file p bytes fs =
     (case file_at p fs of Some (LocalFile f) \<Rightarrow> AList.update p (LocalFile (f\<lparr>lf_bytes := lf_bytes f @ bytes\<rparr>)) fs | _ \<Rightarrow> fs)"

definition discard :: "io_error option \<Rightarrow> string \<Rightarrow> files \<Rightarrow> files" where
  "discard fault p fs = (case fault of Some _ \<Rightarrow> fs | None \<Rightarrow> AList.delete p fs)"

definition CheckPrivate :: "local_file \<Rightarrow> bool" where
  "CheckPrivate f \<longleftrightarrow> lf_mode f mod 64 = 0"

subsection \<open>Encryption\<close>

definition ErrCiphertextLimit :: io_error where
  "ErrCiphertextLimit = IOError ''il file cifrato supera il limite temporaneo configurato''"

text \<open>cappedWriter: what was written and the first refusal.\<close>

fun capped_write :: "int \<Rightarrow> string list \<Rightarrow> string \<times> io_error option" where
  "capped_write remaining [] = ([], None)"
| "capped_write remaining (p # ps) =
     (if int (length p) > remaining then ([], Some ErrCiphertextLimit)
      else (case capped_write (remaining - int (length p)) ps of (w, e) \<Rightarrow> (p @ w, e)))"

record prepared =
  pr_path :: string
  pr_size :: int
  pr_sha256 :: string

definition first_fault :: "faults \<Rightarrow> file_call list \<Rightarrow> io_error option" where
  "first_fault F cs = (case filter (\<lambda>k. F k \<noteq> None) cs of [] \<Rightarrow> None | k # _ \<Rightarrow> F k)"

definition EncryptToTemp :: "('r, 'i) age \<Rightarrow> env \<Rightarrow> faults \<Rightarrow> string \<Rightarrow> string \<Rightarrow> string \<Rightarrow> string \<Rightarrow> int \<Rightarrow> files
    \<Rightarrow> (io_error + prepared) \<times> files" where
  "EncryptToTemp A E F rand source recipientText temp maxBytes fs =
     (if maxBytes \<le> 0 then (Inl (IOError ''il limite del temporaneo cifrato deve essere positivo''), fs)
      else (case ParseX25519Recipient A (trim_space recipientText) of
        None \<Rightarrow> (Inl (IOError ''destinatario age non valido''), fs)
      | Some r \<Rightarrow> (case OpenRegular (F OpenSource) source fs of
        Inl e \<Rightarrow> (Inl e, fs)
      | Inr f \<Rightarrow> (case F StatSource of Some e \<Rightarrow> (Inl e, fs) | None \<Rightarrow>
        if lf_bytes f = [] then (Inl (IOError ''richiesto un file regolare non vuoto; streaming non ancora disponibile''), fs)
        else (case create_file (F CreateFirst) temp fs of
          Inl e \<Rightarrow> (Inl e, fs)
        | Inr fs1 \<Rightarrow>
          (let (written, refused) = capped_write maxBytes (Encrypt A r rand (lf_bytes f));
               fs2 = write_file temp written fs1;
               err = (case first_fault F [RestrictFirst, CopyFirst] of Some e \<Rightarrow> Some e
                 | None \<Rightarrow> (case refused of Some e \<Rightarrow> Some e
                 | None \<Rightarrow> (case first_fault F [CloseEncrypted, SyncFirst, StatFirst] of Some e \<Rightarrow> Some e
                 | None \<Rightarrow> if written = [] \<or> int (length written) > maxBytes then Some ErrCiphertextLimit else F SeekFirst)))
           in (case err of
                 Some e \<Rightarrow> (Inl e, discard (F RemoveFirst) temp fs2)
               | None \<Rightarrow> (Inr \<lparr>pr_path = temp, pr_size = int (length written), pr_sha256 = TokenHash E written\<rparr>, fs2))))))))"

subsection \<open>Identities\<close>

definition maxIdentityBytes :: nat where "maxIdentityBytes = 64 * 1024"

definition ReadIdentities :: "('r, 'i) age \<Rightarrow> faults \<Rightarrow> string \<Rightarrow> files \<Rightarrow> io_error + 'i list" where
  "ReadIdentities A F path fs =
     (case OpenRegular (F OpenIdentity) path fs of Inl e \<Rightarrow> Inl e
      | Inr f \<Rightarrow> (case F StatIdentity of Some e \<Rightarrow> Inl e | None \<Rightarrow>
          if \<not> CheckPrivate f then Inl (IOError ''il file deve essere accessibile solo al proprietario (chmod 600)'')
          else if length (lf_bytes f) > maxIdentityBytes then Inl (IOError ''file identita troppo grande'')
          else (case F ReadIdentity of Some e \<Rightarrow> Inl e
            | None \<Rightarrow> (case ParseIdentities A (take (maxIdentityBytes + 1) (lf_bytes f)) of
                None \<Rightarrow> Inl (IOError ''file identita age non valido'')
              | Some [] \<Rightarrow> Inl (IOError ''il file non contiene identita age'')
              | Some ids \<Rightarrow> Inr ids))))"

text \<open>The new identity is an argument: GenerateX25519Identity draws it at random, or fails.\<close>

definition GenerateIdentity :: "('r, 'i) age \<Rightarrow> faults \<Rightarrow> io_error + 'i \<Rightarrow> string \<Rightarrow> files \<Rightarrow> (io_error + string) \<times> files" where
  "GenerateIdentity A F drawn path fs =
     (case drawn of Inl e \<Rightarrow> (Inl e, fs)
      | Inr i \<Rightarrow> (case create_file (F CreateFirst) path fs of
          Inl e \<Rightarrow> (Inl e, fs)
        | Inr fs1 \<Rightarrow> (case first_fault F [RestrictFirst, CopyFirst, SyncFirst, CloseFirst, SyncOutput] of
            Some e \<Rightarrow> (Inl e, discard (F RemoveFirst) path fs1)
          | None \<Rightarrow> (Inr (recipient_String A i), write_file path (identity_text A i) fs1))))"

subsection \<open>Verification and recovery\<close>

definition maxArchivedBytes :: int where "maxArchivedBytes = 2 ^ 60"

definition validateExpected :: "int \<Rightarrow> string \<Rightarrow> io_error option" where
  "validateExpected sz digest =
     (if sz \<le> 0 \<or> sz > maxArchivedBytes then Some (IOError ''dimensione archiviata non valida'')
      else (case hex_decode digest of
          None \<Rightarrow> Some (IOError ''SHA-256 archiviato non valido'')
        | Some b \<Rightarrow> if length b \<noteq> 32 \<or> digest \<noteq> map lower_ascii digest then Some (IOError ''SHA-256 archiviato non valido'') else None))"

definition integrity_failed :: io_error where "integrity_failed = IOError ''verifica integrita del contenuto archiviato fallita''"

text \<open>What io.Copy takes from the source through a LimitReader, and the comparison with the catalogue.\<close>

definition limited :: "int \<Rightarrow> local_file \<Rightarrow> string" where
  "limited sz f = take (nat (sz + 1)) (lf_bytes f)"

definition content_error :: "env \<Rightarrow> int \<Rightarrow> string \<Rightarrow> string \<Rightarrow> io_error option" where
  "content_error E sz digest bytes = (if int (length bytes) \<noteq> sz \<or> TokenHash E bytes \<noteq> digest then Some integrity_failed else None)"

definition Verify_file :: "env \<Rightarrow> faults \<Rightarrow> string \<Rightarrow> int \<Rightarrow> string \<Rightarrow> files \<Rightarrow> io_error option" where
  "Verify_file E F source sz digest fs =
     (case validateExpected sz digest of Some e \<Rightarrow> Some e
      | None \<Rightarrow> (case OpenRegular (F OpenSource) source fs of Inl e \<Rightarrow> Some e
          | Inr f \<Rightarrow> (case F CopyFirst of Some e \<Rightarrow> Some e | None \<Rightarrow> content_error E sz digest (limited sz f))))"

definition publish :: "faults \<Rightarrow> string \<Rightarrow> string \<Rightarrow> files \<Rightarrow> io_error option \<times> files" where
  "publish F staged out fs =
     (case F LinkOutput of Some e \<Rightarrow> (Some e, fs)
      | None \<Rightarrow> (case file_at staged fs of None \<Rightarrow> (Some ENOENT, fs)
          | Some n \<Rightarrow> if file_at out fs \<noteq> None then (Some (IOError ''il file di destinazione esiste gia''), fs)
              else (F SyncOutput, AList.update out n fs)))"

text \<open>The part of Recover after the verified copy, with its own deferred removal.\<close>

definition export_plain :: "('r, 'i) age \<Rightarrow> faults \<Rightarrow> string \<Rightarrow> string \<Rightarrow> 'i list \<Rightarrow> string \<Rightarrow> files \<Rightarrow> io_error option \<times> files" where
  "export_plain A F plain out ids verified fs =
     (case create_file (F CreateSecond) plain fs of Inl e \<Rightarrow> (Some e, fs)
      | Inr fs1 \<Rightarrow>
        (let (err, fs2) =
           (case F RestrictSecond of Some e \<Rightarrow> (Some e, fs1)
            | None \<Rightarrow> (case Decrypt A ids verified of None \<Rightarrow> (Some (IOError ''decifratura age''), fs1)
            | Some (p, ended) \<Rightarrow>
                (let fs3 = write_file plain p fs1 in
                 if \<not> ended then (Some (IOError ''decifratura age''), fs3)
                 else (case first_fault F [CopySecond, SyncSecond, CloseSecond] of Some e \<Rightarrow> (Some e, fs3) | None \<Rightarrow> publish F plain out fs3))))
         in (err, discard (F RemoveSecond) plain fs2)))"

text \<open>The first part of Recover: the stored bytes are copied into the first temporary and verified there.\<close>

definition copy_verified :: "env \<Rightarrow> faults \<Rightarrow> string \<Rightarrow> string \<Rightarrow> int \<Rightarrow> string \<Rightarrow> files \<Rightarrow> (io_error + string) \<times> files" where
  "copy_verified E F temp source sz digest fs =
     (case F RestrictFirst of Some e \<Rightarrow> (Inl e, fs) | None \<Rightarrow>
      (case OpenRegular (F OpenSource) source fs of Inl e \<Rightarrow> (Inl e, fs) | Inr f \<Rightarrow>
        (let bytes = limited sz f in
         ((case first_fault F [CopyFirst, CloseSource] of Some e \<Rightarrow> Inl e | None \<Rightarrow>
           (case content_error E sz digest bytes of Some e \<Rightarrow> Inl e | None \<Rightarrow>
           (case first_fault F [SyncFirst, SeekFirst] of Some e \<Rightarrow> Inl e | None \<Rightarrow> Inr bytes))),
          write_file temp bytes fs))))"

definition Recover_file :: "('r, 'i) age \<Rightarrow> env \<Rightarrow> faults \<Rightarrow> string \<Rightarrow> string \<Rightarrow> string \<Rightarrow> string \<Rightarrow> int \<Rightarrow> string \<Rightarrow> string \<Rightarrow> files
    \<Rightarrow> io_error option \<times> files" where
  "Recover_file A E F temp1 temp2 source out sz digest identityFile fs =
     (if out = [] then (Some (IOError ''file di destinazione obbligatorio''), fs)
      else (case validateExpected sz digest of Some e \<Rightarrow> (Some e, fs) | None \<Rightarrow>
      (case (if identityFile \<noteq> [] then ReadIdentities A F identityFile fs else Inr []) of Inl e \<Rightarrow> (Some e, fs) | Inr ids \<Rightarrow>
      (case create_file (F CreateFirst) temp1 fs of Inl e \<Rightarrow> (Some e, fs) | Inr fs1 \<Rightarrow>
        (let (err, fs2) =
           (case copy_verified E F temp1 source sz digest fs1 of
              (Inl e, fs3) \<Rightarrow> (Some e, fs3)
            | (Inr bytes, fs3) \<Rightarrow>
                if ids = [] then (case F CloseFirst of Some e \<Rightarrow> (Some e, fs3) | None \<Rightarrow> publish F temp1 out fs3)
                else export_plain A F temp2 out ids bytes fs3)
         in (err, discard (F RemoveFirst) temp1 fs2))))))"

subsection \<open>Laws of local files\<close>

lemma file_at_update [simp]: "file_at q (AList.update p n fs) = (if q = p then Some n else file_at q fs)"
  by (simp add: file_at_def update_conv')

lemma file_at_delete [simp]: "file_at q (AList.delete p fs) = (if q = p then None else file_at q fs)"
  by (simp add: file_at_def delete_conv')

lemma file_at_discard [simp]: "file_at q (discard fault p fs) = (if q = p \<and> fault = None then None else file_at q fs)"
  by (simp add: discard_def split: option.split)

lemma file_at_write: "file_at q (write_file p bytes fs) =
    (case file_at p fs of Some (LocalFile f) \<Rightarrow> if q = p then Some (LocalFile (f\<lparr>lf_bytes := lf_bytes f @ bytes\<rparr>)) else file_at q fs | _ \<Rightarrow> file_at q fs)"
  by (auto simp: write_file_def split: option.splits local_node.splits)

definition private_file :: "string \<Rightarrow> local_node" where
  "private_file bytes = LocalFile \<lparr>lf_bytes = bytes, lf_mode = 384\<rparr>"

lemma create_fileD:
  assumes "create_file fault p fs = Inr fs'"
  shows "fault = None \<and> file_at p fs = None \<and> (\<forall>q. file_at q fs' = (if q = p then Some (private_file []) else file_at q fs))"
  using assms by (auto simp: create_file_def private_file_def split: option.splits if_splits)

lemma create_file_fresh [simp]: "file_at p fs = None \<Longrightarrow> create_file None p fs = Inr (AList.update p (private_file []) fs)"
  by (simp add: create_file_def private_file_def)

lemma file_at_written [simp]:
  "file_at p fs = Some (private_file []) \<Longrightarrow> file_at q (write_file p bytes fs) = (if q = p then Some (private_file bytes) else file_at q fs)"
  by (simp add: file_at_write private_file_def)

lemma OpenRegularD: "OpenRegular fault p fs = Inr f \<Longrightarrow> fault = None \<and> file_at p fs = Some (LocalFile f)"
  by (auto simp: OpenRegular_def split: option.splits local_node.splits)

lemma OpenRegular_None [simp]: "file_at p fs = Some (LocalFile f) \<Longrightarrow> OpenRegular None p fs = Inr f"
  by (simp add: OpenRegular_def)

lemma first_fault_None [simp]: "first_fault (\<lambda>_. None) cs = None"
  by (simp add: first_fault_def)

lemma validateExpected_iff: "validateExpected sz digest = None \<longleftrightarrow> 0 < sz \<and> sz \<le> maxArchivedBytes \<and> ValidDigest digest"
  by (auto simp: validateExpected_def ValidDigest_decodes split: option.splits if_splits)

lemma content_errorD:
  assumes "content_error E sz digest (limited sz f) = None"
  shows "limited sz f = lf_bytes f \<and> int (length (lf_bytes f)) = sz \<and> TokenHash E (lf_bytes f) = digest"
proof -
  have l: "int (length (limited sz f)) = sz" "TokenHash E (limited sz f) = digest"
    using assms by (auto simp: content_error_def split: if_splits)
  have "length (lf_bytes f) \<le> nat (sz + 1)" using l(1) by (auto simp: limited_def min_def split: if_splits)
  then show ?thesis using l by (simp add: limited_def)
qed

lemma content_error_None:
  assumes "int (length (lf_bytes f)) = sz" "TokenHash E (lf_bytes f) = digest"
  shows "limited sz f = lf_bytes f \<and> content_error E sz digest (lf_bytes f) = None"
  using assms by (auto simp: limited_def content_error_def)

subsection \<open>Recovery publishes whole and verified files only\<close>

text \<open>What a stage may do to the tree: its temporary name aside, at most publish \<open>n\<close> under a name that was free, and
  then its error is none or that of the last synchronization.\<close>

definition publishes :: "faults \<Rightarrow> string set \<Rightarrow> string \<Rightarrow> local_node \<Rightarrow> io_error option \<Rightarrow> files \<Rightarrow> files \<Rightarrow> bool" where
  "publishes F temps out n err fs fs' \<longleftrightarrow> (\<forall>p. p \<notin> temps \<longrightarrow> p \<noteq> out \<longrightarrow> file_at p fs' = file_at p fs)
     \<and> (file_at out fs' = file_at out fs \<and> err \<noteq> None \<or> file_at out fs = None \<and> file_at out fs' = Some n \<and> err = F SyncOutput)"

lemma publishes_kept: "err \<noteq> None \<Longrightarrow> (\<And>p. p \<notin> temps \<Longrightarrow> file_at p fs' = file_at p fs) \<Longrightarrow> out \<notin> temps \<Longrightarrow> publishes F temps out n err fs fs'"
  by (simp add: publishes_def)

lemma publish_publishes:
  assumes "publish F staged out fs = (err, fs')" "file_at staged fs = Some n"
  shows "publishes F {} out n err fs fs'"
  using assms by (auto simp: publish_def publishes_def split: option.splits if_splits)

lemma publishes_temp:
  assumes "publishes F {} out n err fs1 fs2" "t \<noteq> out" "\<And>p. p \<noteq> t \<Longrightarrow> file_at p fs1 = file_at p fs"
  shows "publishes F {t} out n err fs (discard fault t fs2)"
  using assms by (auto simp: publishes_def)

lemma export_plain_publishes:
  assumes "export_plain A F plain out ids verified fs = (err, fs')" "plain \<noteq> out"
  shows "\<exists>p. publishes F {plain} out (private_file p) err fs fs' \<and> (file_at out fs' \<noteq> file_at out fs \<longrightarrow> Decrypt A ids verified = Some (p, True))
    \<and> (F RemoveSecond = None \<longrightarrow> file_at plain fs' = file_at plain fs)"
proof (cases "create_file (F CreateSecond) plain fs")
  case (Inl e)
  then show ?thesis using assms by (auto simp: export_plain_def publishes_def)
next
  case (Inr fs1)
  note c = create_fileD [OF Inr]
  have kept: ?thesis if "err \<noteq> None" "fs' = discard (F RemoveSecond) plain fs2" "\<And>q. q \<noteq> plain \<Longrightarrow> file_at q fs2 = file_at q fs" for fs2
    using that assms(2) c publishes_kept [of err "{plain}" fs' fs out F] by auto
  show ?thesis
  proof (cases "F RestrictSecond = None \<and> (\<exists>p. Decrypt A ids verified = Some (p, True)) \<and> first_fault F [CopySecond, SyncSecond, CloseSecond] = None")
    case True
    then obtain p where p: "F RestrictSecond = None" "Decrypt A ids verified = Some (p, True)" "first_fault F [CopySecond, SyncSecond, CloseSecond] = None" by auto
    let ?fs3 = "write_file plain p fs1"
    obtain fs2 where pub: "publish F plain out ?fs3 = (err, fs2)" "fs' = discard (F RemoveSecond) plain fs2"
      using assms(1) p by (auto simp: export_plain_def Inr split: prod.splits)
    have w: "file_at plain ?fs3 = Some (private_file p)" "\<And>q. q \<noteq> plain \<Longrightarrow> file_at q ?fs3 = file_at q fs" using c by simp_all
    show ?thesis using publishes_temp [OF publish_publishes [OF pub(1) w(1)] assms(2) w(2)] p(2) pub(2) c by auto
  next
    case False
    then have "err \<noteq> None" "\<exists>fs2. fs' = discard (F RemoveSecond) plain fs2 \<and> (fs2 = fs1 \<or> (\<exists>p. fs2 = write_file plain p fs1))"
      using assms(1) by (auto simp: export_plain_def Inr Let_def split: option.splits if_splits prod.splits) metis+
    then obtain fs2 where "err \<noteq> None" "fs' = discard (F RemoveSecond) plain fs2" "fs2 = fs1 \<or> (\<exists>p. fs2 = write_file plain p fs1)" by blast
    moreover from this have "file_at q fs2 = file_at q fs" if "q \<noteq> plain" for q using c that by auto
    ultimately show ?thesis by (intro kept)
  qed
qed

lemma publishes_later:
  assumes "publishes F T out n err fs1 fs2" "t \<noteq> out" "\<And>p. p \<noteq> t \<Longrightarrow> file_at p fs1 = file_at p fs"
  shows "publishes F (insert t T) out n err fs (discard fault t fs2)"
  using assms by (auto simp: publishes_def)

text \<open>A run of Recover stops before the publication, or comes to it with the verified bytes in its first temporary.\<close>

lemma Recover_stages:
  assumes "Recover_file A E F t1 t2 src out sz digest idf fs = (err, fs')"
  shows "err \<noteq> None \<and> (\<forall>p. p \<noteq> t1 \<or> F RemoveFirst = None \<longrightarrow> file_at p fs' = file_at p fs)
    \<or> (\<exists>ids f fs1 fs2. (ids = [] \<and> idf = [] \<or> ids \<noteq> [] \<and> idf \<noteq> [] \<and> ReadIdentities A F idf fs = Inr ids)
        \<and> file_at src fs = Some (LocalFile f) \<and> int (length (lf_bytes f)) = sz \<and> TokenHash E (lf_bytes f) = digest
        \<and> file_at t1 fs1 = Some (private_file (lf_bytes f)) \<and> (\<forall>p. p \<noteq> t1 \<longrightarrow> file_at p fs1 = file_at p fs)
        \<and> (if ids = [] then publish F t1 out fs1 = (err, fs2) else export_plain A F t2 out ids (lf_bytes f) fs1 = (err, fs2))
        \<and> fs' = discard (F RemoveFirst) t1 fs2)" (is "?stopped \<or> ?came")
proof (cases "out \<noteq> [] \<and> validateExpected sz digest = None \<and> (\<exists>ids fs0. (if idf \<noteq> [] then ReadIdentities A F idf fs else Inr []) = Inr ids
    \<and> create_file (F CreateFirst) t1 fs = Inr fs0)")
  case False
  then have ?stopped using assms by (auto simp: Recover_file_def split: option.splits sum.splits if_splits) metis
  then show ?thesis ..
next
  case True
  then obtain ids fs0 where pre: "out \<noteq> []" "validateExpected sz digest = None" "(if idf \<noteq> [] then ReadIdentities A F idf fs else Inr []) = Inr ids"
    "create_file (F CreateFirst) t1 fs = Inr fs0" by blast
  note c = create_fileD [OF pre(4)]
  have ids: "ids = [] \<and> idf = [] \<or> ids \<noteq> [] \<and> idf \<noteq> [] \<and> ReadIdentities A F idf fs = Inr ids"
    using pre(3) by (auto simp: ReadIdentities_def split: if_splits option.splits sum.splits list.splits)
  have stopped: ?stopped if "err \<noteq> None" "fs' = discard (F RemoveFirst) t1 fs2" "fs2 = fs0 \<or> (\<exists>x. fs2 = write_file t1 x fs0)" for fs2
    using that c by auto
  obtain r fs1 where v: "copy_verified E F t1 src sz digest fs0 = (r, fs1)" by (metis prod.collapse)
  have fs1: "fs1 = fs0 \<or> (\<exists>x. fs1 = write_file t1 x fs0)" using v by (auto simp: copy_verified_def Let_def split: option.splits sum.splits)
  show ?thesis
  proof (cases r)
    case (Inl e)
    then have "err = Some e" "fs' = discard (F RemoveFirst) t1 fs1" using assms pre v by (auto simp: Recover_file_def)
    then have ?stopped by (intro stopped [OF _ _ fs1]) simp_all
    then show ?thesis ..
  next
    case (Inr bytes)
    have b: "\<exists>f. OpenRegular (F OpenSource) src fs0 = Inr f \<and> bytes = limited sz f \<and> content_error E sz digest bytes = None \<and> fs1 = write_file t1 bytes fs0"
      using v unfolding Inr by (auto simp: copy_verified_def Let_def split: option.splits sum.splits)
    then obtain f where f: "OpenRegular (F OpenSource) src fs0 = Inr f" "bytes = limited sz f" "content_error E sz digest (limited sz f) = None"
      "fs1 = write_file t1 bytes fs0" by auto
    note ok = content_errorD [OF f(3)]
    have "0 < sz" using pre(2) by (simp add: validateExpected_iff)
    then have "src \<noteq> t1" using c OpenRegularD [OF f(1)] ok by (auto simp: private_file_def)
    then have src: "file_at src fs = Some (LocalFile f)" using c OpenRegularD [OF f(1)] by auto
    have w: "file_at t1 fs1 = Some (private_file (lf_bytes f))" "\<forall>p. p \<noteq> t1 \<longrightarrow> file_at p fs1 = file_at p fs" using c f(2,4) ok by simp_all
    show ?thesis
    proof (cases "ids = [] \<and> F CloseFirst \<noteq> None")
      case True
      then have "err = F CloseFirst" "fs' = discard (F RemoveFirst) t1 fs1" using assms pre v Inr by (auto simp: Recover_file_def)
      then have ?stopped using True by (intro stopped [OF _ _ fs1]) simp_all
      then show ?thesis ..
    next
      case False
      obtain fs2 where "if ids = [] then publish F t1 out fs1 = (err, fs2) else export_plain A F t2 out ids (lf_bytes f) fs1 = (err, fs2)"
          "fs' = discard (F RemoveFirst) t1 fs2"
        using assms pre v Inr False f(2) ok by (auto simp: Recover_file_def split: prod.splits if_splits)
      then show ?thesis using ids src ok w by blast
    qed
  qed
qed

text \<open>C14. Recovery never damages and never invents. Whatever call fails, Recover changes no file but its own temporaries, never
  overwrites an existing destination, and publishes under the destination only a whole file: the stored bytes, with exactly the
  expected length and SHA-256, or their complete decryption when an identity file was given. It reports success only if it
  published, and an error after publishing only if the last synchronization failed. Its temporaries are removed unless
  the removal itself fails.\<close>

theorem recovery_is_safe:
  assumes "Recover_file A E F t1 t2 src out sz digest idf fs = (err, fs')" "distinct [t1, t2, out]" "file_at t1 fs = None" "file_at t2 fs = None"
  shows "(\<forall>p. p \<notin> {t1, t2, out} \<longrightarrow> file_at p fs' = file_at p fs)
    \<and> (file_at out fs' = file_at out fs \<and> err \<noteq> None
       \<or> file_at out fs = None \<and> err = F SyncOutput
          \<and> (\<exists>f n. file_at src fs = Some (LocalFile f) \<and> int (length (lf_bytes f)) = sz \<and> TokenHash E (lf_bytes f) = digest
               \<and> file_at out fs' = Some (private_file n)
               \<and> (if idf = [] then n = lf_bytes f else \<exists>ids. ReadIdentities A F idf fs = Inr ids \<and> Decrypt A ids (lf_bytes f) = Some (n, True))))
    \<and> (F RemoveFirst = None \<longrightarrow> file_at t1 fs' = None) \<and> (F RemoveSecond = None \<longrightarrow> file_at t2 fs' = None)"
proof -
  have d: "t1 \<noteq> out" "t2 \<noteq> out" "t1 \<noteq> t2" using assms(2) by auto
  consider (stopped) "err \<noteq> None" "\<forall>p. p \<noteq> t1 \<or> F RemoveFirst = None \<longrightarrow> file_at p fs' = file_at p fs"
    | (came) ids f fs1 fs2 where "ids = [] \<and> idf = [] \<or> ids \<noteq> [] \<and> idf \<noteq> [] \<and> ReadIdentities A F idf fs = Inr ids"
      "file_at src fs = Some (LocalFile f)" "int (length (lf_bytes f)) = sz" "TokenHash E (lf_bytes f) = digest"
      "file_at t1 fs1 = Some (private_file (lf_bytes f))" "\<forall>p. p \<noteq> t1 \<longrightarrow> file_at p fs1 = file_at p fs"
      "if ids = [] then publish F t1 out fs1 = (err, fs2) else export_plain A F t2 out ids (lf_bytes f) fs1 = (err, fs2)"
      "fs' = discard (F RemoveFirst) t1 fs2"
    using Recover_stages [OF assms(1)] by blast
  then show ?thesis
  proof cases
    case stopped
    then show ?thesis using assms(3,4) d by auto
  next
    case came
    show ?thesis
    proof (cases "ids = []")
      case True
      have "publishes F {t1} out (private_file (lf_bytes f)) err fs fs'"
        using publishes_later [OF publish_publishes [of F t1 out fs1 err fs2] d(1), of "private_file (lf_bytes f)" fs] came True by auto
      then show ?thesis using came True d assms(3,4) by (auto simp: publishes_def)
    next
      case False
      then obtain p where p: "publishes F {t2} out (private_file p) err fs1 fs2" "file_at out fs2 \<noteq> file_at out fs1 \<longrightarrow> Decrypt A ids (lf_bytes f) = Some (p, True)"
        "F RemoveSecond = None \<longrightarrow> file_at t2 fs2 = file_at t2 fs1"
        using export_plain_publishes [of A F t2 out ids "lf_bytes f" fs1 err fs2] came(7) d by auto
      have "publishes F {t1, t2} out (private_file p) err fs fs'" unfolding came(8)
        by (rule publishes_later [OF p(1) d(1)]) (use came(6) in simp)
      moreover have "F RemoveSecond = None \<longrightarrow> file_at t2 fs' = None" "F RemoveFirst = None \<longrightarrow> file_at t1 fs' = None"
        "file_at out fs' = file_at out fs2" "file_at out fs1 = file_at out fs" using p(3) came(6,8) d assms(4) by auto
      ultimately show ?thesis using came(1-4) False p(2) d by (auto simp: publishes_def)
    qed
  qed
qed

subsection \<open>What was encrypted is what is recovered\<close>

lemma capped_write_all: "capped_write m ps = (w, None) \<Longrightarrow> w = concat ps"
  by (induction ps arbitrary: m w) (auto split: if_splits prod.splits)

lemma GenerateIdentityD:
  assumes "GenerateIdentity A F (Inr i) path fs = (Inr recipient, fs')"
  shows "recipient = recipient_String A i \<and> file_at path fs = None \<and> file_at path fs' = Some (private_file (identity_text A i))
    \<and> (\<forall>q. q \<noteq> path \<longrightarrow> file_at q fs' = file_at q fs)"
proof (cases "create_file (F CreateFirst) path fs")
  case (Inr fs1)
  note c = create_fileD [OF Inr]
  have "recipient = recipient_String A i" "fs' = write_file path (identity_text A i) fs1"
    using assms by (auto simp: GenerateIdentity_def Inr split: option.splits)
  then show ?thesis using c by simp
qed (use assms in \<open>simp add: GenerateIdentity_def\<close>)

lemma EncryptToTempD:
  assumes "EncryptToTemp A E F rand src txt temp m fs = (Inr p, fs')"
  obtains r f where "ParseX25519Recipient A (trim_space txt) = Some r" "file_at src fs = Some (LocalFile f)"
    "file_at temp fs = None" "file_at temp fs' = Some (private_file (concat (Encrypt A r rand (lf_bytes f))))"
    "\<forall>q. q \<noteq> temp \<longrightarrow> file_at q fs' = file_at q fs"
    "p = \<lparr>pr_path = temp, pr_size = int (length (concat (Encrypt A r rand (lf_bytes f)))), pr_sha256 = TokenHash E (concat (Encrypt A r rand (lf_bytes f)))\<rparr>"
    "0 < pr_size p" "pr_size p \<le> m"
proof -
  obtain r where r: "ParseX25519Recipient A (trim_space txt) = Some r"
    using assms by (auto simp: EncryptToTemp_def split: if_splits option.splits)
  obtain f where f: "OpenRegular (F OpenSource) src fs = Inr f"
    using assms r by (auto simp: EncryptToTemp_def split: if_splits sum.splits)
  obtain fs1 where c: "create_file (F CreateFirst) temp fs = Inr fs1"
    using assms r f by (auto simp: EncryptToTemp_def split: if_splits sum.splits option.splits)
  obtain w e where w: "capped_write m (Encrypt A r rand (lf_bytes f)) = (w, e)" by (metis prod.collapse)
  have "e = None \<and> w \<noteq> [] \<and> int (length w) \<le> m \<and> fs' = write_file temp w fs1 \<and> p = \<lparr>pr_path = temp, pr_size = int (length w), pr_sha256 = TokenHash E w\<rparr>"
    using assms r f c w by (auto simp: EncryptToTemp_def Let_def split: if_splits option.splits)
  moreover from this have "w = concat (Encrypt A r rand (lf_bytes f))" using w capped_write_all by blast
  ultimately show thesis using that [OF r] OpenRegularD [OF f] create_fileD [OF c] by auto
qed

lemma ReadIdentities_private:
  assumes "file_at path fs = Some (private_file t)" "length t \<le> maxIdentityBytes" "ParseIdentities A t = Some (i # ids)"
  shows "ReadIdentities A (\<lambda>_. None) path fs = Inr (i # ids)"
  using assms by (simp add: ReadIdentities_def OpenRegular_def private_file_def CheckPrivate_def)

lemma publish_fresh: "file_at staged fs = Some n \<Longrightarrow> file_at out fs = None \<Longrightarrow> publish (\<lambda>_. None) staged out fs = (None, AList.update out n fs)"
  by (simp add: publish_def)

text \<open>C13. What was backed up is what is restored. Take a key pair made by onlybackup-recover keygen, a file encrypted to the recipient it
  printed, and an archive whose content has the length and SHA-256 that encryption reported (and is not a collision with it). If
  the library keeps its documented promise for that key pair, recovery with the identity file and working calls succeeds, the
  destination holds exactly the bytes of the original file, and no other file has changed.\<close>

theorem backup_restores:
  assumes "age_documented A i" "GenerateIdentity A F1 (Inr i) idf fs = (Inr recipient, fs1)"
    and "EncryptToTemp A E F2 rand src recipient temp limit fs1 = (Inr p, fs2)" "file_at src fs1 = Some (LocalFile f)" "file_at temp fs2 = Some (LocalFile c)"
    and "file_at arch fs3 = Some (LocalFile g)" "int (length (lf_bytes g)) = pr_size p" "TokenHash E (lf_bytes g) = pr_sha256 p"
    and "inj_on (TokenHash E) {lf_bytes g, lf_bytes c}" "ValidDigest (pr_sha256 p)" "pr_size p \<le> maxArchivedBytes"
    and "file_at idf fs3 = file_at idf fs1" "idf \<noteq> []" "out \<noteq> []" "distinct [t1, t2, out]" "file_at t1 fs3 = None" "file_at t2 fs3 = None" "file_at out fs3 = None"
  shows "\<exists>fs4. Recover_file A E (\<lambda>_. None) t1 t2 arch out (pr_size p) (pr_sha256 p) idf fs3 = (None, fs4)
    \<and> file_at out fs4 = Some (private_file (lf_bytes f)) \<and> (\<forall>q. q \<noteq> out \<longrightarrow> file_at q fs4 = file_at q fs3)"
proof -
  note k = GenerateIdentityD [OF assms(2)]
  obtain r where r: "ParseX25519Recipient A (trim_space (recipient_String A i)) = Some r" "Decrypt A [i] (concat (Encrypt A r rand (lf_bytes f))) = Some (lf_bytes f, True)"
    using assms(1) by (auto simp: age_documented_def)
  let ?c = "concat (Encrypt A r rand (lf_bytes f))"
  have e: "lf_bytes c = ?c \<and> pr_sha256 p = TokenHash E ?c \<and> 0 < pr_size p"
    by (rule EncryptToTempD [OF assms(3)]) (use k r(1) assms(4,5) in \<open>simp add: private_file_def\<close>)
  have "lf_bytes g = lf_bytes c" by (rule inj_onD [OF assms(9)]) (use assms(8) e in simp_all)
  then have g: "lf_bytes g = ?c" using e by simp
  have ids: "ReadIdentities A (\<lambda>_. None) idf fs3 = Inr [i]"
    by (rule ReadIdentities_private [of _ _ "identity_text A i"]) (use assms(1,12) k in \<open>auto simp: age_documented_def maxIdentityBytes_def\<close>)
  have v: "validateExpected (pr_size p) (pr_sha256 p) = None" using e assms(10,11) by (simp add: validateExpected_iff)
  let ?fs1 = "AList.update t1 (private_file []) fs3"
  have d: "t1 \<noteq> t2" "t1 \<noteq> out" "t2 \<noteq> out" using assms(15) by auto
  have "arch \<noteq> t1" using assms(6,16) by auto
  then have cv: "copy_verified E (\<lambda>_. None) t1 arch (pr_size p) (pr_sha256 p) ?fs1 = (Inr ?c, write_file t1 ?c ?fs1)"
    using content_error_None [OF assms(7,8)] assms(6) g by (simp add: copy_verified_def Let_def)
  let ?fs3 = "write_file t1 ?c ?fs1" and ?fs5 = "AList.update t2 (private_file []) (write_file t1 ?c ?fs1)"
  have "publish (\<lambda>_. None) t2 out (write_file t2 (lf_bytes f) ?fs5) = (None, AList.update out (private_file (lf_bytes f)) (write_file t2 (lf_bytes f) ?fs5))"
    by (rule publish_fresh) (use assms(18) d in simp_all)
  then have "export_plain A (\<lambda>_. None) t2 out [i] ?c ?fs3 = (None, discard None t2 (AList.update out (private_file (lf_bytes f)) (write_file t2 (lf_bytes f) ?fs5)))"
    using r(2) d assms(17) by (simp add: export_plain_def)
  then have "Recover_file A E (\<lambda>_. None) t1 t2 arch out (pr_size p) (pr_sha256 p) idf fs3
      = (None, discard None t1 (discard None t2 (AList.update out (private_file (lf_bytes f)) (write_file t2 (lf_bytes f) ?fs5))))"
    using assms(13,14,16) ids v cv by (simp add: Recover_file_def)
  moreover have "file_at q (discard None t1 (discard None t2 (AList.update out (private_file (lf_bytes f)) (write_file t2 (lf_bytes f) ?fs5))))
      = (if q = out then Some (private_file (lf_bytes f)) else file_at q fs3)" for q
    using d assms(16,17) by auto
  ultimately show ?thesis by simp
qed

end
