(* ===== verification/Store_Properties.thy ===== *)
theory Store_Properties
  imports Store_Steps
begin

text \<open>
  What the catalogue guarantees, stated over all reachable catalogues: the agreement of statuses
  and operations, the conditions of quarantine and purge, the life cycle of a backup, the fencing of
  stale maintenance leases, the finality of a committed permission, and the limits and idempotency
  of reservations.
\<close>

lemma reachable_core: "reachable E c \<Longrightarrow> core_inv c"
  by (rule store.reachable_inv)

subsection \<open>Statuses and operations\<close>

lemma active_ops_count: "count_where (\<lambda>o'. active_op o' \<and> op_backup_id o' = i) ops = length (active_kinds ops i)"
  by (simp add: active_kinds_def active_ops_def count_where_def)

lemma active_kinds_mem: "k \<in> set (active_kinds ops i) \<longleftrightarrow> (\<exists>o' \<in> set ops. active_op o' \<and> op_backup_id o' = i \<and> op_kind_of o' = k)"
  by (auto simp: active_kinds_def active_ops_def)

text \<open>C25. In every reachable catalogue a backup has at most one active operation, is being deleted exactly
  while a quarantine is active on it, is being purged exactly while a purge is, and is
  quarantined whenever a recovery is active.\<close>

theorem status_matches_operations:
  assumes "reachable E c" "b \<in> set (backups c)"
  shows "count_where (\<lambda>o'. active_op o' \<and> op_backup_id o' = b_id b) (operations c) \<le> 1
    \<and> (b_status b = BackupDeleting \<longleftrightarrow>
         (\<exists>o' \<in> set (operations c). active_op o' \<and> op_backup_id o' = b_id b \<and> op_kind_of o' = Quarantine))
    \<and> (b_status b = BackupPurging \<longleftrightarrow>
         (\<exists>o' \<in> set (operations c). active_op o' \<and> op_backup_id o' = b_id b \<and> op_kind_of o' = Purge))
    \<and> (\<forall>o' \<in> set (operations c). active_op o' \<and> op_backup_id o' = b_id b \<and> op_kind_of o' = Recover \<longrightarrow> b_status b = BackupQuarantined)"
proof -
  have r: "row_ok (b_status b) (active_kinds (operations c) (b_id b))"
    using reachable_core [OF assms(1)] assms(2) coherentD unfolding core_inv_def by blast
  obtain ks where ks: "ks = active_kinds (operations c) (b_id b)" by simp
  have "length ks \<le> 1 \<and> (b_status b = BackupDeleting \<longleftrightarrow> Quarantine \<in> set ks) \<and> (b_status b = BackupPurging \<longleftrightarrow> Purge \<in> set ks)
      \<and> (Recover \<in> set ks \<longrightarrow> b_status b = BackupQuarantined)"
    using r unfolding ks [symmetric] by (cases "(b_status b, ks)" rule: row_ok.cases) auto
  then show ?thesis unfolding ks active_kinds_mem active_ops_count by blast
qed

subsection \<open>The conditions of a destructive request\<close>

lemma checkRetentionMinimum_None:
  assumes "checkRetentionMinimumTx E i now c = None" "find_backup c i = Some b"
  shows "\<exists>loc. LoadLocation E (a_timezone (automation_state c)) = Some loc
    \<and> 7 \<le> days_for_key c (b_key_id b)
    \<and> backupTimeForPolicy b < AddDate loc (localMidnight now loc) (- days_for_key c (b_key_id b))"
  using assms by (auto simp: checkRetentionMinimumTx_def RetentionProtected_def MinimumDays_def Let_def
      split: option.splits if_splits)

text \<open>A quarantine is requested only when nothing blocks retention, for a complete backup of a live
  key that was not received on the current local day, is older than the minimum of its key (at least
  seven days) and is not the key's last complete copy, copies known to be missing not counted. The
  request moves exactly that backup and leaves one requested operation on it.\<close>

theorem RequestQuarantine_conditions:
  assumes "RequestQuarantine E i og ac re now c = Inr (o', c')"
  shows "\<exists>b loc. \<not> retention_blocked (automation_state c) \<and> find_backup c i = Some b \<and> b_status b = BackupComplete
    \<and> key_revoked c i = Some False \<and> \<not> acknowledged_missing c i
    \<and> LoadLocation E (a_timezone (automation_state c)) = Some loc
    \<and> civil_day loc (backupTimeForPolicy b) \<noteq> civil_day loc now
    \<and> 2 \<le> copies_in c (b_key_id b) (\<lambda>s. s = BackupComplete)
    \<and> 7 \<le> days_for_key c (b_key_id b)
    \<and> backupTimeForPolicy b < AddDate loc (localMidnight now loc) (- days_for_key c (b_key_id b))
    \<and> backups c' = update_where (\<lambda>x. b_id x = i \<and> b_status x = BackupComplete) (\<lambda>x. x\<lparr>b_status := BackupDeleting\<rparr>) (backups c)
    \<and> operations c' = operations c @ [o'] \<and> op_backup_id o' = i \<and> op_kind_of o' = Quarantine \<and> op_state_of o' = Requested"
proof -
  from assms obtain b loc c1 where g: "\<not> retention_blocked (automation_state c)" "find_backup c i = Some b"
    "b_status b = BackupComplete" "key_revoked c i = Some False" "\<not> acknowledged_missing c i"
    "LoadLocation E (a_timezone (automation_state c)) = Some loc" "civil_day loc (backupTimeForPolicy b) \<noteq> civil_day loc now"
    "\<not> copies_in c (b_key_id b) (\<lambda>s. s = BackupComplete) \<le> 1" "checkRetentionMinimumTx E i now c = None"
    and s: "set_backup i BackupComplete (\<lambda>b. b\<lparr>b_status := BackupDeleting\<rparr>) c = Some c1"
    and o: "o' = new_operation c i Quarantine og ac re now" "insert_operation o' c1 = Inr c'"
    by (auto simp: RequestQuarantine_def Let_def split: if_splits option.splits sum.splits)
  have "backups c' = update_where (\<lambda>x. b_id x = i \<and> b_status x = BackupComplete) (\<lambda>x. x\<lparr>b_status := BackupDeleting\<rparr>) (backups c)"
    "operations c' = operations c @ [o']"
    using s insert_operationE(1) [OF o(2)] by (auto elim!: set_backupE)
  then show ?thesis
    using g checkRetentionMinimum_None [OF g(9,2)] o(1) by (intro exI [of _ b] exI [of _ loc]) auto
qed

text \<open>A purge is requested only when nothing blocks retention, for a quarantined backup of a live key
  older than the minimum of its key, at least 48 hours after it entered quarantine, while another
  stable copy of the key remains.\<close>

theorem RequestPurge_conditions:
  assumes "reachable E c" "RequestPurge E i og ac re now c = Inr (o', c')"
  shows "\<exists>b loc. \<not> retention_blocked (automation_state c) \<and> find_backup c i = Some b \<and> b_status b = BackupQuarantined
    \<and> key_revoked c i = Some False \<and> \<not> acknowledged_missing c i
    \<and> b_quarantined_at b + 48 * 3600 \<le> unix now
    \<and> 2 \<le> copies_in c (b_key_id b) stable_status
    \<and> LoadLocation E (a_timezone (automation_state c)) = Some loc
    \<and> backupTimeForPolicy b < AddDate loc (localMidnight now loc) (- days_for_key c (b_key_id b))"
proof -
  from assms(2) obtain b where g: "\<not> retention_blocked (automation_state c)" "find_backup c i = Some b"
    "b_status b = BackupQuarantined" "key_revoked c i = Some False" "\<not> acknowledged_missing c i"
    "checkRetentionMinimumTx E i now c = None" "\<not> unix now < b_purge_not_before b"
    "\<not> copies_in c (b_key_id b) stable_status \<le> 1"
    by (auto simp: RequestPurge_def Let_def split: if_splits option.splits sum.splits)
  have "b_quarantined_at b + 172800 \<le> b_purge_not_before b"
    using reachable_core [OF assms(1)] find_backupD [OF g(2)] g(3) unfolding core_inv_def quarantine_timed_def by blast
  then show ?thesis using g checkRetentionMinimum_None [OF g(6,2)] by auto
qed

subsection \<open>The life of a backup\<close>

text \<open>Every store operation keeps each backup in its row with its key, size, digest, metadata and
  idempotency key, moves its status only along the life cycle (receiving, failed or complete,
  deleting, quarantined, purging, deleted, with recovery and cancellation), and adds rows only in the
  receiving state.\<close>

theorem backup_life_cycle: "store_step E c c' \<Longrightarrow> moves c c'"
  by (rule store_step_moves)

text \<open>C28. Between any two moments of any history, rows keep their place and their deposit, a received
  copy is never received again, a deleted copy stays deleted, and the lease generation only grows.\<close>

theorem history_preserved: "reachable E c \<Longrightarrow> (store_step E)\<^sup>*\<^sup>* c c' \<Longrightarrow> preserved c c'"
  by (rule store_history.between)

subsection \<open>Leases\<close>

text \<open>C29. A maintenance lease is exclusive and fenced. While a lease is current no other can be
  acquired and every current lease is the same one; once a newer generation has been granted, every
  later attempt to authorize, validate or confirm with the old lease fails.\<close>

theorem lease_fenced:
  assumes "reachable E c"
  shows "(lease_current l now c \<and> lease_current l2 now c \<longrightarrow> l_owner l = l_owner l2 \<and> l_generation l = l_generation l2)
    \<and> (lease_current l now c \<longrightarrow> AcquireMaintenanceLease ow 0 now dur c = Inl ErrLease \<or> blank ow \<or> dur \<le> 0)
    \<and> (l_generation l < l_generation (lease_row c) \<and> (store_step E)\<^sup>*\<^sup>* c c' \<longrightarrow>
         AuthorizeOperation E tok k l now c' = Inl ErrLease \<and> ValidateOperation E k t l now c' = Inl ErrLease
         \<and> ConfirmOperation E k t fin d l now c' = Inl ErrLease)"
proof (intro conjI impI)
  assume "lease_current l now c \<and> lease_current l2 now c"
  then show "l_owner l = l_owner l2" "l_generation l = l_generation l2" by (auto simp: lease_current_def)
next
  assume "lease_current l now c"
  then show "AcquireMaintenanceLease ow 0 now dur c = Inl ErrLease \<or> blank ow \<or> dur \<le> 0"
    by (simp add: AcquireMaintenanceLease_def lease_current_def Let_def)
next
  assume g: "l_generation l < l_generation (lease_row c) \<and> (store_step E)\<^sup>*\<^sup>* c c'"
  then have "l_generation (lease_row c) \<le> l_generation (lease_row c')"
    using store_history.between [OF assms] by (auto simp: preserved_def)
  then have "validateMaintenanceLeaseTx l now c' = Inl ErrLease"
    using g by (auto simp: validateMaintenanceLeaseTx_def lease_current_def)
  then show "AuthorizeOperation E tok k l now c' = Inl ErrLease" "ValidateOperation E k t l now c' = Inl ErrLease"
    "ConfirmOperation E k t fin d l now c' = Inl ErrLease"
    by (simp_all add: AuthorizeOperation_def ValidateOperation_def ConfirmOperation_def)
qed

subsection \<open>A committed permission is final\<close>

definition final_op :: "operation \<Rightarrow> bool" where
  "final_op o' \<longleftrightarrow> op_execution_committed o' \<and> (op_state_of o' = Authorized \<or> op_state_of o' = Confirmed)"

text \<open>What a step may do to an operation: its backup and kind stay, and what is final stays so.\<close>

definition carries :: "operation \<Rightarrow> operation \<Rightarrow> bool" where
  "carries o' x \<longleftrightarrow> op_id x = op_id o' \<and> op_backup_id x = op_backup_id o' \<and> op_kind_of x = op_kind_of o'
     \<and> (final_op o' \<longrightarrow> final_op x \<and> (op_state_of o' = Confirmed \<longrightarrow> op_state_of x = Confirmed))"

definition keeps_final :: "catalog \<Rightarrow> catalog \<Rightarrow> bool" where
  "keeps_final c c' \<longleftrightarrow> (\<forall>o' \<in> set (operations c). \<exists>x \<in> set (operations c'). carries o' x)"

lemma carries_refl [simp]: "carries o' o'" by (simp add: carries_def)

lemma keeps_update:
  assumes "operations c' = update_where P g (operations c)"
    and "\<And>o'. o' \<in> set (operations c) \<Longrightarrow> P o' \<Longrightarrow> carries o' (g o')"
  shows "keeps_final c c'"
  unfolding keeps_final_def
proof
  fix o' assume o: "o' \<in> set (operations c)"
  let ?x = "if P o' then g o' else o'"
  have "?x \<in> set (operations c')" using assms(1) o by (auto simp: set_update_where)
  moreover have "carries o' ?x" using assms(2) o by simp
  ultimately show "\<exists>x \<in> set (operations c'). carries o' x" by blast
qed

lemma carries_trans: "carries a b \<Longrightarrow> carries b c \<Longrightarrow> carries a c"
  by (auto simp: carries_def)

lemma keeps_append: "operations c' = operations c @ xs \<Longrightarrow> keeps_final c c'"
  unfolding keeps_final_def by (metis Un_iff carries_refl set_append)

lemma keeps_same: "operations c' = operations c \<Longrightarrow> keeps_final c c'"
  unfolding keeps_final_def by (metis carries_refl)

text \<open>Only the row of the named operation is written, so its state before the write decides.\<close>

lemma keeps_set_operation:
  assumes "core_inv c" "Operation c k = Some o'" "operations c1 = operations c" "operations c' = operations (set_operation k g c1)"
    and "carries o' (g o')"
  shows "keeps_final c c'"
proof (rule keeps_update [where P = "\<lambda>x. op_id x = k" and g = g])
  show "operations c' = update_where (\<lambda>x. op_id x = k) g (operations c)" using assms(3,4) by (simp add: set_operation_def)
  fix x assume "x \<in> set (operations c)" "op_id x = k"
  then have "x = o'" using OperationD [OF assms(2)] assms(1) distinct_op_id unfolding core_inv_defs by metis
  then show "carries x (g x)" using assms(5) by simp
qed

lemma same_core_ops: "same_core c c' \<Longrightarrow> operations c' = operations c" by (simp add: same_core_def)

lemma finish_backup_ops: "finish_backup o' now c = Some c1 \<Longrightarrow> operations c1 = operations c"
  by (cases "op_kind_of o'") (auto simp: finish_backup_def set_backup_def split: if_splits)

lemma finish_keeps:
  assumes "core_inv c" "Operation c (op_id o') = Some o'" "op_state_of o' = Authorized"
    and "finish_operation u inc nt o' now c = Inr (r, c')"
  shows "keeps_final c c'"
proof -
  let ?g = "\<lambda>x. x\<lparr>op_state_of := Confirmed, op_completed_at := unix now, op_error := nt\<rparr>"
  from assms(4) obtain c1 where "finish_backup o' now c = Some c1" "same_core (set_operation (op_id o') ?g c1) c'"
    by (auto simp: finish_operation_def dest!: resolveMaintenance_frame split: if_splits option.splits sum.splits)
  then show ?thesis
    by (intro keeps_set_operation [OF assms(1,2), of c1 c' ?g])
      (auto simp: finish_backup_ops same_core_ops carries_def final_op_def)
qed

lemma record_failure_keeps:
  assumes "core_inv c" "Operation c (op_id o') = Some o'" "record_failure E o' d now c = Inr (r, c')"
  shows "keeps_final c c'"
proof -
  from assms(3) obtain e c2 where "same_core (set_operation (op_id o') (\<lambda>x. x\<lparr>op_error := e\<rparr>) c) c2" "same_core c2 c'"
    by (auto simp: record_failure_def Let_def same_core_def dest!: openAnomaly_frame split: sum.splits option.splits if_splits)
  then show ?thesis
    by (intro keeps_set_operation [OF assms(1,2), of c c' "\<lambda>x. x\<lparr>op_error := e\<rparr>"])
      (auto simp: same_core_ops carries_def final_op_def)
qed

lemma ConfirmOperation_keeps:
  assumes "core_inv c" "ConfirmOperation E k t fin d l now c = Inr (r, c')"
  shows "keeps_final c c'"
proof -
  from assms(2) obtain o' where o: "Operation c k = Some o'"
    by (auto simp: ConfirmOperation_def split: sum.splits option.splits)
  then have k: "op_id o' = k" by (simp add: OperationD)
  have "c' = c \<or> record_failure E o' d now c = Inr (r, c') \<or> op_state_of o' = Authorized \<and>
      finish_operation (ErrMsg ''tipo operazione non confermabile'')
        (ErrMsg ''conferma rifiutata: stato del backup non coerente con l'operazione'') [] o' now c = Inr (r, c')"
    using assms(2) o by (simp add: ConfirmOperation_def split: sum.splits if_splits)
  then show ?thesis
    using o k keeps_same record_failure_keeps [OF assms(1), of o'] finish_keeps [OF assms(1), of o'] by blast
qed

lemma ReconcileAuthorized_keeps:
  assumes "core_inv c" "ReconcileAuthorized k now c = Inr (r, c')"
  shows "keeps_final c c'"
proof -
  from assms(2) obtain o' u inc nt where o: "Operation c k = Some o'" "op_state_of o' = Authorized"
    "finish_operation u inc nt o' now c = Inr (r, c')"
    by (auto simp: ReconcileAuthorized_def split: option.splits if_splits)
  then show ?thesis using finish_keeps [OF assms(1), of o'] OperationD [OF o(1)] by simp
qed

lemma AuthorizeOperation_keeps:
  assumes "core_inv c" "AuthorizeOperation E tok k l now c = Inr (ot, c')"
  shows "keeps_final c c'"
proof -
  from assms(2) obtain o' g where o: "Operation c k = Some o'" "c' = set_operation k g c" "carries o' (g o')"
    by (auto simp: AuthorizeOperation_def carries_def final_op_def split: sum.splits option.splits if_splits)
  then show ?thesis by (intro keeps_set_operation [OF assms(1) o(1), of c c' g]) simp_all
qed

lemma ValidateOperation_keeps:
  assumes "core_inv c" "ValidateOperation E k t l now c = Inr (r, c')"
  shows "keeps_final c c'"
proof -
  from assms(2) obtain o' where o: "Operation c k = Some o'"
    "c' = c \<or> c' = set_operation k (\<lambda>x. x\<lparr>op_execution_committed := True\<rparr>) c"
    by (auto simp: ValidateOperation_def split: sum.splits option.splits if_splits)
  then show ?thesis
    using keeps_same keeps_set_operation [OF assms(1) o(1), of c c' "\<lambda>x. x\<lparr>op_execution_committed := True\<rparr>"]
    by (auto simp: carries_def final_op_def)
qed

lemma ResetAuthorized_keeps:
  assumes "core_inv c" "ResetAuthorized k now c = Inr (r, c')"
  shows "keeps_final c c'"
proof -
  from assms(2) obtain o' rv where o: "Operation c k = Some o'" "op_state_of o' = Authorized" "key_revoked c (op_backup_id o') = Some rv"
    by (auto simp: ResetAuthorized_def split: option.splits if_splits)
  let ?held = "\<lambda>x. x\<lparr>op_ticket_hash := [], op_lease_generation := 0\<rparr>"
  let ?again = "\<lambda>x. x\<lparr>op_state_of := Requested, op_ticket_hash := [], op_lease_generation := 0, op_authorized_at := 0,
      op_error := reconciledSourceIntact\<rparr>"
  let ?stop = "\<lambda>x. x\<lparr>op_state_of := Cancelled, op_ticket_hash := [], op_lease_generation := 0,
      op_completed_at := unix now, op_error := ''annullata automaticamente: chiave revocata''\<rparr>"
  from assms(2) o consider (held) "same_core (set_operation k ?held c) c'"
    | (again) "\<not> op_execution_committed o'" "same_core (set_operation k ?again c) c'"
    | (stop) st f c1 where "\<not> op_execution_committed o'" "set_backup (op_backup_id o') st f c = Some c1"
        "same_core (set_operation k ?stop c1) c'"
    by (auto simp: ResetAuthorized_def Let_def dest!: resolve_after_frame split: option.splits if_splits)
  then show ?thesis
  proof cases
    case held
    then show ?thesis
      by (intro keeps_set_operation [OF assms(1) o(1), of c c' ?held]) (auto simp: same_core_ops carries_def final_op_def)
  next
    case again
    then show ?thesis
      by (intro keeps_set_operation [OF assms(1) o(1), of c c' ?again]) (auto simp: same_core_ops carries_def final_op_def)
  next
    case stop
    then have "operations c1 = operations c" by (auto elim!: set_backupE)
    with stop show ?thesis
      by (intro keeps_set_operation [OF assms(1) o(1), of c1 c' ?stop]) (auto simp: same_core_ops carries_def final_op_def)
  qed
qed

lemma Cancel_keeps:
  assumes "CancelQuarantineRequest i ac now c = Inr (r, c')"
  shows "keeps_final c c'"
proof (rule keeps_update [where P = "\<lambda>o'. op_backup_id o' = i \<and> op_kind_of o' = Quarantine \<and> op_state_of o' = Requested"])
  show "operations c' = update_where (\<lambda>o'. op_backup_id o' = i \<and> op_kind_of o' = Quarantine \<and> op_state_of o' = Requested)
      (\<lambda>x. x\<lparr>op_state_of := Cancelled, op_completed_at := unix now, op_error := ''annullata da '' @ ac\<rparr>) (operations c)"
    using assms by (auto simp: CancelQuarantineRequest_def Let_def set_backup_def same_core_def dest!: resolveMaintenance_frame
        split: option.splits if_splits sum.splits)
qed (simp add: carries_def final_op_def)

lemma Revoke_keeps: "Revoke k now c = Inr (r, c') \<Longrightarrow> keeps_final c c'"
  by (rule keeps_update [OF Revoke_effect(2)]) (auto simp: carries_def final_op_def revoke_op_def revoked_cancellation_def)

lemma request_keeps:
  "RequestQuarantine E i og ac re now c = Inr (o', c') \<Longrightarrow> keeps_final c c'"
  "RequestPurge E i og ac re now c = Inr (o', c') \<Longrightarrow> keeps_final c c'"
  "RequestRecovery i ac re now c = Inr (o', c') \<Longrightarrow> keeps_final c c'"
  subgoal by (rule keeps_append [of _ _ "[o']"]) (auto simp: RequestQuarantine_def Let_def set_backup_def insert_operation_def
        split: if_splits option.splits sum.splits)
  subgoal by (rule keeps_append [of _ _ "[o']"]) (auto simp: RequestPurge_def Let_def set_backup_def insert_operation_def
        split: if_splits option.splits sum.splits)
  subgoal by (rule keeps_append [of _ _ "[o']"]) (auto simp: RequestRecovery_def Let_def insert_operation_def
        split: if_splits option.splits sum.splits)
  done

lemma deposit_keeps:
  "Complete E i now c = Inr (r, c') \<Longrightarrow> keeps_final c c'"
  "Fail E i re now c = Inr (r, c') \<Longrightarrow> keeps_final c c'"
  "ReserveIdempotentChecked E n t m sz d ik now ch c = Inr (b, c') \<Longrightarrow> keeps_final c c'"
  subgoal by (rule keeps_same) (auto simp: Complete_def set_backup_def same_core_def dest!: evaluateCompleted_frame split: option.splits sum.splits if_splits)
  subgoal by (rule keeps_same) (auto simp: Fail_def set_backup_def same_core_def dest!: openAnomaly_frame split: option.splits sum.splits if_splits)
  subgoal by (rule keeps_same, erule ReserveE) (auto simp: record_attempt_def store_reservation_def split: option.splits sum.splits if_splits)
  done

lemmas keeps_frames = request_keeps deposit_keeps Cancel_keeps Revoke_keeps
lemmas keeps_rules = ConfirmOperation_keeps ReconcileAuthorized_keeps AuthorizeOperation_keeps ValidateOperation_keeps ResetAuthorized_keeps

lemma store_step_keeps: "store_step E c c' \<Longrightarrow> core_inv c \<Longrightarrow> keeps_final c c'"
  by (induction rule: store_step.induct)
    (erule keeps_frames | erule (1) keeps_rules [rotated] | drule rows_frames, rule keeps_same, simp only: same_rows_def)+

interpretation store_commit: history Init "store_step E" core_inv keeps_final
proof unfold_locales
  show "keeps_final c c" for c by (rule keeps_same) simp
  show "keeps_final a c" if "keeps_final a b" "keeps_final b c" for a b c
    using that unfolding keeps_final_def by (metis carries_trans)
  show "keeps_final c c'" if "core_inv c" "store_step E c c'" for c c'
    using that store_step_keeps by blast
qed

lemma Operation_of: "core_inv c \<Longrightarrow> o' \<in> set (operations c) \<Longrightarrow> Operation c (op_id o') = Some o'"
proof (cases "Operation c (op_id o')")
  case None
  moreover assume "o' \<in> set (operations c)"
  ultimately show ?thesis unfolding Operation_def find_None_iff by blast
next
  case (Some x)
  moreover assume "o' \<in> set (operations c)" "core_inv c"
  ultimately show ?thesis using OperationD [OF Some] distinct_op_id unfolding core_inv_defs by metis
qed

text \<open>C3. The final permission of ValidateOperation is irrevocable: an authorized operation whose execution was
  committed is, at every later moment, still on the same backup and of the same kind, authorized
  and committed or confirmed, never back to requested or cancelled, whatever blocks, revocations
  and restarts follow, and a confirmed one stays confirmed.\<close>

theorem committed_is_final:
  assumes "reachable E c" "(store_step E)\<^sup>*\<^sup>* c c'" "Operation c k = Some o'" "op_execution_committed o'"
    and "op_state_of o' = Authorized \<or> op_state_of o' = Confirmed"
  shows "\<exists>x. Operation c' k = Some x \<and> op_backup_id x = op_backup_id o' \<and> op_kind_of x = op_kind_of o'
    \<and> op_execution_committed x \<and> (op_state_of x = Authorized \<or> op_state_of x = Confirmed)
    \<and> (op_state_of o' = Confirmed \<longrightarrow> op_state_of x = Confirmed)"
proof -
  have kf: "keeps_final c c'" using store_commit.between [OF assms(1,2)] .
  have o: "o' \<in> set (operations c)" "op_id o' = k" "final_op o'"
    using OperationD [OF assms(3)] assms(4,5) by (auto simp: final_op_def)
  then obtain x where x: "x \<in> set (operations c')" "op_id x = k" "op_backup_id x = op_backup_id o'" "op_kind_of x = op_kind_of o'"
    "final_op x" "op_state_of o' = Confirmed \<longrightarrow> op_state_of x = Confirmed"
    using kf unfolding keeps_final_def carries_def by metis
  moreover have "core_inv c'" using reachable_core assms(1,2) by (meson rtranclp_trans)
  then have "Operation c' k = Some x" using Operation_of x(1,2) by auto
  ultimately show ?thesis using x by (auto simp: final_op_def)
qed


end
