(* ===== verification/Store_Reservations.thy ===== *)
theory Store_Reservations
  imports Store_Properties
begin

text \<open>
  The limits of a reservation and the idempotency of uploads: what Reserve guarantees of the profile
  of its key, and that an idempotency key names one deposit for ever.
\<close>

subsection \<open>The profile of a key bounds what it holds\<close>

lemma sum_where_one:
  assumes "distinct (map g rs)" "r \<in> set rs"
  shows "sum_where (\<lambda>x. g x = g r \<and> Q x) f rs = (if Q r then f r else 0)"
  using assms
proof (induction rs)
  case (Cons x xs)
  have "sum_where (\<lambda>y. g y = g x \<and> Q y) f xs = 0" if "g x \<notin> g ` set xs" for x
    using that by (induction xs) auto
  with Cons show ?case by (cases "x = r") (auto simp: image_iff)
qed simp

lemma sum_where_update:
  "sum_where P f (update_where Q h rs) = sum_where (\<lambda>x. \<not> Q x \<and> P x) f rs + sum_where (\<lambda>x. Q x \<and> P (h x)) (f \<circ> h) rs"
  by (induction rs) auto

lemma count_where_update:
  "count_where P (update_where Q h rs) = count_where (\<lambda>x. \<not> Q x \<and> P x) rs + count_where (\<lambda>x. Q x \<and> P (h x)) rs"
  by (induction rs) auto

lemma sum_where_split: "sum_where P f rs = sum_where (\<lambda>x. \<not> Q x \<and> P x) f rs + sum_where (\<lambda>x. Q x \<and> P x) f rs"
  by (induction rs) auto

lemma count_where_split: "count_where P rs = count_where (\<lambda>x. \<not> Q x \<and> P x) rs + count_where (\<lambda>x. Q x \<and> P x) rs"
  by (induction rs) auto

lemma count_where_as_sum: "int (count_where P rs) = sum_where P (\<lambda>_. 1) rs"
  by (induction rs) auto

text \<open>Storing a reservation adds exactly its size and one upload to its key, as an inserted row or as
  the resumed one.\<close>

lemma one_row_sum:
  assumes "distinct (map b_id (backups c))" "x \<in> set (backups c)" "\<not> P x" "P (h x)" "f (h x) = v"
  shows "sum_where P f (update_where (\<lambda>b. b_id b = b_id x \<and> b_status b = b_status x) h (backups c)) = sum_where P f (backups c) + v"
proof -
  let ?Q = "\<lambda>b. b_id b = b_id x \<and> b_status b = b_status x"
  have Q: "?Q b \<longleftrightarrow> b = x" if "b \<in> set (backups c)" for b
    using assms(1,2) that distinct_b_id by blast
  have cong: "sum_where A g (backups c) = sum_where B g (backups c)" if "\<And>b. b \<in> set (backups c) \<Longrightarrow> A b = B b" for A B and g :: "backup \<Rightarrow> int"
    using that unfolding sum_where_def by (metis (mono_tags, lifting) filter_cong)
  have "sum_where (\<lambda>b. ?Q b \<and> P (h b)) (f \<circ> h) (backups c) = sum_where (\<lambda>b. b_id b = b_id x \<and> True) (f \<circ> h) (backups c)"
    using assms(1,2,4) Q distinct_b_id by (intro cong) blast
  also have "\<dots> = v" using sum_where_one [OF assms(1,2), of "\<lambda>_. True" "f \<circ> h"] assms(5) by simp
  finally have "sum_where (\<lambda>b. ?Q b \<and> P (h b)) (f \<circ> h) (backups c) = v" .
  moreover have "sum_where (\<lambda>b. \<not> ?Q b \<and> P b) f (backups c) = sum_where P f (backups c)"
    using Q assms(3) by (intro cong) blast
  ultimately show ?thesis by (simp only: sum_where_update)
qed

definition admitted :: "catalog \<Rightarrow> string \<Rightarrow> profile \<Rightarrow> int \<Rightarrow> time \<Rightarrow> (int \<Rightarrow> error option) option \<Rightarrow> bool" where
  "admitted c keyID p sz now ch \<longleftrightarrow> 0 < sz \<and> sz \<le> MaxBackupBytes p \<and> used_bytes c keyID + sz \<le> TotalBytes p
     \<and> active_uploads c keyID + 1 \<le> Concurrent p \<and> attempts24h c keyID now + 1 \<le> UploadsPerDay p
     \<and> (\<forall>f. ch = Some f \<longrightarrow> f (ReservedBytes c + sz) = None)"

lemma ReserveCases:
  assumes "ReserveIdempotentChecked E n t m sz d ik now ch c = Inr (b, c')"
  obtains (existing) keyID p where "authenticate E c t = Some (keyID, p)" "idempotency c keyID ik sz d m = IdemExisting b" "c' = c"
  | (reserved) keyID p i c1 ex where "authenticate E c t = Some (keyID, p)"
      "idempotency c keyID ik sz d m = (case ex of None \<Rightarrow> IdemNew | Some j \<Rightarrow> IdemResume j)" "admitted c keyID p sz now ch"
      "store_reservation n ex (reservation [] keyID ik m sz d now) now c = Inr (i, c1)"
      "b = reservation i keyID ik m sz d now" "c' = record_attempt keyID i now c1"
proof -
  from assms obtain keyID p where a: "authenticate E c t = Some (keyID, p)"
    by (auto simp: ReserveIdempotentChecked_def split: if_splits sum.splits option.splits)
  have adm: "admitted c keyID p sz now ch \<and> (\<exists>i c1. store_reservation n ex (reservation [] keyID ik m sz d now) now c = Inr (i, c1)
      \<and> b = reservation i keyID ik m sz d now \<and> c' = record_attempt keyID i now c1)"
    if "idempotency c keyID ik sz d m = (case ex of None \<Rightarrow> IdemNew | Some j \<Rightarrow> IdemResume j)" for ex
    using assms a that
    by (cases ex) (auto simp: ReserveIdempotentChecked_def admitted_def split: if_splits sum.splits option.splits)
  show thesis
  proof (cases "idempotency c keyID ik sz d m")
    case (IdemExisting x)
    with assms a existing show ?thesis
      by (auto simp: ReserveIdempotentChecked_def split: if_splits sum.splits)
  next
    case (IdemResume j)
    with a adm [of "Some j"] reserved [of keyID p "Some j"] show ?thesis by auto
  next
    case IdemNew
    with a adm [of None] reserved [of keyID p None] show ?thesis by auto
  qed (use assms a in \<open>auto simp: ReserveIdempotentChecked_def split: if_splits sum.splits\<close>)
qed

lemma idem_resumeD:
  assumes "idempotency c keyID ik sz d m = IdemResume j"
  shows "\<exists>x \<in> set (backups c). b_id x = j \<and> b_key_id x = keyID \<and> b_idempotency_key x = ik \<and> b_size x = sz
    \<and> b_sha256 x = d \<and> b_metadata x = m \<and> b_status x = BackupFailed"
proof -
  from assms obtain x where x: "List.find (\<lambda>b. b_key_id b = keyID \<and> b_idempotency_key b = ik) (backups c) = Some x"
    "b_id x = j \<and> b_size x = sz \<and> b_sha256 x = d \<and> b_metadata x = m \<and> b_status x = BackupFailed"
    by (auto simp: idempotency_def split: if_splits option.splits status.splits)
  then show ?thesis using find_SomeD [OF x(1)] by blast
qed

lemma store_reservation_sum:
  assumes "core_inv c" "store_reservation n ex (reservation [] keyID ik m sz d now) now c = Inr (i, c1)"
    and "idempotency c keyID ik sz d m = (case ex of None \<Rightarrow> IdemNew | Some j \<Rightarrow> IdemResume j)"
    and "P BackupReceiving" "\<not> P BackupFailed"
    and "\<And>a b. b_size a = b_size b \<Longrightarrow> f a = f b"
  shows "sum_where (\<lambda>b. Q (b_key_id b) \<and> P (b_status b)) f (backups c1)
    = sum_where (\<lambda>b. Q (b_key_id b) \<and> P (b_status b)) f (backups c) + (if Q keyID then f (reservation i keyID ik m sz d now) else 0)"
proof (cases ex)
  case None
  with assms(2) have "backups c1 = backups c @ [(reservation [] keyID ik m sz d now)\<lparr>b_id := i\<rparr>]"
    by (auto simp: store_reservation_def split: sum.splits if_splits)
  moreover have "f ((reservation [] keyID ik m sz d now)\<lparr>b_id := i\<rparr>) = f (reservation i keyID ik m sz d now)"
    by (rule assms(6)) simp
  ultimately show ?thesis using assms(4) by simp
next
  case (Some j)
  let ?h = "\<lambda>b. b\<lparr>b_status := BackupReceiving, b_started_at := unix now, b_received_at := NoStamp, b_failure := []\<rparr>"
  obtain x where x: "x \<in> set (backups c)" "b_id x = j" "b_key_id x = keyID" "b_size x = sz" "b_status x = BackupFailed"
    using idem_resumeD [of c keyID ik sz d m j] assms(3) Some by auto
  have d: "distinct (map b_id (backups c))" using assms(1) by (simp add: core_inv_defs)
  have c1: "backups c1 = update_where (\<lambda>b. b_id b = b_id x \<and> b_status b = b_status x) ?h (backups c)"
    using assms(2) Some x by (auto simp: store_reservation_def)
  show ?thesis
  proof (cases "Q keyID")
    case True
    have "f (?h x) = f (reservation i keyID ik m sz d now)" by (rule assms(6)) (simp add: x)
    then show ?thesis
      using one_row_sum [OF d x(1), of "\<lambda>b. Q (b_key_id b) \<and> P (b_status b)" ?h f] True x assms(4,5) c1 by simp
  next
    case False
    have "sum_where (\<lambda>b. Q (b_key_id b) \<and> P (b_status b)) f (backups c1) = sum_where (\<lambda>b. Q (b_key_id b) \<and> P (b_status b)) f (backups c)"
      unfolding c1 sum_where_update sum_where_split [of "\<lambda>b. Q (b_key_id b) \<and> P (b_status b)" f _ "\<lambda>b. b_id b = b_id x \<and> b_status b = b_status x"]
    proof -
      have "sum_where (\<lambda>b. (b_id b = b_id x \<and> b_status b = b_status x) \<and> R b) g (backups c) = 0"
        if "\<not> R x" for R and g :: "backup \<Rightarrow> int"
        using sum_where_one [OF d x(1), of "\<lambda>b. b_status b = b_status x \<and> R b" g] that by (simp add: conj_ac)
      then show "sum_where (\<lambda>b. \<not> (b_id b = b_id x \<and> b_status b = b_status x) \<and> Q (b_key_id b) \<and> P (b_status b)) f (backups c)
          + sum_where (\<lambda>b. (b_id b = b_id x \<and> b_status b = b_status x) \<and> Q (b_key_id (?h b)) \<and> P (b_status (?h b))) (f \<circ> ?h) (backups c)
        = sum_where (\<lambda>b. \<not> (b_id b = b_id x \<and> b_status b = b_status x) \<and> Q (b_key_id b) \<and> P (b_status b)) f (backups c)
          + sum_where (\<lambda>b. (b_id b = b_id x \<and> b_status b = b_status x) \<and> Q (b_key_id b) \<and> P (b_status b)) f (backups c)"
        using False x(3) by simp
    qed
    then show ?thesis using False by simp
  qed
qed

lemma attempts_recorded: "attempts24h (record_attempt keyID i now c) keyID now = attempts24h c keyID now + 1"
proof -
  have "day_before now \<le> unix now" unfolding day_before_def by (rule unix_mono) (simp add: hour_ns_def second_def)
  moreover have "count_where (\<lambda>t. ua_key_id t = keyID \<and> ua_at t \<ge> s) (filter (\<lambda>t. \<not> (ua_key_id t = keyID \<and> ua_at t < s)) ts)
      = count_where (\<lambda>t. ua_key_id t = keyID \<and> ua_at t \<ge> s) ts" for s ts
    by (induction ts) auto
  ultimately show ?thesis by (simp add: attempts24h_def record_attempt_def)
qed

lemma record_attempt_simps [simp]: "backups (record_attempt k i now c) = backups c"
  by (simp add: record_attempt_def)


subsection \<open>One deposit per idempotency key\<close>

definition idem_keys :: "backup list \<Rightarrow> (string \<times> string) list" where
  "idem_keys bs = map (\<lambda>b. (b_key_id b, b_idempotency_key b)) (filter (\<lambda>b. b_idempotency_key b \<noteq> []) bs)"

definition idem_inv :: "catalog \<Rightarrow> bool" where
  "idem_inv c \<longleftrightarrow> core_inv c \<and> distinct (idem_keys (backups c))"

lemma idem_keys_update:
  "(\<And>b. b \<in> set bs \<Longrightarrow> P b \<Longrightarrow> b_key_id (f b) = b_key_id b \<and> b_idempotency_key (f b) = b_idempotency_key b) \<Longrightarrow>
   idem_keys (update_where P f bs) = idem_keys bs"
  by (induction bs) (auto simp: idem_keys_def)

lemma idem_keys_moves:
  assumes "moves c c'" "length (backups c') = length (backups c)"
  shows "idem_keys (backups c') = idem_keys (backups c)"
proof -
  from assms have "list_all2 (\<lambda>b b'. same_deposit b b' \<and> legal (b_status b) (b_status b')) (backups c) (backups c')"
    by (auto simp: moves_def)
  then show ?thesis by (induction rule: list_all2_induct) (auto simp: idem_keys_def same_deposit_def)
qed

lemma idem_newD: "idempotency c keyID ik sz d m = IdemNew \<Longrightarrow> ik = [] \<or> (keyID, ik) \<notin> set (idem_keys (backups c))"
  by (auto simp: idempotency_def idem_keys_def dest: find_NoneD split: if_splits option.splits status.splits)

lemma Reserve_idem:
  assumes "ReserveIdempotentChecked E n t m sz d ik now ch c = Inr (b, c')" "distinct (idem_keys (backups c))"
  shows "distinct (idem_keys (backups c'))"
  using assms(1)
proof (cases rule: ReserveCases)
  case (reserved keyID p i c1 ex)
  show ?thesis
  proof (cases ex)
    case None
    then have "backups c1 = backups c @ [(reservation [] keyID ik m sz d now)\<lparr>b_id := i\<rparr>]"
      using reserved(4) by (auto simp: store_reservation_def split: sum.splits if_splits)
    then show ?thesis
      using idem_newD [of c keyID ik sz d m] reserved(2,6) None assms(2)
      by (auto simp: idem_keys_def reservation_def)
  next
    case (Some j)
    then have "backups c1 = update_where (\<lambda>b. b_id b = j \<and> b_status b = BackupFailed)
      (\<lambda>b. b\<lparr>b_status := BackupReceiving, b_started_at := unix now, b_received_at := NoStamp, b_failure := []\<rparr>) (backups c)"
      using reserved(4) by (auto simp: store_reservation_def)
    then show ?thesis using idem_keys_update reserved(6) assms(2) by simp
  qed
qed (use assms(2) in simp)

lemma set_backup_rows: "set_backup i st f c = Some c1 \<Longrightarrow> length (backups c1) = length (backups c)"
  by (auto simp: set_backup_def split: if_splits)

lemma same_core_backups: "same_core c c' \<Longrightarrow> backups c' = backups c" by (simp add: same_core_def)

lemma finish_row_count: "finish_operation u inc nt o' now c = Inr (r, c') \<Longrightarrow> length (backups c') = length (backups c)"
proof -
  assume "finish_operation u inc nt o' now c = Inr (r, c')"
  then obtain c1 g where "finish_backup o' now c = Some c1" "same_core (set_operation (op_id o') g c1) c'"
    by (auto simp: finish_operation_def dest!: resolveMaintenance_frame split: if_splits option.splits sum.splits)
  then show ?thesis
    by (cases "op_kind_of o'") (auto simp: finish_backup_def dest!: same_core_backups set_backup_rows)
qed

lemma record_failure_row_count: "record_failure E o' d now c = Inr (r, c') \<Longrightarrow> length (backups c') = length (backups c)"
  by (auto simp: record_failure_def Let_def same_core_def set_operation_def dest!: openAnomaly_frame
      split: sum.splits option.splits if_splits)

lemma row_counts:
  "RequestQuarantine E i og ac re now c = Inr (o', c') \<Longrightarrow> length (backups c') = length (backups c)"
  "RequestPurge E i og ac re now c = Inr (o', c') \<Longrightarrow> length (backups c') = length (backups c)"
  "RequestRecovery i ac re now c = Inr (o', c') \<Longrightarrow> length (backups c') = length (backups c)"
  "AuthorizeOperation E tok k l now c = Inr (ot, c') \<Longrightarrow> length (backups c') = length (backups c)"
  "ValidateOperation E k t l now c = Inr (r, c') \<Longrightarrow> length (backups c') = length (backups c)"
  "ConfirmOperation E k t fin d l now c = Inr (r, c') \<Longrightarrow> length (backups c') = length (backups c)"
  "ReconcileAuthorized k now c = Inr (r, c') \<Longrightarrow> length (backups c') = length (backups c)"
  "ResetAuthorized k now c = Inr (r, c') \<Longrightarrow> length (backups c') = length (backups c)"
  "CancelQuarantineRequest i ac now c = Inr (r, c') \<Longrightarrow> length (backups c') = length (backups c)"
  "Complete E i now c = Inr (r, c') \<Longrightarrow> length (backups c') = length (backups c)"
  "Fail E i re now c = Inr (r, c') \<Longrightarrow> length (backups c') = length (backups c)"
  "Revoke kk now c = Inr (r, c') \<Longrightarrow> length (backups c') = length (backups c)"
  subgoal by (auto simp: RequestQuarantine_def Let_def dest!: insert_operation_backups set_backup_rows split: if_splits option.splits sum.splits)
  subgoal by (auto simp: RequestPurge_def Let_def dest!: insert_operation_backups set_backup_rows split: if_splits option.splits sum.splits)
  subgoal by (auto simp: RequestRecovery_def Let_def dest!: insert_operation_backups split: if_splits option.splits sum.splits)
  subgoal by (auto simp: AuthorizeOperation_def split: sum.splits option.splits if_splits)
  subgoal by (auto simp: ValidateOperation_def split: sum.splits option.splits if_splits)
  subgoal by (auto simp: ConfirmOperation_def dest: finish_row_count record_failure_row_count split: sum.splits option.splits if_splits)
  subgoal by (auto simp: ReconcileAuthorized_def dest: finish_row_count split: option.splits if_splits)
  subgoal by (auto simp: ResetAuthorized_def Let_def dest!: resolve_after_frame same_core_backups set_backup_rows split: option.splits if_splits)
  subgoal by (auto simp: CancelQuarantineRequest_def Let_def same_core_def dest!: resolveMaintenance_frame set_backup_rows
        split: option.splits if_splits sum.splits)
  subgoal by (auto simp: Complete_def dest!: evaluateCompleted_frame same_core_backups set_backup_rows split: option.splits sum.splits)
  subgoal by (auto simp: Fail_def dest!: openAnomaly_frame same_core_backups set_backup_rows split: option.splits sum.splits)
  subgoal by (simp add: Revoke_effect(1))
  done

lemma step_no_insert:
  assumes "store_step E c c'"
  shows "length (backups c') = length (backups c) \<or> (\<exists>n t m sz d ik now ch b. ReserveIdempotentChecked E n t m sz d ik now ch c = Inr (b, c'))"
  using assms
  by (induction rule: store_step.induct)
    (blast | rule disjI1, erule row_counts | rule disjI1, drule rows_frames, simp only: same_rows_def)+

lemma store_step_idem: "store_step E c c' \<Longrightarrow> idem_inv c \<Longrightarrow> idem_inv c'"
  unfolding idem_inv_def
  using step_no_insert [of E c c'] store_step_moves [of E c c'] idem_keys_moves [of c c'] Reserve_idem store_step_inv [of E c c']
  by metis

lemma Init_idem: "idem_inv Init"
  using Init_inv by (simp add: idem_inv_def) (simp add: Init_def idem_keys_def)

interpretation store_idem: machine Init "store_step E" idem_inv
  by unfold_locales (auto intro: Init_idem store_step_idem)

lemma idem_row_unique:
  assumes "distinct (idem_keys bs)" "x \<in> set bs" "y \<in> set bs" "b_key_id x = b_key_id y"
    "b_idempotency_key x = b_idempotency_key y" "b_idempotency_key x \<noteq> []"
  shows "x = y"
proof -
  have "inj_on (\<lambda>b. (b_key_id b, b_idempotency_key b)) (set (filter (\<lambda>b. b_idempotency_key b \<noteq> []) bs))"
    using assms(1) unfolding idem_keys_def distinct_map by blast
  then show ?thesis by (rule inj_onD) (use assms in auto)
qed

lemma idem_existingD:
  assumes "idempotency c keyID ik sz d m = IdemExisting b"
  shows "b \<in> set (backups c) \<and> b_key_id b = keyID \<and> b_idempotency_key b = ik \<and> b_size b = sz \<and> b_sha256 b = d \<and> b_metadata b = m"
proof -
  from assms have "List.find (\<lambda>b. b_key_id b = keyID \<and> b_idempotency_key b = ik) (backups c) = Some b"
    "b_size b = sz \<and> b_sha256 b = d \<and> b_metadata b = m"
    by (auto simp: idempotency_def split: if_splits option.splits status.splits)
  then show ?thesis by (auto dest: find_SomeD)
qed

definition deposit_is :: "backup \<Rightarrow> backup \<Rightarrow> string \<Rightarrow> string \<Rightarrow> int \<Rightarrow> string \<Rightarrow> metadata \<Rightarrow> bool" where
  "deposit_is b x keyID ik sz d m \<longleftrightarrow> b_id x = b_id b \<and> b_key_id x = keyID \<and> b_idempotency_key x = ik \<and> b_size x = sz
     \<and> b_sha256 x = d \<and> b_metadata x = m"

lemma reserved_row:
  assumes "ReserveIdempotentChecked E n t m sz d ik now ch c = Inr (b, c')"
  shows "\<exists>x \<in> set (backups c'). deposit_is b x (b_key_id b) ik sz d m"
  using assms
proof (cases rule: ReserveCases)
  case (existing keyID p)
  then show ?thesis using idem_existingD [OF existing(2)] by (auto simp: deposit_is_def)
next
  case (reserved keyID p i c1 ex)
  show ?thesis
  proof (cases ex)
    case None
    then have "(reservation [] keyID ik m sz d now)\<lparr>b_id := i\<rparr> \<in> set (backups c1)"
      using reserved(4) by (auto simp: store_reservation_def split: sum.splits if_splits)
    then show ?thesis using reserved(5,6)
      by (intro bexI [of _ "(reservation [] keyID ik m sz d now)\<lparr>b_id := i\<rparr>"]) (simp_all add: deposit_is_def reservation_def)
  next
    case (Some j)
    let ?h = "\<lambda>b. b\<lparr>b_status := BackupReceiving, b_started_at := unix now, b_received_at := NoStamp, b_failure := []\<rparr>"
    obtain x where x: "x \<in> set (backups c)" "b_id x = j" "b_status x = BackupFailed" "deposit_is x x keyID ik sz d m"
      using idem_resumeD [of c keyID ik sz d m j] reserved(2) Some by (auto simp: deposit_is_def)
    have "i = j" "?h x \<in> set (backups c1)"
      using reserved(4) Some x(1,2,3) by (auto simp: store_reservation_def set_update_where)
    then show ?thesis using reserved(5,6) x by (intro bexI [of _ "?h x"]) (auto simp: deposit_is_def)
  qed
qed


end
