(* ===== verification/Ingest_Machine.thy ===== *)
theory Ingest_Machine
  imports Maintenance Store_Properties Store_Reservations
begin

text \<open>
  The writer as a transition system: concurrent uploads interleaved call by call, every outcome of
  every call, the catalogue changing elsewhere, the process killed or the power lost at any moment, and
  reconciliation before the writer listens again. The invariant says what the disk holds for each row
  of the catalogue and where each upload stands; it makes every received backup safe for ever.
\<close>

subsection \<open>What the catalogue says of a deposit\<close>

type_synonym deposit = "status \<times> int \<times> string"

definition view :: "catalog \<Rightarrow> string \<Rightarrow> deposit option" where
  "view c i = map_option (\<lambda>b. (b_status b, b_size b, b_sha256 b)) (find_backup c i)"

lemma view_Some:
  assumes "distinct (map b_id (backups c))"
  shows "view c i = Some (st, sz, sha) \<longleftrightarrow> (\<exists>b \<in> set (backups c). b_id b = i \<and> b_status b = st \<and> b_size b = sz \<and> b_sha256 b = sha)"
  unfolding view_def find_backup_def by (auto simp: find_Some_iff_distinct [OF assms])

lemma view_None: "view c i = None \<longleftrightarrow> i \<notin> b_id ` set (backups c)"
  by (auto simp: view_def find_backup_def find_None_iff)

lemma view_row: "distinct (map b_id (backups c)) \<Longrightarrow> b \<in> set (backups c) \<Longrightarrow> view c (b_id b) = Some (b_status b, b_size b, b_sha256 b)"
  by (simp add: view_Some) blast

lemma find_map_id:
  assumes "\<And>b. b_id (h b) = b_id b"
  shows "List.find (\<lambda>b. b_id b = i) (map h bs) = map_option h (List.find (\<lambda>b. b_id b = i) bs)"
  by (induction bs) (auto simp: assms)

lemma view_update:
  assumes "backups c' = update_where (\<lambda>b. b_id b = i \<and> b_status b = st) f (backups c)" "distinct (map b_id (backups c))"
    and "\<And>b. b_id (f b) = b_id b \<and> b_status (f b) = st' \<and> b_size (f b) = b_size b \<and> b_sha256 (f b) = b_sha256 b"
    and "view c i = Some (st, sz, sha)"
  shows "view c' = (view c)(i := Some (st', sz, sha))"
proof
  fix j
  let ?h = "\<lambda>b. if b_id b = i \<and> b_status b = st then f b else b"
  have "find_backup c' j = map_option ?h (find_backup c j)"
    unfolding find_backup_def assms(1) update_where_def by (rule find_map_id) (simp add: assms(3))
  then have f: "view c' j = map_option (\<lambda>b. (b_status (?h b), b_size (?h b), b_sha256 (?h b))) (find_backup c j)"
    by (simp add: view_def option.map_comp comp_def)
  show "view c' j = ((view c)(i := Some (st', sz, sha))) j"
  proof (cases "find_backup c j")
    case None
    then show ?thesis using f assms(4) by (auto simp: view_def)
  next
    case (Some b)
    then have "b_id b = j" using find_SomeD unfolding find_backup_def by fast
    then show ?thesis using f Some assms(3,4) by (simp add: view_def) force
  qed
qed

lemma find_append: "List.find P (xs @ ys) = (case List.find P xs of None \<Rightarrow> List.find P ys | Some x \<Rightarrow> Some x)"
  by (induction xs) auto

lemma view_same: "backups c' = backups c \<Longrightarrow> view c' = view c"
  by (rule ext) (simp add: view_def find_backup_def)

lemma set_backup_view:
  assumes "set_backup i st f c = Some c1" "distinct (map b_id (backups c))"
    and "\<And>b. b_id (f b) = b_id b \<and> b_status (f b) = st' \<and> b_size (f b) = b_size b \<and> b_sha256 (f b) = b_sha256 b"
  shows "\<exists>sz sha. view c i = Some (st, sz, sha) \<and> view c1 = (view c)(i := Some (st', sz, sha))"
proof -
  from assms(1) have one: "count_where (\<lambda>b. b_id b = i \<and> b_status b = st) (backups c) = 1"
    and c1: "backups c1 = update_where (\<lambda>b. b_id b = i \<and> b_status b = st) f (backups c)" by (auto simp: set_backup_def split: if_splits)
  from one obtain b where "b \<in> set (backups c)" "b_id b = i" "b_status b = st"
    using count_where_pos [of "\<lambda>b. b_id b = i \<and> b_status b = st" "backups c"] by auto
  then have v: "view c i = Some (st, b_size b, b_sha256 b)" using view_Some [OF assms(2)] by blast
  with view_update [OF c1 assms(2,3)] show ?thesis by blast
qed

lemma Complete_view:
  assumes "Complete E i now c = Inr (r, c')" "core_inv c"
  shows "core_inv c'" "\<exists>sz sha. view c i = Some (BackupReceiving, sz, sha) \<and> view c' = (view c)(i := Some (BackupComplete, sz, sha))"
proof -
  from assms(1) obtain c1 where c1: "set_backup i BackupReceiving
      (\<lambda>b. b\<lparr>b_status := BackupComplete, b_received_at := Stamp now, b_failure := []\<rparr>) c = Some c1" "same_core c1 c'"
    by (auto simp: Complete_def dest: evaluateCompleted_frame split: option.splits sum.splits)
  then have "view c' = view c1" by (intro view_same) (simp add: same_core_def)
  then show "\<exists>sz sha. view c i = Some (BackupReceiving, sz, sha) \<and> view c' = (view c)(i := Some (BackupComplete, sz, sha))"
    using set_backup_view [OF c1(1), of BackupComplete] assms(2) by (simp add: core_inv_def)
  show "core_inv c'" using Complete_inv assms by blast
qed

lemma Fail_view:
  assumes "Fail E i re now c = Inr (r, c')" "core_inv c"
  shows "core_inv c'" "\<exists>sz sha. view c i = Some (BackupReceiving, sz, sha) \<and> view c' = (view c)(i := Some (BackupFailed, sz, sha))"
proof -
  from assms(1) obtain c1 where c1: "set_backup i BackupReceiving (\<lambda>b. b\<lparr>b_status := BackupFailed, b_failure := re\<rparr>) c = Some c1" "same_core c1 c'"
    by (auto simp: Fail_def dest: openAnomaly_frame split: option.splits sum.splits)
  then have "view c' = view c1" by (intro view_same) (simp add: same_core_def)
  then show "\<exists>sz sha. view c i = Some (BackupReceiving, sz, sha) \<and> view c' = (view c)(i := Some (BackupFailed, sz, sha))"
    using set_backup_view [OF c1(1), of BackupFailed] assms(2) by (simp add: core_inv_def)
  show "core_inv c'" using Fail_inv assms by blast
qed

lemma Reserve_view:
  assumes "ReserveIdempotentChecked E n t m sz d ik now ch c = Inr (b, c')" "core_inv c"
  shows "core_inv c'" "c' = c \<and> b_status b = BackupComplete \<and> view c (b_id b) = Some (BackupComplete, b_size b, b_sha256 b)
    \<or> b_status b = BackupReceiving \<and> (view c (b_id b) = None \<or> view c (b_id b) = Some (BackupFailed, b_size b, b_sha256 b))
      \<and> view c' = (view c)(b_id b := Some (BackupReceiving, b_size b, b_sha256 b))"
proof -
  have dist: "distinct (map b_id (backups c))" using assms(2) by (simp add: core_inv_def)
  show "core_inv c'" using Reserve_inv assms by blast
  show "c' = c \<and> b_status b = BackupComplete \<and> view c (b_id b) = Some (BackupComplete, b_size b, b_sha256 b)
    \<or> b_status b = BackupReceiving \<and> (view c (b_id b) = None \<or> view c (b_id b) = Some (BackupFailed, b_size b, b_sha256 b))
      \<and> view c' = (view c)(b_id b := Some (BackupReceiving, b_size b, b_sha256 b))"
    using assms(1)
  proof (cases rule: ReserveCases)
    case (existing keyID p)
    then have "b_status b = BackupComplete" "b \<in> set (backups c)"
      by (auto simp: idempotency_def dest: find_SomeD split: if_splits option.splits status.splits)
    then show ?thesis using existing(3) view_row [OF dist] by auto
  next
    case (reserved keyID p i c1 ex)
    have b: "b_id b = i" "b_status b = BackupReceiving" "b_size b = sz" "b_sha256 b = d"
      unfolding reserved(5) by (simp_all add: reservation_def)
    have c': "view c' = view c1" by (rule view_same) (simp add: reserved(6) record_attempt_def)
    show ?thesis
    proof (cases ex)
      case None
      from reserved(4) None have new: "i \<notin> b_id ` set (backups c)"
        and bs: "backups c1 = backups c @ [(reservation [] keyID ik m sz d now)\<lparr>b_id := i\<rparr>]"
        by (auto simp: store_reservation_def list_ex_iff split: sum.splits if_splits)
      have "view c1 = (view c)(i := Some (BackupReceiving, sz, d))"
      proof
        show "view c1 j = ((view c)(i := Some (BackupReceiving, sz, d))) j" for j
        proof (cases "j = i")
          case True
          then have "find_backup c j = None" using new by (auto simp: find_backup_def find_None_iff)
          then show ?thesis using True by (simp add: view_def find_backup_def bs reservation_def find_append)
        qed (simp add: view_def find_backup_def bs find_append split: option.splits)
      qed
      then show ?thesis using b c' new by (simp add: view_None)
    next
      case (Some j)
      from reserved(4) Some have ij: "i = j" and bs: "backups c1 = update_where (\<lambda>b. b_id b = j \<and> b_status b = BackupFailed)
          (\<lambda>b. b\<lparr>b_status := BackupReceiving, b_started_at := unix now, b_received_at := NoStamp, b_failure := []\<rparr>) (backups c)"
        by (auto simp: store_reservation_def)
      from idem_resumeD [of c keyID ik sz d m j] reserved(2) Some have "view c j = Some (BackupFailed, sz, d)"
        using view_Some [OF dist] by auto
      then show ?thesis using view_update [OF bs dist, of BackupReceiving sz d] b c' ij by simp
    qed
  qed
qed

subsection \<open>Final permissions\<close>

definition in_transfer :: "status \<Rightarrow> bool" where
  "in_transfer st \<longleftrightarrow> st = BackupReceiving \<or> st = BackupFailed"

text \<open>A received backup on which an operation of a kind was given the final permission.\<close>

definition permitted :: "catalog \<Rightarrow> string \<Rightarrow> op_kind \<Rightarrow> bool" where
  "permitted c i k \<longleftrightarrow> (\<exists>o' \<in> set (operations c). op_backup_id o' = i \<and> op_kind_of o' = k \<and> final_op o')
     \<and> (\<exists>st sz sha. view c i = Some (st, sz, sha) \<and> \<not> in_transfer st)"

definition follows :: "catalog \<Rightarrow> catalog \<Rightarrow> bool" where
  "follows c c' \<longleftrightarrow> core_inv c' \<and> keeps_final c c' \<and> (\<forall>i k. permitted c i k \<longrightarrow> permitted c' i k)"

lemma received_stays:
  assumes "preserved c c'" "core_inv c" "core_inv c'" "view c i = Some (st, sz, sha)" "\<not> in_transfer st"
  shows "\<exists>st'. view c' i = Some (st', sz, sha) \<and> \<not> in_transfer st'"
proof -
  from assms(2,4) obtain b where "b \<in> set (backups c)" "b_id b = i" "b_status b = st" "b_size b = sz" "b_sha256 b = sha"
    using view_Some by (auto simp: core_inv_def)
  moreover from this(1) obtain n where "n < length (backups c)" "backups c ! n = b" by (metis in_set_conv_nth)
  ultimately have "backups c' ! n \<in> set (backups c')" "same_deposit b (backups c' ! n)" "\<not> in_transfer (b_status (backups c' ! n))"
    using assms(1,5) by (auto simp: preserved_def received_def in_transfer_def)
  then show ?thesis
    using view_row [of c' "backups c' ! n"] assms(3) \<open>b_id b = i\<close> \<open>b_size b = sz\<close> \<open>b_sha256 b = sha\<close> by (simp add: core_inv_def same_deposit_def)
qed

lemma store_step_follows:
  assumes "store_step E c c'" "core_inv c"
  shows "follows c c'"
proof -
  have c': "core_inv c'" using store_step_inv assms by blast
  have "preserved c c'" using moves_preserved store_step_moves store_step_lease assms(1) by blast
  then have "permitted c' i k" if "permitted c i k" for i k
    using that store_step_keeps [OF assms] received_stays [OF _ assms(2) c'] unfolding permitted_def keeps_final_def carries_def by metis
  then show ?thesis using c' store_step_keeps [OF assms] by (simp add: follows_def)
qed

lemma follows_refl: "core_inv c \<Longrightarrow> follows c c" by (simp add: follows_def keeps_same)

subsection \<open>Steps\<close>

definition new_world :: world where
  "new_world = \<lparr>cat = Init, disk_of = \<lparr>names = [], inodes = [], unsynced = [], renamed = []\<rparr>, slots = 0, uploads = [], phase_of = Down, task_of = None\<rparr>"

text \<open>Changes of the catalogue by the other operations of the store: no deposit begins or ends.\<close>

definition elsewhere :: "catalog \<Rightarrow> catalog \<Rightarrow> bool" where
  "elsewhere c c' \<longleftrightarrow> (\<forall>i. case view c i of None \<Rightarrow> view c' i = None
     | Some (st, sz, sha) \<Rightarrow> \<exists>st'. view c' i = Some (st', sz, sha)
         \<and> (st' = st \<or> \<not> in_transfer st \<and> \<not> in_transfer st'))"

definition killed :: "disk \<Rightarrow> world \<Rightarrow> world" where
  "killed d w = w\<lparr>disk_of := d, uploads := [], slots := 0, phase_of := Down\<rparr>"

inductive server_step :: "env \<Rightarrow> world \<Rightarrow> world \<Rightarrow> bool" for E where
  Request: "phase_of w = Up \<Longrightarrow> ServeHTTP E dec newID st reserveFree now r w = (res, w') \<Longrightarrow> server_step E w w'"
| Receive: "k < length (uploads w) \<Longrightarrow> Receive E inp (uploads w ! k) w = (u, w') \<Longrightarrow> server_step E w (w'\<lparr>uploads := (uploads w')[k := u]\<rparr>)"
| Abort: "k < length (uploads w) \<Longrightarrow> up_pc (uploads w ! k) = AtCreate \<Longrightarrow> Abort E reason out now (uploads w ! k) w = (u, w') \<Longrightarrow>
    server_step E w (w'\<lparr>uploads := (uploads w')[k := u]\<rparr>)"
| Elsewhere: "store_step E (cat w) c \<Longrightarrow> elsewhere (cat w) c \<Longrightarrow> server_step E w (w\<lparr>cat := c\<rparr>)"
| Kill: "server_step E w (killed (disk_of w) w)"
| PowerLoss: "power_loss (disk_of w) d \<Longrightarrow> server_step E w (killed d (w\<lparr>task_of := None\<rparr>))"
| Reconcile: "phase_of w = Down \<Longrightarrow> Reconcile E F now w = (res, w') \<Longrightarrow>
    server_step E w (w'\<lparr>phase_of := if res = None then Up else Down\<rparr>)"
| BeginCycle: "task_of w = None \<Longrightarrow> server_step E w (w\<lparr>task_of := Some (begin_task ops bs l o' b)\<rparr>)"
| Maintain: "task_of w = Some t \<Longrightarrow> server_step E w (processOperations E n t w)"
| EndCycle: "server_step E w (w\<lparr>task_of := None\<rparr>)"

subsection \<open>The invariant\<close>

definition alternatives :: "place \<Rightarrow> disk \<Rightarrow> node option set" where
  "alternatives p d = {v. (p, v) \<in> set (unsynced d)}"

definition holds_at :: "place \<Rightarrow> disk \<Rightarrow> node option set" where
  "holds_at p d = insert (Lstat p d) (alternatives p d)"

definition fits :: "env \<Rightarrow> string \<Rightarrow> int \<Rightarrow> string \<Rightarrow> bool" where
  "fits E bytes sz sha \<longleftrightarrow> int (length bytes) = sz \<and> TokenHash E bytes = sha"

definition sound :: "env \<Rightarrow> disk \<Rightarrow> nat \<Rightarrow> int \<Rightarrow> string \<Rightarrow> bool" where
  "sound E d n sz sha \<longleftrightarrow> n < length (inodes d) \<and> durable (inodes d ! n) \<and> fits E (content (inodes d ! n)) sz sha"

definition stored :: "env \<Rightarrow> disk \<Rightarrow> string \<Rightarrow> int \<Rightarrow> string \<Rightarrow> bool" where
  "stored E d i sz sha \<longleftrightarrow> (\<exists>n. holds_at (final i) d = {Some (Regular n)} \<and> sound E d n sz sha)"

definition published :: "env \<Rightarrow> disk \<Rightarrow> string \<Rightarrow> int \<Rightarrow> string \<Rightarrow> bool" where
  "published E d i sz sha \<longleftrightarrow> alternatives (final i) d \<subseteq> {None}
     \<and> (\<exists>n. Lstat (final i) d = Some (Regular n) \<and> sound E d n sz sha)"

text \<open>A deposit's one file under its archive or its quarantine name, or between the two in a rename.\<close>

definition anchored :: "disk \<Rightarrow> string \<Rightarrow> bool" where
  "anchored d i \<longleftrightarrow> None \<notin> holds_at (final i) d \<or> None \<notin> holds_at (quarantine i) d
     \<or> ((final i, quarantine i) \<in> set (renamed d) \<or> (quarantine i, final i) \<in> set (renamed d))
       \<and> (Lstat (final i) d \<noteq> None \<or> Lstat (quarantine i) d \<noteq> None)"

definition kept :: "env \<Rightarrow> disk \<Rightarrow> string \<Rightarrow> int \<Rightarrow> string \<Rightarrow> bool" where
  "kept E d i sz sha \<longleftrightarrow> (\<exists>n. sound E d n sz sha \<and> anchored d i
     \<and> holds_at (final i) d \<subseteq> {None, Some (Regular n)} \<and> holds_at (quarantine i) d \<subseteq> {None, Some (Regular n)})"

definition unpublished :: "disk \<Rightarrow> string \<Rightarrow> bool" where
  "unpublished d i \<longleftrightarrow> holds_at (final i) d = {None}"

fun file_agrees :: "env \<Rightarrow> disk \<Rightarrow> string \<Rightarrow> deposit \<Rightarrow> bool" where
  "file_agrees E d i (st, sz, sha) \<longleftrightarrow>
     (\<not> in_transfer st \<longrightarrow> kept E d i sz sha)
     \<and> (st = BackupFailed \<longrightarrow> unpublished d i)
     \<and> (st = BackupReceiving \<longrightarrow> unpublished d i \<or> published E d i sz sha \<or> stored E d i sz sha)"

definition owner :: "upload \<Rightarrow> bool" where
  "owner u \<longleftrightarrow> up_pc u \<noteq> AtRelease \<and> up_pc u \<noteq> Finished"

definition filing :: "upload \<Rightarrow> bool" where
  "filing u \<longleftrightarrow> up_pc u \<in> {AtCopy, AtChmod, AtSync, AtClose, AtPublish}"

definition unlinked :: "nat \<Rightarrow> disk \<Rightarrow> bool" where
  "unlinked n d \<longleftrightarrow> (\<forall>dir name. dir \<noteq> Incoming \<longrightarrow> Some (Regular n) \<notin> holds_at (dir, name) d)"

definition staged :: "upload \<Rightarrow> disk \<Rightarrow> bool" where
  "staged u d \<longleftrightarrow> Lstat (staging (b_id (up_backup u))) d = Some (Regular (up_inode u)) \<and> up_inode u < length (inodes d) \<and> unlinked (up_inode u) d"

definition pc_agrees :: "env \<Rightarrow> disk \<Rightarrow> upload \<Rightarrow> bool" where
  "pc_agrees E d u \<longleftrightarrow>
     (let b = up_backup u; i = b_id b; f = inodes d ! up_inode u; fit = fits E (content f) (b_size b) (b_sha256 b) in
      case up_pc u of
        AtCreate \<Rightarrow> unpublished d i | CleanRemove \<Rightarrow> unpublished d i | CleanFail \<Rightarrow> unpublished d i
      | AtCopy \<Rightarrow> unpublished d i \<and> staged u d \<and> content f = []
      | AtChmod \<Rightarrow> unpublished d i \<and> staged u d \<and> fit
      | AtSync \<Rightarrow> unpublished d i \<and> staged u d \<and> fit
      | AtClose \<Rightarrow> unpublished d i \<and> staged u d \<and> fit \<and> (up_error u = None \<longrightarrow> durable f)
      | AtPublish \<Rightarrow> unpublished d i \<and> staged u d \<and> fit \<and> durable f
      | AtSyncArchive \<Rightarrow> published E d i (b_size b) (b_sha256 b)
      | AtRemoveStaging \<Rightarrow> stored E d i (b_size b) (b_sha256 b)
      | AtSyncIncoming \<Rightarrow> stored E d i (b_size b) (b_sha256 b)
      | AtComplete \<Rightarrow> stored E d i (b_size b) (b_sha256 b)
      | AtRelease \<Rightarrow> True | Finished \<Rightarrow> True)"

definition owns :: "catalog \<Rightarrow> upload \<Rightarrow> bool" where
  "owns c u \<longleftrightarrow> view c (b_id (up_backup u)) = Some (BackupReceiving, b_size (up_backup u), b_sha256 (up_backup u))"

definition disk_wf :: "catalog \<Rightarrow> disk \<Rightarrow> bool" where
  "disk_wf c d \<longleftrightarrow> (\<forall>p n. Some (Regular n) \<in> holds_at p d \<longrightarrow> n < length (inodes d))
     \<and> (\<forall>name v. v \<in> holds_at (Archive, name) d \<longrightarrow> v \<noteq> None \<longrightarrow> (\<exists>i. name = i @ ''.backup'' \<and> view c i \<noteq> None))
     \<and> (\<forall>name v. v \<in> holds_at (QuarantineDir, name) d \<longrightarrow> v \<noteq> None \<longrightarrow> (\<exists>i k. name = i @ ''.backup'' \<and> permitted c i k))
     \<and> (\<forall>p \<in> set (renamed d). \<forall>i. fst p = quarantine i \<or> snd p = quarantine i \<longrightarrow> (\<exists>k. permitted c i k))"

definition exclusive :: "upload list \<Rightarrow> bool" where
  "exclusive us \<longleftrightarrow> (\<forall>k < length us. \<forall>l < length us. k \<noteq> l \<longrightarrow> owner (us ! k) \<longrightarrow> owner (us ! l) \<longrightarrow>
     b_id (up_backup (us ! k)) \<noteq> b_id (up_backup (us ! l)) \<and> (filing (us ! k) \<longrightarrow> filing (us ! l) \<longrightarrow> up_inode (us ! k) \<noteq> up_inode (us ! l)))"

definition slots_agree :: "world \<Rightarrow> bool" where
  "slots_agree w \<longleftrightarrow> slots w = count_where (\<lambda>u. up_pc u \<noteq> Finished) (uploads w) \<and> slots w \<le> slot_limit \<and> (phase_of w = Down \<longrightarrow> uploads w = [])"

definition rows_agree :: "env \<Rightarrow> catalog \<Rightarrow> disk \<Rightarrow> bool" where
  "rows_agree E c d \<longleftrightarrow> (\<forall>i x. view c i = Some x \<longrightarrow> \<not> permitted c i Purge \<longrightarrow> file_agrees E d i x)"

definition uploads_agree :: "env \<Rightarrow> catalog \<Rightarrow> disk \<Rightarrow> upload list \<Rightarrow> bool" where
  "uploads_agree E c d us \<longleftrightarrow> (\<forall>u \<in> set us. owner u \<longrightarrow> owns c u \<and> pc_agrees E d u)"

text \<open>What a cycle of maintenance may rely on at each stage.\<close>

definition ticketed :: "stage \<Rightarrow> bool" where
  "ticketed s \<longleftrightarrow> s \<in> {SavingTicket, Verifying, Opening, RenewingAgain, Validating}"

definition acting :: "stage \<Rightarrow> bool" where
  "acting s \<longleftrightarrow> s \<in> {Rechecking, Renaming, Linking, SyncingLink, RemovingSource, Removing, SyncingFirst, SyncingSecond}"

definition known_op :: "catalog \<Rightarrow> operation \<Rightarrow> bool" where
  "known_op c o' \<longleftrightarrow> (\<exists>x \<in> set (operations c). op_id x = op_id o' \<and> op_backup_id x = op_backup_id o' \<and> op_kind_of x = op_kind_of o')
     \<and> (op_execution_committed o' \<longrightarrow> permitted c (op_backup_id o') (op_kind_of o'))"

definition task_agrees :: "catalog \<Rightarrow> disk \<Rightarrow> task \<Rightarrow> bool" where
  "task_agrees c d t \<longleftrightarrow>
     (let o' = tk_op t; i = b_id (tk_backup t); k = op_kind_of o'; s = tk_stage t in
      (ticketed s \<or> acting s \<longrightarrow> known_op c o')
      \<and> (s \<in> {Opening, RenewingAgain, Validating} \<or> acting s \<longrightarrow> op_backup_id o' = i \<and> k \<noteq> Cancel)
      \<and> (acting s \<longrightarrow> permitted c i k)
      \<and> (s = Opening \<or> s = Removing \<longrightarrow> k = Purge)
      \<and> (s \<in> {Renaming, Linking, SyncingLink, RemovingSource, SyncingSecond} \<longrightarrow> k \<noteq> Purge)
      \<and> (s = SyncingLink \<longrightarrow> Lstat (target_of k i) d \<noteq> None)
      \<and> (s = RemovingSource \<longrightarrow> None \<notin> holds_at (target_of k i) d))"

definition server_inv :: "env \<Rightarrow> world \<Rightarrow> bool" where
  "server_inv E w \<longleftrightarrow> core_inv (cat w) \<and> disk_wf (cat w) (disk_of w) \<and> rows_agree E (cat w) (disk_of w)
     \<and> uploads_agree E (cat w) (disk_of w) (uploads w) \<and> exclusive (uploads w) \<and> slots_agree w
     \<and> (\<forall>t. task_of w = Some t \<longrightarrow> task_agrees (cat w) (disk_of w) t)"

subsection \<open>Places\<close>

lemma quarantine_inj [simp]: "quarantine i = quarantine j \<longleftrightarrow> i = j" by (simp add: quarantine_def)
lemma quarantine_other [simp]:
  "quarantine i \<noteq> final j" "final j \<noteq> quarantine i" "quarantine i \<noteq> staging j" "staging j \<noteq> quarantine i" "fst (quarantine i) = QuarantineDir"
  by (simp_all add: quarantine_def final_def staging_def)
lemma final_inj [simp]: "final i = final j \<longleftrightarrow> i = j" by (simp add: final_def)
lemma staging_inj [simp]: "staging i = staging j \<longleftrightarrow> i = j" by (simp add: staging_def)
lemma final_staging [simp]: "final i \<noteq> staging j" "staging j \<noteq> final i" by (simp_all add: final_def staging_def)
lemma place_dirs [simp]: "fst (final i) = Archive" "fst (staging i) = Incoming" by (simp_all add: final_def staging_def)

lemma alternatives_set_name [simp]:
  "alternatives p (set_name q v d) = (if p = q then insert (Lstat p d) (alternatives p d) else alternatives p d)"
  by (auto simp: alternatives_def)

lemma alternatives_fsync_dir [simp]: "alternatives p (fsync_dir x d) = (if fst p = x then {} else alternatives p d)"
  by (auto simp: alternatives_def)

lemma alternatives_frames [simp]:
  "alternatives p (set_inode i f d) = alternatives p d" "alternatives p (write_inode i b d) = alternatives p d"
  "alternatives p (chmod_inode i m d) = alternatives p d" "alternatives p (fsync_inode i d) = alternatives p d"
  "alternatives p (d\<lparr>inodes := x\<rparr>) = alternatives p d"
  by (simp_all add: alternatives_def)

lemma disk_wfI:
  assumes "\<And>p n. Some (Regular n) \<in> holds_at p d \<Longrightarrow> n < length (inodes d)"
    and "\<And>v name. v \<in> holds_at (Archive, name) d \<Longrightarrow> v \<noteq> None \<Longrightarrow> \<exists>i. name = i @ ''.backup'' \<and> view c i \<noteq> None"
    and "\<And>v name. v \<in> holds_at (QuarantineDir, name) d \<Longrightarrow> v \<noteq> None \<Longrightarrow> \<exists>i k. name = i @ ''.backup'' \<and> permitted c i k"
    and "\<And>p i. p \<in> set (renamed d) \<Longrightarrow> fst p = quarantine i \<or> snd p = quarantine i \<Longrightarrow> \<exists>k. permitted c i k"
  shows "disk_wf c d"
  unfolding disk_wf_def using assms by blast

lemma disk_wfD:
  assumes "disk_wf c d"
  shows "Some (Regular n) \<in> holds_at p d \<Longrightarrow> n < length (inodes d)"
    and "v \<in> holds_at (Archive, name) d \<Longrightarrow> v \<noteq> None \<Longrightarrow> \<exists>i. name = i @ ''.backup'' \<and> view c i \<noteq> None"
    and "v \<in> holds_at (QuarantineDir, name) d \<Longrightarrow> v \<noteq> None \<Longrightarrow> \<exists>i k. name = i @ ''.backup'' \<and> permitted c i k"
    and "x \<in> set (renamed d) \<Longrightarrow> fst x = quarantine i \<or> snd x = quarantine i \<Longrightarrow> \<exists>k. permitted c i k"
  using assms unfolding disk_wf_def by blast+

text \<open>A change of the disk outside some places and inodes.\<close>

definition undisturbed :: "place set \<Rightarrow> nat set \<Rightarrow> disk \<Rightarrow> disk \<Rightarrow> bool" where
  "undisturbed P N d d' \<longleftrightarrow> (\<forall>p. p \<notin> P \<longrightarrow> Lstat p d' = Lstat p d \<and> alternatives p d' \<subseteq> alternatives p d)
     \<and> length (inodes d) \<le> length (inodes d') \<and> (\<forall>m < length (inodes d). m \<notin> N \<longrightarrow> inodes d' ! m = inodes d ! m)
     \<and> (\<forall>p \<in> set (renamed d'). p \<in> set (renamed d) \<or> fst p \<in> P \<and> snd p \<in> P) \<and> (\<forall>p \<in> set (renamed d). fst p \<notin> P \<longrightarrow> snd p \<notin> P \<longrightarrow> p \<in> set (renamed d'))"

lemma undisturbed_holds: "undisturbed P N d d' \<Longrightarrow> p \<notin> P \<Longrightarrow> holds_at p d' \<subseteq> holds_at p d \<and> Lstat p d' = Lstat p d"
  unfolding undisturbed_def holds_at_def by blast

lemma holds_Lstat [simp, intro]: "Lstat p d \<in> holds_at p d" by (simp add: holds_at_def)

lemma sound_undisturbed: "sound E d n sz sha \<Longrightarrow> undisturbed P N d d' \<Longrightarrow> n \<notin> N \<Longrightarrow> sound E d' n sz sha"
  by (auto simp: sound_def undisturbed_def)

lemma holds_singleton: "holds_at p d = {v} \<longleftrightarrow> holds_at p d \<subseteq> {v}"
  using holds_Lstat [of p d] by (metis empty_iff subset_refl subset_singletonD)

lemma unpublished_undisturbed: "unpublished d i \<Longrightarrow> undisturbed P N d d' \<Longrightarrow> final i \<notin> P \<Longrightarrow> unpublished d' i"
  using undisturbed_holds [of P N d d' "final i"] unfolding unpublished_def holds_singleton by blast

lemma published_undisturbed:
  assumes "published E d i sz sha" "undisturbed P N d d'" "final i \<notin> P" "\<And>n. n \<in> N \<Longrightarrow> Some (Regular n) \<notin> holds_at (final i) d"
  shows "published E d' i sz sha"
proof -
  from assms(1) obtain n where n: "Lstat (final i) d = Some (Regular n)" "sound E d n sz sha" by (auto simp: published_def)
  have "Some (Regular n) \<in> holds_at (final i) d" using n(1) by (simp add: holds_at_def)
  then have "n \<notin> N" using assms(4) by blast
  moreover have "alternatives (final i) d' \<subseteq> alternatives (final i) d" using assms(2,3) unfolding undisturbed_def by blast
  ultimately show ?thesis
    using assms(1) n undisturbed_holds [OF assms(2,3)] sound_undisturbed [OF n(2) assms(2)] by (auto simp: published_def)
qed

lemma stored_undisturbed:
  assumes "stored E d i sz sha" "undisturbed P N d d'" "final i \<notin> P" "\<And>n. n \<in> N \<Longrightarrow> Some (Regular n) \<notin> holds_at (final i) d"
  shows "stored E d' i sz sha"
proof -
  from assms(1) obtain n where n: "holds_at (final i) d = {Some (Regular n)}" "sound E d n sz sha" by (auto simp: stored_def)
  then have "n \<notin> N" using assms(4) by force
  then show ?thesis
    using n undisturbed_holds [OF assms(2,3)] sound_undisturbed [OF n(2) assms(2)]
    unfolding stored_def holds_singleton by blast
qed

lemma unlinked_final: "unlinked n d \<Longrightarrow> Some (Regular n) \<notin> holds_at (final i) d"
  by (simp add: unlinked_def final_def)

lemma unlinked_quarantine: "unlinked n d \<Longrightarrow> Some (Regular n) \<notin> holds_at (quarantine i) d"
  by (simp add: unlinked_def quarantine_def)

text \<open>The file of a kept deposit is under one of its names now.\<close>

lemma kept_at:
  assumes "anchored d i" "holds_at (final i) d \<subseteq> {None, Some (Regular n)}" "holds_at (quarantine i) d \<subseteq> {None, Some (Regular n)}"
  shows "Lstat (final i) d = Some (Regular n) \<or> Lstat (quarantine i) d = Some (Regular n)"
proof -
  have "Lstat (final i) d \<in> {None, Some (Regular n)}" "Lstat (quarantine i) d \<in> {None, Some (Regular n)}" using assms(2,3) by blast+
  moreover have "Lstat (final i) d \<noteq> None \<or> Lstat (quarantine i) d \<noteq> None" using assms(1) unfolding anchored_def by (metis holds_Lstat)
  ultimately show ?thesis by auto
qed

lemma anchored_undisturbed:
  assumes "anchored d i" "undisturbed P N d d'" "final i \<notin> P" "quarantine i \<notin> P"
  shows "anchored d' i"
proof -
  note f = undisturbed_holds [OF assms(2,3)] and q = undisturbed_holds [OF assms(2,4)]
  have "p \<in> set (renamed d')" if "p \<in> set (renamed d)" "fst p \<notin> P" "snd p \<notin> P" for p
    using that assms(2) unfolding undisturbed_def by blast
  from this [of "(final i, quarantine i)"] this [of "(quarantine i, final i)"]
  have "(final i, quarantine i) \<in> set (renamed d') \<or> (quarantine i, final i) \<in> set (renamed d')"
    if "(final i, quarantine i) \<in> set (renamed d) \<or> (quarantine i, final i) \<in> set (renamed d)"
    using that assms(3,4) by simp blast
  then show ?thesis using assms(1) f q unfolding anchored_def by auto
qed

lemma kept_undisturbed:
  assumes "kept E d i sz sha" "undisturbed P N d d'" "final i \<notin> P" "quarantine i \<notin> P" "\<And>n. n \<in> N \<Longrightarrow> unlinked n d"
  shows "kept E d' i sz sha"
proof -
  note f = undisturbed_holds [OF assms(2,3)] and q = undisturbed_holds [OF assms(2,4)]
  from assms(1) obtain n where n: "sound E d n sz sha" "anchored d i" "holds_at (final i) d \<subseteq> {None, Some (Regular n)}"
    "holds_at (quarantine i) d \<subseteq> {None, Some (Regular n)}" unfolding kept_def by blast
  have "n \<notin> N" using kept_at [OF n(2-4)] assms(5) unlinked_final unlinked_quarantine holds_Lstat by metis
  then have "sound E d' n sz sha" by (rule sound_undisturbed [OF n(1) assms(2)])
  moreover have "holds_at (final i) d' \<subseteq> {None, Some (Regular n)}" using f n(3) by blast
  moreover have "holds_at (quarantine i) d' \<subseteq> {None, Some (Regular n)}" using q n(4) by blast
  ultimately show ?thesis using anchored_undisturbed [OF n(2) assms(2-4)] unfolding kept_def by blast
qed

lemma file_agrees_undisturbed:
  assumes "file_agrees E d i x" "undisturbed P N d d'" "final i \<notin> P" "quarantine i \<notin> P" "\<And>n. n \<in> N \<Longrightarrow> unlinked n d"
  shows "file_agrees E d' i x"
proof -
  have N: "Some (Regular n) \<notin> holds_at (final i) d" if "n \<in> N" for n using assms(5) [OF that] by (rule unlinked_final)
  show ?thesis
    using assms(1) unpublished_undisturbed [OF _ assms(2,3)] published_undisturbed [OF _ assms(2,3) N] stored_undisturbed [OF _ assms(2,3) N]
      kept_undisturbed [OF _ assms(2-5)] by (cases x) auto
qed

lemma pc_agrees_undisturbed:
  assumes "pc_agrees E d u" "undisturbed P N d d'" "final (b_id (up_backup u)) \<notin> P" "staging (b_id (up_backup u)) \<notin> P"
    and "\<And>n. n \<in> N \<Longrightarrow> unlinked n d" "filing u \<Longrightarrow> up_inode u \<notin> N"
    and "filing u \<Longrightarrow> unlinked (up_inode u) d \<Longrightarrow> unlinked (up_inode u) d'"
  shows "pc_agrees E d' u"
proof -
  let ?i = "b_id (up_backup u)"
  have N: "Some (Regular n) \<notin> holds_at (final ?i) d" if "n \<in> N" for n using assms(5) [OF that] by (rule unlinked_final)
  note un = unpublished_undisturbed [OF _ assms(2,3)] and pub = published_undisturbed [OF _ assms(2,3) N]
    and st = stored_undisturbed [OF _ assms(2,3) N]
  have sg: "staged u d' \<and> inodes d' ! up_inode u = inodes d ! up_inode u" if "filing u" "staged u d"
    using that undisturbed_holds [OF assms(2,4)] assms(2,6,7) unfolding staged_def undisturbed_def by auto
  show ?thesis
  proof (cases "filing u")
    case True
    then show ?thesis using assms(1) un sg by (auto simp: pc_agrees_def Let_def filing_def)
  next
    case False
    then show ?thesis using assms(1) un pub st by (cases "up_pc u") (auto simp: pc_agrees_def filing_def Let_def)
  qed
qed

text \<open>A cycle of maintenance does not notice changes elsewhere.\<close>

lemma target_cases: "target_of k i = final i \<or> target_of k i = quarantine i"
  by (simp add: target_of_def)

lemma task_agrees_undisturbed:
  assumes "task_agrees c d t" "undisturbed P N d d'" "\<And>i k. permitted c i k \<Longrightarrow> final i \<notin> P \<and> quarantine i \<notin> P"
  shows "task_agrees c d' t"
proof (cases "acting (tk_stage t)")
  case True
  let ?i = "b_id (tk_backup t)" and ?k = "op_kind_of (tk_op t)"
  have "permitted c ?i ?k" using assms(1) True by (simp add: task_agrees_def Let_def)
  then have "target_of ?k ?i \<notin> P" using assms(3) target_cases by metis
  note h = undisturbed_holds [OF assms(2) this]
  show ?thesis using assms(1) h unfolding task_agrees_def Let_def by (auto simp del: insert_iff)
qed (use assms(1) in \<open>auto simp: task_agrees_def Let_def acting_def\<close>)

lemma task_agrees_follows: "task_agrees c d t \<Longrightarrow> follows c c' \<Longrightarrow> task_agrees c' d t"
proof -
  assume a: "task_agrees c d t" "follows c c'"
  have "known_op c' (tk_op t)" if "known_op c (tk_op t)"
    using that a(2) unfolding known_op_def follows_def keeps_final_def carries_def by metis
  then show ?thesis using a unfolding task_agrees_def Let_def follows_def by blast
qed

subsection \<open>A step of one upload\<close>

lemma exclusive_update:
  assumes "exclusive us" "k < length us" "owner v \<Longrightarrow> owner (us ! k)" "b_id (up_backup v) = b_id (up_backup (us ! k))"
    and "owner v \<Longrightarrow> filing v \<Longrightarrow> filing (us ! k) \<and> up_inode v = up_inode (us ! k)
        \<or> (\<forall>l < length us. owner (us ! l) \<longrightarrow> filing (us ! l) \<longrightarrow> up_inode (us ! l) \<noteq> up_inode v)"
  shows "exclusive (us[k := v])"
  unfolding exclusive_def
proof (intro allI impI)
  fix a b assume h: "a < length (us[k := v])" "b < length (us[k := v])" "a \<noteq> b" "owner (us[k := v] ! a)" "owner (us[k := v] ! b)"
  have ex: "b_id (up_backup (us ! x)) \<noteq> b_id (up_backup (us ! y)) \<and> (filing (us ! x) \<longrightarrow> filing (us ! y) \<longrightarrow> up_inode (us ! x) \<noteq> up_inode (us ! y))"
    if "x < length us" "y < length us" "x \<noteq> y" "owner (us ! x)" "owner (us ! y)" for x y
    using assms(1) that unfolding exclusive_def by blast
  consider "a = k" | "b = k" | "a \<noteq> k" "b \<noteq> k" by blast
  then show "b_id (up_backup (us[k := v] ! a)) \<noteq> b_id (up_backup (us[k := v] ! b))
      \<and> (filing (us[k := v] ! a) \<longrightarrow> filing (us[k := v] ! b) \<longrightarrow> up_inode (us[k := v] ! a) \<noteq> up_inode (us[k := v] ! b))"
  proof cases
    case 1
    then have o: "owner v" "owner (us ! b)" "b < length us" "b \<noteq> k" using h assms(2) by auto
    then show ?thesis using 1 ex [OF assms(2) o(3)] assms(2-5) by (auto simp: nth_list_update)
  next
    case 2
    then have o: "owner v" "owner (us ! a)" "a < length us" "a \<noteq> k" using h assms(2) by auto
    then show ?thesis using 2 ex [OF o(3) assms(2)] assms(2-5) by (auto simp: nth_list_update)
  next
    case 3
    then show ?thesis using h ex [of a b] by simp
  qed
qed

text \<open>The change an upload makes to the disk leaves everybody else alone.\<close>

lemma disk_step:
  assumes inv: "server_inv E w" and k: "k < length (uploads w)" and own: "owner (uploads w ! k)"
    and b: "up_backup v = up_backup (uploads w ! k)" and i: "i = b_id (up_backup v)" and pc: "up_pc v \<noteq> Finished"
    and frame: "undisturbed {staging i, final i} N (disk_of w) d'"
    and N: "N = {} \<or> N = {up_inode (uploads w ! k)} \<and> filing (uploads w ! k) \<and> unlinked (up_inode (uploads w ! k)) (disk_of w)"
    and wf: "\<And>p n. Some (Regular n) \<in> holds_at p d' \<Longrightarrow> n < length (inodes d')"
    and arch: "\<And>x. x \<in> holds_at (final i) d' \<Longrightarrow> x \<notin> holds_at (final i) (disk_of w) \<Longrightarrow> filing (uploads w ! k) \<and> x = Some (Regular (up_inode (uploads w ! k)))"
    and row: "file_agrees E d' i (BackupReceiving, b_size (up_backup v), b_sha256 (up_backup v))"
    and mine: "owner v \<Longrightarrow> pc_agrees E d' v"
    and ino: "owner v \<Longrightarrow> filing v \<Longrightarrow> filing (uploads w ! k) \<and> up_inode v = up_inode (uploads w ! k) \<or> length (inodes (disk_of w)) \<le> up_inode v"
  shows "server_inv E (w\<lparr>disk_of := d', uploads := (uploads w)[k := v]\<rparr>)"
proof -
  let ?u = "uploads w ! k" and ?d = "disk_of w" and ?c = "cat w"
  note parts = inv [unfolded server_inv_def]
  have own_u: "owns ?c ?u" "pc_agrees E ?d ?u" using parts own k by (auto simp: uploads_agree_def)
  have staged_len: "up_inode x < length (inodes ?d)" "unlinked (up_inode x) ?d" if "x \<in> set (uploads w)" "owner x" "filing x" for x
    using that parts unfolding uploads_agree_def by (auto simp: pc_agrees_def filing_def staged_def Let_def)
  have unl: "unlinked n ?d" if "n \<in> N" for n using N that by auto
  have known: "\<exists>j. name = j @ ''.backup'' \<and> view ?c j \<noteq> None" if "x \<in> holds_at (Archive, name) d'" "x \<noteq> None" for x name
  proof (cases "(Archive, name) = final i")
    case True
    then show ?thesis using own_u(1) b i by (auto simp: owns_def final_def)
  next
    case False
    then have "(Archive, name) \<notin> {staging i, final i}" by (simp add: staging_def)
    then show ?thesis using undisturbed_holds [OF frame] that parts unfolding disk_wf_def by blast
  qed
  have rows: "file_agrees E d' j x" if v: "view ?c j = Some x" "\<not> permitted ?c j Purge" for j x
  proof (cases "j = i")
    case True
    then show ?thesis using v own_u(1) row b i by (simp add: owns_def)
  next
    case False
    have "file_agrees E ?d j x" using v parts unfolding rows_agree_def by blast
    then show ?thesis by (rule file_agrees_undisturbed [OF _ frame]) (use False unl in auto)
  qed
  have other: "pc_agrees E d' (uploads w ! l)" if l: "l < length (uploads w)" "l \<noteq> k" "owner (uploads w ! l)" for l
  proof -
    let ?x = "uploads w ! l"
    have x: "pc_agrees E ?d ?x" using parts l nth_mem unfolding uploads_agree_def by blast
    have ex: "b_id (up_backup ?x) \<noteq> i" "filing ?u \<Longrightarrow> filing ?x \<Longrightarrow> up_inode ?x \<noteq> up_inode ?u"
      using parts l own k i b unfolding exclusive_def by metis+
    show ?thesis
    proof (rule pc_agrees_undisturbed [OF x frame])
      show "up_inode ?x \<notin> N" if "filing ?x" using that ex(2) N by auto
      show "unlinked (up_inode ?x) d'" if f: "filing ?x" "unlinked (up_inode ?x) ?d"
        unfolding unlinked_def
      proof (intro allI impI notI)
        fix dir name assume h: "Some (Regular (up_inode ?x)) \<in> holds_at (dir, name) d'" "dir \<noteq> Incoming"
        show False
        proof (cases "(dir, name) = final i")
          case True
          with h have h': "Some (Regular (up_inode ?x)) \<in> holds_at (final i) d'" by simp
          have "Some (Regular (up_inode ?x)) \<notin> holds_at (final i) ?d" using f(2) by (rule unlinked_final)
          from arch [OF h' this] show False using ex(2) f(1) by simp
        next
          case False
          then have "(dir, name) \<notin> {staging i, final i}" using h(2) by (auto simp: staging_def)
          then show False using undisturbed_holds [OF frame] h f(2) unfolding unlinked_def by blast
        qed
      qed
    qed (use ex(1) unl in auto)
  qed
  have "uploads_agree E ?c d' ((uploads w)[k := v])"
    unfolding uploads_agree_def
  proof (intro ballI impI)
    fix x assume "x \<in> set ((uploads w)[k := v])" "owner x"
    then obtain l where l: "l < length (uploads w)" "owner ((uploads w)[k := v] ! l)" and x: "x = (uploads w)[k := v] ! l" by (auto simp: in_set_conv_nth)
    show "owns ?c x \<and> pc_agrees E d' x"
    proof (cases "l = k")
      case True
      then show ?thesis using l mine own_u(1) b x by (simp add: owns_def)
    next
      case False
      then show ?thesis using l other parts nth_mem [OF l(1)] x by (auto simp: uploads_agree_def)
    qed
  qed
  moreover have "exclusive ((uploads w)[k := v])"
  proof (rule exclusive_update [OF _ k])
    show "exclusive (uploads w)" using parts by simp
    show "filing ?u \<and> up_inode v = up_inode ?u \<or> (\<forall>l<length (uploads w). owner (uploads w ! l) \<longrightarrow> filing (uploads w ! l) \<longrightarrow> up_inode (uploads w ! l) \<noteq> up_inode v)"
      if "owner v" "filing v" using ino [OF that] staged_len(1) nth_mem by (metis not_less)
  qed (use own b in simp_all)
  moreover have "slots_agree (w\<lparr>disk_of := d', uploads := (uploads w)[k := v]\<rparr>)"
  proof -
    have "up_pc ?u \<noteq> Finished" using own by (simp add: owner_def)
    then have "int (count_where (\<lambda>u. up_pc u \<noteq> Finished) ((uploads w)[k := v])) = int (count_where (\<lambda>u. up_pc u \<noteq> Finished) (uploads w))"
      using count_where_list_update [OF k, of "\<lambda>u. up_pc u \<noteq> Finished" v] pc by simp
    then show ?thesis using parts k by (auto simp: slots_agree_def)
  qed
  moreover have "disk_wf ?c d'"
  proof -
    have d: "disk_wf ?c ?d" using parts by simp
    have "(QuarantineDir, name) \<notin> {staging i, final i}" for name by (simp add: staging_def final_def)
    then have q: "holds_at (QuarantineDir, name) d' \<subseteq> holds_at (QuarantineDir, name) ?d" for name using undisturbed_holds [OF frame] by blast
    have "p \<in> set (renamed ?d)" if "p \<in> set (renamed d')" "fst p = quarantine j \<or> snd p = quarantine j" for p j
    proof -
      have "p \<in> set (renamed ?d) \<or> fst p \<in> {staging i, final i} \<and> snd p \<in> {staging i, final i}" using frame that(1) unfolding undisturbed_def by blast
      then show ?thesis using that(2) by auto
    qed
    then show ?thesis by (intro disk_wfI wf known) (use q disk_wfD(3,4) [OF d] in blast)+
  qed
  moreover have "task_agrees ?c d' t" if "task_of w = Some t" for t
  proof (rule task_agrees_undisturbed [OF _ frame])
    show "task_agrees ?c ?d t" using parts that by blast
    fix j kd assume "permitted ?c j kd"
    then have "j \<noteq> i" using own_u(1) b i by (auto simp: permitted_def owns_def in_transfer_def)
    then show "final j \<notin> {staging i, final i} \<and> quarantine j \<notin> {staging i, final i}" by simp
  qed
  ultimately show ?thesis using parts rows unfolding server_inv_def rows_agree_def by simp
qed

lemma holds_frames [simp]:
  "holds_at p (set_inode i f d) = holds_at p d" "holds_at p (write_inode i b d) = holds_at p d"
  "holds_at p (chmod_inode i m d) = holds_at p d" "holds_at p (fsync_inode i d) = holds_at p d"
  "holds_at p (d\<lparr>inodes := x\<rparr>) = holds_at p d"
  by (simp_all add: holds_at_def)

lemma holds_set_name [simp]:
  "holds_at p (set_name q v d) = (if p = q then insert v (holds_at p d) else holds_at p d)"
  by (simp add: holds_at_def)

lemma unpublished_frames [simp]:
  "unpublished (write_inode n b d) i = unpublished d i" "unpublished (chmod_inode n m d) i = unpublished d i"
  "unpublished (fsync_inode n d) i = unpublished d i"
  by (simp_all add: unpublished_def)

lemma staged_frames [simp]:
  "staged u (write_inode n b d) = staged u d" "staged u (chmod_inode n m d) = staged u d" "staged u (fsync_inode n d) = staged u d"
  by (simp_all add: staged_def unlinked_def)

lemma staged_update [simp]: "staged (u\<lparr>up_pc := p\<rparr>) d = staged u d" "staged (u\<lparr>up_error := e\<rparr>) d = staged u d"
  by (simp_all add: staged_def)

lemma inode_frames [simp]:
  assumes "n < length (inodes d)"
  shows "content (inodes (chmod_inode n m d) ! n) = content (inodes d ! n)" "content (inodes (fsync_inode n d) ! n) = content (inodes d ! n)"
    "durable (inodes (fsync_inode n d) ! n)" "content (inodes (write_inode n b d) ! n) = content (inodes d ! n) @ b"
  using assms by (simp_all add: chmod_inode_def fsync_inode_def write_inode_def nth_set_inode)

lemma staged_length [simp]: "staged u d \<Longrightarrow> up_inode u < length (inodes d)" by (simp add: staged_def)

lemma undisturbed_refl [simp]: "undisturbed P N d d" by (simp add: undisturbed_def)

lemma undisturbed_inode [simp]:
  "undisturbed P {n} d (write_inode n b d)" "undisturbed P {n} d (chmod_inode n m d)" "undisturbed P {n} d (fsync_inode n d)"
  by (simp_all add: undisturbed_def write_inode_def chmod_inode_def fsync_inode_def nth_set_inode)

lemma undisturbed_name [simp]: "q \<in> P \<Longrightarrow> undisturbed P N d (set_name q v d)"
  by (auto simp: undisturbed_def)

lemma undisturbed_fsync_dir [simp]: "undisturbed P N d (fsync_dir x d)"
  by (simp add: undisturbed_def)

lemma holds_fsync_dir: "holds_at p (fsync_dir x d) = (if fst p = x then {Lstat p d} else holds_at p d)"
  by (simp add: holds_at_def)

lemma holds_fsync_dir_sub: "holds_at p (fsync_dir x d) \<subseteq> holds_at p d"
  by (auto simp: holds_fsync_dir)

text \<open>What an upload that owns its row says of the disk.\<close>

lemma ownerD:
  assumes "server_inv E w" "k < length (uploads w)" "owner (uploads w ! k)"
  shows "owns (cat w) (uploads w ! k)" "pc_agrees E (disk_of w) (uploads w ! k)"
  using assms nth_mem unfolding server_inv_def uploads_agree_def by blast+

lemma inv_wf: "server_inv E w \<Longrightarrow> Some (Regular n) \<in> holds_at p (disk_of w) \<Longrightarrow> n < length (inodes (disk_of w))"
  unfolding server_inv_def disk_wf_def by blast

lemma transfer_agrees:
  assumes "server_inv E w" "view (cat w) i = Some (st, sz, sha)" "in_transfer st"
  shows "file_agrees E (disk_of w) i (st, sz, sha)"
proof -
  have "\<not> permitted (cat w) i Purge" using assms(2,3) by (simp add: permitted_def)
  then show ?thesis using assms(1,2) unfolding server_inv_def rows_agree_def by blast
qed

lemma transfer_quarantine:
  assumes "server_inv E w" "view (cat w) i = Some (st, sz, sha)" "in_transfer st"
  shows "holds_at (quarantine i) (disk_of w) = {None}"
proof -
  have "\<not> permitted (cat w) i k" for k using assms(2,3) by (simp add: permitted_def)
  then have "v = None" if "v \<in> holds_at (quarantine i) (disk_of w)" for v
    using that assms(1) unfolding server_inv_def disk_wf_def quarantine_def by (metis append_same_eq)
  then show ?thesis unfolding holds_singleton by blast
qed

lemma stored_kept: "stored E d i sz sha \<Longrightarrow> holds_at (quarantine i) d = {None} \<Longrightarrow> kept E d i sz sha"
  by (auto simp: stored_def kept_def anchored_def)

lemma quiet_step:
  assumes "server_inv E w" "k < length (uploads w)" "owner (uploads w ! k)" "up_backup v = up_backup (uploads w ! k)" "up_pc v \<noteq> Finished"
    and "owner v \<Longrightarrow> pc_agrees E (disk_of w) v" "owner v \<Longrightarrow> filing v \<Longrightarrow> filing (uploads w ! k) \<and> up_inode v = up_inode (uploads w ! k)"
  shows "server_inv E (w\<lparr>uploads := (uploads w)[k := v]\<rparr>)"
proof -
  have "view (cat w) (b_id (up_backup v)) = Some (BackupReceiving, b_size (up_backup v), b_sha256 (up_backup v))"
    using ownerD(1) [OF assms(1-3)] assms(4) by (simp add: owns_def)
  then have row: "file_agrees E (disk_of w) (b_id (up_backup v)) (BackupReceiving, b_size (up_backup v), b_sha256 (up_backup v))"
    using transfer_agrees [OF assms(1)] by (simp add: in_transfer_def)
  have "server_inv E (w\<lparr>disk_of := disk_of w, uploads := (uploads w)[k := v]\<rparr>)"
    by (rule disk_step [OF assms(1-4) refl assms(5), where N = "{}"]) (use assms(6,7) row inv_wf [OF assms(1)] in auto)
  then show ?thesis by simp
qed

text \<open>Writing, chmod and fsync on the upload's own inode.\<close>

lemma inode_step:
  assumes "server_inv E w" "k < length (uploads w)" "owner (uploads w ! k)" "up_backup v = up_backup (uploads w ! k)" "up_pc v \<noteq> Finished"
    and "filing (uploads w ! k)" "up_inode v = up_inode (uploads w ! k)" "owner v \<Longrightarrow> pc_agrees E d' v"
    and "undisturbed {} {up_inode v} (disk_of w) d'" "\<And>p. holds_at p d' = holds_at p (disk_of w)" "length (inodes d') = length (inodes (disk_of w))"
  shows "server_inv E (w\<lparr>disk_of := d', uploads := (uploads w)[k := v]\<rparr>)"
proof -
  have u: "unpublished (disk_of w) (b_id (up_backup v))" "unlinked (up_inode v) (disk_of w)"
    using ownerD(2) [OF assms(1-3)] assms(4,6,7) by (auto simp: pc_agrees_def filing_def staged_def Let_def)
  then have row: "file_agrees E d' (b_id (up_backup v)) (BackupReceiving, b_size (up_backup v), b_sha256 (up_backup v))"
    using assms(10) by (simp add: unpublished_def in_transfer_def)
  show ?thesis
    by (rule disk_step [OF assms(1-4) refl assms(5), where N = "{up_inode v}"])
      (use assms(6-11) u(2) row inv_wf [OF assms(1)] in \<open>auto simp: undisturbed_def\<close>)
qed

lemma respond_simps [simp]:
  "up_pc (respond_and p r u) = p" "up_backup (respond_and p r u) = up_backup u" "up_inode (respond_and p r u) = up_inode u"
  by (simp_all add: respond_and_def)

lemma abandon_inv:
  assumes "server_inv E w" "k < length (uploads w)" "owner (uploads w ! k)" "unpublished (disk_of w) (b_id (up_backup (uploads w ! k)))"
  shows "server_inv E (w\<lparr>uploads := (uploads w)[k := respond_and CleanRemove r (uploads w ! k)]\<rparr>)"
  by (rule quiet_step [OF assms(1-3)]) (use assms(4) in \<open>auto simp: pc_agrees_def filing_def Let_def\<close>)

lemma leave_inv:
  assumes "server_inv E w" "k < length (uploads w)" "owner (uploads w ! k)"
  shows "server_inv E (w\<lparr>uploads := (uploads w)[k := respond_and AtRelease r (uploads w ! k)]\<rparr>)"
  by (rule quiet_step [OF assms]) (auto simp: owner_def)

subsection \<open>The cases of Receive\<close>

definition created :: "place \<Rightarrow> disk \<Rightarrow> disk" where
  "created p d = (set_name p (Some (Regular (length (inodes d)))) d)\<lparr>inodes := inodes d @ [\<lparr>content = [], file_mode = 384, durable = False\<rparr>]\<rparr>"

lemma Receive_AtCreate:
  assumes "Receive E inp u w = (v, w')" "up_pc u = AtCreate"
  shows "(\<exists>r. v = respond_and CleanRemove r u \<and> w' = w)
    \<or> v = u\<lparr>up_pc := AtCopy, up_inode := length (inodes (disk_of w))\<rparr> \<and> w' = w\<lparr>disk_of := created (staging (b_id (up_backup u))) (disk_of w)\<rparr>"
  using assms(1) unfolding Receive_def assms(2) Let_def pc.case
  by (cases "io_fault (in_outcome inp)") (auto simp: create_excl_def created_def Let_def split: if_splits)

lemma Receive_AtCopy:
  assumes "Receive E inp u w = (v, w')" "up_pc u = AtCopy"
    "copyAndHash E (b_size (up_backup u) + 1) (in_reads inp) (in_writes inp) = (n, digest, re, we, written)"
  shows "w' = w\<lparr>disk_of := write_inode (up_inode u) written (disk_of w)\<rparr>"
    "(\<exists>r. v = respond_and CleanRemove r u) \<or> v = u\<lparr>up_pc := AtChmod\<rparr> \<and> we = None \<and> re = None \<and> n = b_size (up_backup u) \<and> digest = b_sha256 (up_backup u)"
  using assms(1) unfolding Receive_def assms(2,3) Let_def pc.case prod.case by (auto split: if_splits)

lemma Receive_AtChmod:
  assumes "Receive E inp u w = (v, w')" "up_pc u = AtChmod"
  shows "(\<exists>e. v = u\<lparr>up_pc := AtClose, up_error := Some e\<rparr>) \<and> w' = w
    \<or> v = u\<lparr>up_pc := AtSync\<rparr> \<and> w' = w\<lparr>disk_of := chmod_inode (up_inode u) 288 (disk_of w)\<rparr>"
  using assms(1) unfolding Receive_def assms(2) Let_def pc.case by (cases "io_fault (in_outcome inp)") auto

lemma Receive_AtSync:
  assumes "Receive E inp u w = (v, w')" "up_pc u = AtSync"
  shows "(\<exists>e. v = u\<lparr>up_pc := AtClose, up_error := Some e\<rparr>) \<and> w' = w
    \<or> v = u\<lparr>up_pc := AtClose\<rparr> \<and> w' = w\<lparr>disk_of := fsync_inode (up_inode u) (disk_of w)\<rparr>"
  using assms(1) unfolding Receive_def assms(2) Let_def pc.case by (cases "io_fault (in_outcome inp)") auto

lemma Receive_AtClose:
  assumes "Receive E inp u w = (v, w')" "up_pc u = AtClose"
  shows "w' = w \<and> ((\<exists>r. v = respond_and CleanRemove r u) \<or> v = u\<lparr>up_pc := AtPublish\<rparr> \<and> up_error u = None)"
  using assms(1) unfolding Receive_def assms(2) Let_def pc.case
  by (cases "up_error u"; cases "io_fault (in_outcome inp)") auto

lemma Receive_AtPublish:
  assumes "Receive E inp u w = (v, w')" "up_pc u = AtPublish"
  shows "(\<exists>r. v = respond_and CleanRemove r u \<and> w' = w)
    \<or> (\<exists>d'. link_name (staging (b_id (up_backup u))) (final (b_id (up_backup u))) (disk_of w) = Inr d'
        \<and> v = u\<lparr>up_pc := AtSyncArchive\<rparr> \<and> w' = w\<lparr>disk_of := d'\<rparr>)"
  using assms(1) unfolding Receive_def assms(2) Let_def pc.case
  by (cases "io_fault (in_outcome inp)"; cases "link_name (staging (b_id (up_backup u))) (final (b_id (up_backup u))) (disk_of w)") auto

lemma Receive_AtSyncArchive:
  assumes "Receive E inp u w = (v, w')" "up_pc u = AtSyncArchive"
  shows "(\<exists>r. v = respond_and AtRelease r u \<and> w' = w) \<or> v = u\<lparr>up_pc := AtRemoveStaging\<rparr> \<and> w' = w\<lparr>disk_of := fsync_dir Archive (disk_of w)\<rparr>"
  using assms(1) unfolding Receive_def assms(2) Let_def pc.case by (cases "io_fault (in_outcome inp)") auto

lemma Receive_AtRemoveStaging:
  assumes "Receive E inp u w = (v, w')" "up_pc u = AtRemoveStaging"
  shows "(\<exists>r. v = respond_and AtRelease r u \<and> w' = w)
    \<or> v = u\<lparr>up_pc := AtSyncIncoming\<rparr> \<and> w' = w\<lparr>disk_of := set_name (staging (b_id (up_backup u))) None (disk_of w)\<rparr>"
  using assms(1) unfolding Receive_def assms(2) Let_def pc.case
  by (cases "io_fault (in_outcome inp)") (auto simp: remove_name_def split: if_splits)

lemma Receive_AtSyncIncoming:
  assumes "Receive E inp u w = (v, w')" "up_pc u = AtSyncIncoming"
  shows "(\<exists>r. v = respond_and AtRelease r u \<and> w' = w) \<or> v = u\<lparr>up_pc := AtComplete\<rparr> \<and> w' = w\<lparr>disk_of := fsync_dir Incoming (disk_of w)\<rparr>"
  using assms(1) unfolding Receive_def assms(2) Let_def pc.case by (cases "io_fault (in_outcome inp)") auto

lemma Receive_AtComplete:
  assumes "Receive E inp u w = (v, w')" "up_pc u = AtComplete"
  shows "w' = w\<lparr>cat := snd (commit (in_outcome inp) (Complete E (b_id (up_backup u)) (in_now inp) (cat w)) (cat w))\<rparr>"
    "\<exists>r. v = respond_and AtRelease r u \<and> (\<forall>x. r = ReceiptResponse x \<longrightarrow> in_outcome inp = Works
        \<and> isl (Complete E (b_id (up_backup u)) (in_now inp) (cat w)) = False \<and> rc_id x = b_id (up_backup u)
        \<and> rc_size x = b_size (up_backup u) \<and> rc_sha256 x = b_sha256 (up_backup u) \<and> rc_status x = BackupComplete)"
proof -
  obtain e c' where c: "commit (in_outcome inp) (Complete E (b_id (up_backup u)) (in_now inp) (cat w)) (cat w) = (e, c')" by (metis prod.collapse)
  have "w' = w\<lparr>cat := c'\<rparr> \<and> v = respond_and AtRelease (case e of Some x \<Rightarrow> storageError ''persistenza del catalogo'' x
      | None \<Rightarrow> ReceiptResponse (Receipt_of ((up_backup u)\<lparr>b_status := BackupComplete, b_received_at := Stamp (in_now inp)\<rparr>))) u"
    using assms(1) unfolding Receive_def assms(2) Let_def pc.case c prod.case by (cases e) auto
  moreover have "e = None \<Longrightarrow> in_outcome inp = Works \<and> \<not> isl (Complete E (b_id (up_backup u)) (in_now inp) (cat w))"
    using c by (auto simp: commit_def split: outcome.splits sum.splits)
  ultimately show "w' = w\<lparr>cat := snd (commit (in_outcome inp) (Complete E (b_id (up_backup u)) (in_now inp) (cat w)) (cat w))\<rparr>"
    "\<exists>r. v = respond_and AtRelease r u \<and> (\<forall>x. r = ReceiptResponse x \<longrightarrow> in_outcome inp = Works
        \<and> isl (Complete E (b_id (up_backup u)) (in_now inp) (cat w)) = False \<and> rc_id x = b_id (up_backup u)
        \<and> rc_size x = b_size (up_backup u) \<and> rc_sha256 x = b_sha256 (up_backup u) \<and> rc_status x = BackupComplete)"
    using c by (simp, cases e) (auto simp: Receipt_of_def storageError_def split: if_splits)
qed

lemma Receive_CleanRemove:
  assumes "Receive E inp u w = (v, w')" "up_pc u = CleanRemove"
  shows "v = u\<lparr>up_pc := CleanFail\<rparr> \<and> (w' = w \<or> w' = w\<lparr>disk_of := set_name (staging (b_id (up_backup u))) None (disk_of w)\<rparr>)"
  using assms(1) unfolding Receive_def assms(2) Let_def pc.case
  by (cases "io_fault (in_outcome inp)") (auto simp: remove_name_def split: if_splits)

lemma Receive_CleanFail:
  assumes "Receive E inp u w = (v, w')" "up_pc u = CleanFail"
  shows "v = u\<lparr>up_pc := AtRelease\<rparr>"
    "w' = w\<lparr>cat := snd (commit (in_outcome inp) (Fail E (b_id (up_backup u)) upload_failed (in_now inp) (cat w)) (cat w))\<rparr>"
  using assms(1) unfolding Receive_def assms(2) Let_def pc.case by simp_all

subsection \<open>Preservation by the steps of an upload\<close>

lemma AtCreate_inv:
  assumes "server_inv E w" "k < length (uploads w)" "up_pc (uploads w ! k) = AtCreate" "Receive E inp (uploads w ! k) w = (v, w')"
  shows "server_inv E (w'\<lparr>uploads := (uploads w')[k := v]\<rparr>)"
proof -
  let ?u = "uploads w ! k" and ?d = "disk_of w" and ?i = "b_id (up_backup (uploads w ! k))"
  define n where "n = length (inodes ?d)"
  define d' where "d' = created (staging ?i) ?d"
  have own: "owner ?u" using assms(3) by (simp add: owner_def)
  have un: "unpublished ?d ?i" using ownerD(2) [OF assms(1,2) own] assms(3) by (simp add: pc_agrees_def Let_def)
  from Receive_AtCreate [OF assms(4,3)] consider r where "v = respond_and CleanRemove r ?u" "w' = w"
    | "v = ?u\<lparr>up_pc := AtCopy, up_inode := n\<rparr>" "w' = w\<lparr>disk_of := d'\<rparr>" unfolding n_def d'_def by blast
  then show ?thesis
  proof cases
    case 1
    then show ?thesis using abandon_inv [OF assms(1,2) own un] by simp
  next
    case v: 2
    have fresh: "unlinked n ?d" using inv_wf [OF assms(1)] unfolding unlinked_def n_def by blast
    have h: "holds_at p d' = (if p = staging ?i then insert (Some (Regular n)) (holds_at p ?d) else holds_at p ?d)" for p
      by (simp add: d'_def created_def n_def)
    have "server_inv E (w\<lparr>disk_of := d', uploads := (uploads w)[k := v]\<rparr>)"
    proof (rule disk_step [OF assms(1,2) own, where N = "{}"])
      show "undisturbed {staging (b_id (up_backup v)), final (b_id (up_backup v))} {} ?d d'"
        by (auto simp: undisturbed_def d'_def created_def v(1) nth_append)
      show "m < length (inodes d')" if "Some (Regular m) \<in> holds_at p d'" for p m
        using that inv_wf [OF assms(1), of m p] by (auto simp: h d'_def created_def n_def split: if_splits)
      have un': "unpublished d' ?i" using un by (simp add: unpublished_def h)
      have st: "staged v d'" using fresh by (simp add: staged_def unlinked_def h v(1) staging_def) (simp add: d'_def created_def n_def staging_def)
      have "content (inodes d' ! n) = []" by (simp add: d'_def created_def n_def)
      then show "pc_agrees E d' v" using un' st by (simp add: pc_agrees_def v(1) Let_def)
      show "file_agrees E d' (b_id (up_backup v)) (BackupReceiving, b_size (up_backup v), b_sha256 (up_backup v))"
        using un' by (simp add: v(1) in_transfer_def)
    qed (auto simp: v(1) h n_def)
    then show ?thesis by (simp add: v(2))
  qed
qed

lemma AtCopy_inv:
  assumes "server_inv E w" "k < length (uploads w)" "up_pc (uploads w ! k) = AtCopy" "Receive E inp (uploads w ! k) w = (v, w')"
  shows "server_inv E (w'\<lparr>uploads := (uploads w')[k := v]\<rparr>)"
proof -
  let ?u = "uploads w ! k" and ?d = "disk_of w" and ?b = "up_backup (uploads w ! k)"
  have own: "owner ?u" "filing ?u" using assms(3) by (simp_all add: owner_def filing_def)
  have a: "unpublished ?d (b_id ?b)" "staged ?u ?d" "content (inodes ?d ! up_inode ?u) = []"
    using ownerD(2) [OF assms(1,2) own(1)] assms(3) by (simp_all add: pc_agrees_def Let_def)
  obtain n digest re we written where c: "copyAndHash E (b_size ?b + 1) (in_reads inp) (in_writes inp) = (n, digest, re, we, written)"
    by (metis prod.collapse)
  define d' where "d' = write_inode (up_inode ?u) written ?d"
  have fit: "fits E (content (inodes d' ! up_inode ?u)) n digest"
    using c a(2,3) by (auto simp: d'_def fits_def copyAndHash_def Let_def split: prod.splits)
  from Receive_AtCopy [OF assms(4,3) c] consider r where "v = respond_and CleanRemove r ?u" "w' = w\<lparr>disk_of := d'\<rparr>"
    | "v = ?u\<lparr>up_pc := AtChmod\<rparr>" "w' = w\<lparr>disk_of := d'\<rparr>" "n = b_size ?b" "digest = b_sha256 ?b"
    unfolding d'_def by blast
  then show ?thesis
  proof cases
    case v: 1
    have "server_inv E (w\<lparr>disk_of := d', uploads := (uploads w)[k := v]\<rparr>)"
      by (rule inode_step [OF assms(1,2) own(1)]) (use a own v in \<open>simp_all add: d'_def pc_agrees_def Let_def\<close>)
    then show ?thesis by (simp add: v(2))
  next
    case v: 2
    have "server_inv E (w\<lparr>disk_of := d', uploads := (uploads w)[k := v]\<rparr>)"
      by (rule inode_step [OF assms(1,2) own(1)]) (use a own v fit in \<open>simp_all add: d'_def pc_agrees_def Let_def\<close>)
    then show ?thesis by (simp add: v(2))
  qed
qed

lemma AtChmod_inv:
  assumes "server_inv E w" "k < length (uploads w)" "up_pc (uploads w ! k) = AtChmod" "Receive E inp (uploads w ! k) w = (v, w')"
  shows "server_inv E (w'\<lparr>uploads := (uploads w')[k := v]\<rparr>)"
proof -
  let ?u = "uploads w ! k" and ?d = "disk_of w" and ?b = "up_backup (uploads w ! k)"
  have own: "owner ?u" "filing ?u" using assms(3) by (simp_all add: owner_def filing_def)
  have a: "unpublished ?d (b_id ?b)" "staged ?u ?d" "fits E (content (inodes ?d ! up_inode ?u)) (b_size ?b) (b_sha256 ?b)"
    using ownerD(2) [OF assms(1,2) own(1)] assms(3) by (simp_all add: pc_agrees_def Let_def)
  from Receive_AtChmod [OF assms(4,3)] consider e where "v = ?u\<lparr>up_pc := AtClose, up_error := Some e\<rparr>" "w' = w"
    | "v = ?u\<lparr>up_pc := AtSync\<rparr>" "w' = w\<lparr>disk_of := chmod_inode (up_inode ?u) 288 ?d\<rparr>" by blast
  then show ?thesis
  proof cases
    case v: 1
    show ?thesis unfolding v(2) by (rule quiet_step [OF assms(1,2) own(1)]) (use a own v in \<open>simp_all add: pc_agrees_def Let_def\<close>)
  next
    case v: 2
    have "server_inv E (w\<lparr>disk_of := chmod_inode (up_inode ?u) 288 ?d, uploads := (uploads w)[k := v]\<rparr>)"
      by (rule inode_step [OF assms(1,2) own(1)])
        (use a own v in \<open>simp_all add: pc_agrees_def Let_def\<close>)
    then show ?thesis by (simp add: v(2))
  qed
qed

lemma AtSync_inv:
  assumes "server_inv E w" "k < length (uploads w)" "up_pc (uploads w ! k) = AtSync" "Receive E inp (uploads w ! k) w = (v, w')"
  shows "server_inv E (w'\<lparr>uploads := (uploads w')[k := v]\<rparr>)"
proof -
  let ?u = "uploads w ! k" and ?d = "disk_of w" and ?b = "up_backup (uploads w ! k)"
  have own: "owner ?u" "filing ?u" using assms(3) by (simp_all add: owner_def filing_def)
  have a: "unpublished ?d (b_id ?b)" "staged ?u ?d" "fits E (content (inodes ?d ! up_inode ?u)) (b_size ?b) (b_sha256 ?b)"
    using ownerD(2) [OF assms(1,2) own(1)] assms(3) by (simp_all add: pc_agrees_def Let_def)
  from Receive_AtSync [OF assms(4,3)] consider e where "v = ?u\<lparr>up_pc := AtClose, up_error := Some e\<rparr>" "w' = w"
    | "v = ?u\<lparr>up_pc := AtClose\<rparr>" "w' = w\<lparr>disk_of := fsync_inode (up_inode ?u) ?d\<rparr>" by blast
  then show ?thesis
  proof cases
    case v: 1
    show ?thesis unfolding v(2) by (rule quiet_step [OF assms(1,2) own(1)]) (use a own v in \<open>simp_all add: pc_agrees_def Let_def\<close>)
  next
    case v: 2
    have "server_inv E (w\<lparr>disk_of := fsync_inode (up_inode ?u) ?d, uploads := (uploads w)[k := v]\<rparr>)"
      by (rule inode_step [OF assms(1,2) own(1)])
        (use a own v in \<open>simp_all add: pc_agrees_def Let_def\<close>)
    then show ?thesis by (simp add: v(2))
  qed
qed

lemma AtClose_inv:
  assumes "server_inv E w" "k < length (uploads w)" "up_pc (uploads w ! k) = AtClose" "Receive E inp (uploads w ! k) w = (v, w')"
  shows "server_inv E (w'\<lparr>uploads := (uploads w')[k := v]\<rparr>)"
proof -
  let ?u = "uploads w ! k" and ?d = "disk_of w" and ?b = "up_backup (uploads w ! k)"
  have own: "owner ?u" "filing ?u" using assms(3) by (simp_all add: owner_def filing_def)
  have a: "unpublished ?d (b_id ?b)" "staged ?u ?d" "fits E (content (inodes ?d ! up_inode ?u)) (b_size ?b) (b_sha256 ?b)"
    "up_error ?u = None \<longrightarrow> durable (inodes ?d ! up_inode ?u)"
    using ownerD(2) [OF assms(1,2) own(1)] assms(3) by (simp_all add: pc_agrees_def Let_def)
  from Receive_AtClose [OF assms(4,3)] consider r where "v = respond_and CleanRemove r ?u" "w' = w" | "v = ?u\<lparr>up_pc := AtPublish\<rparr>" "w' = w" "up_error ?u = None"
    by (elim conjE disjE exE) auto
  then show ?thesis
  proof cases
    case 1
    then show ?thesis using abandon_inv [OF assms(1,2) own(1) a(1)] by simp
  next
    case v: 2
    show ?thesis unfolding v(2) by (rule quiet_step [OF assms(1,2) own(1)]) (use a own v in \<open>simp_all add: pc_agrees_def Let_def\<close>)
  qed
qed

lemma AtPublish_inv:
  assumes "server_inv E w" "k < length (uploads w)" "up_pc (uploads w ! k) = AtPublish" "Receive E inp (uploads w ! k) w = (v, w')"
  shows "server_inv E (w'\<lparr>uploads := (uploads w')[k := v]\<rparr>)"
proof -
  let ?u = "uploads w ! k" and ?d = "disk_of w" and ?b = "up_backup (uploads w ! k)"
  have own: "owner ?u" "filing ?u" using assms(3) by (simp_all add: owner_def filing_def)
  have a: "unpublished ?d (b_id ?b)" "staged ?u ?d" "sound E ?d (up_inode ?u) (b_size ?b) (b_sha256 ?b)"
    using ownerD(2) [OF assms(1,2) own(1)] assms(3) by (simp_all add: pc_agrees_def Let_def sound_def)
  define d' where "d' = set_name (final (b_id ?b)) (Some (Regular (up_inode ?u))) ?d"
  from Receive_AtPublish [OF assms(4,3)] a(2) consider r where "v = respond_and CleanRemove r ?u" "w' = w"
    | "v = ?u\<lparr>up_pc := AtSyncArchive\<rparr>" "w' = w\<lparr>disk_of := d'\<rparr>"
    by (elim disjE exE conjE) (auto simp: link_name_def staged_def d'_def split: if_splits)
  then show ?thesis
  proof cases
    case 1
    then show ?thesis using abandon_inv [OF assms(1,2) own(1) a(1)] by simp
  next
    case v: 2
    have h: "holds_at p d' = (if p = final (b_id ?b) then {Some (Regular (up_inode ?u)), None} else holds_at p ?d)" for p
      using a(1) by (simp add: d'_def unpublished_def)
    have "alternatives (final (b_id ?b)) d' \<subseteq> {None}" using a(1) by (auto simp: d'_def unpublished_def holds_at_def)
    moreover have "sound E d' (up_inode ?u) (b_size ?b) (b_sha256 ?b)" using a(3) by (simp add: sound_def d'_def)
    ultimately have pub: "published E d' (b_id ?b) (b_size ?b) (b_sha256 ?b)" by (simp add: published_def d'_def)
    have "server_inv E (w\<lparr>disk_of := d', uploads := (uploads w)[k := v]\<rparr>)"
    proof (rule disk_step [OF assms(1,2) own(1), where N = "{}"])
      show "m < length (inodes d')" if "Some (Regular m) \<in> holds_at p d'" for p m
        using that inv_wf [OF assms(1), of m p] a(2) by (auto simp: h d'_def split: if_splits)
      show "filing ?u \<and> x = Some (Regular (up_inode ?u))"
        if "x \<in> holds_at (final (b_id (up_backup v))) d'" "x \<notin> holds_at (final (b_id (up_backup v))) ?d" for x
        using that a(1) own(2) by (auto simp: h v(1) unpublished_def)
      show "pc_agrees E d' v" "file_agrees E d' (b_id (up_backup v)) (BackupReceiving, b_size (up_backup v), b_sha256 (up_backup v))"
        using pub by (simp_all add: pc_agrees_def v(1) Let_def in_transfer_def)
    qed (simp_all add: v(1) d'_def filing_def)
    then show ?thesis by (simp add: v(2))
  qed
qed

text \<open>After publication the upload only touches its staging name and syncs directories.\<close>

lemma late_step:
  assumes "server_inv E w" "k < length (uploads w)" "owner (uploads w ! k)" "up_backup v = up_backup (uploads w ! k)" "up_pc v \<noteq> Finished"
    and "undisturbed {staging (b_id (up_backup v))} {} (disk_of w) d'" "\<And>p. holds_at p d' \<subseteq> insert None (holds_at p (disk_of w))"
    and "\<not> filing v" "owner v \<Longrightarrow> pc_agrees E d' v"
  shows "server_inv E (w\<lparr>disk_of := d', uploads := (uploads w)[k := v]\<rparr>)"
proof (rule disk_step [OF assms(1-4) refl assms(5), where N = "{}"])
  let ?i = "b_id (up_backup v)"
  show "undisturbed {staging ?i, final ?i} {} (disk_of w) d'" using assms(6) by (auto simp: undisturbed_def)
  show "n < length (inodes d')" if "Some (Regular n) \<in> holds_at p d'" for p n
  proof -
    have "Some (Regular n) \<in> holds_at p (disk_of w)" using that assms(7) [of p] by auto
    then have "n < length (inodes (disk_of w))" by (rule inv_wf [OF assms(1)])
    then show ?thesis using assms(6) by (simp add: undisturbed_def)
  qed
  have h: "holds_at (final ?i) d' \<subseteq> holds_at (final ?i) (disk_of w)" using undisturbed_holds [OF assms(6), of "final ?i"] by simp
  show "filing (uploads w ! k) \<and> x = Some (Regular (up_inode (uploads w ! k)))"
    if "x \<in> holds_at (final ?i) d'" "x \<notin> holds_at (final ?i) (disk_of w)" for x using that h by blast
  have "view (cat w) ?i = Some (BackupReceiving, b_size (up_backup v), b_sha256 (up_backup v))"
    using ownerD(1) [OF assms(1-3)] assms(4) by (simp add: owns_def)
  then have "file_agrees E (disk_of w) ?i (BackupReceiving, b_size (up_backup v), b_sha256 (up_backup v))"
    using transfer_agrees [OF assms(1)] by (simp add: in_transfer_def)
  then show "file_agrees E d' ?i (BackupReceiving, b_size (up_backup v), b_sha256 (up_backup v))"
    by (rule file_agrees_undisturbed [OF _ assms(6)]) simp_all
qed (use assms(8,9) in auto)

lemma fsync_published: "published E d i sz sha \<Longrightarrow> stored E (fsync_dir Archive d) i sz sha"
  by (auto simp: published_def stored_def holds_fsync_dir sound_def)

lemma late_inv:
  assumes "server_inv E w" "k < length (uploads w)" "Receive E inp (uploads w ! k) w = (v, w')"
    and "up_pc (uploads w ! k) \<in> {AtSyncArchive, AtRemoveStaging, AtSyncIncoming, CleanRemove}"
  shows "server_inv E (w'\<lparr>uploads := (uploads w')[k := v]\<rparr>)"
proof -
  let ?u = "uploads w ! k" and ?d = "disk_of w" and ?b = "up_backup (uploads w ! k)"
  have own: "owner ?u" using assms(4) by (auto simp: owner_def)
  note pa = ownerD(2) [OF assms(1,2) own, unfolded pc_agrees_def Let_def]
  have sub: "holds_at p (fsync_dir x ?d) \<subseteq> insert None (holds_at p ?d)" "holds_at p (set_name q None ?d) \<subseteq> insert None (holds_at p ?d)" for p q x
    using holds_fsync_dir_sub [of p x ?d] by auto
  have st: "stored E d' i sz sha" if "stored E ?d i sz sha" "undisturbed {staging (b_id ?b)} {} ?d d'" for d' i sz sha
    using that by (rule stored_undisturbed) simp_all
  have un: "unpublished d' i" if "unpublished ?d i" "undisturbed {staging (b_id ?b)} {} ?d d'" for d' i
    using that by (rule unpublished_undisturbed) simp
  show ?thesis
  proof (cases "w' = w \<and> \<not> owner v \<and> up_pc v \<noteq> Finished \<and> up_backup v = ?b")
    case True
    have "server_inv E (w\<lparr>uploads := (uploads w)[k := v]\<rparr>)" by (rule quiet_step [OF assms(1,2) own]) (use True in simp_all)
    then show ?thesis using True by simp
  next
    case False
    have "\<exists>d'. w' = w\<lparr>disk_of := d'\<rparr> \<and> up_backup v = ?b \<and> up_pc v \<noteq> Finished \<and> \<not> filing v \<and> undisturbed {staging (b_id ?b)} {} ?d d'
        \<and> (\<forall>p. holds_at p d' \<subseteq> insert None (holds_at p ?d)) \<and> pc_agrees E d' v"
      using assms(4)
    proof (elim insertE)
      assume pc: "up_pc ?u = AtSyncArchive"
      from Receive_AtSyncArchive [OF assms(3) pc] False
      have v: "v = ?u\<lparr>up_pc := AtRemoveStaging\<rparr>" "w' = w\<lparr>disk_of := fsync_dir Archive ?d\<rparr>" by (auto simp: owner_def)
      then show ?thesis using pa pc sub by (intro exI [of _ "fsync_dir Archive ?d"]) (simp add: pc_agrees_def Let_def filing_def fsync_published)
    next
      assume pc: "up_pc ?u = AtRemoveStaging"
      from Receive_AtRemoveStaging [OF assms(3) pc] False
      have v: "v = ?u\<lparr>up_pc := AtSyncIncoming\<rparr>" "w' = w\<lparr>disk_of := set_name (staging (b_id ?b)) None ?d\<rparr>" by (auto simp: owner_def)
      then show ?thesis using pa pc sub st by (intro exI [of _ "set_name (staging (b_id ?b)) None ?d"]) (simp add: pc_agrees_def Let_def filing_def)
    next
      assume pc: "up_pc ?u = AtSyncIncoming"
      from Receive_AtSyncIncoming [OF assms(3) pc] False
      have v: "v = ?u\<lparr>up_pc := AtComplete\<rparr>" "w' = w\<lparr>disk_of := fsync_dir Incoming ?d\<rparr>" by (auto simp: owner_def)
      then show ?thesis using pa pc sub st by (intro exI [of _ "fsync_dir Incoming ?d"]) (simp add: pc_agrees_def Let_def filing_def)
    next
      assume pc: "up_pc ?u = CleanRemove"
      from Receive_CleanRemove [OF assms(3) pc]
      have v: "v = ?u\<lparr>up_pc := CleanFail\<rparr>" "w' = w \<or> w' = w\<lparr>disk_of := set_name (staging (b_id ?b)) None ?d\<rparr>" by auto
      from v(2) show ?thesis
      proof
        assume "w' = w"
        then show ?thesis using pa pc v(1) by (intro exI [of _ ?d]) (auto simp: pc_agrees_def Let_def filing_def)
      next
        assume "w' = w\<lparr>disk_of := set_name (staging (b_id ?b)) None ?d\<rparr>"
        then show ?thesis using pa pc v(1) sub un
          by (intro exI [of _ "set_name (staging (b_id ?b)) None ?d"]) (simp add: pc_agrees_def Let_def filing_def)
      qed
    qed simp
    then obtain d' where d': "w' = w\<lparr>disk_of := d'\<rparr>" "up_backup v = ?b" "up_pc v \<noteq> Finished" "\<not> filing v" "undisturbed {staging (b_id ?b)} {} ?d d'"
      "\<And>p. holds_at p d' \<subseteq> insert None (holds_at p ?d)" "pc_agrees E d' v" by blast
    have "server_inv E (w\<lparr>disk_of := d', uploads := (uploads w)[k := v]\<rparr>)"
      by (rule late_step [OF assms(1,2) own d'(2,3) _ d'(6,4,7)]) (use d'(2,5) in simp)
    then show ?thesis by (simp add: d'(1))
  qed
qed

subsection \<open>Steps that change the catalogue or release a slot\<close>

lemma slots_update:
  assumes "slots_agree w" "k < length (uploads w)" "up_pc (uploads w ! k) \<noteq> Finished"
  shows "slots_agree (w\<lparr>cat := c, slots := if up_pc v = Finished then slots w - 1 else slots w, uploads := (uploads w)[k := v]\<rparr>)"
proof -
  have "int (count_where (\<lambda>u. up_pc u \<noteq> Finished) ((uploads w)[k := v])) = int (slots w) - (if up_pc v = Finished then 1 else 0)"
    using count_where_list_update [OF assms(2), of "\<lambda>u. up_pc u \<noteq> Finished" v] assms(1,3) by (simp add: slots_agree_def)
  then have "count_where (\<lambda>u. up_pc u \<noteq> Finished) ((uploads w)[k := v]) = (if up_pc v = Finished then slots w - 1 else slots w)"
    by (auto split: if_splits)
  then show ?thesis using assms(1,2) by (auto simp: slots_agree_def)
qed

lemma uploads_agree_other:
  assumes "uploads_agree E c d us" "exclusive us" "k < length us" "owner (us ! k)" "\<not> owner v"
    and "\<And>j. j \<noteq> b_id (up_backup (us ! k)) \<Longrightarrow> view c' j = view c j"
  shows "uploads_agree E c' d (us[k := v])"
  unfolding uploads_agree_def
proof (intro ballI impI)
  fix x assume "x \<in> set (us[k := v])" "owner x"
  then obtain l where l': "l < length us" "x = us[k := v] ! l" by (auto simp: in_set_conv_nth)
  then have "l \<noteq> k" using \<open>owner x\<close> assms(5) by auto
  with l' have l: "l < length us" "l \<noteq> k" "x = us ! l" by simp_all
  then have "b_id (up_backup x) \<noteq> b_id (up_backup (us ! k))" using assms(2-4) \<open>owner x\<close> unfolding exclusive_def by metis
  then show "owns c' x \<and> pc_agrees E d x"
    using assms(1,6) l \<open>owner x\<close> nth_mem [OF l(1)] unfolding uploads_agree_def owns_def by auto
qed

lemma rows_agree_cat:
  assumes "rows_agree E c d" "follows c c'" "view c' = view c \<or> (\<exists>x. view c' = (view c)(i := Some x) \<and> file_agrees E d i x)"
  shows "rows_agree E c' d"
  unfolding rows_agree_def
proof (intro allI impI)
  fix j x assume h: "view c' j = Some x" "\<not> permitted c' j Purge"
  then have "\<not> permitted c j Purge" using assms(2) unfolding follows_def by blast
  then show "file_agrees E d j x"
    using h(1) assms(1,3) unfolding rows_agree_def by (metis fun_upd_apply option.inject)
qed

lemma disk_wf_cat:
  assumes "disk_wf c d" "follows c c'" "\<And>i. view c' i = None \<Longrightarrow> view c i = None"
  shows "disk_wf c' d"
  using assms unfolding disk_wf_def follows_def by meson

lemma cat_step:
  assumes inv: "server_inv E w" and k: "k < length (uploads w)" and own: "owner (uploads w ! k)" and v: "\<not> owner v" "up_backup v = up_backup (uploads w ! k)"
    and c: "follows (cat w) c" and view: "view c = view (cat w) \<or> (\<exists>x. view c = (view (cat w))(b_id (up_backup v) := Some x) \<and> file_agrees E (disk_of w) (b_id (up_backup v)) x)"
  shows "server_inv E (w\<lparr>cat := c, slots := if up_pc v = Finished then slots w - 1 else slots w, uploads := (uploads w)[k := v]\<rparr>)"
proof -
  note parts = inv [unfolded server_inv_def]
  have same: "view c j = view (cat w) j" if "j \<noteq> b_id (up_backup (uploads w ! k))" for j using view that v(2) by auto
  have rows: "rows_agree E c (disk_of w)" by (rule rows_agree_cat [OF _ c view]) (use parts in simp)
  have wf: "disk_wf c (disk_of w)" by (rule disk_wf_cat [OF _ c]) (use parts view in \<open>auto split: if_splits\<close>)
  have up: "uploads_agree E c (disk_of w) ((uploads w)[k := v])"
    by (rule uploads_agree_other [OF _ _ k own v(1) same]) (use parts in simp_all)
  have ex: "exclusive ((uploads w)[k := v])" by (rule exclusive_update [OF _ k]) (use parts v in simp_all)
  have sl: "slots_agree (w\<lparr>cat := c, slots := if up_pc v = Finished then slots w - 1 else slots w, uploads := (uploads w)[k := v]\<rparr>)"
    by (rule slots_update [OF _ k]) (use parts own in \<open>simp_all add: owner_def\<close>)
  have "task_agrees c (disk_of w) t" if "task_of w = Some t" for t using parts that task_agrees_follows [OF _ c] by blast
  then show ?thesis using c rows wf up ex sl by (simp add: server_inv_def follows_def)
qed

lemma commit_cases:
  "snd (commit out r c) = c \<or> (\<exists>y. r = Inr (y, snd (commit out r c)))"
  by (cases out; cases r) (auto simp: commit_def)

lemma commit_follows:
  assumes "core_inv c" "\<And>y c'. r = Inr (y, c') \<Longrightarrow> store_step E c c'"
  shows "follows c (snd (commit out r c))"
  using commit_cases [of out r c] assms follows_refl store_step_follows by metis

lemma Complete_commit:
  assumes "server_inv E w" "owns (cat w) u" "stored E (disk_of w) (b_id (up_backup u)) (b_size (up_backup u)) (b_sha256 (up_backup u))"
    and "c = snd (commit out (Complete E (b_id (up_backup u)) now (cat w)) (cat w))"
  shows "follows (cat w) c" "view c = view (cat w) \<or> (\<exists>x. view c = (view (cat w))(b_id (up_backup u) := Some x) \<and> file_agrees E (disk_of w) (b_id (up_backup u)) x)"
proof -
  have inv: "core_inv (cat w)" using assms(1) by (simp add: server_inv_def)
  show "follows (cat w) c" unfolding assms(4) by (rule commit_follows [OF inv]) (erule store_step.intros)
  have kept: "kept E (disk_of w) (b_id (up_backup u)) (b_size (up_backup u)) (b_sha256 (up_backup u))"
    using stored_kept [OF assms(3) transfer_quarantine [OF assms(1)]] assms(2) by (simp add: owns_def in_transfer_def)
  consider "c = cat w" | y where "Complete E (b_id (up_backup u)) now (cat w) = Inr (y, c)" using commit_cases assms(4) by metis
  then show "view c = view (cat w) \<or> (\<exists>x. view c = (view (cat w))(b_id (up_backup u) := Some x) \<and> file_agrees E (disk_of w) (b_id (up_backup u)) x)"
    using inv Complete_view [of E "b_id (up_backup u)" now "cat w" _ c] assms(2) kept by (cases; force simp: owns_def in_transfer_def)+
qed

lemma Fail_commit:
  assumes "core_inv (cat w)" "view (cat w) i = Some (BackupReceiving, sz, sha)" "unpublished (disk_of w) i"
    and "c = snd (commit out (Fail E i reason now (cat w)) (cat w))"
  shows "follows (cat w) c" "view c = view (cat w) \<or> (\<exists>x. view c = (view (cat w))(i := Some x) \<and> file_agrees E (disk_of w) i x)"
proof -
  show "follows (cat w) c" unfolding assms(4) by (rule commit_follows [OF assms(1)]) (erule store_step.intros)
  consider "c = cat w" | y where "Fail E i reason now (cat w) = Inr (y, c)" using commit_cases assms(4) by metis
  then show "view c = view (cat w) \<or> (\<exists>x. view c = (view (cat w))(i := Some x) \<and> file_agrees E (disk_of w) i x)"
    using assms(1-3) Fail_view [of E i reason now "cat w" _ c] by (cases; force simp: in_transfer_def)+
qed

lemma AtComplete_inv:
  assumes "server_inv E w" "k < length (uploads w)" "up_pc (uploads w ! k) = AtComplete" "Receive E inp (uploads w ! k) w = (v, w')"
  shows "server_inv E (w'\<lparr>uploads := (uploads w')[k := v]\<rparr>)"
proof -
  let ?u = "uploads w ! k"
  define c where "c = snd (commit (in_outcome inp) (Complete E (b_id (up_backup ?u)) (in_now inp) (cat w)) (cat w))"
  have own: "owner ?u" using assms(3) by (simp add: owner_def)
  have st: "stored E (disk_of w) (b_id (up_backup ?u)) (b_size (up_backup ?u)) (b_sha256 (up_backup ?u))"
    using ownerD(2) [OF assms(1,2) own] assms(3) by (simp add: pc_agrees_def Let_def)
  from Receive_AtComplete [OF assms(4,3)] obtain r where v: "v = respond_and AtRelease r ?u" "w' = w\<lparr>cat := c\<rparr>" unfolding c_def by blast
  from cat_step [OF assms(1,2) own, of v c] Complete_commit [OF assms(1) ownerD(1) [OF assms(1,2) own] st c_def] v(1)
  show ?thesis by (simp add: v(2) owner_def)
qed

lemma CleanFail_inv:
  assumes "server_inv E w" "k < length (uploads w)" "up_pc (uploads w ! k) = CleanFail" "Receive E inp (uploads w ! k) w = (v, w')"
  shows "server_inv E (w'\<lparr>uploads := (uploads w')[k := v]\<rparr>)"
proof -
  let ?u = "uploads w ! k"
  define c where "c = snd (commit (in_outcome inp) (Fail E (b_id (up_backup ?u)) upload_failed (in_now inp) (cat w)) (cat w))"
  have own: "owner ?u" using assms(3) by (simp add: owner_def)
  have un: "unpublished (disk_of w) (b_id (up_backup ?u))" using ownerD(2) [OF assms(1,2) own] assms(3) by (simp add: pc_agrees_def Let_def)
  have v: "v = ?u\<lparr>up_pc := AtRelease\<rparr>" "w' = w\<lparr>cat := c\<rparr>" using Receive_CleanFail [OF assms(4,3)] by (simp_all add: c_def)
  have inv: "core_inv (cat w)" using assms(1) by (simp add: server_inv_def)
  from cat_step [OF assms(1,2) own, of v c] Fail_commit [OF inv ownerD(1) [OF assms(1,2) own, unfolded owns_def] un c_def] v(1)
  show ?thesis by (simp add: v(2) owner_def)
qed

lemma AtRelease_inv:
  assumes "server_inv E w" "k < length (uploads w)" "up_pc (uploads w ! k) = AtRelease" "Receive E inp (uploads w ! k) w = (v, w')"
  shows "server_inv E (w'\<lparr>uploads := (uploads w')[k := v]\<rparr>)"
proof -
  have v: "v = (uploads w ! k)\<lparr>up_pc := Finished\<rparr>" "w' = w\<lparr>slots := slots w - 1\<rparr>"
    using assms(4) unfolding Receive_def assms(3) Let_def pc.case by simp_all
  note parts = assms(1) [unfolded server_inv_def]
  have "uploads_agree E (cat w) (disk_of w) ((uploads w)[k := v])"
    using parts v(1) set_update_subset_insert [of "uploads w" k v] unfolding uploads_agree_def by (auto simp: owner_def)
  moreover have "exclusive ((uploads w)[k := v])" by (rule exclusive_update [OF _ assms(2)]) (use parts v in \<open>simp_all add: owner_def\<close>)
  moreover have "slots_agree (w\<lparr>cat := cat w, slots := slots w - 1, uploads := (uploads w)[k := v]\<rparr>)"
    using slots_update [OF _ assms(2), where c = "cat w" and v = v] parts v(1) assms(3) by simp
  ultimately show ?thesis using parts by (simp add: v(2) server_inv_def slots_agree_def)
qed

lemma Receive_inv:
  assumes "server_inv E w" "k < length (uploads w)" "Receive E inp (uploads w ! k) w = (v, w')"
  shows "server_inv E (w'\<lparr>uploads := (uploads w')[k := v]\<rparr>)"
proof (cases "up_pc (uploads w ! k)")
  case Finished
  then have "Receive E inp (uploads w ! k) w = (uploads w ! k, w)" by (simp add: Receive_def Let_def)
  then have "v = uploads w ! k" "w' = w" using assms(3) by simp_all
  then show ?thesis using assms(1) by simp
qed (use assms AtCreate_inv AtCopy_inv AtChmod_inv AtSync_inv AtClose_inv AtPublish_inv late_inv AtComplete_inv CleanFail_inv AtRelease_inv in \<open>simp_all\<close>)

lemma Abort_inv:
  assumes "server_inv E w" "k < length (uploads w)" "up_pc (uploads w ! k) = AtCreate" "Abort E reason out now (uploads w ! k) w = (v, w')"
  shows "server_inv E (w'\<lparr>uploads := (uploads w')[k := v]\<rparr>)"
proof -
  let ?u = "uploads w ! k"
  define c where "c = (if b_status (up_backup ?u) = BackupReceiving then snd (commit out (Fail E (b_id (up_backup ?u)) reason now (cat w)) (cat w)) else cat w)"
  have own: "owner ?u" using assms(3) by (simp add: owner_def)
  have un: "unpublished (disk_of w) (b_id (up_backup ?u))" using ownerD(2) [OF assms(1,2) own] assms(3) by (simp add: pc_agrees_def Let_def)
  have v: "v = ?u\<lparr>up_pc := Finished\<rparr>" "w' = w\<lparr>cat := c, slots := slots w - 1\<rparr>" using assms(4) by (simp_all add: Abort_def Let_def c_def)
  have inv: "core_inv (cat w)" using assms(1) by (simp add: server_inv_def)
  have "follows (cat w) c" "view c = view (cat w) \<or> (\<exists>x. view c = (view (cat w))(b_id (up_backup ?u) := Some x) \<and> file_agrees E (disk_of w) (b_id (up_backup ?u)) x)"
    using Fail_commit [OF inv ownerD(1) [OF assms(1,2) own, unfolded owns_def] un refl] follows_refl [OF inv] by (auto simp: c_def)
  from cat_step [OF assms(1,2) own, of v c] this v(1) show ?thesis by (simp add: v(2) owner_def)
qed

subsection \<open>Requests, other operations, crashes\<close>

lemma Admit_result:
  assumes "Admit E newID st rf t m sz d ik now w = (r, w')"
  shows "(\<exists>e. r = Inl e \<and> w' = w) \<or> (\<exists>b c. r = Inr b \<and> ReserveIdempotentChecked E newID t m sz d ik now (Some (checkDisk st rf)) (cat w) = Inr (b, c)
     \<and> slots w < slot_limit \<and> w' = (if b_status b = BackupComplete then w\<lparr>cat := c\<rparr> else w\<lparr>slots := slots w + 1, cat := c\<rparr>))"
proof (cases "slots w \<ge> slot_limit")
  case False
  show ?thesis
  proof (cases "ReserveIdempotentChecked E newID t m sz d ik now (Some (checkDisk st rf)) (cat w)")
    case (Inr bc)
    then show ?thesis using assms False by (cases bc) (simp add: Admit_def Let_def split: if_splits)
  qed (use assms False in \<open>auto simp: Admit_def Let_def\<close>)
qed (use assms in \<open>auto simp: Admit_def\<close>)

definition refusal_codes :: "int set" where
  "refusal_codes = {400, 401, 404, 405, 409, 410, 411, 413, 415, 429, 503, 507}"

lemma AdmissionError_codes: "fst (AdmissionError e) \<in> refusal_codes"
  by (cases e) (simp_all add: AdmissionError_def refusal_codes_def)

lemma ServeHTTP_cases:
  assumes "ServeHTTP E dec newID st rf now r w = (res, w')"
  shows "(\<exists>code msg. res = Some (ErrorResponse code msg) \<and> code \<in> refusal_codes \<and> w' = w)
    \<or> (\<exists>b c t m sz d ik. ReserveIdempotentChecked E newID t m sz d ik now (Some (checkDisk st rf)) (cat w) = Inr (b, c) \<and> slots w < slot_limit
       \<and> (if b_status b = BackupComplete then res = Some (ReceiptResponse (Receipt_of b)) \<and> w' = w\<lparr>cat := c\<rparr>
          else res = None \<and> w' = w\<lparr>slots := slots w + 1, cat := c, uploads := uploads w @ [new_upload b]\<rparr>))"
proof -
  from assms consider code msg where "res = Some (ErrorResponse code msg)" "code \<in> refusal_codes" "w' = w"
    | t m sz d ik where "(case Admit E newID st rf t m sz d ik now w of
      (Inl e, w') \<Rightarrow> (Some (case AdmissionError e of (status, message) \<Rightarrow> ErrorResponse status message), w')
    | (Inr b, w') \<Rightarrow> if b_status b = BackupComplete then (Some (ReceiptResponse (Receipt_of b)), w')
        else (None, w'\<lparr>uploads := uploads w' @ [new_upload b]\<rparr>)) = (res, w')"
    unfolding ServeHTTP_def Let_def refusal_codes_def by (auto split: if_split_asm sum.split_asm)
  then show ?thesis
  proof cases
    case 2
    obtain r w1 where a: "Admit E newID st rf t m sz d ik now w = (r, w1)" by (metis prod.collapse)
    from Admit_result [OF a] show ?thesis
    proof (elim disjE exE conjE)
      fix e assume "r = Inl e" "w1 = w"
      then show ?thesis using 2 a AdmissionError_codes [of e] by (auto split: prod.splits)
    next
      fix b c assume h: "r = Inr b" "ReserveIdempotentChecked E newID t m sz d ik now (Some (checkDisk st rf)) (cat w) = Inr (b, c)"
        "slots w < slot_limit" "w1 = (if b_status b = BackupComplete then w\<lparr>cat := c\<rparr> else w\<lparr>slots := slots w + 1, cat := c\<rparr>)"
      then have "if b_status b = BackupComplete then res = Some (ReceiptResponse (Receipt_of b)) \<and> w' = w\<lparr>cat := c\<rparr>
          else res = None \<and> w' = w\<lparr>slots := slots w + 1, cat := c, uploads := uploads w @ [new_upload b]\<rparr>"
        using 2 a by (auto split: if_splits)
      then show ?thesis using h by blast
    qed
  qed blast
qed

lemma unknown_unpublished: "disk_wf c d \<Longrightarrow> view c i = None \<Longrightarrow> unpublished d i"
  unfolding unpublished_def holds_singleton disk_wf_def final_def by fastforce

lemma Request_inv:
  assumes "server_inv E w" "phase_of w = Up" "ServeHTTP E dec newID st rf now r w = (res, w')"
  shows "server_inv E w'"
proof (cases "w' = w")
  case False
  from ServeHTTP_cases [OF assms(3)] False obtain b c t m sz d ik where
    res: "ReserveIdempotentChecked E newID t m sz d ik now (Some (checkDisk st rf)) (cat w) = Inr (b, c)" "slots w < slot_limit"
    and w': "if b_status b = BackupComplete then w' = w\<lparr>cat := c\<rparr> else w' = w\<lparr>slots := slots w + 1, cat := c, uploads := uploads w @ [new_upload b]\<rparr>"
    by (auto split: if_splits)
  note parts = assms(1) [unfolded server_inv_def]
  have core: "core_inv (cat w)" using parts by simp
  note rv = Reserve_view [OF res(1) core]
  from rv(2) show ?thesis
  proof
    assume "c = cat w \<and> b_status b = BackupComplete \<and> view (cat w) (b_id b) = Some (BackupComplete, b_size b, b_sha256 b)"
    then have "w' = w" using w' by simp
    then show ?thesis using False by simp
  next
    assume "b_status b = BackupReceiving \<and> (view (cat w) (b_id b) = None \<or> view (cat w) (b_id b) = Some (BackupFailed, b_size b, b_sha256 b))
      \<and> view c = (view (cat w))(b_id b := Some (BackupReceiving, b_size b, b_sha256 b))"
    then have st: "b_status b = BackupReceiving" and v: "view (cat w) (b_id b) = None \<or> view (cat w) (b_id b) = Some (BackupFailed, b_size b, b_sha256 b)"
      and v': "view c = (view (cat w))(b_id b := Some (BackupReceiving, b_size b, b_sha256 b))" by blast+
    have un: "unpublished (disk_of w) (b_id b)"
      using v parts unknown_unpublished transfer_agrees [OF assms(1), of "b_id b" BackupFailed] by (auto simp: in_transfer_def)
    have f: "follows (cat w) c" using store_step.Reserve store_step_follows [OF _ core] res(1) by blast
    have ids: "b_id (up_backup u) \<noteq> b_id b" if "u \<in> set (uploads w)" "owner u" for u
      using that parts v unfolding uploads_agree_def owns_def by auto
    have "disk_wf c (disk_of w)" by (rule disk_wf_cat [OF _ f]) (use parts v' in \<open>auto split: if_splits\<close>)
    moreover have "rows_agree E c (disk_of w)" by (rule rows_agree_cat [OF _ f]) (use parts v' un in \<open>auto simp: in_transfer_def\<close>)
    moreover have "uploads_agree E c (disk_of w) (uploads w @ [new_upload b])"
      using parts ids un unfolding uploads_agree_def by (auto simp: owns_def v' new_upload_def pc_agrees_def Let_def)
    moreover have "exclusive (uploads w @ [new_upload b])"
      using parts ids unfolding exclusive_def
      by (auto simp: nth_append new_upload_def filing_def less_Suc_eq) (metis nth_mem)+
    moreover have "slots_agree w'" using parts w' st res(2) assms(2) by (auto simp: slots_agree_def new_upload_def)
    moreover have "task_agrees c (disk_of w) t" if "task_of w = Some t" for t using parts that task_agrees_follows [OF _ f] by blast
    ultimately show ?thesis using w' st rv(1) parts by (simp add: server_inv_def)
  qed
qed (use assms(1) in simp)

lemma elsewhereE:
  assumes "elsewhere c c'" "view c' i = Some (st', sz, sha)"
  obtains st where "view c i = Some (st, sz, sha)" "st' = st \<or> \<not> in_transfer st \<and> \<not> in_transfer st'"
proof -
  have "case view c i of None \<Rightarrow> view c' i = None | Some (st, sz, sha) \<Rightarrow> \<exists>st'. view c' i = Some (st', sz, sha)
      \<and> (st' = st \<or> \<not> in_transfer st \<and> \<not> in_transfer st')"
    using assms(1) unfolding elsewhere_def by blast
  then show thesis using assms(2) that by (auto split: option.splits)
qed

lemma elsewhere_keeps: "elsewhere c c' \<Longrightarrow> view c i = Some (st, sz, sha) \<Longrightarrow> in_transfer st \<Longrightarrow> view c' i = Some (st, sz, sha)"
  unfolding elsewhere_def by (drule spec [of _ i]) auto

lemma Elsewhere_inv:
  assumes "server_inv E w" "store_step E (cat w) c" "elsewhere (cat w) c"
  shows "server_inv E (w\<lparr>cat := c\<rparr>)"
proof -
  note parts = assms(1) [unfolded server_inv_def]
  have f: "follows (cat w) c" using store_step_follows [OF assms(2)] parts by simp
  have none: "view c i = None \<Longrightarrow> view (cat w) i = None" for i
    using assms(3) unfolding elsewhere_def by (drule_tac spec [of _ i]) (auto split: option.splits)
  have "file_agrees E (disk_of w) i (st', sz, sha)" if v: "view c i = Some (st', sz, sha)" "\<not> permitted c i Purge" for i st' sz sha
  proof -
    from elsewhereE [OF assms(3) v(1)] obtain st where st: "view (cat w) i = Some (st, sz, sha)"
      "st' = st \<or> \<not> in_transfer st \<and> \<not> in_transfer st'" by blast
    moreover have "\<not> permitted (cat w) i Purge" using f v(2) unfolding follows_def by blast
    ultimately have "file_agrees E (disk_of w) i (st, sz, sha)" using parts unfolding rows_agree_def by blast
    then show ?thesis using st(2) by (auto simp: in_transfer_def)
  qed
  then have "rows_agree E c (disk_of w)" unfolding rows_agree_def by auto
  moreover have "disk_wf c (disk_of w)" by (rule disk_wf_cat [OF _ f none]) (use parts in simp)
  moreover have "uploads_agree E c (disk_of w) (uploads w)"
    using parts elsewhere_keeps [OF assms(3)] unfolding uploads_agree_def owns_def in_transfer_def by blast
  moreover have "task_agrees c (disk_of w) t" if "task_of w = Some t" for t using parts that task_agrees_follows [OF _ f] by blast
  ultimately show ?thesis using parts store_step_inv [OF assms(2)] by (simp add: server_inv_def slots_agree_def)
qed

lemma power_loss_holds: "power_loss d d' \<Longrightarrow> holds_at p d' = {Lstat p d'} \<and> Lstat p d' \<in> holds_at p d"
proof -
  assume "power_loss d d'"
  then have "Lstat p d' = Lstat p d \<or> (p, Lstat p d') \<in> set (unsynced d)" "unsynced d' = []" unfolding power_loss_def by blast+
  then show ?thesis by (auto simp: holds_at_def alternatives_def)
qed

lemma power_loss_sound: "power_loss d d' \<Longrightarrow> sound E d n sz sha \<Longrightarrow> sound E d' n sz sha"
  unfolding power_loss_def sound_def by auto

lemma power_loss_stored: "power_loss d d' \<Longrightarrow> stored E d i sz sha \<Longrightarrow> stored E d' i sz sha"
  using power_loss_holds [of d d' "final i"] power_loss_sound [of d d'] unfolding stored_def by fastforce

lemma power_loss_kept:
  assumes "power_loss d d'" "kept E d i sz sha"
  shows "kept E d' i sz sha"
proof -
  note f = power_loss_holds [OF assms(1), of "final i"] and q = power_loss_holds [OF assms(1), of "quarantine i"]
  from assms(2) obtain n where n: "sound E d n sz sha" "anchored d i" "holds_at (final i) d \<subseteq> {None, Some (Regular n)}"
    "holds_at (quarantine i) d \<subseteq> {None, Some (Regular n)}" unfolding kept_def by blast
  have ren: "Lstat a d' \<noteq> None \<or> Lstat b d' \<noteq> None" if "(a, b) \<in> set (renamed d)" for a b
    using that assms(1) unfolding power_loss_def by blast
  have "Lstat (final i) d' \<noteq> None \<or> Lstat (quarantine i) d' \<noteq> None"
    using n(2) f q ren unfolding anchored_def by metis
  then have "anchored d' i" using f q unfolding anchored_def by auto
  moreover have "holds_at (final i) d' \<subseteq> {None, Some (Regular n)}" "holds_at (quarantine i) d' \<subseteq> {None, Some (Regular n)}" using f q n(3,4) by auto
  ultimately show ?thesis using power_loss_sound [OF assms(1) n(1)] unfolding kept_def by blast
qed

lemma power_loss_agrees:
  assumes "power_loss d d'" "file_agrees E d i x"
  shows "file_agrees E d' i x"
proof -
  note h = power_loss_holds [OF assms(1), of "final i"]
  have "unpublished d' i" if "unpublished d i" using that h by (simp add: unpublished_def)
  moreover have "unpublished d' i \<or> stored E d' i sz sha" if "published E d i sz sha" for sz sha
    using that h power_loss_sound [OF assms(1)] unfolding unpublished_def stored_def published_def holds_at_def by fastforce
  ultimately show ?thesis using assms(2) power_loss_stored [OF assms(1)] power_loss_kept [OF assms(1)] by (cases x) auto
qed

lemma disk_wf_sub:
  assumes "disk_wf c d" "\<And>p. holds_at p d' \<subseteq> insert None (holds_at p d)" "length (inodes d') = length (inodes d)"
    and "\<And>p i. p \<in> set (renamed d') \<Longrightarrow> fst p = quarantine i \<or> snd p = quarantine i \<Longrightarrow> p \<in> set (renamed d)"
  shows "disk_wf c d'"
proof -
  have h: "v \<in> holds_at p d" if "v \<in> holds_at p d'" "v \<noteq> None" for p v using that assms(2) [of p] by auto
  show ?thesis
    by (rule disk_wfI) (use assms(3,4) disk_wfD [OF assms(1)] h in \<open>metis option.distinct(1)\<close>, (use disk_wfD(2-4) [OF assms(1)] assms(4) h in blast)+)
qed

lemma killed_inv:
  assumes "server_inv E w" "disk_wf (cat w) d" "\<And>i x. file_agrees E (disk_of w) i x \<Longrightarrow> file_agrees E d i x"
    and "disk_of w = d \<or> task_of w = None"
  shows "server_inv E (killed d w)"
  using assms unfolding server_inv_def
  by (auto simp: killed_def rows_agree_def uploads_agree_def exclusive_def slots_agree_def slot_limit_def simp del: file_agrees.simps)

lemma PowerLoss_inv:
  assumes "server_inv E w" "power_loss (disk_of w) d"
  shows "server_inv E (killed d (w\<lparr>task_of := None\<rparr>))"
proof (rule killed_inv)
  show "server_inv E (w\<lparr>task_of := None\<rparr>)" using assms(1) by (simp add: server_inv_def slots_agree_def)
  show "file_agrees E d i x" if "file_agrees E (disk_of (w\<lparr>task_of := None\<rparr>)) i x" for i x
    using power_loss_agrees [OF assms(2)] that by simp
  show "disk_wf (cat (w\<lparr>task_of := None\<rparr>)) d"
  proof (rule disk_wf_sub)
    show "disk_wf (cat (w\<lparr>task_of := None\<rparr>)) (disk_of w)" using assms(1) by (simp add: server_inv_def)
    show "holds_at p d \<subseteq> insert None (holds_at p (disk_of w))" for p using power_loss_holds [OF assms(2), of p] by simp
  qed (use assms(2) in \<open>simp_all add: power_loss_def\<close>)
qed simp

subsection \<open>Reconciliation\<close>

lemma idle_inv: "uploads w = [] \<Longrightarrow> server_inv E w \<longleftrightarrow> core_inv (cat w) \<and> disk_wf (cat w) (disk_of w) \<and> rows_agree E (cat w) (disk_of w) \<and> slots w = 0
    \<and> (\<forall>t. task_of w = Some t \<longrightarrow> task_agrees (cat w) (disk_of w) t)"
  by (auto simp: server_inv_def uploads_agree_def exclusive_def slots_agree_def)

text \<open>With no upload running, removing a temporary file or syncing a directory keeps the invariant.\<close>

definition idle :: "env \<Rightarrow> world \<Rightarrow> bool" where
  "idle E w \<longleftrightarrow> server_inv E w \<and> uploads w = []"

lemma idle_disk:
  assumes "idle E w" "undisturbed {p. fst p = Incoming} {} (disk_of w) d'" "\<And>p. holds_at p d' \<subseteq> insert None (holds_at p (disk_of w))"
    "length (inodes d') = length (inodes (disk_of w))"
  shows "idle E (w\<lparr>disk_of := d'\<rparr>)"
proof -
  have "file_agrees E d' i x" if "file_agrees E (disk_of w) i x" for i x
    using that by (rule file_agrees_undisturbed [OF _ assms(2)]) simp_all
  moreover have "task_agrees (cat w) d' t" if "task_of w = Some t" for t
    by (rule task_agrees_undisturbed [OF _ assms(2)]) (use assms(1) that in \<open>auto simp: idle_def server_inv_def\<close>)
  moreover have "disk_wf (cat w) d'"
  proof (rule disk_wf_sub [OF _ assms(3,4)])
    fix p i assume "p \<in> set (renamed d')" "fst p = quarantine i \<or> snd p = quarantine i"
    moreover have "p \<in> set (renamed (disk_of w)) \<or> fst p \<in> {p. fst p = Incoming} \<and> snd p \<in> {p. fst p = Incoming}"
      using assms(2) calculation(1) unfolding undisturbed_def by blast
    ultimately show "p \<in> set (renamed (disk_of w))" by auto
  qed (use assms(1) in \<open>simp add: idle_def server_inv_def\<close>)
  ultimately show ?thesis using assms(1) unfolding idle_def by (auto simp: idle_inv rows_agree_def simp del: file_agrees.simps)
qed

lemma idle_remove: "idle E w \<Longrightarrow> idle E (w\<lparr>disk_of := set_name (Incoming, name) None (disk_of w)\<rparr>)"
  by (rule idle_disk) auto

lemma idle_fsync: "idle E w \<Longrightarrow> idle E (w\<lparr>disk_of := fsync_dir x (disk_of w)\<rparr>)"
proof (rule idle_disk)
  show "holds_at p (fsync_dir x (disk_of w)) \<subseteq> insert None (holds_at p (disk_of w))" for p
    using holds_fsync_dir_sub [of p x "disk_of w"] by fast
qed simp_all

lemma idle_cat:
  assumes "idle E w" "follows (cat w) c" "view c = view (cat w) \<or> (\<exists>x. view c = (view (cat w))(i := Some x) \<and> file_agrees E (disk_of w) i x)"
  shows "idle E (w\<lparr>cat := c\<rparr>)"
proof -
  have "rows_agree E c (disk_of w)" by (rule rows_agree_cat [OF _ assms(2,3)]) (use assms(1) in \<open>simp add: idle_def server_inv_def\<close>)
  moreover have "disk_wf c (disk_of w)"
    by (rule disk_wf_cat [OF _ assms(2)]) (use assms(1,3) in \<open>auto simp: idle_def server_inv_def split: if_splits\<close>)
  moreover have "slots w = 0" "uploads w = []" using assms(1) idle_inv [of w E] by (auto simp: idle_def)
  moreover have "task_agrees c (disk_of w) t" if "task_of w = Some t" for t
    by (rule task_agrees_follows [OF _ assms(2)]) (use assms(1) that in \<open>auto simp: idle_def server_inv_def\<close>)
  ultimately show ?thesis using assms(2) by (simp add: idle_def idle_inv follows_def)
qed

definition settled_as :: "disk \<Rightarrow> string \<Rightarrow> status" where
  "settled_as d i = (if Lstat (final i) d = None then BackupFailed else BackupComplete)"

definition same_archive :: "disk \<Rightarrow> disk \<Rightarrow> bool" where
  "same_archive d d' \<longleftrightarrow> (\<forall>name. Lstat (Archive, name) d' = Lstat (Archive, name) d)"

definition only_removed :: "disk \<Rightarrow> disk \<Rightarrow> bool" where
  "only_removed d d' \<longleftrightarrow> (\<forall>p. Lstat p d' = Lstat p d \<or> Lstat p d' = None)"

lemma only_removed_None: "only_removed d d' \<Longrightarrow> Lstat p d = None \<Longrightarrow> Lstat p d' = None"
  unfolding only_removed_def by metis

lemma only_removed_trans: "only_removed a b \<Longrightarrow> only_removed b c \<Longrightarrow> only_removed a c"
  unfolding only_removed_def by metis

lemma same_archive_trans: "same_archive a b \<Longrightarrow> same_archive b c \<Longrightarrow> same_archive a c"
  by (simp add: same_archive_def)

lemma archive_refl [simp]: "same_archive d d" "only_removed d d" by (simp_all add: same_archive_def only_removed_def)

lemma settle_cases:
  assumes "settle E F now b w = (e, w')"
  shows "w' = w \<and> e \<noteq> None
    \<or> Lstat (final (b_id b)) (disk_of w) \<noteq> None
      \<and> w' = w\<lparr>disk_of := fsync_dir Archive (disk_of w), cat := snd (commit (F (CallComplete (b_id b))) (Complete E (b_id b) now (cat w)) (cat w))\<rparr>
      \<and> (e = None) = (fst (commit (F (CallComplete (b_id b))) (Complete E (b_id b) now (cat w)) (cat w)) = None)
    \<or> Lstat (final (b_id b)) (disk_of w) = None
      \<and> w' = w\<lparr>cat := snd (commit (F (CallFail (b_id b))) (Fail E (b_id b) interrupted now (cat w)) (cat w))\<rparr>
      \<and> (e = None) = (fst (commit (F (CallFail (b_id b))) (Fail E (b_id b) interrupted now (cat w)) (cat w)) = None)"
proof (cases "\<not> ValidID (b_id b) \<or> io_fault (F (CallLstat (b_id b))) \<noteq> None")
  case True
  then have "\<exists>m. settle E F now b w = (Some m, w)" by (cases "ValidID (b_id b)") (simp_all add: settle_def Let_def)
  then show ?thesis using assms by auto
next
  case ok: False
  show ?thesis
  proof (cases "Lstat (final (b_id b)) (disk_of w)")
    case None
    let ?cm = "commit (F (CallFail (b_id b))) (Fail E (b_id b) interrupted now (cat w)) (cat w)"
    have "settle E F now b w = (if fst ?cm \<noteq> None then Some ''fail'' else None, w\<lparr>cat := snd ?cm\<rparr>)"
      using ok None by (simp add: settle_def Let_def case_prod_beta)
    then show ?thesis using assms None by (cases "fst ?cm") simp_all
  next
    case (Some node)
    show ?thesis
    proof (cases node)
      case (Regular n)
      let ?bytes = "content (inodes (disk_of w) ! n)"
      show ?thesis
      proof (cases "int (length ?bytes) \<noteq> b_size b \<or> Verify E (io_fault (F (CallVerify (b_id b)))) ?bytes (b_size b) (b_sha256 b) \<noteq> None
          \<or> io_fault (F (CallSyncArchive (b_id b))) \<noteq> None")
        case True
        then have "\<exists>m. settle E F now b w = (Some m, w)" using ok Some Regular by (simp add: settle_def Let_def split: option.split) auto
        then show ?thesis using assms by auto
      next
        case False
        let ?cm = "commit (F (CallComplete (b_id b))) (Complete E (b_id b) now (cat w)) (cat w)"
        have "settle E F now b w = (if fst ?cm \<noteq> None then Some ''complete'' else None, w\<lparr>disk_of := fsync_dir Archive (disk_of w), cat := snd ?cm\<rparr>)"
          using False ok Some Regular by (simp add: settle_def Let_def case_prod_beta)
        then show ?thesis using assms Some by (cases "fst ?cm") simp_all
      qed
    qed (use assms ok Some in \<open>auto simp: settle_def Let_def\<close>)
  qed
qed

lemma settle_inv:
  assumes "idle E w" "view (cat w) (b_id b) = Some (BackupReceiving, b_size b, b_sha256 b)" "settle E F now b w = (e, w')"
  shows "idle E w' \<and> phase_of w' = phase_of w \<and> (\<forall>j. j \<noteq> b_id b \<longrightarrow> view (cat w') j = view (cat w) j)
    \<and> same_archive (disk_of w) (disk_of w') \<and> (e = None \<longrightarrow> view (cat w') (b_id b) = Some (settled_as (disk_of w) (b_id b), b_size b, b_sha256 b))"
proof (cases "w' = w \<and> e \<noteq> None")
  case True
  then show ?thesis using assms(1) by (auto simp: same_archive_def)
next
  case False
  let ?i = "b_id b" and ?d = "disk_of w"
  have inv: "server_inv E w" "core_inv (cat w)" using assms(1) by (auto simp: idle_def server_inv_def)
  have fa: "file_agrees E ?d ?i (BackupReceiving, b_size b, b_sha256 b)" using transfer_agrees [OF inv(1) assms(2)] by (simp add: in_transfer_def)
  from settle_cases [OF assms(3)] False consider "Lstat (final ?i) ?d \<noteq> None"
      "w' = w\<lparr>disk_of := fsync_dir Archive ?d, cat := snd (commit (F (CallComplete ?i)) (Complete E ?i now (cat w)) (cat w))\<rparr>"
      "(e = None) = (fst (commit (F (CallComplete ?i)) (Complete E ?i now (cat w)) (cat w)) = None)"
    | "Lstat (final ?i) ?d = None" "w' = w\<lparr>cat := snd (commit (F (CallFail ?i)) (Fail E ?i interrupted now (cat w)) (cat w))\<rparr>"
      "(e = None) = (fst (commit (F (CallFail ?i)) (Fail E ?i interrupted now (cat w)) (cat w)) = None)" by metis
  then show ?thesis
  proof cases
    case 1
    have "stored E (fsync_dir Archive ?d) ?i (b_size b) (b_sha256 b)"
    proof -
      have "\<not> unpublished ?d ?i" using 1(1) by (auto simp: unpublished_def holds_at_def)
      then have "published E ?d ?i (b_size b) (b_sha256 b) \<or> stored E ?d ?i (b_size b) (b_sha256 b)" using fa by simp
      then show ?thesis using fsync_published stored_undisturbed [of E ?d ?i "b_size b" "b_sha256 b" "{}" "{}"] by auto
    qed
    note st = this
    let ?w = "w\<lparr>disk_of := fsync_dir Archive ?d\<rparr>" and ?u = "new_upload b"
    have idle: "idle E ?w" using idle_fsync [OF assms(1)] .
    define c where "c = snd (commit (F (CallComplete ?i)) (Complete E ?i now (cat w)) (cat w))"
    have cc: "follows (cat w) c" "view c = view (cat w) \<or> (\<exists>x. view c = (view (cat w))(?i := Some x) \<and> file_agrees E (disk_of ?w) ?i x)"
      using Complete_commit [of E ?w ?u c "F (CallComplete ?i)" now] idle st assms(2) by (simp_all add: idle_def owns_def new_upload_def c_def)
    have "idle E (?w\<lparr>cat := c\<rparr>)" by (rule idle_cat [OF idle]) (use cc in simp_all)
    moreover have "view c ?i = Some (BackupComplete, b_size b, b_sha256 b)" if "e = None"
    proof -
      have "Complete E ?i now (cat w) = Inr ((), c)"
        using 1(3) that unfolding c_def by (auto simp: commit_def split: outcome.splits sum.splits)
      then show ?thesis using Complete_view(2) [OF _ inv(2)] assms(2) by fastforce
    qed
    ultimately show ?thesis using 1 cc(2) by (auto simp: c_def [symmetric] same_archive_def settled_as_def)
  next
    case 2
    define c where "c = snd (commit (F (CallFail ?i)) (Fail E ?i interrupted now (cat w)) (cat w))"
    have "\<not> stored E ?d ?i (b_size b) (b_sha256 b)" using 2(1) holds_Lstat [of "final ?i" ?d] by (auto simp: stored_def simp del: holds_Lstat)
    then have un: "unpublished ?d ?i" using fa 2(1) by (simp add: published_def)
    note cc = Fail_commit [OF inv(2) assms(2) un c_def]
    have "idle E (w\<lparr>cat := c\<rparr>)" by (rule idle_cat [OF assms(1) cc])
    moreover have "view c ?i = Some (BackupFailed, b_size b, b_sha256 b)" if "e = None"
    proof -
      have "Fail E ?i interrupted now (cat w) = Inr ((), c)"
        using 2(3) that unfolding c_def by (auto simp: commit_def split: outcome.splits sum.splits)
      then show ?thesis using Fail_view(2) [OF _ inv(2)] assms(2) by fastforce
    qed
    ultimately show ?thesis using 2 cc(2) by (auto simp: c_def [symmetric] same_archive_def settled_as_def)
  qed
qed

lemma drop_staging_inv:
  assumes "idle E w" "drop_staging k F (Incoming, name) w = (e, w')"
  shows "idle E w' \<and> phase_of w' = phase_of w \<and> cat w' = cat w \<and> same_archive (disk_of w) (disk_of w')
    \<and> (e = None \<longrightarrow> Lstat (Incoming, name) (disk_of w') = None) \<and> only_removed (disk_of w) (disk_of w')"
  using assms idle_remove [OF assms(1)] by (auto simp: drop_staging_def remove_name_def same_archive_def only_removed_def split: if_splits)

lemma reconcile_rows_inv:
  assumes "idle E w" "distinct (map b_id bs)" "\<forall>b \<in> set bs. view (cat w) (b_id b) = Some (BackupReceiving, b_size b, b_sha256 b)"
    and "reconcile_rows E F now bs w = (e, w')"
  shows "idle E w' \<and> phase_of w' = phase_of w \<and> (\<forall>j. j \<notin> b_id ` set bs \<longrightarrow> view (cat w') j = view (cat w) j)
    \<and> same_archive (disk_of w) (disk_of w')
    \<and> (e = None \<longrightarrow> (\<forall>b \<in> set bs. view (cat w') (b_id b) = Some (settled_as (disk_of w) (b_id b), b_size b, b_sha256 b)))"
  using assms
proof (induction bs arbitrary: w)
  case Nil
  then show ?case by (simp add: same_archive_def)
next
  case (Cons b bs)
  obtain e1 w1 where s1: "settle E F now b w = (e1, w1)" by (metis prod.collapse)
  have r1: "idle E w1" "phase_of w1 = phase_of w" "\<And>j. j \<noteq> b_id b \<Longrightarrow> view (cat w1) j = view (cat w) j" "same_archive (disk_of w) (disk_of w1)"
    "e1 = None \<Longrightarrow> view (cat w1) (b_id b) = Some (settled_as (disk_of w) (b_id b), b_size b, b_sha256 b)"
    using settle_inv [OF Cons.prems(1) _ s1] Cons.prems(3) by auto
  obtain e2 w2 where s2: "drop_staging (CallRemove (b_id b)) F (staging (b_id b)) w1 = (e2, w2)" by (metis prod.collapse)
  have r2: "idle E w2" "phase_of w2 = phase_of w1" "cat w2 = cat w1" "same_archive (disk_of w1) (disk_of w2)"
    using drop_staging_inv [OF r1(1) s2 [unfolded staging_def]] by auto
  have arch: "same_archive (disk_of w) (disk_of w2)" using r1(4) r2(4) by (simp add: same_archive_def)
  show ?case
  proof (cases "e1 = None \<and> e2 = None")
    case False
    then have "w' = w1 \<and> e \<noteq> None \<or> w' = w2 \<and> e \<noteq> None" using Cons.prems(4) s1 s2 by (auto split: option.splits)
    then show ?thesis using r1 r2 arch by auto
  next
    case True
    have notin: "b_id b \<notin> b_id ` set bs" using Cons.prems(2) by auto
    have v: "\<forall>x \<in> set bs. view (cat w2) (b_id x) = Some (BackupReceiving, b_size x, b_sha256 x)"
      using r1(3) r2(3) Cons.prems(3) notin by (metis image_eqI list.set_intros(2))
    have "reconcile_rows E F now bs w2 = (e, w')" using Cons.prems(4) s1 s2 True by simp
    from Cons.IH [OF r2(1) _ v this] Cons.prems(2)
    have ih: "idle E w'" "phase_of w' = phase_of w2" "\<And>j. j \<notin> b_id ` set bs \<Longrightarrow> view (cat w') j = view (cat w2) j" "same_archive (disk_of w2) (disk_of w')"
      "e = None \<Longrightarrow> \<forall>b \<in> set bs. view (cat w') (b_id b) = Some (settled_as (disk_of w2) (b_id b), b_size b, b_sha256 b)" by auto
    have sa: "settled_as (disk_of w2) i = settled_as (disk_of w) i" for i using arch by (simp add: settled_as_def same_archive_def final_def)
    have "view (cat w') (b_id b) = Some (settled_as (disk_of w) (b_id b), b_size b, b_sha256 b)"
      using ih(3) [OF notin] r2(3) r1(5) True by simp
    then show ?thesis using ih r1 r2 arch sa notin by (auto simp: same_archive_def)
  qed
qed

lemma reconcile_entries_inv:
  assumes "idle E w" "reconcile_entries F ns w = (e, w')"
  shows "idle E w' \<and> phase_of w' = phase_of w \<and> cat w' = cat w \<and> same_archive (disk_of w) (disk_of w')
    \<and> only_removed (disk_of w) (disk_of w')
    \<and> (e = None \<longrightarrow> (\<forall>n \<in> set ns. staged_id n \<noteq> None \<longrightarrow> Lstat (Incoming, n) (disk_of w') = None))"
  using assms
proof (induction ns arbitrary: w)
  case Nil
  then show ?case by (simp add: same_archive_def)
next
  case (Cons n ns)
  let ?goal = "\<lambda>w ns. idle E w' \<and> phase_of w' = phase_of w \<and> cat w' = cat w \<and> same_archive (disk_of w) (disk_of w') \<and> only_removed (disk_of w) (disk_of w')
    \<and> (e = None \<longrightarrow> (\<forall>n \<in> set ns. staged_id n \<noteq> None \<longrightarrow> Lstat (Incoming, n) (disk_of w') = None))"
  obtain e1 w1 where d: "drop_staging (CallRemoveEntry n) F (Incoming, n) w = (e1, w1)" by (metis prod.collapse)
  note r = drop_staging_inv [OF Cons.prems(1) d]
  from Cons.prems(2) d consider "e \<noteq> None" "w' = w \<or> w' = w1" | "staged_id n = None \<or> Lstat (Incoming, n) (disk_of w) = None" "reconcile_entries F ns w = (e, w')"
    | "e1 = None" "reconcile_entries F ns w1 = (e, w')"
    by (auto split: if_split_asm option.split_asm node.split_asm)
  then show ?case
  proof cases
    case 1
    then show ?thesis using r Cons.prems(1) by auto
  next
    case 2
    from Cons.IH [OF Cons.prems(1) 2(2)] have ih: "?goal w ns" .
    then have "Lstat (Incoming, n) (disk_of w') = None" if "staged_id n \<noteq> None" using 2(1) that only_removed_None by blast
    then show ?thesis using ih by auto
  next
    case 3
    from Cons.IH [OF _ 3(2)] r have ih: "?goal w1 ns" by blast
    moreover have "Lstat (Incoming, n) (disk_of w') = None" using ih r 3(1) only_removed_None by blast
    ultimately show ?thesis using r same_archive_trans only_removed_trans by (auto; blast)
  qed
qed

text \<open>What a reconciliation that succeeds leaves behind.\<close>

lemma Reconcile_effect:
  assumes "idle E w" "Reconcile E F now w = (e, w')"
  shows "idle E w' \<and> phase_of w' = phase_of w \<and> same_archive (disk_of w) (disk_of w')
    \<and> (\<forall>i st sz sha. view (cat w) i = Some (st, sz, sha) \<longrightarrow> st \<noteq> BackupReceiving \<longrightarrow> view (cat w') i = Some (st, sz, sha))
    \<and> (e = None \<longrightarrow> (\<forall>i sz sha. view (cat w) i = Some (BackupReceiving, sz, sha) \<longrightarrow> view (cat w') i = Some (settled_as (disk_of w) i, sz, sha))
        \<and> (\<forall>i. view (cat w) i = None \<longrightarrow> view (cat w') i = None) \<and> (\<forall>n. staged_id n \<noteq> None \<longrightarrow> holds_at (Incoming, n) (disk_of w') = {None}))"
proof -
  let ?P = "Pending (cat w)"
  have core: "core_inv (cat w)" using assms(1) by (simp add: idle_def server_inv_def)
  then have dist: "distinct (map b_id (backups (cat w)))" by (simp add: core_inv_def)
  have pend: "\<forall>b \<in> set ?P. view (cat w) (b_id b) = Some (BackupReceiving, b_size b, b_sha256 b)"
    using view_row [OF dist] by (auto simp: Pending_def)
  have dp: "distinct (map b_id ?P)" unfolding Pending_def by (rule distinct_map_filter [OF dist])
  obtain e1 w1 where r1: "reconcile_rows E F now ?P w = (e1, w1)" by (metis prod.collapse)
  note i1 = reconcile_rows_inv [OF assms(1) dp pend r1]
  obtain e2 w2 where r2: "reconcile_entries F (sort (ReadDir Incoming (disk_of w1))) w1 = (e2, w2)" by (metis prod.collapse)
  from i1 have "idle E w1" by simp
  note i2 = reconcile_entries_inv [OF this r2]
  have keep: "view (cat w1) i = view (cat w) i" if "\<And>sz sha. view (cat w) i \<noteq> Some (BackupReceiving, sz, sha)" for i
  proof -
    have "i \<notin> b_id ` set ?P" using that pend by force
    then show ?thesis using i1 by simp
  qed
  have fin: "view (cat w1) i = Some (settled_as (disk_of w) i, sz, sha)" if v: "view (cat w) i = Some (BackupReceiving, sz, sha)" "e1 = None" for i sz sha
  proof -
    from v(1) obtain b where "b \<in> set (backups (cat w))" "b_id b = i" "b_status b = BackupReceiving" "b_size b = sz" "b_sha256 b = sha"
      using view_Some [OF dist] by blast
    then show ?thesis using i1 v(2) by (auto simp: Pending_def)
  qed
  have cl: "Lstat (Incoming, n) (disk_of w2) = None" if "e2 = None" "staged_id n \<noteq> None" for n
  proof (cases "Lstat (Incoming, n) (disk_of w1) = None")
    case True
    then show ?thesis using i2 only_removed_None by blast
  next
    case False
    then have "n \<in> set (sort (ReadDir Incoming (disk_of w1)))" by (simp add: in_ReadDir)
    then show ?thesis using i2 that by blast
  qed
  from assms(2) r1 r2 consider "e \<noteq> None" "w' = w1" | "e \<noteq> None" "w' = w2"
    | "e1 = None" "e2 = None" "w' = w2\<lparr>disk_of := fsync_dir Incoming (disk_of w2)\<rparr>"
    by (auto simp: Reconcile_def split: option.split_asm if_split_asm)
  then show ?thesis
  proof cases
    case 1
    then show ?thesis using i1 keep by fastforce
  next
    case 2
    then show ?thesis using i1 i2 keep same_archive_trans by fastforce
  next
    case 3
    have "idle E w'" using i2 idle_fsync [of E w2 Incoming] 3(3) by simp
    moreover have "holds_at (Incoming, n) (disk_of w') = {None}" if "staged_id n \<noteq> None" for n
      using cl [OF 3(2) that] by (simp add: 3(3) holds_fsync_dir)
    ultimately show ?thesis using i1 i2 keep fin 3 by (auto simp: same_archive_def)
  qed
qed

end
