(* ===== verification/Server.thy ===== *)
theory Server
  imports Ingest_Machine
begin

text \<open>
  The server as one machine: the writer's uploads, the commands of the local interface, one cycle of
  maintenance, kills, power losses and reconciliations, interleaved call by call. The invariant of
  Ingest_Machine is preserved by what maintenance does too, so that every received backup keeps its bytes
  under its archive or its quarantine name until a purge of it was finally permitted.
\<close>

subsection \<open>What the writer answers to maintenance\<close>

lemma active_received:
  assumes "core_inv c" "x \<in> set (operations c)" "active_op x"
  shows "\<exists>st sz sha. view c (op_backup_id x) = Some (st, sz, sha) \<and> \<not> in_transfer st"
proof -
  from assms(1,2) obtain b where b: "b \<in> set (backups c)" "b_id b = op_backup_id x" unfolding core_inv_defs by (metis imageE)
  have ok: "row_ok (b_status b) (active_kinds (operations c) (b_id b))" using assms(1) b(1) by (auto simp: core_inv_def coherent_def)
  have "op_kind_of x \<in> set (active_kinds (operations c) (b_id b))" using assms(2,3) b(2) by (auto simp: active_kinds_def active_ops_def)
  then have "\<not> in_transfer (b_status b)"
    using ok by (cases "(b_status b, active_kinds (operations c) (b_id b))" rule: row_ok.cases) (auto simp: in_transfer_def)
  moreover have "view c (op_backup_id x) = Some (b_status b, b_size b, b_sha256 b)"
    using view_row [of c b] assms(1) b by (simp add: core_inv_def)
  ultimately show ?thesis by blast
qed

lemma final_permitted:
  assumes "core_inv c" "x \<in> set (operations c)" "op_state_of x = Authorized" "op_execution_committed x"
  shows "permitted c (op_backup_id x) (op_kind_of x)"
  using active_received [OF assms(1,2)] assms(2-4) by (auto simp: permitted_def final_op_def active_op_def)

lemma elsewhere_same: "backups c' = backups c \<Longrightarrow> elsewhere c c'"
  by (auto simp: elsewhere_def view_same [of c' c] split: option.split)

lemma elsewhere_refl: "elsewhere c c" by (rule elsewhere_same) simp

lemma elsewhere_set_backup:
  assumes "set_backup i st f c = Some c1" "backups c' = backups c1" "core_inv c" "\<not> in_transfer st" "\<not> in_transfer st'"
    and "\<And>b. b_id (f b) = b_id b \<and> b_status (f b) = st' \<and> b_size (f b) = b_size b \<and> b_sha256 (f b) = b_sha256 b"
  shows "elsewhere c c'"
proof -
  obtain sz sha where "view c i = Some (st, sz, sha)" "view c1 = (view c)(i := Some (st', sz, sha))"
    using set_backup_view [OF assms(1) _ assms(6)] assms(3) by (auto simp: core_inv_def)
  then show ?thesis using assms(4,5) view_same [OF assms(2)] by (auto simp: elsewhere_def split: option.split)
qed

lemma finish_elsewhere:
  assumes "finish_operation u inc nt o' now c = Inr (r, c')" "core_inv c"
  shows "elsewhere c c'"
proof -
  from assms(1) obtain c1 g where c1: "finish_backup o' now c = Some c1" "same_core (set_operation (op_id o') g c1) c'"
    by (auto simp: finish_operation_def dest!: resolveMaintenance_frame split: if_splits option.splits sum.splits)
  then have bs: "backups c' = backups c1" by (simp add: same_core_def set_operation_def)
  show ?thesis
  proof (cases "op_kind_of o'")
    case Quarantine
    with c1(1) show ?thesis
      by (intro elsewhere_set_backup [OF _ bs assms(2), of _ BackupDeleting _ BackupQuarantined]) (auto simp: finish_backup_def in_transfer_def)
  next
    case Purge
    with c1(1) show ?thesis
      by (intro elsewhere_set_backup [OF _ bs assms(2), of _ BackupPurging _ BackupDeleted]) (auto simp: finish_backup_def in_transfer_def)
  next
    case Recover
    with c1(1) show ?thesis
      by (intro elsewhere_set_backup [OF _ bs assms(2), of _ BackupQuarantined _ BackupComplete]) (auto simp: finish_backup_def in_transfer_def)
  next
    case Cancel
    with c1(1) show ?thesis by (simp add: finish_backup_def)
  qed
qed

lemma failure_rows:
  assumes "record_failure E o' d now c = Inr (r, c')"
  shows "backups c' = backups c"
  using assms by (auto simp: record_failure_def Let_def same_core_def set_operation_def dest!: openAnomaly_frame split: sum.splits option.splits if_splits)

lemma Confirm_elsewhere:
  assumes "ConfirmOperation E k t fin d l now c = Inr (r, c')" "core_inv c"
  shows "elsewhere c c'"
proof -
  from assms(1) obtain o' where o: "Operation c k = Some o'" by (auto simp: ConfirmOperation_def split: sum.splits option.splits)
  have "c' = c \<or> record_failure E o' d now c = Inr (r, c') \<or>
      finish_operation (ErrMsg ''tipo operazione non confermabile'')
        (ErrMsg ''conferma rifiutata: stato del backup non coerente con l'operazione'') [] o' now c = Inr (r, c')"
    using assms(1) o by (simp add: ConfirmOperation_def split: sum.splits if_splits)
  then show ?thesis using assms(2) failure_rows finish_elsewhere elsewhere_same elsewhere_refl by blast
qed

text \<open>A quiet change of the catalogue: none, or one step of the store that begins and ends no deposit.\<close>

definition quiet :: "env \<Rightarrow> catalog \<Rightarrow> catalog \<Rightarrow> bool" where
  "quiet E c c' \<longleftrightarrow> c' = c \<or> store_step E c c' \<and> elsewhere c c'"

lemma quiet_answer:
  assumes "\<And>x c'. op c = Inr (x, c') \<Longrightarrow> store_step E c c' \<and> elsewhere c c'"
  shows "quiet E c (snd (answering bad good say op c))"
  using assms by (cases "op c") (auto simp: quiet_def answering_def)

lemma quiet_call: "quiet E c (snd (h c)) \<Longrightarrow> quiet E c (snd (call_api out h c))"
  by (auto simp: call_api_def quiet_def split: outcome.splits reply.splits prod.splits)

lemma lease_quiet: "quiet E c (snd (maintenance_lease (Inr x) now c))"
proof -
  obtain a b s where "x = (a, b, s)" by (metis prod_cases3)
  then show ?thesis
    unfolding maintenance_lease_def with_body_def
    by (auto intro!: quiet_answer store_step.AcquireLease elsewhere_same dest: lease_rows(1) simp: same_rows_def)
qed

lemma authorize_quiet: "quiet E c (snd (maintenance_authorize E tok (Inr x) now c))"
proof -
  obtain a b s where "x = (a, b, s)" by (metis prod_cases3)
  then show ?thesis
    unfolding maintenance_authorize_def with_body_def
    by (auto intro!: quiet_answer store_step.AuthorizeOperation elsewhere_same
        simp: AuthorizeOperation_def set_operation_def split: sum.splits option.splits if_splits)
qed

lemma validate_quiet: "quiet E c (snd (maintenance_validate E (Inr x) now c))"
proof -
  obtain a b s g where "x = (a, b, s, g)" by (metis prod_cases4)
  then show ?thesis
    unfolding maintenance_validate_def with_body_def
    by (auto intro!: quiet_answer store_step.ValidateOperation elsewhere_same
        simp: ValidateOperation_def set_operation_def split: sum.splits option.splits if_splits)
qed

lemma confirm_quiet:
  assumes "core_inv c"
  shows "quiet E c (snd (maintenance_confirm E F (Inr x) now d c))"
proof -
  obtain i tk fin dt own g where x: "x = (i, tk, fin, dt, own, g)" by (metis prod_cases6)
  have "quiet E c (snd (answering 409 200 (saying ''confirmed'') (ConfirmOperation E i tk fin dt (the_lease own g) now) c))"
    using assms Confirm_elsewhere by (intro quiet_answer) (metis store_step.ConfirmOperation)
  then show ?thesis unfolding maintenance_confirm_def with_body_def x by (auto simp: quiet_def split: option.splits)
qed

lemma renew_quiet:
  assumes "renew out now l c = (r, c')"
  shows "quiet E c c'"
proof -
  have "quiet E c (snd (call_api out (maintenance_lease (Inr (l_owner l, l_generation l, maintenanceLeaseSeconds)) now) c))"
    by (rule quiet_call [OF lease_quiet])
  then show ?thesis using assms by (auto simp: renew_def split: prod.splits sum.splits answer.splits)
qed

lemma talk_quiet:
  assumes "talk E n t d c = (t', c')" "core_inv c"
  shows "quiet E c c'"
proof -
  let ?o = "op_id (tk_op t)" and ?own = "l_owner (tk_lease t)" and ?g = "l_generation (tk_lease t)"
  have a: "quiet E c (snd (call_api (tn_outcome n) (maintenance_authorize E (tn_token n) (Inr (?o, ?own, ?g)) (tn_now n)) c))"
    by (rule quiet_call [OF authorize_quiet])
  have v: "quiet E c (snd (call_api (tn_outcome n) (maintenance_validate E (Inr (?o, tk_ticket t, ?own, ?g)) (tn_now n)) c))"
    by (rule quiet_call [OF validate_quiet])
  have f: "quiet E c (snd (call_api (tn_outcome n) (maintenance_confirm E (tn_probes n) (Inr (?o, tk_ticket t, x, y, ?own, ?g)) (tn_now n) d) c))" for x y
    by (rule quiet_call) (rule confirm_quiet [OF assms(2)])
  show ?thesis
  proof (cases "tk_stage t")
    case Authorizing
    then show ?thesis using assms(1) a by (auto simp: talk_def Let_def split: prod.splits sum.splits answer.splits option.splits)
  next
    case Validating
    then show ?thesis using assms(1) v by (auto simp: talk_def Let_def split: prod.splits sum.splits)
  next
    case (Confirming fl)
    then show ?thesis using assms(1) f [of "fl = None" "case fl of None \<Rightarrow> [] | Some (Failure m) \<Rightarrow> m | Some (LeaseLost m) \<Rightarrow> m"]
      by (auto simp: talk_def Let_def split: prod.splits sum.splits)
  qed (use assms(1) renew_quiet in \<open>auto simp: talk_def Let_def quiet_def split: prod.splits sum.splits\<close>)
qed

lemma quiet_follows: "quiet E c c' \<Longrightarrow> core_inv c \<Longrightarrow> follows c c'"
  unfolding quiet_def using follows_refl store_step_follows by blast

lemma Authorize_known:
  assumes "AuthorizeOperation E tok k l now c = Inr ((a, ticket), c')" "core_inv c"
  shows "known_op c' a"
proof -
  from assms(1) obtain o' g where o: "Operation c k = Some o'" "c' = set_operation k g c"
    and g: "op_id a = op_id o'" "op_backup_id a = op_backup_id o'" "op_kind_of a = op_kind_of o'" "op_execution_committed a = op_execution_committed o'"
      "op_id (g o') = op_id o'" "op_backup_id (g o') = op_backup_id o'" "op_kind_of (g o') = op_kind_of o'"
      "op_execution_committed (g o') = op_execution_committed o'" "op_state_of (g o') = Authorized"
    by (auto simp: AuthorizeOperation_def split: sum.splits option.splits if_splits)
  have "g o' \<in> set (operations c')" using OperationD [OF o(1)] o(2) by (auto simp: set_operation_def set_update_where)
  moreover have "core_inv c'" using AuthorizeOperation_inv assms by blast
  ultimately have "op_execution_committed o' \<longrightarrow> permitted c' (op_backup_id o') (op_kind_of o')"
    using final_permitted [of c' "g o'"] g by metis
  then show ?thesis using \<open>g o' \<in> _\<close> g unfolding known_op_def by metis
qed

lemma Validate_permits:
  assumes "ValidateOperation E k tk l now c = Inr (r, c')" "core_inv c" "known_op c o'" "op_id o' = k"
  shows "permitted c' (op_backup_id o') (op_kind_of o')"
proof -
  have c': "core_inv c'" using ValidateOperation_inv assms(1,2) by blast
  from assms(1) obtain y where y: "Operation c k = Some y" "op_state_of y = Authorized"
    and "op_execution_committed y \<and> c' = c \<or> c' = set_operation k (\<lambda>x. x\<lparr>op_execution_committed := True\<rparr>) c"
    by (auto simp: ValidateOperation_def split: sum.splits option.splits if_splits)
  moreover have "y\<lparr>op_execution_committed := True\<rparr> \<in> set (operations (set_operation k (\<lambda>x. x\<lparr>op_execution_committed := True\<rparr>) c))"
    using OperationD [OF y(1)] by (force simp: set_operation_def set_update_where)
  moreover have "y\<lparr>op_execution_committed := True\<rparr> = y" if "op_execution_committed y" using that by simp
  ultimately have "y\<lparr>op_execution_committed := True\<rparr> \<in> set (operations c')" using OperationD [OF y(1)] by metis
  then obtain z where z: "z \<in> set (operations c')" "op_id z = k" "op_backup_id z = op_backup_id y" "op_kind_of z = op_kind_of y"
    "op_state_of z = Authorized" "op_execution_committed z"
    using OperationD [OF y(1)] y(2) that [of "y\<lparr>op_execution_committed := True\<rparr>"] by simp
  from assms(3,4) obtain x where x: "x \<in> set (operations c)" "op_id x = k" "op_backup_id x = op_backup_id o'" "op_kind_of x = op_kind_of o'"
    unfolding known_op_def by auto
  have "x = y" using Operation_of [OF assms(2) x(1)] x(2) y(1) by simp
  then show ?thesis using final_permitted [OF c' z(1,5,6)] z x by simp
qed

lemma task_free:
  assumes "\<not> ticketed (tk_stage t)" "\<not> acting (tk_stage t)"
  shows "task_agrees c d t"
  using assms by (auto simp: task_agrees_def Let_def ticketed_def acting_def)

lemma stages [simp]:
  "\<not> ticketed NextOperation" "\<not> ticketed Renewing" "\<not> ticketed Authorizing" "\<not> ticketed (Confirming f)" "\<not> ticketed ClearingTicket"
  "\<not> ticketed (Returned f)" "\<not> acting NextOperation" "\<not> acting Renewing" "\<not> acting Authorizing" "\<not> acting (Confirming f)"
  "\<not> acting ClearingTicket" "\<not> acting (Returned f)" "ticketed SavingTicket" "ticketed Verifying" "ticketed Opening" "ticketed RenewingAgain"
  "ticketed Validating" "\<not> acting SavingTicket" "\<not> acting Verifying" "\<not> acting Opening" "\<not> acting RenewingAgain" "\<not> acting Validating"
  "acting Rechecking" "acting Renaming" "acting Linking" "acting SyncingLink" "acting RemovingSource" "acting Removing" "acting SyncingFirst"
  "acting SyncingSecond"
  by (simp_all add: ticketed_def acting_def)

lemma to_stage_simps [simp]:
  "tk_stage (to_stage s t) = s" "tk_op (to_stage s t) = tk_op t" "tk_backup (to_stage s t) = tk_backup t" "tk_node (to_stage s t) = tk_node t"
  by (simp_all add: to_stage_def)

lemma failure_stages [simp]: "tk_stage (give_up f t) = Returned (Some f)" "tk_stage (report m t) = Confirming (Some (Failure m))"
  by (simp_all add: give_up_def report_def)

lemma talk_agrees:
  assumes "talk E n t d c = (t', c')" "core_inv c" "task_agrees c d t" "talks (tk_stage t)"
  shows "task_agrees c' d t'"
proof (cases "\<not> ticketed (tk_stage t') \<and> \<not> acting (tk_stage t')")
  case False
  have f: "follows c c'" using quiet_follows talk_quiet assms(1,2) by blast
  note old = task_agrees_follows [OF assms(3) f]
  show ?thesis
  proof (cases "tk_stage t")
    case Renewing
    then show ?thesis using assms(1) False by (auto simp: talk_def Let_def split: prod.splits sum.splits)
  next
    case Authorizing
    then obtain a tk where s: "tk_op t' = a" "tk_stage t' = SavingTicket"
      "call_api (tn_outcome n) (maintenance_authorize E (tn_token n) (Inr (op_id (tk_op t), l_owner (tk_lease t), l_generation (tk_lease t))) (tn_now n)) c = (Inr (ATicket a tk), c')"
      using assms(1) False by (auto simp: talk_def Let_def split: prod.splits sum.splits answer.splits option.splits if_splits)
    then have "known_op c' a"
      using Authorize_known [OF _ assms(2)]
      by (auto simp: call_api_def maintenance_authorize_def with_body_def answering_def split: outcome.splits sum.splits prod.splits reply.splits)
    then show ?thesis by (simp add: task_agrees_def Let_def s(1,2))
  next
    case RenewingAgain
    then have "tk_op t' = tk_op t" "tk_backup t' = tk_backup t" "tk_stage t' = Validating"
      using assms(1) False by (auto simp: talk_def Let_def split: prod.splits sum.splits)
    then show ?thesis using old RenewingAgain by (simp add: task_agrees_def Let_def)
  next
    case Validating
    then obtain a where s: "t' = to_stage Rechecking t"
      "call_api (tn_outcome n) (maintenance_validate E (Inr (op_id (tk_op t), tk_ticket t, l_owner (tk_lease t), l_generation (tk_lease t))) (tn_now n)) c = (Inr a, c')"
      using assms(1) False by (auto simp: talk_def Let_def split: prod.splits sum.splits)
    have t: "known_op c (tk_op t)" "op_backup_id (tk_op t) = b_id (tk_backup t)" "op_kind_of (tk_op t) \<noteq> Cancel"
      using assms(3) Validating by (simp_all add: task_agrees_def Let_def)
    from s(2) have "permitted c' (op_backup_id (tk_op t)) (op_kind_of (tk_op t))"
      using Validate_permits [OF _ assms(2) t(1) refl]
      by (auto simp: call_api_def maintenance_validate_def with_body_def answering_def split: outcome.splits sum.splits prod.splits reply.splits)
    then show ?thesis using old Validating t s(1) by (simp add: task_agrees_def Let_def)
  qed (use assms(1,4) False in \<open>auto simp: talk_def talks_def Let_def split: prod.splits sum.splits option.splits if_splits\<close>)
qed (use task_free in blast)

subsection \<open>What maintenance does to the files\<close>

text \<open>A change of the two names of a received backup, under a final permission.\<close>

lemma move_inv:
  assumes inv: "server_inv E w" and perm: "permitted (cat w) i k"
    and frame: "undisturbed {final i, quarantine i} {} (disk_of w) d'" and len: "length (inodes d') = length (inodes (disk_of w))"
    and new: "\<And>p v. v \<in> holds_at p d' \<Longrightarrow> v \<in> holds_at p (disk_of w) \<or> v = None \<or> v = Lstat (final i) (disk_of w) \<or> v = Lstat (quarantine i) (disk_of w)"
    and kept: "\<And>sz sha. kept E (disk_of w) i sz sha \<Longrightarrow> \<not> permitted (cat w) i Purge \<Longrightarrow> kept E d' i sz sha"
    and task: "\<And>t. s = Some t \<Longrightarrow> task_agrees (cat w) d' t"
  shows "server_inv E (w\<lparr>disk_of := d', task_of := s\<rparr>)"
proof -
  let ?c = "cat w" and ?d = "disk_of w"
  note parts = inv [unfolded server_inv_def]
  have wf: "disk_wf ?c ?d" using parts by simp
  have row: "\<exists>st sz sha. view ?c i = Some (st, sz, sha) \<and> \<not> in_transfer st" using perm by (simp add: permitted_def)
  have old: "holds_at p d' \<subseteq> holds_at p ?d" if "p \<notin> {final i, quarantine i}" for p using undisturbed_holds [OF frame that] by blast
  have "disk_wf ?c d'"
  proof (rule disk_wfI)
    show "n < length (inodes d')" if "Some (Regular n) \<in> holds_at p d'" for p n
      using new [OF that] disk_wfD(1) [OF wf] len holds_Lstat by (metis option.distinct(1))
    show "\<exists>j. name = j @ ''.backup'' \<and> view ?c j \<noteq> None" if "v \<in> holds_at (Archive, name) d'" "v \<noteq> None" for v name
    proof (cases "(Archive, name) = final i")
      case True
      then show ?thesis using row by (auto simp: final_def)
    next
      case False
      then have "(Archive, name) \<notin> {final i, quarantine i}" by (simp add: quarantine_def)
      then show ?thesis using old that disk_wfD(2) [OF wf] by blast
    qed
    show "\<exists>j k. name = j @ ''.backup'' \<and> permitted ?c j k" if "v \<in> holds_at (QuarantineDir, name) d'" "v \<noteq> None" for v name
    proof (cases "(QuarantineDir, name) = quarantine i")
      case True
      then show ?thesis using perm by (auto simp: quarantine_def)
    next
      case False
      then have "(QuarantineDir, name) \<notin> {final i, quarantine i}" by (simp add: final_def)
      then show ?thesis using old that disk_wfD(3) [OF wf] by blast
    qed
    show "\<exists>k. permitted ?c j k" if "p \<in> set (renamed d')" "fst p = quarantine j \<or> snd p = quarantine j" for p j
    proof -
      have "p \<in> set (renamed ?d) \<or> fst p \<in> {final i, quarantine i} \<and> snd p \<in> {final i, quarantine i}"
        using frame that(1) unfolding undisturbed_def by blast
      then show ?thesis
      proof
        assume "p \<in> set (renamed ?d)"
        then show ?thesis using disk_wfD(4) [OF wf _ that(2)] by blast
      qed (use that(2) perm in auto)
    qed
  qed
  moreover have "file_agrees E d' j x" if v: "view ?c j = Some x" "\<not> permitted ?c j Purge" for j x
  proof -
    have fa: "file_agrees E ?d j x" using parts v unfolding rows_agree_def by blast
    show ?thesis
    proof (cases "j = i")
      case True
      obtain st sz sha where x: "x = (st, sz, sha)" by (metis prod_cases3)
      have "\<not> in_transfer st" using row v(1) True x by auto
      then show ?thesis using fa kept v(2) True x by (auto simp: in_transfer_def)
    next
      case False
      then show ?thesis by (intro file_agrees_undisturbed [OF fa frame]) auto
    qed
  qed
  moreover have "owns ?c u \<and> pc_agrees E d' u" if u: "u \<in> set (uploads w)" "owner u" for u
  proof -
    have o: "owns ?c u" "pc_agrees E ?d u" using parts u unfolding uploads_agree_def by blast+
    then have "b_id (up_backup u) \<noteq> i" using row by (auto simp: owns_def in_transfer_def)
    moreover have "unlinked (up_inode u) d'" if "unlinked (up_inode u) ?d"
      using that new unlinked_final unlinked_quarantine holds_Lstat unfolding unlinked_def by (metis option.distinct(1))
    ultimately show ?thesis using o(1) pc_agrees_undisturbed [OF o(2) frame] by auto
  qed
  ultimately show ?thesis using parts task by (simp add: server_inv_def rows_agree_def uploads_agree_def slots_agree_def)
qed

text \<open>The four changes: rename, hard link, removal of a name, sync of a directory.\<close>

lemma source_not_target [simp]: "source_of k i \<noteq> target_of k i" "target_of k i \<noteq> source_of k i"
  by (simp_all add: source_of_def target_of_def)

lemma two_places: "{source_of k i, target_of k i} = {final i, quarantine i}"
  by (auto simp: source_of_def target_of_def)

text \<open>The definition of \<open>kept\<close> in terms of the two places of an operation.\<close>

lemma kept_places:
  "kept E d i sz sha \<longleftrightarrow> (\<exists>n. sound E d n sz sha
     \<and> holds_at (source_of k i) d \<subseteq> {None, Some (Regular n)} \<and> holds_at (target_of k i) d \<subseteq> {None, Some (Regular n)}
     \<and> (None \<notin> holds_at (source_of k i) d \<or> None \<notin> holds_at (target_of k i) d
        \<or> ((source_of k i, target_of k i) \<in> set (renamed d) \<or> (target_of k i, source_of k i) \<in> set (renamed d))
          \<and> (Lstat (source_of k i) d \<noteq> None \<or> Lstat (target_of k i) d \<noteq> None)))"
  unfolding kept_def anchored_def source_of_def target_of_def by (cases "k = Quarantine") (simp_all, blast+)

lemma sound_names:
  "sound E (set_name p v d) n sz sha = sound E d n sz sha" "sound E (d\<lparr>renamed := x\<rparr>) n sz sha = sound E d n sz sha"
  "sound E (fsync_dir y d) n sz sha = sound E d n sz sha"
  by (simp_all add: sound_def)

lemma holds_renamed [simp]: "holds_at p (d\<lparr>renamed := x\<rparr>) = holds_at p d"
  by (simp add: holds_at_def alternatives_def)

lemma rename_kept:
  assumes "rename_noreplace (source_of k i) (target_of k i) d = Inr d'" "kept E d i sz sha"
  shows "kept E d' i sz sha"
proof -
  let ?s = "source_of k i" and ?t = "target_of k i"
  from assms(1) obtain x where x: "Lstat ?s d = Some x"
    and d': "d' = (set_name ?s None (set_name ?t (Some x) d))\<lparr>renamed := (?s, ?t) # renamed (set_name ?s None (set_name ?t (Some x) d))\<rparr>"
    by (auto simp: rename_noreplace_def Let_def split: option.splits if_splits)
  from assms(2) [unfolded kept_places [where k = k]] obtain n where n: "sound E d n sz sha"
    "holds_at ?s d \<subseteq> {None, Some (Regular n)}" "holds_at ?t d \<subseteq> {None, Some (Regular n)}" by blast
  have "x = Regular n" using n(2) x holds_Lstat [of ?s d] by auto
  then show ?thesis
    unfolding kept_places [where k = k] d' using n by (intro exI [of _ n]) (simp add: sound_names)
qed

lemma link_kept:
  assumes "link_name (source_of k i) (target_of k i) d = Inr d'" "kept E d i sz sha"
  shows "kept E d' i sz sha"
proof -
  let ?s = "source_of k i" and ?t = "target_of k i"
  from assms(1) obtain x where x: "Lstat ?s d = Some x" and t: "Lstat ?t d = None" and d': "d' = set_name ?t (Some x) d"
    by (auto simp: link_name_def split: option.splits if_splits)
  from assms(2) [unfolded kept_places [where k = k]] obtain n where n: "sound E d n sz sha"
    "holds_at ?s d \<subseteq> {None, Some (Regular n)}" "holds_at ?t d \<subseteq> {None, Some (Regular n)}"
    "None \<notin> holds_at ?s d \<or> None \<notin> holds_at ?t d \<or> (?s, ?t) \<in> set (renamed d) \<or> (?t, ?s) \<in> set (renamed d)" by blast
  have "x = Regular n" using n(2) x holds_Lstat [of ?s d] by auto
  moreover have "None \<in> holds_at ?t d" using t holds_Lstat [of ?t d] by simp
  ultimately show ?thesis
    unfolding kept_places [where k = k] d' using n x by (intro exI [of _ n]) (auto simp: sound_names)
qed

lemma remove_kept:
  assumes "None \<notin> holds_at (target_of k i) d" "kept E d i sz sha"
  shows "kept E (set_name (source_of k i) None d) i sz sha"
  using assms(2) unfolding kept_places [where k = k] using assms(1) by (auto simp: sound_names)

lemma retask: "server_inv E w \<Longrightarrow> task_agrees (cat w) (disk_of w) t \<Longrightarrow> server_inv E (w\<lparr>disk_of := disk_of w, task_of := Some t\<rparr>)"
  by (simp add: server_inv_def slots_agree_def)

lemma sync_inv:
  assumes "server_inv E w" "permitted (cat w) i k" "task_agrees (cat w) (fsync_dir x (disk_of w)) t"
  shows "server_inv E (w\<lparr>disk_of := fsync_dir x (disk_of w), task_of := Some t\<rparr>)"
proof (rule move_inv [OF assms(1,2)])
  show "v \<in> holds_at p (disk_of w) \<or> v = None \<or> v = Lstat (final i) (disk_of w) \<or> v = Lstat (quarantine i) (disk_of w)"
    if "v \<in> holds_at p (fsync_dir x (disk_of w))" for p v using that holds_fsync_dir_sub by blast
  show "kept E (fsync_dir x (disk_of w)) i sz sha" if "kept E (disk_of w) i sz sha" for sz sha
    by (rule kept_undisturbed [OF that, of "{}" "{}"]) simp_all
qed (use assms(3) in simp_all)

lemma rename_inv:
  assumes "server_inv E w" "permitted (cat w) i k" "rename_noreplace (source_of k i) (target_of k i) (disk_of w) = Inr d'"
    and "task_agrees (cat w) d' t"
  shows "server_inv E (w\<lparr>disk_of := d', task_of := Some t\<rparr>)"
proof (rule move_inv [OF assms(1,2)])
  let ?s = "source_of k i" and ?t = "target_of k i" and ?d = "disk_of w"
  from assms(3) obtain x where x: "Lstat ?s ?d = Some x" and d': "d' = (set_name ?s None (set_name ?t (Some x) ?d))\<lparr>renamed := (?s, ?t) # renamed (set_name ?s None (set_name ?t (Some x) ?d))\<rparr>"
    by (auto simp: rename_noreplace_def Let_def split: option.splits if_splits)
  have alt: "alternatives p (e\<lparr>renamed := z\<rparr>) = alternatives p e" for p e z by (simp add: alternatives_def)
  show "undisturbed {final i, quarantine i} {} ?d d'"
    unfolding two_places [of k i, symmetric] undisturbed_def d' by (auto simp: alt)
  show "v \<in> holds_at p ?d \<or> v = None \<or> v = Lstat (final i) ?d \<or> v = Lstat (quarantine i) ?d" if "v \<in> holds_at p d'" for p v
    using that x two_places [of k i] by (auto simp: d' source_of_def split: if_splits)
qed (use assms(3,4) rename_kept in \<open>auto simp: rename_noreplace_def Let_def split: option.splits if_splits\<close>)

lemma link_inv:
  assumes "server_inv E w" "permitted (cat w) i k" "link_name (source_of k i) (target_of k i) (disk_of w) = Inr d'"
    and "task_agrees (cat w) d' t"
  shows "server_inv E (w\<lparr>disk_of := d', task_of := Some t\<rparr>)"
proof (rule move_inv [OF assms(1,2)])
  let ?s = "source_of k i" and ?t = "target_of k i" and ?d = "disk_of w"
  from assms(3) obtain x where x: "Lstat ?s ?d = Some x" and d': "d' = set_name ?t (Some x) ?d"
    by (auto simp: link_name_def split: option.splits if_splits)
  show "undisturbed {final i, quarantine i} {} ?d d'" unfolding two_places [of k i, symmetric] d' by simp
  show "v \<in> holds_at p ?d \<or> v = None \<or> v = Lstat (final i) ?d \<or> v = Lstat (quarantine i) ?d" if "v \<in> holds_at p d'" for p v
    using that x by (auto simp: d' source_of_def split: if_splits)
  show "length (inodes d') = length (inodes ?d)" by (simp add: d')
qed (use assms(3,4) link_kept in auto)

lemma remove_inv:
  assumes "server_inv E w" "permitted (cat w) i k" "remove_name (source_of k i) (disk_of w) = Inr d'"
    and "k = Purge \<or> None \<notin> holds_at (target_of k i) (disk_of w)" "task_agrees (cat w) d' t"
  shows "server_inv E (w\<lparr>disk_of := d', task_of := Some t\<rparr>)"
proof (rule move_inv [OF assms(1,2)])
  have d': "d' = set_name (source_of k i) None (disk_of w)" using assms(3) by (simp add: remove_name_def split: if_splits)
  show "undisturbed {final i, quarantine i} {} (disk_of w) d'" unfolding two_places [of k i, symmetric] d' by simp
  show "v \<in> holds_at p (disk_of w) \<or> v = None \<or> v = Lstat (final i) (disk_of w) \<or> v = Lstat (quarantine i) (disk_of w)"
    if "v \<in> holds_at p d'" for p v using that by (auto simp: d' split: if_splits)
  show "length (inodes d') = length (inodes (disk_of w))" by (simp add: d')
  show "kept E d' i sz sha" if "kept E (disk_of w) i sz sha" "\<not> permitted (cat w) i Purge" for sz sha
    using that assms(2,4) remove_kept unfolding d' by metis
qed (use assms(5) in simp)

text \<open>Where a local call leads: an error or the end of a stage frees the cycle of every promise.\<close>

lemma touch_attempt:
  assumes "touch E n t d = (t', d')" "tk_stage t \<in> {Linking, SyncingLink, RemovingSource, Removing, SyncingFirst, SyncingSecond}
      \<or> tk_stage t = Renaming \<and> io_fault (tn_outcome n) \<noteq> Some ENOSYS \<and> io_fault (tn_outcome n) \<noteq> Some EINVAL"
  defines "k \<equiv> op_kind_of (tk_op t)" and "i \<equiv> b_id (tk_backup t)"
  shows "(\<exists>m. t' = report m t) \<and> d' = d
    \<or> tk_stage t = Renaming \<and> rename_noreplace (source_of k i) (target_of k i) d = Inr d' \<and> t' = to_stage SyncingFirst t
    \<or> tk_stage t = Linking \<and> link_name (source_of k i) (target_of k i) d = Inr d' \<and> t' = to_stage SyncingLink t
    \<or> tk_stage t = SyncingLink \<and> d' = fsync_dir (fst (target_of k i)) d \<and> t' = to_stage RemovingSource t
    \<or> (tk_stage t = RemovingSource \<or> tk_stage t = Removing) \<and> remove_name (source_of k i) d = Inr d' \<and> t' = to_stage SyncingFirst t
    \<or> tk_stage t = SyncingFirst \<and> d' = fsync_dir (fst (source_of k i)) d \<and> t' = to_stage (if k = Purge then Confirming None else SyncingSecond) t
    \<or> tk_stage t = SyncingSecond \<and> d' = fsync_dir (fst (target_of k i)) d \<and> t' = to_stage (Confirming None) t"
proof (cases "io_fault (tn_outcome n)")
  case (Some e)
  then have "t' = report (io_text e) t \<and> d' = d" using assms(1,2) by (cases "tk_stage t") (simp_all add: touch_def Let_def)
  then show ?thesis by blast
next
  case None
  let ?s = "source_of (op_kind_of (tk_op t)) (b_id (tk_backup t))" and ?t = "target_of (op_kind_of (tk_op t)) (b_id (tk_backup t))"
  show ?thesis
  proof (cases "tk_stage t")
    case Renaming
    then show ?thesis using assms(1) None unfolding k_def i_def by (cases "rename_noreplace ?s ?t d") (auto simp: touch_def Let_def)
  next
    case Linking
    then show ?thesis using assms(1) None unfolding k_def i_def by (cases "link_name ?s ?t d") (auto simp: touch_def Let_def)
  next
    case RemovingSource
    then show ?thesis using assms(1) None unfolding k_def i_def by (cases "remove_name ?s d") (auto simp: touch_def Let_def)
  next
    case Removing
    then show ?thesis using assms(1) None unfolding k_def i_def by (cases "remove_name ?s d") (auto simp: touch_def Let_def)
  qed (use assms(1,2) None in \<open>simp_all add: touch_def Let_def k_def i_def\<close>)
qed

lemma checkpoint_agrees:
  assumes "known_op c (tk_op t)" "op_backup_id (tk_op t) = b_id (tk_backup t)" "op_kind_of (tk_op t) \<noteq> Cancel"
  shows "task_agrees c d (checkpoint t)"
  using assms by (cases "op_execution_committed (tk_op t)") (auto simp: checkpoint_def task_agrees_def Let_def known_op_def)

lemma touch_reads:
  assumes "touch E n t d = (t', d')" "task_agrees c d t" "\<not> talks (tk_stage t)"
    and "tk_stage t \<notin> {Linking, SyncingLink, RemovingSource, Removing, SyncingFirst, SyncingSecond}"
    and "tk_stage t = Renaming \<Longrightarrow> io_fault (tn_outcome n) = Some ENOSYS \<or> io_fault (tn_outcome n) = Some EINVAL"
  shows "d' = d \<and> task_agrees c d t'"
proof (cases "tk_stage t")
  case NextOperation
  then show ?thesis using assms(1) task_free by (cases "tk_todo t") (auto simp: touch_def Let_def)
next
  case SavingTicket
  then have "known_op c (tk_op t)" using assms(2) by (simp add: task_agrees_def Let_def)
  then have "task_agrees c d (to_stage Verifying t)" by (simp add: task_agrees_def Let_def)
  then show ?thesis using SavingTicket assms(1) task_free by (cases "io_fault (tn_outcome n)") (auto simp: touch_def Let_def)
next
  case Verifying
  then have k: "known_op c (tk_op t)" using assms(2) by (simp add: task_agrees_def Let_def)
  let ?ok = "ValidID (b_id (tk_backup t)) \<and> op_backup_id (tk_op t) = b_id (tk_backup t) \<and> op_kind_of (tk_op t) \<noteq> Cancel"
  have "task_agrees c d (to_stage Opening t)" if ?ok "op_kind_of (tk_op t) = Purge" using that k by (simp add: task_agrees_def Let_def)
  moreover have "task_agrees c d (checkpoint t)" if ?ok using that k checkpoint_agrees by blast
  moreover have "d' = d \<and> ((\<exists>m. t' = report m t) \<or> ?ok \<and> (t' = checkpoint t \<or> op_kind_of (tk_op t) = Purge \<and> t' = to_stage Opening t))"
    using Verifying assms(1) by (simp add: touch_def Let_def split: if_splits option.splits) blast+
  ultimately show ?thesis using task_free [of "report m t" for m] by (metis failure_stages(2) stages(4,10))
next
  case Opening
  have k: "known_op c (tk_op t)" "op_backup_id (tk_op t) = b_id (tk_backup t)" "op_kind_of (tk_op t) \<noteq> Cancel"
    using assms(2) Opening by (simp_all add: task_agrees_def Let_def)
  have "d' = d \<and> ((\<exists>m. t' = report m t) \<or> (\<exists>x. t' = checkpoint (t\<lparr>tk_node := x\<rparr>)))"
    using Opening assms(1) by (simp add: touch_def Let_def split: sum.splits) blast+
  moreover have "task_agrees c d (checkpoint (t\<lparr>tk_node := x\<rparr>))" for x using k by (intro checkpoint_agrees) simp_all
  ultimately show ?thesis using task_free [of "report m t" for m] by (metis failure_stages(2) stages(4,10))
next
  case Rechecking
  have "d' = d \<and> ((\<exists>m. t' = report m t) \<or> (op_kind_of (tk_op t) = Purge \<and> t' = to_stage Removing t)
      \<or> (op_kind_of (tk_op t) \<noteq> Purge \<and> t' = to_stage Renaming t))"
    using Rechecking assms(1) by (simp add: touch_def Let_def split: if_splits option.splits) blast+
  moreover have "task_agrees c d (to_stage Removing t)" if "op_kind_of (tk_op t) = Purge"
    using that assms(2) Rechecking by (simp add: task_agrees_def Let_def)
  moreover have "task_agrees c d (to_stage Renaming t)" if "op_kind_of (tk_op t) \<noteq> Purge"
    using that assms(2) Rechecking by (simp add: task_agrees_def Let_def)
  ultimately show ?thesis using task_free [of "report m t" for m] by (metis failure_stages(2) stages(4,10))
next
  case Renaming
  then have "d' = d \<and> t' = to_stage Linking t" using assms(1,5) by (auto simp: touch_def Let_def)
  then show ?thesis using assms(2) Renaming by (simp add: task_agrees_def Let_def)
next
  case ClearingTicket
  then show ?thesis using assms(1) task_free by (cases "io_fault (tn_outcome n)") (auto simp: touch_def Let_def)
next
  case (Returned f)
  then show ?thesis using assms(1,2) by (simp add: touch_def Let_def)
qed (use assms(3,4) in \<open>simp_all add: talks_def\<close>)

lemma touch_inv:
  assumes "server_inv E w" "task_of w = Some t" "touch E n t (disk_of w) = (t', d')" "\<not> talks (tk_stage t)"
  shows "server_inv E (w\<lparr>disk_of := d', task_of := Some t'\<rparr>)"
proof -
  let ?c = "cat w" and ?d = "disk_of w" and ?k = "op_kind_of (tk_op t)" and ?i = "b_id (tk_backup t)"
  have ag: "task_agrees ?c ?d t" using assms(1,2) by (simp add: server_inv_def)
  show ?thesis
  proof (cases "tk_stage t \<in> {Linking, SyncingLink, RemovingSource, Removing, SyncingFirst, SyncingSecond}
      \<or> tk_stage t = Renaming \<and> io_fault (tn_outcome n) \<noteq> Some ENOSYS \<and> io_fault (tn_outcome n) \<noteq> Some EINVAL")
    case False
    then have "d' = ?d \<and> task_agrees ?c ?d t'" by (intro touch_reads [OF assms(3) ag assms(4)]) auto
    then show ?thesis using retask [OF assms(1)] by simp
  next
    case True
    then have "acting (tk_stage t)" by auto
    then have p: "permitted ?c ?i ?k" "known_op ?c (tk_op t)" "op_backup_id (tk_op t) = ?i" "?k \<noteq> Cancel"
      using ag by (simp_all add: task_agrees_def Let_def)
    have next_ok: "task_agrees ?c e (to_stage SyncingFirst t)" for e using p by (simp add: task_agrees_def Let_def)
    from touch_attempt [OF assms(3) True] show ?thesis
    proof (elim disjE conjE exE)
      fix m assume "t' = report m t" "d' = ?d"
      then show ?thesis using retask [OF assms(1)] task_free [of t'] by simp
    next
      assume h: "rename_noreplace (source_of ?k ?i) (target_of ?k ?i) ?d = Inr d'" "t' = to_stage SyncingFirst t"
      show ?thesis by (rule rename_inv [OF assms(1) p(1) h(1)]) (use h(2) next_ok in simp)
    next
      assume h: "tk_stage t = Linking" "link_name (source_of ?k ?i) (target_of ?k ?i) ?d = Inr d'" "t' = to_stage SyncingLink t"
      have "Lstat (target_of ?k ?i) d' \<noteq> None" using h(2) by (auto simp: link_name_def split: option.splits if_splits)
      then have "task_agrees ?c d' t'" using ag h(1,3) by (simp add: task_agrees_def Let_def)
      then show ?thesis by (rule link_inv [OF assms(1) p(1) h(2)])
    next
      assume h: "tk_stage t = SyncingLink" "d' = fsync_dir (fst (target_of ?k ?i)) ?d" "t' = to_stage RemovingSource t"
      have "Lstat (target_of ?k ?i) ?d \<noteq> None" using ag h(1) by (simp add: task_agrees_def Let_def)
      then have "None \<notin> holds_at (target_of ?k ?i) (fsync_dir (fst (target_of ?k ?i)) ?d)" by (auto simp: holds_fsync_dir)
      then have "task_agrees ?c d' t'" using ag h by (simp add: task_agrees_def Let_def)
      then show ?thesis unfolding h(2) by (rule sync_inv [OF assms(1) p(1)])
    next
      assume h: "tk_stage t = RemovingSource" "remove_name (source_of ?k ?i) ?d = Inr d'" "t' = to_stage SyncingFirst t"
      have "None \<notin> holds_at (target_of ?k ?i) ?d" using ag h(1) by (simp add: task_agrees_def Let_def)
      then show ?thesis using remove_inv [OF assms(1) p(1) h(2)] h(3) next_ok by simp
    next
      assume h: "tk_stage t = Removing" "remove_name (source_of ?k ?i) ?d = Inr d'" "t' = to_stage SyncingFirst t"
      have "?k = Purge" using ag h(1) by (simp add: task_agrees_def Let_def)
      then show ?thesis using remove_inv [OF assms(1) p(1) h(2)] h(3) next_ok by simp
    next
      assume h: "d' = fsync_dir (fst (source_of ?k ?i)) ?d" "t' = to_stage (if ?k = Purge then Confirming None else SyncingSecond) t"
      have "task_agrees ?c d' t'" using p h(2) by (auto simp: task_agrees_def Let_def)
      then show ?thesis unfolding h(1) by (rule sync_inv [OF assms(1) p(1)])
    next
      assume h: "d' = fsync_dir (fst (target_of ?k ?i)) ?d" "t' = to_stage (Confirming None) t"
      have "task_agrees ?c d' t'" using task_free [of t'] h(2) by simp
      then show ?thesis unfolding h(1) by (rule sync_inv [OF assms(1) p(1)])
    qed
  qed
qed

lemma Maintain_inv:
  assumes "server_inv E w" "task_of w = Some t"
  shows "server_inv E (processOperations E n t w)"
proof (cases "talks (tk_stage t)")
  case True
  obtain t' c' where tk: "talk E n t (disk_of w) (cat w) = (t', c')" by (metis prod.collapse)
  have inv: "core_inv (cat w)" "task_agrees (cat w) (disk_of w) t" using assms by (simp_all add: server_inv_def)
  have "server_inv E (w\<lparr>cat := c'\<rparr>)"
    using talk_quiet [OF tk inv(1)] Elsewhere_inv [OF assms(1)] assms(1) unfolding quiet_def by auto
  moreover have "task_agrees c' (disk_of w) t'" by (rule talk_agrees [OF tk inv True])
  ultimately show ?thesis using retask [of E "w\<lparr>cat := c'\<rparr>" t'] True tk by (simp add: processOperations_def)
next
  case False
  obtain t' d' where tc: "touch E n t (disk_of w) = (t', d')" by (metis prod.collapse)
  show ?thesis using touch_inv [OF assms tc False] False tc by (simp add: processOperations_def)
qed

subsection \<open>The machine\<close>

lemma server_step_inv: "server_step E w w' \<Longrightarrow> server_inv E w \<Longrightarrow> server_inv E w'"
proof (induction rule: server_step.induct)
  case (Kill w)
  then show ?case by (intro killed_inv) (auto simp: server_inv_def)
next
  case (Reconcile w F now res w')
  have "uploads w = []" using Reconcile(1,3) by (simp add: server_inv_def slots_agree_def)
  then have "idle E w" using Reconcile(3) by (simp add: idle_def)
  from Reconcile_effect [OF this Reconcile(2)] have "server_inv E w'" "uploads w' = []" by (auto simp: idle_def)
  then show ?case by (simp add: idle_inv)
next
  case (BeginCycle w ops bs l o' b)
  have "task_agrees (cat w) (disk_of w) (begin_task ops bs l o' b)" by (rule task_free) (simp_all add: begin_task_def)
  then show ?case using retask [OF BeginCycle(2)] by simp
next
  case (EndCycle w)
  then show ?case by (simp add: server_inv_def slots_agree_def)
qed (blast intro: Request_inv Receive_inv Abort_inv Elsewhere_inv PowerLoss_inv Maintain_inv)+

lemma new_world_inv: "server_inv E new_world"
proof -
  have h: "holds_at p (disk_of new_world) = {None}" for p by (simp add: holds_at_def alternatives_def new_world_def Lstat_def)
  have "view (cat new_world) i = None" for i by (simp add: view_None new_world_def Init_def)
  then show ?thesis using Init_inv h
    by (subst idle_inv) (auto simp: new_world_def disk_wf_def rows_agree_def)
qed

interpretation server: machine new_world "server_step E" "server_inv E"
  by unfold_locales (auto intro: new_world_inv server_step_inv)

end
