(* ===== verification/Ingest_Properties.thy ===== *)
theory Ingest_Properties
  imports Ingest
begin

text \<open>
  Properties of the writer's single operations: copying and hashing a body, the disk reserve, and the
  admission of a request.
\<close>

subsection \<open>Copying\<close>

text \<open>What a reader delivers in all, and how it ends.\<close>

fun stream :: "reader \<Rightarrow> string \<times> read_error" where
  "stream [] = ([], EOF)"
| "stream ((xs, Some e) # r) = (xs, e)"
| "stream ((xs, None) # r) = (if xs = [] then ([], NoProgress) else (xs @ fst (stream r), snd (stream r)))"

lemma read_some_stream:
  assumes "read_some k src = ((xs, re), src')" "0 < k"
  shows "length xs \<le> k" "re = Some e \<Longrightarrow> stream src = (xs, e)" "re = None \<Longrightarrow> xs = [] \<Longrightarrow> stream src = ([], NoProgress)"
    "re = None \<Longrightarrow> xs \<noteq> [] \<Longrightarrow> stream src = (xs @ fst (stream src'), snd (stream src'))"
proof -
  show "length xs \<le> k" using assms by (auto simp: read_some_def split: list.splits if_splits)
  show "stream src = (xs, e)" if "re = Some e" using assms that by (auto simp: read_some_def split: list.splits if_splits)
  show "stream src = ([], NoProgress)" if "re = None" "xs = []" using assms that by (auto simp: read_some_def split: list.splits if_splits)
  show "stream src = (xs @ fst (stream src'), snd (stream src'))" if r: "re = None" "xs \<noteq> []"
  proof (cases src)
    case (Cons a rest)
    obtain ys e where a: "a = (ys, e)" by (cases a)
    then show ?thesis using assms r Cons
      by (cases e) (auto simp: read_some_def append_assoc [symmetric] simp del: append_assoc split: if_splits)
  qed (use assms r in \<open>simp add: read_some_def\<close>)
qed

definition copied :: "int \<Rightarrow> reader \<Rightarrow> writes \<Rightarrow> string \<Rightarrow> read_error option \<Rightarrow> io_error option \<Rightarrow> bool" where
  "copied n src dst out re we \<longleftrightarrow> out = take (length out) (fst (stream src)) \<and> int (length out) \<le> max 0 n
     \<and> (dst = [] \<longrightarrow> we = None)
     \<and> (we = None \<and> re = None \<longrightarrow> out = take (nat n) (fst (stream src)) \<and> (int (length out) < n \<longrightarrow> snd (stream src) = EOF))
     \<and> (re \<noteq> None \<longrightarrow> re = Some (snd (stream src)) \<and> snd (stream src) \<noteq> EOF \<and> out = fst (stream src) \<and> we = None)"

lemma copied_more:
  assumes "copied (n - int (length xs)) src' dst' out re we" "stream src = (xs @ fst (stream src'), snd (stream src'))"
    "int (length xs) \<le> n" "dst = [] \<longrightarrow> dst' = []"
  shows "copied n src dst (xs @ out) re we"
  using assms by (auto simp: copied_def nat_diff_distrib)

lemma copied_end:
  assumes "stream src = (xs, e)" "int (length xs) \<le> n" "0 < n"
  shows "e = EOF \<Longrightarrow> copied n src dst xs None None" "e \<noteq> EOF \<Longrightarrow> copied n src dst xs (Some e) None"
  using assms by (auto simp: copied_def)

lemma copied_short:
  assumes "fst (stream src) = xs @ more_bytes" "int (length xs) \<le> n" "0 < n" "dst \<noteq> []" "we \<noteq> None"
  shows "copied n src dst (take k xs) None we"
  using assms by (auto simp: copied_def min_def)

lemma copy_loop_copied:
  "\<exists>out. fst (copy_loop n src dst acc) = acc @ out
     \<and> copied n src dst out (fst (snd (copy_loop n src dst acc))) (snd (snd (copy_loop n src dst acc)))"
proof (induction n src dst acc rule: copy_loop.induct)
  case (1 n src dst acc)
  show ?case
  proof (cases "n \<le> 0")
    case True
    then show ?thesis by (simp add: copy_loop.simps [of n] copied_def)
  next
    case False
    obtain xs re src' where r: "read_some (nat (min buffer_size n)) src = ((xs, re), src')" by (metis prod.collapse)
    have k: "0 < nat (min buffer_size n)" using False by (simp add: buffer_size_def)
    note rs = read_some_stream [OF r k]
    have len: "int (length xs) \<le> n" using rs(1) False by linarith
    obtain k we dst' where w: "write_some xs dst = ((k, we), dst')" by (metis prod.collapse)
    have wk: "k \<le> length xs" "dst = [] \<longrightarrow> we = None \<and> k = length xs \<and> dst' = []"
      using w by (auto simp: write_some_def split: list.splits)
    consider "xs = []" | "xs \<noteq> []" "we \<noteq> None \<or> k \<noteq> length xs" | "xs \<noteq> []" "we = None" "k = length xs" "re \<noteq> None"
      | "xs \<noteq> []" "we = None" "k = length xs" "re = None" by blast
    then show ?thesis
    proof cases
      case 1
      then show ?thesis using False r rs(2,3) copied_end [of src "[]" _ n dst] len
        by (cases re) (auto simp: copy_loop.simps [of n] split: read_error.splits)
    next
      case 2
      have st: "fst (stream src) = xs @ (if re = None then fst (stream src') else [])" using rs 2(1) by (cases re) auto
      have "copy_loop n src dst acc = (acc @ take k xs, None, if we \<noteq> None then we else Some ErrShortWrite)"
        using False r w 2 by (auto simp: copy_loop.simps [of n])
      then show ?thesis using copied_short [OF st len, of dst "if we \<noteq> None then we else Some ErrShortWrite" k] False wk(2) 2(2) by auto
    next
      case 3
      then obtain e where e: "re = Some e" by blast
      have "copy_loop n src dst acc = (acc @ xs, if e = EOF then None else Some e, None)"
        using False r w 3 e by (auto simp: copy_loop.simps [of n] Let_def split: read_error.splits)
      then show ?thesis using copied_end [OF rs(2) [OF e] len, of dst] False by auto
    next
      case 4
      have step: "copy_loop n src dst acc = copy_loop (n - int (length xs)) src' dst' (acc @ xs)"
        using False r w 4 by (simp add: copy_loop.simps [of n])
      from "1.IH" [OF False r [symmetric] refl refl 4(1) w [symmetric] refl refl refl] 4
      obtain out where "fst (copy_loop (n - int (length xs)) src' dst' (acc @ xs)) = (acc @ xs) @ out"
        "copied (n - int (length xs)) src' dst' out (fst (snd (copy_loop (n - int (length xs)) src' dst' (acc @ xs))))
           (snd (snd (copy_loop (n - int (length xs)) src' dst' (acc @ xs))))" by auto
      then show ?thesis unfolding step using copied_more [OF _ rs(4) [OF 4(4,1)] len] wk(2) by (intro exI [of _ "xs @ out"]) simp
    qed
  qed
qed

lemma copyAndHash_copied:
  "copyAndHash E limit src dst = (n, digest, re, we, written) \<Longrightarrow>
     n = int (length written) \<and> digest = TokenHash E written \<and> copied limit src dst written re we"
  using copy_loop_copied [of limit src dst "[]"] by (auto simp: copyAndHash_def Let_def split: prod.splits)

text \<open>C38. copyAndHash is exact for every reader and writer: it always ends, it writes a prefix of what the
  reader delivers and at most the limit, and reports the length and the SHA-256 of exactly what it wrote;
  without an error it wrote everything up to the limit and stops below the limit only at the end of the body;
  a read error is the reader's own and comes after all its bytes were written.\<close>

theorem copyAndHash_exact:
  assumes "copyAndHash E limit src dst = (n, digest, re, we, written)"
  shows "n = int (length written) \<and> digest = TokenHash E written \<and> copied limit src dst written re we"
  using assms by (rule copyAndHash_copied)

theorem copyAndHash_exact_witness:
  "copied 3 [(''ab'', None), (''cd'', None)] [] ''abc'' None None \<and> copied 9 [(''ab'', Some (ReadFailed ENOENT))] [] ''ab'' (Some (ReadFailed ENOENT)) None"
proof -
  define E :: env where "E = \<lparr>LoadLocation = (\<lambda>_. None), zone_abbrev = (\<lambda>_ _. []), TokenHash = rev, ParseAddress_ok = (\<lambda>_. True), ParseAddressList_ok = (\<lambda>_. True)\<rparr>"
  have c: "copyAndHash E 3 [(''ab'', None), (''cd'', None)] [] = (3, ''cba'', None, None, ''abc'')"
    "copyAndHash E 9 [(''ab'', Some (ReadFailed ENOENT))] [] = (2, ''ba'', Some (ReadFailed ENOENT), None, ''ab'')"
    by (simp_all add: E_def copyAndHash_def copy_loop.simps read_some_def write_some_def buffer_size_def)
  show ?thesis using copyAndHash_exact [OF c(1)] copyAndHash_exact [OF c(2)] by blast
qed

subsection \<open>The disk reserve\<close>

text \<open>The disk check admits a reservation exactly when all reserved bytes and the configured reserve
  fit the available bytes, as integers and with no wrap-around; a file system whose free bytes exceed 64
  bits is refused.\<close>

theorem checkDisk_exact:
  assumes "0 < Bsize fs" "Bsize fs < 2 ^ 63" "0 \<le> reserve" "reserve < 2 ^ 63" "0 \<le> reserved" "reserved < 2 ^ 63"
  shows "checkDisk (Inr fs) reserve reserved =
    (if uint (Bavail fs) * Bsize fs \<ge> 2 ^ 64 then Some (ErrMsg ''spazio disco non rappresentabile'')
     else if reserved + reserve \<le> uint (Bavail fs) * Bsize fs then None else Some ErrDisk)"
proof -
  define bs where "bs = (word_of_int (Bsize fs) :: u64)"
  have ub: "uint bs = Bsize fs" using assms(1,2) by (simp add: bs_def uint_word_of_int)
  have ur: "uint (word_of_int reserve :: u64) = reserve" "uint (word_of_int reserved :: u64) = reserved"
    using assms(3-6) by (simp_all add: uint_word_of_int)
  have "uint ((- 1 :: u64) div bs) = (2 ^ 64 - 1) div Bsize fs" by (simp add: uint_div ub unsigned_minus_1_eq_mask mask_eq_exp_minus_1)
  then have "Bavail fs > (- 1) div bs \<longleftrightarrow> uint (Bavail fs) > (2 ^ 64 - 1) div Bsize fs" by (simp add: word_less_def)
  also have "\<dots> \<longleftrightarrow> \<not> uint (Bavail fs) * Bsize fs \<le> 2 ^ 64 - 1"
    using le_div_iff_mult_le [OF assms(1), of "uint (Bavail fs)" "2 ^ 64 - 1"] by linarith
  finally have over: "Bavail fs > (- 1) div bs \<longleftrightarrow> uint (Bavail fs) * Bsize fs \<ge> 2 ^ 64" by linarith
  show ?thesis
  proof (cases "uint (Bavail fs) * Bsize fs \<ge> 2 ^ 64")
    case True
    then show ?thesis using assms over by (simp add: checkDisk_def bs_def [symmetric] Let_def)
  next
    case False
    have free: "uint (Bavail fs * bs) = uint (Bavail fs) * Bsize fs"
      using False assms(1) by (simp add: uint_word_arith_bintrs take_bit_int_eq_self_iff ub)
    have "free < reserve' \<or> (word_of_int reserved :: u64) > free - reserve' \<longleftrightarrow> \<not> reserved + reserve \<le> uint (Bavail fs) * Bsize fs"
      if "free = Bavail fs * bs" "reserve' = word_of_int reserve" for free reserve' :: u64
      using that free ur assms by (auto simp: word_less_def uint_sub_if' not_less)
    then show ?thesis using assms False over by (simp add: checkDisk_def bs_def [symmetric] Let_def)
  qed
qed

theorem checkDisk_exact_witness: "checkDisk (Inr \<lparr>Bsize = 4096, Bavail = 2\<rparr>) 8000 192 = None \<and> checkDisk (Inr \<lparr>Bsize = 4096, Bavail = 2\<rparr>) 8000 193 = Some ErrDisk"
  using checkDisk_exact [of "\<lparr>Bsize = 4096, Bavail = 2\<rparr>" 8000 192] checkDisk_exact [of "\<lparr>Bsize = 4096, Bavail = 2\<rparr>" 8000 193] by simp

end
