(* ===== verification/Ingest_Safety.thy ===== *)
theory Ingest_Safety
  imports Server Ingest_Properties
begin

text \<open>
  What the server guarantees over any run: a received backup keeps its bytes through crashes, power
  losses and every retention operation but a permitted purge, a receipt is never given for less, reconciliation settles every interrupted transfer,
  uploads never share a file or exceed the slots, and an upload that meets no failure succeeds.
\<close>

abbreviation server_run :: "env \<Rightarrow> world \<Rightarrow> bool" where
  "server_run E w \<equiv> (server_step E)\<^sup>*\<^sup>* new_world w"

subsection \<open>Deposits keep their identity\<close>

definition keeps_deposits :: "catalog \<Rightarrow> catalog \<Rightarrow> bool" where
  "keeps_deposits c c' \<longleftrightarrow> (\<forall>i st sz sha. view c i = Some (st, sz, sha) \<longrightarrow>
     (\<exists>st'. view c' i = Some (st', sz, sha) \<and> (\<not> in_transfer st \<longrightarrow> \<not> in_transfer st')))"

lemma keeps_refl: "keeps_deposits c c" unfolding keeps_deposits_def by blast

lemma keeps_trans: "keeps_deposits a b \<Longrightarrow> keeps_deposits b c \<Longrightarrow> keeps_deposits a c" unfolding keeps_deposits_def by metis

lemma keeps_upd: "view c i = Some (st, sz, sha) \<Longrightarrow> in_transfer st \<Longrightarrow> view c' = (view c)(i := Some (st', sz, sha)) \<Longrightarrow> keeps_deposits c c'"
  unfolding keeps_deposits_def by auto

lemma keeps_elsewhere: "elsewhere c c' \<Longrightarrow> keeps_deposits c c'"
  unfolding keeps_deposits_def elsewhere_def
proof (intro allI impI)
  fix i st sz sha
  assume "\<forall>i. case view c i of None \<Rightarrow> view c' i = None | Some (st, sz, sha) \<Rightarrow> \<exists>st'. view c' i = Some (st', sz, sha)
      \<and> (st' = st \<or> \<not> in_transfer st \<and> \<not> in_transfer st')" "view c i = Some (st, sz, sha)"
  from spec [OF this(1), of i] this(2) show "\<exists>st'. view c' i = Some (st', sz, sha) \<and> (\<not> in_transfer st \<longrightarrow> \<not> in_transfer st')" by auto
qed

lemma keeps_commit:
  assumes "core_inv c"
  shows "keeps_deposits c (snd (commit out (Complete E i now c) c))" "keeps_deposits c (snd (commit out (Fail E i re now c) c))"
proof -
  show "keeps_deposits c (snd (commit out (Complete E i now c) c))"
  proof (cases "snd (commit out (Complete E i now c) c) = c")
    case False
    then obtain y where "Complete E i now c = Inr (y, snd (commit out (Complete E i now c) c))" using commit_cases by blast
    from Complete_view(2) [OF this assms] show ?thesis using keeps_upd [of c i BackupReceiving] by (auto simp: in_transfer_def)
  qed (simp add: keeps_refl)
  show "keeps_deposits c (snd (commit out (Fail E i re now c) c))"
  proof (cases "snd (commit out (Fail E i re now c) c) = c")
    case False
    then obtain y where "Fail E i re now c = Inr (y, snd (commit out (Fail E i re now c) c))" using commit_cases by blast
    from Fail_view(2) [OF this assms] show ?thesis using keeps_upd [of c i BackupReceiving] by (auto simp: in_transfer_def)
  qed (simp add: keeps_refl)
qed

lemma Receive_cat:
  assumes "Receive E inp u w = (v, w')"
  shows "cat w' = cat w \<or> up_pc u = AtComplete \<and> cat w' = snd (commit (in_outcome inp) (Complete E (b_id (up_backup u)) (in_now inp) (cat w)) (cat w))
    \<or> up_pc u = CleanFail \<and> cat w' = snd (commit (in_outcome inp) (Fail E (b_id (up_backup u)) upload_failed (in_now inp) (cat w)) (cat w))"
proof (cases "up_pc u")
  case AtCopy
  obtain n digest re we written where "copyAndHash E (b_size (up_backup u) + 1) (in_reads inp) (in_writes inp) = (n, digest, re, we, written)" by (metis prod.collapse)
  from Receive_AtCopy(1) [OF assms AtCopy this] show ?thesis by simp
next
  case AtComplete
  then show ?thesis using Receive_AtComplete(1) [OF assms AtComplete] by simp
next
  case CleanFail
  then show ?thesis using Receive_CleanFail(2) [OF assms CleanFail] by simp
next
  case Finished
  then show ?thesis using assms by (auto simp: Receive_def Let_def)
next
  case AtRelease
  then show ?thesis using assms by (auto simp: Receive_def Let_def)
qed (use Receive_AtCreate [OF assms] Receive_AtChmod [OF assms] Receive_AtSync [OF assms] Receive_AtClose [OF assms] Receive_AtPublish [OF assms]
    Receive_AtSyncArchive [OF assms] Receive_AtRemoveStaging [OF assms] Receive_AtSyncIncoming [OF assms] Receive_CleanRemove [OF assms] in auto)

lemma commit_core:
  assumes "core_inv c"
  shows "core_inv (snd (commit out (Complete E i now c) c))" "core_inv (snd (commit out (Fail E i re now c) c))"
  using assms Complete_inv Fail_inv commit_cases [of out "Complete E i now c" c] commit_cases [of out "Fail E i re now c" c] by metis+

lemma settle_keeps:
  assumes "core_inv (cat w)" "settle E F now b w = (e, w')"
  shows "keeps_deposits (cat w) (cat w') \<and> core_inv (cat w')"
  using settle_cases [OF assms(2)] keeps_commit [OF assms(1)] commit_core [OF assms(1)] keeps_refl assms(1) by auto

lemma reconcile_rows_keeps:
  assumes "core_inv (cat w)" "reconcile_rows E F now bs w = (e, w')"
  shows "keeps_deposits (cat w) (cat w')"
  using assms
proof (induction bs arbitrary: w)
  case (Cons b bs)
  obtain e1 w1 where s1: "settle E F now b w = (e1, w1)" by (metis prod.collapse)
  obtain e2 w2 where s2: "drop_staging (CallRemove (b_id b)) F (staging (b_id b)) w1 = (e2, w2)" by (metis prod.collapse)
  note k1 = settle_keeps [OF Cons.prems(1) s1]
  have k2: "cat w2 = cat w1" using s2 by (auto simp: drop_staging_def split: if_splits sum.splits)
  from Cons.prems(2) s1 s2 have "w' = w1 \<or> w' = w2 \<or> reconcile_rows E F now bs w2 = (e, w')" by (auto split: option.splits)
  then show ?case using k1 k2 Cons.IH [of w2] keeps_trans by auto
qed (simp add: keeps_refl)

lemma reconcile_entries_cat: "reconcile_entries F ns w = (e, w') \<Longrightarrow> cat w' = cat w"
proof (induction ns arbitrary: w)
  case (Cons n ns)
  obtain e1 w1 where d: "drop_staging (CallRemoveEntry n) F (Incoming, n) w = (e1, w1)" by (metis prod.collapse)
  have "cat w1 = cat w" using d by (auto simp: drop_staging_def split: if_splits sum.splits)
  moreover from Cons.prems d have "w' = w \<or> w' = w1 \<or> reconcile_entries F ns w = (e, w') \<or> reconcile_entries F ns w1 = (e, w')"
    by (auto split: if_split_asm option.split_asm node.split_asm)
  ultimately show ?case using Cons.IH by auto
qed simp

lemma Reconcile_keeps:
  assumes "core_inv (cat w)" "Reconcile E F now w = (e, w')"
  shows "keeps_deposits (cat w) (cat w')"
proof -
  obtain e1 w1 where r1: "reconcile_rows E F now (Pending (cat w)) w = (e1, w1)" by (metis prod.collapse)
  obtain e2 w2 where r2: "reconcile_entries F (sort (ReadDir Incoming (disk_of w1))) w1 = (e2, w2)" by (metis prod.collapse)
  have "cat w' = cat w1" using assms(2) r1 r2 reconcile_entries_cat [OF r2] by (auto simp: Reconcile_def split: option.split_asm if_split_asm)
  then show ?thesis using reconcile_rows_keeps [OF assms(1) r1] by simp
qed

lemma step_keeps: "server_step E w w' \<Longrightarrow> server_inv E w \<Longrightarrow> keeps_deposits (cat w) (cat w')"
proof (induction rule: server_step.induct)
  case (Request w dec newID st rf now r res w')
  from ServeHTTP_cases [OF Request(2)] consider "w' = w" | b c t m sz d ik where
    "ReserveIdempotentChecked E newID t m sz d ik now (Some (checkDisk st rf)) (cat w) = Inr (b, c)" "cat w' = c"
    by (auto split: if_splits)
  then show ?case
  proof cases
    case 2
    have "core_inv (cat w)" using Request(3) by (simp add: server_inv_def)
    from Reserve_view(2) [OF 2(1) this] show ?thesis
      unfolding 2(2) keeps_deposits_def by (auto simp: in_transfer_def)
  qed (simp add: keeps_refl)
next
  case (Receive k w inp u w')
  have "core_inv (cat w)" using Receive(3) by (simp add: server_inv_def)
  then show ?case using Receive_cat [OF Receive(2)] keeps_commit keeps_refl by auto
next
  case (Abort k w reason out now u w')
  have "core_inv (cat w)" using Abort(4) by (simp add: server_inv_def)
  then show ?case using Abort(3) keeps_commit(2) keeps_refl by (auto simp: Abort_def Let_def)
next
  case (Reconcile w F now res w')
  have "core_inv (cat w)" using Reconcile(3) by (simp add: server_inv_def)
  from Reconcile_keeps [OF this Reconcile(2)] show ?case by simp
next
  case (Maintain w t n)
  obtain t' c' where tk: "talk E n t (disk_of w) (cat w) = (t', c')" by (metis prod.collapse)
  have "core_inv (cat w)" using Maintain(2) by (simp add: server_inv_def)
  then have "keeps_deposits (cat w) c'" using talk_quiet [OF tk] keeps_refl keeps_elsewhere unfolding quiet_def by blast
  then show ?case using tk keeps_refl by (auto simp: processOperations_def split: prod.split)
qed (simp_all add: keeps_refl keeps_elsewhere killed_def)

interpretation server_history: history new_world "server_step E" "server_inv E" "\<lambda>w w'. keeps_deposits (cat w) (cat w')"
  by unfold_locales (auto intro: new_world_inv server_step_inv keeps_refl keeps_trans step_keeps)

subsection \<open>Received backups are safe\<close>

lemma sound_bytes: "sound E d n sz sha \<Longrightarrow> Lstat p d = Some (Regular n) \<Longrightarrow> \<exists>s. bytes_at p d = Some s \<and> int (length s) = sz \<and> TokenHash E s = sha"
  by (simp add: bytes_at_def sound_def fits_def)

lemma kept_bytes:
  assumes "kept E d i sz sha"
  shows "\<exists>s. (bytes_at (final i) d = Some s \<or> bytes_at (quarantine i) d = Some s) \<and> int (length s) = sz \<and> TokenHash E s = sha"
proof -
  from assms obtain n where n: "sound E d n sz sha" "anchored d i" "holds_at (final i) d \<subseteq> {None, Some (Regular n)}"
    "holds_at (quarantine i) d \<subseteq> {None, Some (Regular n)}" unfolding kept_def by blast
  then show ?thesis using kept_at [OF n(2-4)] sound_bytes [OF n(1)] by blast
qed

text \<open>No operation of some kind on a backup has had its execution committed.\<close>

definition uncommitted :: "catalog \<Rightarrow> string \<Rightarrow> (op_kind \<Rightarrow> bool) \<Rightarrow> bool" where
  "uncommitted c i K \<longleftrightarrow> (\<forall>o' \<in> set (operations c). op_backup_id o' = i \<and> K (op_kind_of o') \<longrightarrow> \<not> op_execution_committed o')"

lemma uncommitted_permitted: "uncommitted c i K \<Longrightarrow> K k \<Longrightarrow> \<not> permitted c i k"
  unfolding uncommitted_def permitted_def final_op_def by blast

lemma row_kept:
  assumes "server_run E w" "b \<in> set (backups (cat w))" "\<not> in_transfer (b_status b)" "uncommitted (cat w) (b_id b) (\<lambda>k. k = Purge)"
  shows "kept E (disk_of w) (b_id b) (b_size b) (b_sha256 b)"
proof -
  note inv = server.reachable_inv [OF assms(1), unfolded server_inv_def]
  have "view (cat w) (b_id b) = Some (b_status b, b_size b, b_sha256 b)" using inv view_row [OF _ assms(2)] by (simp add: core_inv_def)
  moreover have "\<not> permitted (cat w) (b_id b) Purge" using uncommitted_permitted [OF assms(4)] by simp
  ultimately show ?thesis using inv assms(3) unfolding rows_agree_def by (metis file_agrees.simps)
qed

lemma untouched_stored:
  assumes "server_run E w" "kept E (disk_of w) i sz sha" "uncommitted (cat w) i (\<lambda>_. True)"
  shows "stored E (disk_of w) i sz sha"
proof -
  let ?d = "disk_of w"
  have no: "\<not> permitted (cat w) i k" for k using uncommitted_permitted [OF assms(3)] by simp
  have wf: "disk_wf (cat w) ?d" using server.reachable_inv [OF assms(1)] by (simp add: server_inv_def)
  have q: "None \<in> holds_at (quarantine i) ?d"
  proof (rule ccontr)
    assume "None \<notin> holds_at (quarantine i) ?d"
    then have "Lstat (quarantine i) ?d \<noteq> None" using holds_Lstat by metis
    from disk_wfD(3) [OF wf, of "Lstat (quarantine i) ?d" "i @ ''.backup''"] this show False
      using no by (auto simp: quarantine_def [symmetric])
  qed
  moreover have "(final i, quarantine i) \<notin> set (renamed ?d)" "(quarantine i, final i) \<notin> set (renamed ?d)"
    using disk_wfD(4) [OF wf, of _ i] no by fastforce+
  ultimately have "None \<notin> holds_at (final i) ?d" using assms(2) by (auto simp: kept_def anchored_def)
  then show ?thesis using assms(2) unfolding kept_def stored_def holds_singleton by blast
qed

text \<open>C1. A received backup survives. In every state the server can reach, through any interleaving of uploads,
  commands, retention operations, failing calls, kills, power losses and reconciliations, a backup that was received
  (complete, being deleted, quarantined, being purged or even recorded as deleted) has its bytes, with exactly the
  declared length and SHA-256, under its archive or its quarantine name, unless the execution of a purge of it was
  committed; as long as no operation on it was, under its archive name. And it still has if the power fails at that
  moment, whatever the disk had not yet synced.\<close>

theorem received_backups_survive:
  assumes "server_run E w" "b \<in> set (backups (cat w))" "b_status b \<noteq> BackupReceiving" "b_status b \<noteq> BackupFailed"
    and "uncommitted (cat w) (b_id b) (\<lambda>k. k = Purge)" "d = disk_of w \<or> power_loss (disk_of w) d"
  shows "\<exists>s. int (length s) = b_size b \<and> TokenHash E s = b_sha256 b
    \<and> (bytes_at (final (b_id b)) d = Some s \<or> bytes_at (quarantine (b_id b)) d = Some s)
    \<and> (uncommitted (cat w) (b_id b) (\<lambda>_. True) \<longrightarrow> bytes_at (final (b_id b)) d = Some s)"
proof -
  have k: "kept E (disk_of w) (b_id b) (b_size b) (b_sha256 b)" using row_kept [OF assms(1,2) _ assms(5)] assms(3,4) by (simp add: in_transfer_def)
  show ?thesis
  proof (cases "uncommitted (cat w) (b_id b) (\<lambda>_. True)")
    case True
    then have "stored E d (b_id b) (b_size b) (b_sha256 b)" using untouched_stored [OF assms(1) k] assms(6) power_loss_stored by blast
    then obtain n where "holds_at (final (b_id b)) d = {Some (Regular n)}" "sound E d n (b_size b) (b_sha256 b)" by (auto simp: stored_def)
    then have "Lstat (final (b_id b)) d = Some (Regular n)" using holds_Lstat [of "final (b_id b)" d] by auto
    then show ?thesis using sound_bytes [OF \<open>sound _ _ _ _ _\<close>] by blast
  next
    case False
    have "kept E d (b_id b) (b_size b) (b_sha256 b)" using k assms(6) power_loss_kept by blast
    then show ?thesis using kept_bytes False by blast
  qed
qed

text \<open>C6. A receipt is a promise kept. When Receive answers with a receipt, the catalogue has the backup
  complete with the size and digest of the receipt; at every later moment it still has it with the same size and
  digest, never again in transfer, and until a purge of it is committed its file has them too, in the archive or in
  quarantine.\<close>

theorem receipt_is_kept:
  assumes "server_run E w" "k < length (uploads w)" "up_pc (uploads w ! k) = AtComplete" "Receive E inp (uploads w ! k) w = (v, w1)"
    and "up_response v = Some (ReceiptResponse r)" "(server_step E)\<^sup>*\<^sup>* (w1\<lparr>uploads := (uploads w1)[k := v]\<rparr>) w2"
  shows "view (cat w1) (rc_id r) = Some (BackupComplete, rc_size r, rc_sha256 r)
    \<and> (\<exists>b \<in> set (backups (cat w2)). b_id b = rc_id r \<and> b_size b = rc_size r \<and> b_sha256 b = rc_sha256 r
         \<and> b_status b \<noteq> BackupReceiving \<and> b_status b \<noteq> BackupFailed
         \<and> (uncommitted (cat w2) (rc_id r) (\<lambda>k. k = Purge) \<longrightarrow>
              (\<exists>s. (bytes_at (final (rc_id r)) (disk_of w2) = Some s \<or> bytes_at (quarantine (rc_id r)) (disk_of w2) = Some s)
                 \<and> int (length s) = rc_size r \<and> TokenHash E s = rc_sha256 r)))"
proof -
  let ?u = "uploads w ! k"
  have own: "owner ?u" using assms(3) by (simp add: owner_def)
  note inv = server.reachable_inv [OF assms(1)]
  have core: "core_inv (cat w)" using inv by (simp add: server_inv_def)
  from Receive_AtComplete(2) [OF assms(4,3)] obtain x where x: "v = respond_and AtRelease x ?u"
    and r: "x = ReceiptResponse r \<longrightarrow> in_outcome inp = Works \<and> isl (Complete E (b_id (up_backup ?u)) (in_now inp) (cat w)) = False \<and> rc_id r = b_id (up_backup ?u)
        \<and> rc_size r = b_size (up_backup ?u) \<and> rc_sha256 r = b_sha256 (up_backup ?u) \<and> rc_status r = BackupComplete" by blast
  have "x = ReceiptResponse r" using assms(5) x by (simp add: respond_and_def)
  with r have r: "in_outcome inp = Works" "\<not> isl (Complete E (b_id (up_backup ?u)) (in_now inp) (cat w))" "rc_id r = b_id (up_backup ?u)"
    "rc_size r = b_size (up_backup ?u)" "rc_sha256 r = b_sha256 (up_backup ?u)" by auto
  obtain c where c: "Complete E (b_id (up_backup ?u)) (in_now inp) (cat w) = Inr ((), c)" using r(2) by (metis prod.collapse old.unit.exhaust sum.collapse(2))
  have w1: "cat w1 = c" using Receive_AtComplete(1) [OF assms(4,3)] r(1) c by (simp add: commit_def)
  have v1: "view (cat w1) (rc_id r) = Some (BackupComplete, rc_size r, rc_sha256 r)"
    using Complete_view(2) [OF c core] ownerD(1) [OF inv assms(2) own] r w1 by (auto simp: owns_def)
  have st: "server_step E w (w1\<lparr>uploads := (uploads w1)[k := v]\<rparr>)" using assms(2,4) by (rule server_step.Receive)
  have run1: "server_run E (w1\<lparr>uploads := (uploads w1)[k := v]\<rparr>)" using assms(1) st by (rule rtranclp.rtrancl_into_rtrancl)
  have run2: "server_run E w2" using run1 assms(6) by (rule rtranclp_trans)
  have "keeps_deposits (cat w1) (cat w2)" using server_history.between [OF run1 assms(6)] by simp
  then obtain st' where v2: "view (cat w2) (rc_id r) = Some (st', rc_size r, rc_sha256 r)" "\<not> in_transfer st'"
    using v1 unfolding keeps_deposits_def in_transfer_def by blast
  have "distinct (map b_id (backups (cat w2)))" using server.reachable_inv [OF run2] by (simp add: server_inv_def core_inv_def)
  with v2(1) obtain b where b: "b \<in> set (backups (cat w2))" "b_id b = rc_id r" "b_status b = st'" "b_size b = rc_size r" "b_sha256 b = rc_sha256 r"
    using view_Some by blast
  have "kept E (disk_of w2) (rc_id r) (rc_size r) (rc_sha256 r)" if "uncommitted (cat w2) (rc_id r) (\<lambda>k. k = Purge)"
    using row_kept [OF run2 b(1)] b v2(2) that by simp
  then show ?thesis using v1 b v2(2) kept_bytes by (auto simp: in_transfer_def)
qed

text \<open>C7. Reconciliation settles every interrupted transfer. When it succeeds no row is receiving: a row whose
  file was published is complete, every other one failed, rows that were not receiving are untouched, no file of
  the archive was touched, and no temporary file of an upload is left, not even for a power loss to bring back.\<close>

theorem Reconcile_settles:
  assumes "server_run E w" "phase_of w = Down" "Reconcile E F now w = (None, w')"
  shows "(\<forall>b \<in> set (backups (cat w')). b_status b \<noteq> BackupReceiving)
    \<and> (\<forall>i sz sha. view (cat w) i = Some (BackupReceiving, sz, sha) \<longrightarrow>
         view (cat w') i = Some (if Lstat (final i) (disk_of w) = None then BackupFailed else BackupComplete, sz, sha))
    \<and> (\<forall>i st sz sha. view (cat w) i = Some (st, sz, sha) \<longrightarrow> st \<noteq> BackupReceiving \<longrightarrow> view (cat w') i = Some (st, sz, sha))
    \<and> (\<forall>name. Lstat (Archive, name) (disk_of w') = Lstat (Archive, name) (disk_of w))
    \<and> (\<forall>i. ValidID i \<longrightarrow> holds_at (staging i) (disk_of w') = {None})"
proof -
  note inv = server.reachable_inv [OF assms(1)]
  have "idle E w" using inv assms(2) by (simp add: idle_def) (simp add: server_inv_def slots_agree_def)
  note eff = Reconcile_effect [OF this assms(3)]
  have "staged_id (i @ ''.part'') = Some i" if "ValidID i" for i
    using that by (simp add: staged_id_def has_suffix_def trim_suffix_def)
  then have st: "ValidID i \<Longrightarrow> holds_at (staging i) (disk_of w') = {None}" for i using eff by (simp add: staging_def)
  have "b_status b \<noteq> BackupReceiving" if "b \<in> set (backups (cat w'))" for b
  proof
    assume r: "b_status b = BackupReceiving"
    have "distinct (map b_id (backups (cat w')))" using eff by (simp add: idle_def server_inv_def core_inv_def)
    then have v: "view (cat w') (b_id b) = Some (BackupReceiving, b_size b, b_sha256 b)" using view_row that r by metis
    show False
    proof (cases "view (cat w) (b_id b)")
      case None
      then show False using eff v by simp
    next
      case (Some x)
      then show False using eff v by (cases x; cases "fst x = BackupReceiving") (auto simp: settled_as_def split: if_splits)
    qed
  qed
  then show ?thesis using eff st by (auto simp: settled_as_def same_archive_def)
qed

text \<open>C8. Uploads never interfere and never exceed the slots. At any moment at most 32 uploads hold a slot,
  exactly those not finished; two uploads in progress never serve the same backup, and each serves a backup the
  catalogue still has as receiving, with the size and digest it was admitted with.\<close>

theorem uploads_are_exclusive:
  assumes "server_run E w"
  shows "slots w = count_where (\<lambda>u. up_pc u \<noteq> Finished) (uploads w) \<and> slots w \<le> 32 \<and> exclusive (uploads w)
    \<and> (\<forall>u \<in> set (uploads w). owner u \<longrightarrow> view (cat w) (b_id (up_backup u)) = Some (BackupReceiving, b_size (up_backup u), b_sha256 (up_backup u)))"
  using server.reachable_inv [OF assms]
  by (simp add: server_inv_def slots_agree_def uploads_agree_def owns_def slot_limit_def)

subsection \<open>Answers of the writer\<close>


subsection \<open>An upload without failures succeeds\<close>

definition received_receipt :: "backup \<Rightarrow> time \<Rightarrow> response" where
  "received_receipt b now = ReceiptResponse \<lparr>rc_id = b_id b, rc_status = BackupComplete, rc_size = b_size b, rc_sha256 = b_sha256 b, rc_received_at = Stamp now\<rparr>"

lemma copy_whole:
  assumes "stream src = (s, EOF)" "int (length s) = sz"
  shows "copyAndHash E (sz + 1) src [] = (sz, TokenHash E s, None, None, s)"
proof -
  obtain n digest re we written where c: "copyAndHash E (sz + 1) src [] = (n, digest, re, we, written)" by (metis prod.collapse)
  have "nat (sz + 1) = Suc (length s)" using assms(2) by linarith
  then have "written = s" "re = None" "we = None" "n = int (length written)" "digest = TokenHash E written"
    using copyAndHash_copied [OF c] assms by (auto simp: copied_def)
  then show ?thesis using c assms(2) by simp
qed

text \<open>C40. An upload that meets no failure is received. If every call works, the body delivers exactly the declared
  bytes with the declared SHA-256, the names are free and the catalogue accepts the completion, then Receive ends
  after its eleven calls with a receipt for the backup, the catalogue completed, the slot released, the bytes in
  the archive and the temporary name gone.\<close>

theorem clean_upload_succeeds:
  assumes "up_pc u = AtCreate" "up_error u = None" "in_outcome inp = Works" "in_writes inp = []" "stream (in_reads inp) = (s, EOF)"
    and "int (length s) = b_size (up_backup u)" "TokenHash E s = b_sha256 (up_backup u)"
    and "Lstat (staging (b_id (up_backup u))) (disk_of w) = None" "Lstat (final (b_id (up_backup u))) (disk_of w) = None"
    and "Complete E (b_id (up_backup u)) (in_now inp) (cat w) = Inr ((), c)"
    and "((\<lambda>(u, w). Receive E inp u w) ^^ 11) (u, w) = (u', w')"
  shows "up_pc u' = Finished \<and> up_response u' = Some (received_receipt (up_backup u) (in_now inp)) \<and> cat w' = c \<and> slots w' = slots w - 1
    \<and> bytes_at (final (b_id (up_backup u))) (disk_of w') = Some s \<and> Lstat (staging (b_id (up_backup u))) (disk_of w') = None"
proof -
  let ?i = "b_id (up_backup u)" and ?n = "length (inodes (disk_of w))"
  let ?R = "\<lambda>(u, w). Receive E inp u w"
  define d1 where "d1 = created (staging ?i) (disk_of w)"
  define d2 where "d2 = write_inode ?n s d1"
  define d4 where "d4 = fsync_inode ?n (chmod_inode ?n 288 d2)"
  define d6 where "d6 = set_name (final ?i) (Some (Regular ?n)) d4"
  define d8 where "d8 = fsync_dir Incoming (set_name (staging ?i) None (fsync_dir Archive d6))"
  have io: "io_fault (in_outcome inp) = None" using assms(3) by (simp add: io_fault_def)
  have L: "Lstat (staging ?i) d4 = Some (Regular ?n)" "Lstat (final ?i) d4 = None"
    using assms(9) by (simp_all add: d4_def d2_def d1_def created_def)
  have len: "?n < length (inodes d1)" "content (inodes d1 ! ?n) = []" by (simp_all add: d1_def created_def)
  have s1: "?R (u, w) = (u\<lparr>up_pc := AtCopy, up_inode := ?n\<rparr>, w\<lparr>disk_of := d1\<rparr>)"
    using assms(1,8) by (simp add: Receive_def Let_def io create_excl_def d1_def created_def)
  have s2: "?R (u\<lparr>up_pc := AtCopy, up_inode := ?n\<rparr>, w\<lparr>disk_of := d1\<rparr>) = (u\<lparr>up_pc := AtChmod, up_inode := ?n\<rparr>, w\<lparr>disk_of := d2\<rparr>)"
    using copy_whole [OF assms(5,6), of E] assms(4,7) by (simp add: Receive_def Let_def d2_def)
  have s4: "?R (?R (u\<lparr>up_pc := AtChmod, up_inode := ?n\<rparr>, w\<lparr>disk_of := d2\<rparr>)) = (u\<lparr>up_pc := AtClose, up_inode := ?n\<rparr>, w\<lparr>disk_of := d4\<rparr>)"
    by (simp add: Receive_def Let_def io d4_def)
  have s6: "?R (?R (u\<lparr>up_pc := AtClose, up_inode := ?n\<rparr>, w\<lparr>disk_of := d4\<rparr>)) = (u\<lparr>up_pc := AtSyncArchive, up_inode := ?n\<rparr>, w\<lparr>disk_of := d6\<rparr>)"
    using assms(2) L by (simp add: Receive_def Let_def io link_name_def d6_def)
  have s9: "?R (?R (?R (u\<lparr>up_pc := AtSyncArchive, up_inode := ?n\<rparr>, w\<lparr>disk_of := d6\<rparr>))) = (u\<lparr>up_pc := AtComplete, up_inode := ?n\<rparr>, w\<lparr>disk_of := d8\<rparr>)"
    using L by (simp add: Receive_def Let_def io remove_name_def d8_def d6_def)
  have s11: "?R (?R (u\<lparr>up_pc := AtComplete, up_inode := ?n\<rparr>, w\<lparr>disk_of := d8\<rparr>)) =
      (u\<lparr>up_pc := Finished, up_inode := ?n, up_response := Some (received_receipt (up_backup u) (in_now inp))\<rparr>, w\<lparr>disk_of := d8, cat := c, slots := slots w - 1\<rparr>)"
    using assms(3,10) by (simp add: Receive_def Let_def commit_def respond_and_def received_receipt_def Receipt_of_def)
  have "(?R ^^ 11) (u, w) = ?R (?R (?R (?R (?R (?R (?R (?R (?R (?R (?R (u, w)))))))))))" by (simp add: numeral_eq_Suc)
  also have "\<dots> = (u\<lparr>up_pc := Finished, up_inode := ?n, up_response := Some (received_receipt (up_backup u) (in_now inp))\<rparr>, w\<lparr>disk_of := d8, cat := c, slots := slots w - 1\<rparr>)"
    unfolding s1 s2 s4 s6 s9 s11 ..
  finally have e: "u' = u\<lparr>up_pc := Finished, up_inode := ?n, up_response := Some (received_receipt (up_backup u) (in_now inp))\<rparr>"
    "w' = w\<lparr>disk_of := d8, cat := c, slots := slots w - 1\<rparr>" using assms(11) by simp_all
  have "bytes_at (final ?i) d8 = Some s" using len
    by (simp add: bytes_at_def d8_def d6_def d4_def d2_def)
  then show ?thesis by (simp add: e d8_def)
qed

end
