(* ===== verification/Store_Types.thy ===== *)
theory Store_Types
  imports Store_Reservations
begin

text \<open>
  The types of the catalogue's columns: every stored profile passes its validation, and every row of backups
  has a positive size of at most 2^60 bytes, a SHA-256 in lower-case hexadecimal, valid metadata and a valid
  or absent idempotency key. Only PutProfile writes profiles and only a reservation inserts a row; nothing
  changes the deposit of a row afterwards.
\<close>

definition typed_row :: "backup \<Rightarrow> bool" where
  "typed_row b \<longleftrightarrow> 0 < b_size b \<and> b_size b \<le> 2 ^ 60 \<and> ValidDigest (b_sha256 b) \<and> Metadata_Validate (b_metadata b) = Inr ()
     \<and> (b_idempotency_key b = [] \<or> ValidIdempotencyKey (b_idempotency_key b))"

definition typed :: "catalog \<Rightarrow> bool" where
  "typed c \<longleftrightarrow> (\<forall>p \<in> set (profiles c). Profile_Validate p = Inr ()) \<and> (\<forall>b \<in> set (backups c). typed_row b)"

subsection \<open>Profiles\<close>

lemma finish_operation_profiles: "finish_operation u inc nt o' now c = Inr (r, c') \<Longrightarrow> profiles c' = profiles c"
proof -
  assume "finish_operation u inc nt o' now c = Inr (r, c')"
  then obtain c1 g where "finish_backup o' now c = Some c1" "same_core (set_operation (op_id o') g c1) c'"
    by (auto simp: finish_operation_def dest!: resolveMaintenance_frame split: if_splits option.splits sum.splits)
  then show ?thesis
    by (cases "op_kind_of o'") (auto simp: finish_backup_def set_backup_def same_core_def set_operation_def split: if_splits)
qed

lemma record_failure_profiles: "record_failure E o' d now c = Inr (r, c') \<Longrightarrow> profiles c' = profiles c"
  by (auto simp: record_failure_def Let_def same_core_def set_operation_def dest!: openAnomaly_frame
      split: sum.splits option.splits if_splits)

lemma operation_profiles:
  "RequestQuarantine E i og ac re now c = Inr (o', c') \<Longrightarrow> profiles c' = profiles c"
  "RequestPurge E i og ac re now c = Inr (o', c') \<Longrightarrow> profiles c' = profiles c"
  "RequestRecovery i ac re now c = Inr (o', c') \<Longrightarrow> profiles c' = profiles c"
  "AuthorizeOperation E tok k l now c = Inr (ot, c') \<Longrightarrow> profiles c' = profiles c"
  "ValidateOperation E k t l now c = Inr (r, c') \<Longrightarrow> profiles c' = profiles c"
  "ConfirmOperation E k t fin d l now c = Inr (r, c') \<Longrightarrow> profiles c' = profiles c"
  "ReconcileAuthorized k now c = Inr (r, c') \<Longrightarrow> profiles c' = profiles c"
  "ResetAuthorized k now c = Inr (r, c') \<Longrightarrow> profiles c' = profiles c"
  "CancelQuarantineRequest i ac now c = Inr (r, c') \<Longrightarrow> profiles c' = profiles c"
  subgoal by (auto simp: RequestQuarantine_def Let_def insert_operation_def set_backup_def split: if_splits option.splits sum.splits)
  subgoal by (auto simp: RequestPurge_def Let_def insert_operation_def set_backup_def split: if_splits option.splits sum.splits)
  subgoal by (auto simp: RequestRecovery_def Let_def insert_operation_def split: if_splits option.splits sum.splits)
  subgoal by (auto simp: AuthorizeOperation_def set_operation_def split: sum.splits option.splits if_splits)
  subgoal by (auto simp: ValidateOperation_def set_operation_def split: sum.splits option.splits if_splits)
  subgoal by (auto simp: ConfirmOperation_def dest: finish_operation_profiles record_failure_profiles split: sum.splits option.splits if_splits)
  subgoal by (auto simp: ReconcileAuthorized_def dest: finish_operation_profiles split: option.splits if_splits)
  subgoal by (auto simp: ResetAuthorized_def Let_def set_backup_def same_core_def set_operation_def dest!: resolve_after_frame
        split: option.splits if_splits)
  subgoal by (auto simp: CancelQuarantineRequest_def Let_def set_backup_def same_core_def dest!: resolveMaintenance_frame
        split: option.splits if_splits sum.splits)
  done

lemma deposit_profiles:
  "Complete E i now c = Inr (r, c') \<Longrightarrow> profiles c' = profiles c"
  "Fail E i re now c = Inr (r, c') \<Longrightarrow> profiles c' = profiles c"
  "ReserveIdempotentChecked E n t m sz d ik now ch c = Inr (b, c') \<Longrightarrow> profiles c' = profiles c"
  "Revoke k now c = Inr (r, c') \<Longrightarrow> profiles c' = profiles c"
  "CreateKey E ni nt nm pr c = Inr (kt, c') \<Longrightarrow> profiles c' = profiles c"
  "Assign k pr c = Inr (r, c') \<Longrightarrow> profiles c' = profiles c"
  subgoal by (auto simp: Complete_def set_backup_def same_core_def dest!: evaluateCompleted_frame split: option.splits sum.splits if_splits)
  subgoal by (auto simp: Fail_def set_backup_def same_core_def dest!: openAnomaly_frame split: option.splits sum.splits if_splits)
  subgoal by (erule ReserveE) (auto simp: record_attempt_def store_reservation_def split: option.splits sum.splits if_splits)
  subgoal by (auto simp: Revoke_def Let_def same_core_def dest!: resolve_all_frame split: option.splits sum.splits if_splits)
  subgoal by (auto simp: CreateKey_def Let_def split: if_splits sum.splits)
  subgoal by (auto simp: Assign_def split: if_splits)
  done

lemma automation_profiles:
  "SetReserveFree bytes c = Inr (r, c') \<Longrightarrow> profiles c' = profiles c"
  "SetKeyRetentionDays k days c = Inr (r, c') \<Longrightarrow> profiles c' = profiles c"
  "MarkMailTested now c = Inr (r, c') \<Longrightarrow> profiles c' = profiles c"
  "EnableAutomation c = Inr (r, c') \<Longrightarrow> profiles c' = profiles c"
  "PauseRetention re c = Inr (r, c') \<Longrightarrow> profiles c' = profiles c"
  "RequestRetentionResume now c = Inr (r, c') \<Longrightarrow> profiles c' = profiles c"
  "ResumeRetention now c = Inr (r, c') \<Longrightarrow> profiles c' = profiles c"
  "BeginRelearn c = Inr (r, c') \<Longrightarrow> profiles c' = profiles c"
  "SetCheckState ms rv now c = Inr (r, c') \<Longrightarrow> profiles c' = profiles c"
  "SaveModel ki rv tz days v rel rw now c = Inr (r, c') \<Longrightarrow> profiles c' = profiles c"
  "AcquireMaintenanceLease ow g now dur c = Inr (l, c') \<Longrightarrow> profiles c' = profiles c"
  "ReleaseMaintenanceLease l' c = Inr (r, c') \<Longrightarrow> profiles c' = profiles c"
  by (auto simp: SetReserveFree_def SetKeyRetentionDays_def MarkMailTested_def EnableAutomation_def PauseRetention_def
      RequestRetentionResume_def ResumeRetention_def BeginRelearn_def SetCheckState_def SaveModel_def
      AcquireMaintenanceLease_def ReleaseMaintenanceLease_def Let_def split: if_splits sum.splits)

lemma setup_profiles: "SetupAutomationMode E s tz mode now c = Inr (r, c') \<Longrightarrow> profiles c' = profiles c"
  unfolding SetupAutomationMode_def by (simp add: fail_running_def split: if_splits) auto

lemma alarm_profiles:
  "OpenAnomalyAt E s kd ki b d ev now c = Inr (cr, c') \<Longrightarrow> profiles c' = profiles c"
  "ResolveAnomaly s now c = Inr (cr, c') \<Longrightarrow> profiles c' = profiles c"
  "TryClearResolvedMaintenanceBlock k now c = Inr (cr, c') \<Longrightarrow> profiles c' = profiles c"
  "AcknowledgeMissingAnomaly k now c = Inr (r, c') \<Longrightarrow> profiles c' = profiles c"
  "CreateAnomalyExclusion k st en ac re kinds now c = Inr (ex, c') \<Longrightarrow> profiles c' = profiles c"
  "QueueReport s sub body now c = Inr (r, c') \<Longrightarrow> profiles c' = profiles c"
  "QueuePeriodicReport s sub body now c = Inr (r, c') \<Longrightarrow> profiles c' = profiles c"
  "ConfirmMail k err v now c = Inr (r, c') \<Longrightarrow> profiles c' = profiles c"
  subgoal by (auto simp: OpenAnomalyAt_def same_core_def dest!: openAnomalyAt_frame)
  subgoal by (auto simp: ResolveAnomaly_def Let_def same_core_def dest!: insert_mail_frame split: option.splits if_splits sum.splits)
  subgoal by (auto simp: TryClearResolvedMaintenanceBlock_def Let_def split: list.splits if_splits)
  subgoal by (auto simp: AcknowledgeMissingAnomaly_def Let_def same_core_def dest!: insert_mail_frame split: option.splits if_splits sum.splits)
  subgoal unfolding CreateAnomalyExclusion_def by (auto simp: Let_def split: option.splits if_splits)
  subgoal by (auto simp: QueueReport_def Let_def same_core_def dest!: insert_mail_frame split: sum.splits option.splits if_splits)
  subgoal by (auto simp: QueuePeriodicReport_def QueueReport_def Let_def same_core_def dest!: insert_mail_frame split: sum.splits option.splits if_splits)
  subgoal by (auto simp: ConfirmMail_def Let_def same_core_def split: sum.splits option.splits if_splits)
  done

lemma check_profiles:
  "StartMonitoringCheck now c = Inr (k, c') \<Longrightarrow> profiles c' = profiles c"
  "PlanMonitoringCheck E i now c = Inr (pl, c') \<Longrightarrow> profiles c' = profiles c"
  "CompleteMonitoringCheck E i oc su ms rv fs now c = Inr (r, c') \<Longrightarrow> profiles c' = profiles c"
  "FailMonitoringCheck i su now c = Inr (r, c') \<Longrightarrow> profiles c' = profiles c"
  subgoal by (auto simp: StartMonitoringCheck_def Let_def fail_running_def)
  subgoal by (auto simp: PlanMonitoringCheck_def Let_def split: option.splits sum.splits if_splits)
  subgoal by (erule CompleteMonitoringCheckE)
      (simp add: open_findings_frame [unfolded same_core_def] cleanupMonitoringChecksTx_def activateRetentionAfterCheckTx_def Let_def)
  subgoal by (auto simp: FailMonitoringCheck_def Let_def)
  done

lemma PutProfile_valid:
  assumes "PutProfile p c = Inr (r, c')" "\<forall>q \<in> set (profiles c). Profile_Validate q = Inr ()"
  shows "\<forall>q \<in> set (profiles c'). Profile_Validate q = Inr ()"
  using assms by (auto simp: PutProfile_def set_update_where split: sum.splits if_splits)

lemmas profile_frames = operation_profiles deposit_profiles automation_profiles setup_profiles alarm_profiles check_profiles

lemma store_step_profiles:
  assumes "store_step E c c'" "\<forall>p \<in> set (profiles c). Profile_Validate p = Inr ()"
  shows "\<forall>p \<in> set (profiles c'). Profile_Validate p = Inr ()"
  using assms by (induction rule: store_step.induct) (erule (1) PutProfile_valid | drule profile_frames, simp only:)+

subsection \<open>Rows\<close>

lemma typed_deposit: "same_deposit b b' \<Longrightarrow> typed_row b \<Longrightarrow> typed_row b'"
  by (simp add: same_deposit_def typed_row_def)

lemma moves_typed:
  assumes "moves c c'" "\<forall>b \<in> set (backups c). typed_row b" "\<forall>b \<in> set (drop (length (backups c)) (backups c')). typed_row b"
  shows "\<forall>b \<in> set (backups c'). typed_row b"
proof -
  let ?n = "length (backups c)"
  have "list_all2 (\<lambda>b b'. same_deposit b b') (backups c) (take ?n (backups c'))"
    using assms(1) unfolding moves_def by (auto elim: list_all2_mono)
  then have "\<forall>b \<in> set (take ?n (backups c')). typed_row b" using assms(2) typed_deposit by (fastforce simp: list_all2_conv_all_nth in_set_conv_nth)
  moreover have "set (backups c') = set (take ?n (backups c')) \<union> set (drop ?n (backups c'))" by (metis append_take_drop_id set_append)
  ultimately show ?thesis using assms(3) by blast
qed

lemma Profile_limit: "Profile_Validate p = Inr () \<Longrightarrow> MaxBackupBytes p \<le> 2 ^ 60"
  by (auto simp: Profile_Validate_def split: if_splits)

lemma authenticate_profile: "authenticate E c t = Some (k, p) \<Longrightarrow> p \<in> set (profiles c)"
  by (auto simp: authenticate_def find_profile_def dest!: find_SomeD split: option.splits if_splits)

lemma Reserve_valid_input:
  assumes "ReserveIdempotentChecked E n t m sz d ik now ch c = Inr (b, c')"
  shows "Metadata_Validate m = Inr () \<and> 0 < sz \<and> ValidDigest d \<and> (ik = [] \<or> ValidIdempotencyKey ik)"
  using assms by (auto simp: ReserveIdempotentChecked_def split: if_splits sum.splits)

lemma Reserve_typed:
  assumes "ReserveIdempotentChecked E n t m sz d ik now ch c = Inr (b, c')" "typed c"
  shows "\<forall>b \<in> set (drop (length (backups c)) (backups c')). typed_row b"
  using assms(1)
proof (cases rule: ReserveCases)
  case (reserved keyID p i c1 ex)
  note v = Reserve_valid_input [OF assms(1)]
  have "Profile_Validate p = Inr ()" using authenticate_profile [OF reserved(1)] assms(2) by (auto simp: typed_def)
  then have "sz \<le> 2 ^ 60" using Profile_limit reserved(3) by (force simp: admitted_def)
  then have "typed_row (reservation j keyID ik m sz d now)" for j using v by (simp add: typed_row_def reservation_def)
  then show ?thesis using reserved(4,6)
    by (auto simp: store_reservation_def record_attempt_def reservation_def typed_row_def split: option.splits sum.splits if_splits)
qed simp

lemma store_step_typed:
  assumes "store_step E c c'" "typed c"
  shows "typed c'"
proof -
  have "\<forall>b \<in> set (drop (length (backups c)) (backups c')). typed_row b"
    using step_no_insert [OF assms(1)] Reserve_typed assms(2) by (auto simp del: drop_eq_Nil)
  then show ?thesis using store_step_profiles [OF assms(1)] moves_typed [OF store_step_moves [OF assms(1)]] assms(2) by (auto simp: typed_def)
qed

lemma Init_typed: "typed Init"
  by (simp add: typed_def Init_def) code_simp

interpretation store_types: machine Init "store_step E" typed
  by unfold_locales (auto intro: Init_typed store_step_typed)

text \<open>C18. The catalogue is well typed. In every state the store can reach, whatever was sent to it, every profile passes its
  validation and every row of backups has a size between 1 and 2^60 bytes, a SHA-256 in lower-case hexadecimal, valid metadata
  and a valid or absent idempotency key.\<close>

theorem catalogue_well_typed:
  assumes "reachable E c"
  shows "(\<forall>p \<in> set (profiles c). Profile_Validate p = Inr ()) \<and> (\<forall>b \<in> set (backups c). typed_row b)"
  using store_types.reachable_inv [OF assms] by (simp add: typed_def)

end
