(* ===== verification/Server_Refinement.thy ===== *)
theory Server_Refinement
  imports Ingest_Safety Store_Types
begin

text \<open>
  The whole server refines the store: whatever the writer, its uploads, crashes, reconciliation and maintenance do,
  the catalogue moves only by operations of the store. So everything shown of runs of the store holds
  of the server's catalogue.
\<close>

lemma commit_steps:
  "(store_step E)\<^sup>*\<^sup>* c (snd (commit out (Complete E i now c) c))" "(store_step E)\<^sup>*\<^sup>* c (snd (commit out (Fail E i re now c) c))"
  using commit_cases [of out "Complete E i now c" c] commit_cases [of out "Fail E i re now c" c]
  by (metis r_into_rtranclp rtranclp.rtrancl_refl store_step.Complete store_step.Fail)+

lemma settle_steps:
  assumes "settle E F now b w = (e, w')"
  shows "(store_step E)\<^sup>*\<^sup>* (cat w) (cat w')"
  using settle_cases [OF assms] commit_steps by auto

lemma reconcile_rows_steps:
  assumes "reconcile_rows E F now bs w = (e, w')"
  shows "(store_step E)\<^sup>*\<^sup>* (cat w) (cat w')"
  using assms
proof (induction bs arbitrary: w)
  case (Cons b bs)
  obtain e1 w1 where s1: "settle E F now b w = (e1, w1)" by (metis prod.collapse)
  obtain e2 w2 where s2: "drop_staging (CallRemove (b_id b)) F (staging (b_id b)) w1 = (e2, w2)" by (metis prod.collapse)
  note k1 = settle_steps [OF s1]
  have k2: "cat w2 = cat w1" using s2 by (auto simp: drop_staging_def split: if_splits sum.splits)
  from Cons.prems s1 s2 have "w' = w1 \<or> w' = w2 \<or> reconcile_rows E F now bs w2 = (e, w')" by (auto split: option.splits)
  then show ?case using k1 k2 Cons.IH [of w2] by auto
qed simp

lemma Reconcile_steps:
  assumes "Reconcile E F now w = (e, w')"
  shows "(store_step E)\<^sup>*\<^sup>* (cat w) (cat w')"
proof -
  obtain e1 w1 where r1: "reconcile_rows E F now (Pending (cat w)) w = (e1, w1)" by (metis prod.collapse)
  obtain e2 w2 where r2: "reconcile_entries F (sort (ReadDir Incoming (disk_of w1))) w1 = (e2, w2)" by (metis prod.collapse)
  have "cat w' = cat w1" using assms r1 r2 reconcile_entries_cat [OF r2] by (auto simp: Reconcile_def split: option.split_asm if_split_asm)
  then show ?thesis using reconcile_rows_steps [OF r1] by simp
qed

lemma server_step_store: "server_step E w w' \<Longrightarrow> server_inv E w \<Longrightarrow> (store_step E)\<^sup>*\<^sup>* (cat w) (cat w')"
proof (induction rule: server_step.induct)
  case (Request w dec newID st rf now r res w')
  from ServeHTTP_cases [OF Request(2)] consider "w' = w" | b c t m sz d ik where
    "ReserveIdempotentChecked E newID t m sz d ik now (Some (checkDisk st rf)) (cat w) = Inr (b, c)" "cat w' = c"
    by (auto split: if_splits)
  then show ?case by cases (auto dest: store_step.Reserve)
next
  case (Receive k w inp u w')
  then show ?case using Receive_cat [OF Receive(2)] commit_steps by auto
next
  case (Abort k w reason out now u w')
  then show ?case using commit_steps(2) by (auto simp: Abort_def Let_def)
next
  case (Reconcile w F now res w')
  then show ?case using Reconcile_steps by simp
next
  case (Maintain w t n)
  obtain t' c' where tk: "talk E n t (disk_of w) (cat w) = (t', c')" by (metis prod.collapse)
  have "core_inv (cat w)" using Maintain(2) by (simp add: server_inv_def)
  then have "(store_step E)\<^sup>*\<^sup>* (cat w) c'" using talk_quiet [OF tk] unfolding quiet_def by auto
  then show ?case using tk by (auto simp: processOperations_def split: prod.split)
qed (auto simp: killed_def)

interpretation server_catalogue: history new_world "server_step E" "server_inv E" "\<lambda>w w'. (store_step E)\<^sup>*\<^sup>* (cat w) (cat w')"
  by unfold_locales (auto intro: new_world_inv server_step_inv server_step_store)

lemma server_reaches: "server_run E w \<Longrightarrow> reachable E (cat w)"
  using server_catalogue.between [of E new_world w] by (simp add: new_world_def)


end
