(* ===== verification/Recover_Command.thy ===== *)
theory Recover_Command
  imports Recovery Server_Refinement
begin

text \<open>
  The command onlybackup-recover, cmd/onlybackup-recover: what it recovers is named by a catalogue and an identifier
  or by a receipt and an archive, and it verifies, exports or decrypts it. Parsing of the arguments and the JSON it prints are
  not modelled: the flags and the reported values are records. What JSON decoding makes of a receipt file is an
  argument. Shown against the whole server: every backup it has not been told to move is verified and exported byte
  by byte.
\<close>

record recovery_target =
  rt_id :: string
  rt_source :: string
  rt_size :: int
  rt_sha256 :: string
  rt_format :: string
  rt_name :: string

datatype decoded_receipt = BadReceipt | TrailingData | DecodedReceipt receipt

definition targetFromReceipt :: "faults \<Rightarrow> (string \<Rightarrow> decoded_receipt) \<Rightarrow> string \<Rightarrow> string \<Rightarrow> files \<Rightarrow> io_error + recovery_target" where
  "targetFromReceipt F dec receiptPath archivePath fs =
     (case OpenRegular (F OpenReceipt) receiptPath fs of Inl e \<Rightarrow> Inl e
      | Inr f \<Rightarrow>
        if F StatReceipt \<noteq> None \<or> lf_bytes f = [] \<or> length (lf_bytes f) > 64 * 1024 then Inl (IOError ''dimensione della ricevuta non valida'')
        else (case dec (lf_bytes f) of
            BadReceipt \<Rightarrow> Inl (IOError ''ricevuta JSON non valida'')
          | TrailingData \<Rightarrow> Inl (IOError ''ricevuta con dati aggiuntivi'')
          | DecodedReceipt r \<Rightarrow>
              if \<not> ValidID (rc_id r) \<or> rc_status r \<noteq> BackupComplete \<or> rc_size r \<le> 0 \<or> \<not> ValidDigest (rc_sha256 r)
              then Inl (IOError ''ricevuta incompleta o non valida'')
              else (case rc_received_at r of
                  Stamp _ \<Rightarrow> Inr \<lparr>rt_id = rc_id r, rt_source = archivePath, rt_size = rc_size r, rt_sha256 = rc_sha256 r, rt_format = [], rt_name = []\<rparr>
                | _ \<Rightarrow> Inl (IOError ''data della ricevuta non valida''))))"

definition archive_path :: "string \<Rightarrow> string \<Rightarrow> string" where
  "archive_path dir i = dir @ ''/archives/backups/'' @ i @ ''.backup''"

fun status_refusal :: "status \<Rightarrow> string" where
  "status_refusal BackupDeleting = ''backup con richiesta di quarantena pendente; annullarla dalla console amministrativa''"
| "status_refusal BackupQuarantined = ''backup recuperabile dalla quarantena tramite onlybackup-admin quarantena''"
| "status_refusal BackupPurging = ''backup in eliminazione definitiva; recupero non disponibile''"
| "status_refusal BackupDeleted = ''backup eliminato definitivamente; rimane solo lo storico di catalogo''"
| "status_refusal _ = ''backup non disponibile per il recupero''"

definition targetFromState :: "faults \<Rightarrow> catalog \<Rightarrow> string \<Rightarrow> string \<Rightarrow> io_error + recovery_target" where
  "targetFromState F c dir i =
     (case F OpenState of Some e \<Rightarrow> Inl e
      | None \<Rightarrow> (case find_backup c i of None \<Rightarrow> Inl (IOError (error_text ErrNoRows))
          | Some b \<Rightarrow> if b_status b \<noteq> BackupComplete then Inl (IOError (status_refusal (b_status b)))
              else Inr \<lparr>rt_id = b_id b, rt_source = archive_path dir (b_id b), rt_size = b_size b, rt_sha256 = b_sha256 b,
                     rt_format = ContentFormat (b_metadata b), rt_name = OriginalName (b_metadata b)\<rparr>))"

record recover_flags =
  rf_state :: string
  rf_id :: string
  rf_receipt :: string
  rf_archive :: string
  rf_out :: string
  rf_identity :: string

record recover_report =
  rr_id :: string
  rr_format :: string
  rr_decrypted :: bool
  rr_name :: string
  rr_output :: string

definition recover_target :: "faults \<Rightarrow> (string \<Rightarrow> decoded_receipt) \<Rightarrow> catalog \<Rightarrow> recover_flags \<Rightarrow> files \<Rightarrow> io_error + recovery_target" where
  "recover_target F dec c a fs =
     (if rf_receipt a \<noteq> [] \<or> rf_archive a \<noteq> []
      then (if rf_receipt a = [] \<or> rf_archive a = [] then Inl (IOError ''usare insieme --receipt e --archive'')
            else (case targetFromReceipt F dec (rf_receipt a) (rf_archive a) fs of Inl e \<Rightarrow> Inl e
              | Inr t \<Rightarrow> if rf_id a \<noteq> [] \<and> rf_id a \<noteq> rt_id t then Inl (IOError ''ID richiesto diverso dalla ricevuta'') else Inr t))
      else if \<not> ValidID (rf_id a) then Inl (IOError ''ID backup non valido'')
      else targetFromState F c (rf_state a) (rf_id a))"

definition run_recover :: "('r, 'i) age \<Rightarrow> env \<Rightarrow> faults \<Rightarrow> (string \<Rightarrow> decoded_receipt) \<Rightarrow> string \<Rightarrow> string \<Rightarrow> catalog \<Rightarrow> recover_flags \<Rightarrow> files
    \<Rightarrow> (io_error + recover_report) \<times> files" where
  "run_recover A E F dec temp1 temp2 c a fs =
     (case recover_target F dec c a fs of Inl e \<Rightarrow> (Inl e, fs)
      | Inr t \<Rightarrow>
        if rf_identity a \<noteq> [] \<and> rt_format t \<noteq> [] \<and> rt_format t \<noteq> ContentFormatAgeV1
        then (Inl (IOError ''--identity-file richiede un backup con content_format age-v1''), fs)
        else if rf_identity a \<noteq> [] \<and> rf_out a = [] then (Inl (IOError ''--identity-file richiede --out''), fs)
        else (let (err, fs') =
            (if rf_out a = [] then (Verify_file E F (rt_source t) (rt_size t) (rt_sha256 t) fs, fs)
             else Recover_file A E F temp1 temp2 (rt_source t) (rf_out a) (rt_size t) (rt_sha256 t) (rf_identity a) fs)
          in (case err of Some e \<Rightarrow> Inl e
              | None \<Rightarrow> Inr \<lparr>rr_id = rt_id t,
                  rr_format = (if (rf_receipt a \<noteq> [] \<or> rf_archive a \<noteq> []) \<and> rf_identity a \<noteq> [] then ContentFormatAgeV1 else rt_format t),
                  rr_decrypted = (rf_identity a \<noteq> []), rr_name = rt_name t, rr_output = rf_out a\<rparr>, fs')))"

subsection \<open>Recovery from the server\<close>

text \<open>Where the files of the command's machine are those of the server's archive.\<close>

definition shows_archive :: "string \<Rightarrow> string \<Rightarrow> disk \<Rightarrow> files \<Rightarrow> bool" where
  "shows_archive dir i d fs \<longleftrightarrow> (\<forall>s. bytes_at (final i) d = Some s \<longrightarrow> (\<exists>f. file_at (archive_path dir i) fs = Some (LocalFile f) \<and> lf_bytes f = s))"

lemma Verify_file_sound:
  assumes "file_at src fs = Some (LocalFile f)" "int (length (lf_bytes f)) = sz" "TokenHash E (lf_bytes f) = digest" "0 < sz" "sz \<le> 2 ^ 60" "ValidDigest digest"
  shows "Verify_file E (\<lambda>_. None) src sz digest fs = None"
proof -
  have "validateExpected sz digest = None" using assms(4-6) by (simp add: validateExpected_iff maxArchivedBytes_def)
  then show ?thesis using assms(1) content_error_None [OF assms(2,3)] by (simp add: Verify_file_def)
qed

lemma Recover_raw:
  assumes "file_at src fs = Some (LocalFile f)" "int (length (lf_bytes f)) = sz" "TokenHash E (lf_bytes f) = digest" "0 < sz" "sz \<le> 2 ^ 60" "ValidDigest digest"
    and "out \<noteq> []" "t1 \<noteq> out" "file_at t1 fs = None" "file_at out fs = None"
  shows "\<exists>fs'. Recover_file A E (\<lambda>_. None) t1 t2 src out sz digest [] fs = (None, fs') \<and> file_at out fs' = Some (private_file (lf_bytes f))
    \<and> (\<forall>q. q \<noteq> out \<longrightarrow> file_at q fs' = file_at q fs)"
proof -
  let ?fs1 = "AList.update t1 (private_file []) fs" and ?s = "lf_bytes f"
  have v: "validateExpected sz digest = None" using assms(4-6) by (simp add: validateExpected_iff maxArchivedBytes_def)
  have "src \<noteq> t1" using assms(1,9) by auto
  then have cv: "copy_verified E (\<lambda>_. None) t1 src sz digest ?fs1 = (Inr ?s, write_file t1 ?s ?fs1)"
    using content_error_None [OF assms(2,3)] assms(1) by (simp add: copy_verified_def Let_def)
  have "publish (\<lambda>_. None) t1 out (write_file t1 ?s ?fs1) = (None, AList.update out (private_file ?s) (write_file t1 ?s ?fs1))"
    by (rule publish_fresh) (use assms(8,10) in simp_all)
  then have "Recover_file A E (\<lambda>_. None) t1 t2 src out sz digest [] fs = (None, discard None t1 (AList.update out (private_file ?s) (write_file t1 ?s ?fs1)))"
    using assms(7,9) v cv by (simp add: Recover_file_def)
  then show ?thesis using assms(8,9) by auto
qed

lemma stored_archive:
  assumes "server_run E w" "b \<in> set (backups (cat w))" "b_status b = BackupComplete" "uncommitted (cat w) (b_id b) (\<lambda>_. True)"
    and "d = disk_of w \<or> power_loss (disk_of w) d"
  shows "\<exists>s. bytes_at (final (b_id b)) d = Some s \<and> int (length s) = b_size b \<and> TokenHash E s = b_sha256 b"
proof -
  have "uncommitted (cat w) (b_id b) (\<lambda>k. k = Purge)" using assms(4) by (auto simp: uncommitted_def)
  then have k: "kept E (disk_of w) (b_id b) (b_size b) (b_sha256 b)" using row_kept [OF assms(1,2)] assms(3) by (simp add: in_transfer_def)
  have "stored E d (b_id b) (b_size b) (b_sha256 b)" using untouched_stored [OF assms(1) k assms(4)] assms(5) power_loss_stored by blast
  then obtain n where n: "holds_at (final (b_id b)) d = {Some (Regular n)}" "sound E d n (b_size b) (b_sha256 b)" by (auto simp: stored_def)
  then have "Lstat (final (b_id b)) d = Some (Regular n)" using holds_Lstat [of "final (b_id b)" d] by auto
  then show ?thesis using sound_bytes [OF n(2)] by blast
qed

lemma found_row:
  assumes "server_run E w" "b \<in> set (backups (cat w))"
  shows "find_backup (cat w) (b_id b) = Some b" "typed_row b"
proof -
  have "core_inv (cat w)" using server.reachable_inv [OF assms(1)] by (simp add: server_inv_def)
  then have "distinct (map b_id (backups (cat w)))" by (simp add: core_inv_def)
  then show "find_backup (cat w) (b_id b) = Some b" using assms(2) by (simp add: find_backup_def find_Some_iff_distinct)
  show "typed_row b" using store_types.reachable_inv [OF server_reaches [OF assms(1)]] assms(2) by (simp add: typed_def)
qed

text \<open>C12. Every received backup can be recovered. Take any state the server can reach, or what a power loss leaves of its disk, and a complete
  backup no retention operation was permitted for. If every call of onlybackup-recover works, it verifies the backup and it exports it: the
  destination, which did not exist, then holds bytes with exactly the size and SHA-256 of the catalogue, the content of the archived
  file, and no other file has changed.\<close>

theorem received_backups_recover:
  assumes "server_run E w" "b \<in> set (backups (cat w))" "b_status b = BackupComplete" "uncommitted (cat w) (b_id b) (\<lambda>_. True)"
    and "d = disk_of w \<or> power_loss (disk_of w) d" "ValidID (b_id b)" "shows_archive dir (b_id b) d fs"
    and "out \<noteq> []" "t1 \<noteq> out" "file_at t1 fs = None" "file_at out fs = None"
    and "a = \<lparr>rf_state = dir, rf_id = b_id b, rf_receipt = [], rf_archive = [], rf_out = [], rf_identity = []\<rparr>"
  shows "\<exists>s r fs'. bytes_at (final (b_id b)) d = Some s \<and> int (length s) = b_size b \<and> TokenHash E s = b_sha256 b
    \<and> run_recover A E (\<lambda>_. None) dec t1 t2 (cat w) a fs = (Inr r, fs)
    \<and> run_recover A E (\<lambda>_. None) dec t1 t2 (cat w) (a\<lparr>rf_out := out\<rparr>) fs = (Inr (r\<lparr>rr_output := out\<rparr>), fs')
    \<and> file_at out fs' = Some (private_file s) \<and> (\<forall>q. q \<noteq> out \<longrightarrow> file_at q fs' = file_at q fs)"
proof -
  obtain s where s: "bytes_at (final (b_id b)) d = Some s" "int (length s) = b_size b" "TokenHash E s = b_sha256 b"
    using stored_archive [OF assms(1-5)] by blast
  then obtain f where f: "file_at (archive_path dir (b_id b)) fs = Some (LocalFile f)" "lf_bytes f = s" using assms(7) by (auto simp: shows_archive_def)
  have ty: "0 < b_size b" "b_size b \<le> 2 ^ 60" "ValidDigest (b_sha256 b)" using found_row(2) [OF assms(1,2)] by (simp_all add: typed_row_def)
  have l: "int (length (lf_bytes f)) = b_size b" "TokenHash E (lf_bytes f) = b_sha256 b" using s f by simp_all
  obtain fs' where r: "Recover_file A E (\<lambda>_. None) t1 t2 (archive_path dir (b_id b)) out (b_size b) (b_sha256 b) [] fs = (None, fs')"
    "file_at out fs' = Some (private_file s)" "\<forall>q. q \<noteq> out \<longrightarrow> file_at q fs' = file_at q fs"
    using Recover_raw [OF f(1) l ty assms(8-11), of A t2] f(2) by auto
  have v: "Verify_file E (\<lambda>_. None) (archive_path dir (b_id b)) (b_size b) (b_sha256 b) fs = None" by (rule Verify_file_sound [OF f(1) l ty])
  let ?r = "\<lparr>rr_id = b_id b, rr_format = ContentFormat (b_metadata b), rr_decrypted = False, rr_name = OriginalName (b_metadata b), rr_output = []\<rparr>"
  have "run_recover A E (\<lambda>_. None) dec t1 t2 (cat w) a fs = (Inr ?r, fs)"
    "run_recover A E (\<lambda>_. None) dec t1 t2 (cat w) (a\<lparr>rf_out := out\<rparr>) fs = (Inr (?r\<lparr>rr_output := out\<rparr>), fs')"
    using found_row(1) [OF assms(1,2)] v r(1) assms(3,6,8,12) by (simp_all add: run_recover_def recover_target_def targetFromState_def)
  then show ?thesis using s r(2,3) by blast
qed

end
