(* ===== verification/Cycle_Properties.thy ===== *)
theory Cycle_Properties
  imports Cycle Recover_Command
begin

text \<open>
  What every cycle of maintenance does, whatever it is told. A weakest precondition for the programs of Cycle carries the
  proofs; runs are lists of answers. Shown: a cycle ends, its lease and its check are always closed, and automatic
  requests are made only for copies the policy admits and with retention open.
\<close>

subsection \<open>Runs and weakest preconditions\<close>

type_synonym trace = "(ask \<times> told) list"

fun run_prog :: "'a prog \<Rightarrow> told list \<Rightarrow> trace \<times> 'a option" where
  "run_prog (Finish x) rs = ([], Some x)"
| "run_prog (Ask q k) [] = ([], None)"
| "run_prog (Ask q k) (r # rs) = (let (tr, x) = run_prog (k r) rs in ((q, r) # tr, x))"

text \<open>A program ends whatever it is told.\<close>

lemma run_prog_ends: "\<exists>n tr x. run_prog p (map answers [0..<n]) = (tr, Some x)"
proof (induction p arbitrary: answers)
  case (Finish x)
  show ?case by simp
next
  case (Ask q k)
  obtain n tr x where run: "run_prog (k (answers 0)) (map (answers \<circ> Suc) [0..<n]) = (tr, Some x)" using Ask [OF rangeI] by blast
  have "map answers [0..<Suc n] = answers 0 # map (answers \<circ> Suc) [0..<n]" by (simp only: upt_conv_Cons map_Suc_upt [symmetric] zero_less_Suc list.map map_map)
  then have "run_prog (Ask q k) (map answers [0..<Suc n]) = ((q, answers 0) # tr, Some x)" using run by (simp del: upt_Suc)
  then show ?case by blast
qed

text \<open>\<open>P\<close> restricts what may be asked after a history, latest first; \<open>Q\<close> is what holds at the end.\<close>

primrec wp :: "(trace \<Rightarrow> ask \<Rightarrow> bool) \<Rightarrow> 'a prog \<Rightarrow> ('a \<Rightarrow> trace \<Rightarrow> bool) \<Rightarrow> trace \<Rightarrow> bool" where
  "wp P (Finish x) Q h \<longleftrightarrow> Q x h"
| "wp P (Ask q k) Q h \<longleftrightarrow> P h q \<and> (\<forall>r. wp P (k r) Q ((q, r) # h))"

lemma wp_run:
  assumes "wp P p Q h" "run_prog p rs = (tr, x)"
  shows "(\<forall>i < length tr. P (rev (take i tr) @ h) (fst (tr ! i))) \<and> (\<forall>y. x = Some y \<longrightarrow> Q y (rev tr @ h))"
  using assms
proof (induction p rs arbitrary: h tr rule: run_prog.induct)
  case (3 q k r rs)
  obtain tr' where tr: "tr = (q, r) # tr'" and run: "run_prog (k r) rs = (tr', x)" using 3(3) by (auto split: prod.splits)
  have w: "wp P (k r) Q ((q, r) # h)" and p: "P h q" using 3(2) by simp_all
  have "P (rev (take i tr) @ h) (fst (tr ! i))" if "i < length tr" for i
    using p 3(1) [OF w run] that tr by (cases i) simp_all
  then show ?case using 3(1) [OF w run] tr by simp
qed auto

lemma wp_bind [simp]: "wp P (bind_prog p f) Q h = wp P p (\<lambda>x. wp P (f x) Q) h"
  by (induction p arbitrary: h) simp_all

lemma wp_mono: "wp P p Q h \<Longrightarrow> (\<And>x h'. Q x h' \<Longrightarrow> R x h') \<Longrightarrow> wp P p R h"
  by (induction p arbitrary: h) auto

lemma wp_conj: "wp P p Q h \<Longrightarrow> wp P p R h \<Longrightarrow> wp P p (\<lambda>x h'. Q x h' \<and> R x h') h"
  by (induction p arbitrary: h) auto

primrec asks_only :: "(ask \<Rightarrow> bool) \<Rightarrow> 'a prog \<Rightarrow> bool" where
  "asks_only S (Finish x) \<longleftrightarrow> True"
| "asks_only S (Ask q k) \<longleftrightarrow> S q \<and> (\<forall>r. asks_only S (k r))"

lemma asks_only_bind: "asks_only S p \<Longrightarrow> (\<And>x. asks_only S (f x)) \<Longrightarrow> asks_only S (bind_prog p f)"
  by (induction p) simp_all

lemma asks_only_and_then: "asks_only S p \<Longrightarrow> (\<And>x. asks_only S (f x)) \<Longrightarrow> asks_only S (and_then p f)"
  unfolding and_then_def by (intro asks_only_bind) (simp_all split: sum.splits)

lemma asks_only_proceed: "asks_only S p \<Longrightarrow> (\<And>x. asks_only S (f x)) \<Longrightarrow> (\<And>e. asks_only S (stop e)) \<Longrightarrow> asks_only S (proceed stop p f)"
  unfolding proceed_def by (intro asks_only_bind) (simp_all split: sum.splits)

lemma asks_only_for_each: "(\<And>x. x \<in> set xs \<Longrightarrow> asks_only S (f x)) \<Longrightarrow> asks_only S (for_each f xs)"
  by (induction xs) (simp_all add: asks_only_and_then)

lemma asks_only_basic [simp]:
  "asks_only S (ask_for v q) \<longleftrightarrow> S q" "asks_only S (ask_done q) \<longleftrightarrow> S q" "asks_only S ask_snapshot \<longleftrightarrow> S ReadSnapshot"
  "asks_only S (ask_findings q) \<longleftrightarrow> S q" "asks_only S (ignoring q x) \<longleftrightarrow> S q" "asks_only S (lift_error y)" "asks_only S (stopped c st e)"
  by (simp_all add: ask_for_def ask_done_def ask_snapshot_def ask_findings_def ignoring_def lift_error_def stopped_def)

lemmas asks_intros = asks_only_bind asks_only_and_then asks_only_proceed asks_only_for_each

text \<open>A program whose questions keep an invariant of the history.\<close>

lemma wp_inv:
  assumes "asks_only S p" "I h" "\<And>h q. I h \<Longrightarrow> S q \<Longrightarrow> P h q" "\<And>h q r. I h \<Longrightarrow> S q \<Longrightarrow> I ((q, r) # h)" "\<And>x h. I h \<Longrightarrow> Q x h"
  shows "wp P p Q h"
  using assms(1,2) by (induction p arbitrary: h) (simp_all add: assms(3-5))

lemma wp_proceed: "wp P (proceed stop p f) Q h = wp P p (\<lambda>x. case x of Inl e \<Rightarrow> wp P (stop e) Q | Inr a \<Rightarrow> wp P (f a) Q) h"
  unfolding proceed_def wp_bind by (rule arg_cong [of _ _ "\<lambda>R. wp P p R h"]) (auto simp: fun_eq_iff split: sum.splits)

lemma wp_ask_for:
  "wp P (ask_for v q) Q h \<longleftrightarrow> P h q \<and> (\<forall>r. Q (case r of Failed e \<Rightarrow> Inl e | _ \<Rightarrow> (case v r of None \<Rightarrow> Inl no_answer | Some x \<Rightarrow> Inr x)) ((q, r) # h))"
  by (simp add: ask_for_def)

subsection \<open>What the parts ask\<close>

definition retention_ask :: "ask \<Rightarrow> bool" where
  "retention_ask q \<longleftrightarrow> (case q of Call (PurgeRequest _) \<Rightarrow> True | Call (QuarantineRequest _) \<Rightarrow> True | _ \<Rightarrow> False)"

definition calm :: "ask \<Rightarrow> bool" where
  "calm q \<longleftrightarrow> (case q of
       Call r \<Rightarrow> (case r of ModelSave _ \<Rightarrow> True | CheckPlan _ \<Rightarrow> True | AnomalyOpen _ \<Rightarrow> True | AnomalyResolve _ \<Rightarrow> True | ClearBlock _ \<Rightarrow> True
         | ReportQueue _ \<Rightarrow> True | ReconcileRoute _ \<Rightarrow> True | MailConfirm _ \<Rightarrow> True | _ \<Rightarrow> False)
     | ReadSnapshot \<Rightarrow> False | LockExecution \<Rightarrow> False | _ \<Rightarrow> True)"

definition inner :: "ask \<Rightarrow> bool" where
  "inner q \<longleftrightarrow> calm q \<or> q = ReadSnapshot \<or> retention_ask q \<or> (\<exists>b. q = Call (CheckComplete b))"

lemma asks_only_weaken: "asks_only S p \<Longrightarrow> (\<And>q. S q \<Longrightarrow> T q) \<Longrightarrow> asks_only T p"
  by (induction p) auto

lemma calm_learn_keys: "asks_only calm (learn_keys M tz sn revision now ks known rel n)"
proof (induction ks arbitrary: known rel n)
  case (Cons k ks)
  then show ?case by (auto intro!: asks_intros simp: Let_def calm_def split: option.splits)
qed simp

lemma calm_monitor: "asks_only calm (monitor M tz sn i now)"
  unfolding monitor_def ask_plan_def Let_def by (auto intro!: asks_intros calm_learn_keys simp: calm_def)

lemma calm_local: "asks_only calm (saveLocalState st)" "asks_only calm reconcileWriterFailure" "asks_only calm (reconcile l ops)"
  "asks_only calm (recordFindings sn fs)" "asks_only calm (remind now as)" "asks_only calm (report_when_due now ast)"
  by (auto intro!: asks_intros simp: saveLocalState_def reconcileWriterFailure_def reconcile_def recordFindings_def remind_def report_when_due_def
      Let_def calm_def shortfall_report_def split: told.splits)

lemma calm_mail: "asks_only calm (deliverMail st)"
proof -
  have "asks_only calm (deliver_one st m)" for m
    unfolding deliver_one_def Let_def by (auto intro!: asks_intros simp: calm_def smtp_finding_def split: told.splits)
  then show ?thesis unfolding deliverMail_def by (auto intro!: asks_intros simp: calm_def)
qed

text \<open>What schedulePurges and scheduleAutomatic request.\<close>

definition purges :: "tzdb \<Rightarrow> string \<Rightarrow> snapshot \<Rightarrow> time \<Rightarrow> ask \<Rightarrow> bool" where
  "purges tz own sn now q \<longleftrightarrow> (\<exists>b \<in> set (recoverableBackups sn). q = Call (PurgeRequest (Inr (b_id b, ''automatic'', own, ''quarantena minima completata'')))
     \<and> may_purge sn now b \<and> protected_in tz sn now b = (False, None))"

definition quarantines :: "tzdb \<Rightarrow> string \<Rightarrow> snapshot \<Rightarrow> filesystem \<Rightarrow> u64 \<Rightarrow> time \<Rightarrow> ask \<Rightarrow> bool" where
  "quarantines tz own sn fs expected48h now q \<longleftrightarrow> (\<exists>s. selection_of tz sn fs expected48h now = Inr s \<and>
     (\<exists>b \<in> set (Candidates s). \<exists>why. q = Call (QuarantineRequest (Inr (b_id b, ''automatic'', own, why)))))"

lemma asks_schedulePurges: "asks_only (purges tz own sn now) (schedulePurges tz own sn now)"
proof -
  have "asks_only (purges tz own sn now) (purge_all tz own sn now bs)" if "set bs \<subseteq> set (recoverableBackups sn)" for bs
    using that by (induction bs) (auto simp: purges_def split: prod.splits option.splits bool.splits told.splits)
  then show ?thesis by (simp add: schedulePurges_def)
qed

lemma asks_scheduleAutomatic: "asks_only (\<lambda>q. quarantines tz own sn fs e now q \<or> calm q) (scheduleAutomatic tz own sn fs e now)"
proof (cases "selection_of tz sn fs e now")
  case (Inl x)
  then show ?thesis by (simp add: scheduleAutomatic_def lift_error_def and_then_def)
next
  case (Inr s)
  show ?thesis unfolding scheduleAutomatic_def Inr lift_error_def
    by (subst and_then_def) (auto intro!: asks_intros simp: quarantines_def Inr calm_def shortfall_report_def)
qed

lemma inner_schedules: "asks_only inner (schedulePurges tz own sn now)" "asks_only inner (scheduleAutomatic tz own sn fs e now)"
  by (rule asks_only_weaken [OF asks_schedulePurges], force simp: purges_def inner_def retention_ask_def)
    (rule asks_only_weaken [OF asks_scheduleAutomatic], force simp: quarantines_def inner_def retention_ask_def)

lemma inner_calm: "asks_only calm p \<Longrightarrow> asks_only inner p"
  by (rule asks_only_weaken, assumption) (simp add: inner_def)

lemma inner_act: "asks_only inner (act tz own sn fs finds e now)"
proof -
  have "asks_only inner (schedule tz own sn fs e now)" for sn
    unfolding schedule_def by (auto intro!: asks_intros inner_schedules)
  then have "asks_only inner (decide tz own sn fs e now)" for sn
    unfolding decide_def execute_work_def Let_def
    by (auto intro!: asks_intros inner_calm [OF calm_local(5)] inner_calm [OF calm_local(6)] simp: inner_def calm_def)
  then show ?thesis unfolding act_def Let_def
    by (auto intro!: asks_intros inner_calm [OF calm_local(4)] simp: inner_def calm_def)
qed

lemma inner_evaluate: "asks_only inner (evaluate M tz own i now sn fs finds)"
  unfolding evaluate_def Let_def
  by (auto intro!: asks_intros inner_calm [OF calm_monitor] inner_act simp: completion_def inner_def)

lemma inner_cycle: "asks_only inner (cycle M tz own l check)"
proof -
  have "asks_only inner (inspect M tz own i now sn)" for i now sn
    unfolding inspect_def Let_def
    by (auto intro!: asks_intros inner_evaluate simp: filesystem_finding_def inner_def calm_def split: told.splits)
  then show ?thesis unfolding cycle_def Let_def
    by (auto intro!: asks_intros inner_calm [OF calm_local(1)] inner_calm [OF calm_local(2)] inner_calm [OF calm_local(3)] simp: inner_def calm_def)
qed

subsection \<open>A cycle closes what it opens\<close>

abbreviation free :: "trace \<Rightarrow> ask \<Rightarrow> bool" where "free \<equiv> \<lambda>_ _. True"

lemma wp_free: "(\<And>x h'. Q x h') \<Longrightarrow> wp free p Q h"
  by (induction p arbitrary: h) simp_all

lemma asks_any: "asks_only (\<lambda>_. True) p"
  by (induction p) simp_all

definition completes :: "int \<Rightarrow> ask \<times> told \<Rightarrow> bool" where
  "completes i y \<longleftrightarrow> (\<exists>x. fst y = Call (CheckComplete (Inr (i, x)))) \<and> (\<forall>e. snd y \<noteq> Failed e)"

definition completed_in :: "int \<Rightarrow> trace \<Rightarrow> bool" where
  "completed_in i h \<longleftrightarrow> (\<exists>y \<in> set h. completes i y)"

definition failed_in :: "int \<Rightarrow> trace \<Rightarrow> bool" where
  "failed_in i h \<longleftrightarrow> (\<exists>s. Call (CheckFail (Inr (i, s))) \<in> fst ` set h)"

lemma completed_in_Cons: "completed_in i h \<Longrightarrow> completed_in i (y # h)"
  by (auto simp: completed_in_def)

abbreviation only_completed :: "int \<Rightarrow> reached \<Rightarrow> trace \<Rightarrow> bool" where
  "only_completed i r h \<equiv> re_completed r \<longrightarrow> completed_in i h"

lemma stops_incomplete:
  assumes "\<And>a h'. wp free (f a) (only_completed i) h'"
  shows "wp free (proceed (stopped False st) p f) (only_completed i) h"
  unfolding wp_proceed using assms by (intro wp_free) (simp add: stopped_def split: sum.splits)

lemma evaluate_completed: "wp free (evaluate M tz own i now sn fs finds) (only_completed i) h"
proof -
  have act: "wp free (act tz own sn fs fs' e now) (only_completed i) h'" if "completed_in i h'" for fs' e h'
    by (rule wp_inv [OF asks_any, where I = "completed_in i"]) (use that completed_in_Cons in auto)
  have fin: "wp free (proceed (stopped False st) (ask_done (Call (completion i fs' rel rv))) (\<lambda>_. act tz own sn fs fs' e now)) (only_completed i) h'" for st fs' rel rv e h'
  proof -
    have "completed_in i ((Call (completion i fs' rel rv), r) # h')" if "\<forall>e. r \<noteq> Failed e" for r
      using that by (simp add: completed_in_def completes_def completion_def)
    then show ?thesis unfolding wp_proceed ask_done_def wp_ask_for by (auto simp: stopped_def intro!: act split: told.splits)
  qed
  show ?thesis unfolding evaluate_def Let_def
    by (rule stops_incomplete) (simp split: prod.splits, intro allI impI conjI stops_incomplete [OF fin])
qed

lemma cycle_completed: "wp free (cycle M tz own l check) (only_completed (mc_id check)) h"
proof -
  have "wp free (inspect M tz own i now sn) (only_completed i) h'" for i now sn h'
    unfolding inspect_def Let_def by (auto intro!: stops_incomplete evaluate_completed simp: ignoring_def stopped_def split: told.splits)
  then show ?thesis unfolding cycle_def Let_def by (intro stops_incomplete)
qed

definition extends :: "(ask \<Rightarrow> bool) \<Rightarrow> trace \<Rightarrow> trace \<Rightarrow> bool" where
  "extends S h0 h \<longleftrightarrow> (\<exists>g. h = g @ h0 \<and> (\<forall>y \<in> set g. S (fst y)))"

lemma extends_refl: "extends S h h"
  by (simp add: extends_def)

lemma extends_Cons: "extends S h0 h \<Longrightarrow> S q \<Longrightarrow> extends S h0 ((q, r) # h)"
  unfolding extends_def by (metis append_Cons fst_conv set_ConsD)

lemma extends_mem: "extends S h0 h \<Longrightarrow> (q, r) \<in> set h \<Longrightarrow> \<not> S q \<Longrightarrow> (q, r) \<in> set h0"
  by (force simp: extends_def)

lemma wp_extends: "asks_only S p \<Longrightarrow> wp free p (\<lambda>x h'. extends S h h') h"
  by (rule wp_inv [where I = "extends S h" and S = S]) (auto intro: extends_refl extends_Cons)

text \<open>Everything a check can end with, and what is asked of the writer between the lease and its release.\<close>

definition check_ended :: "trace \<Rightarrow> bool" where
  "check_ended h \<longleftrightarrow> (\<forall>k. (Call CheckStart, Answered (ACheck k)) \<in> set h \<longrightarrow> completed_in (mc_id k) h \<or> failed_in (mc_id k) h)"

definition no_lease :: "ask \<Rightarrow> bool" where "no_lease q \<longleftrightarrow> (\<forall>b. q \<noteq> Call (Lease b))"

lemma inner_not: "inner q \<Longrightarrow> no_lease q \<and> q \<noteq> Call CheckStart"
  by (auto simp: inner_def calm_def retention_ask_def no_lease_def split: ask.splits maintenance_route.splits)

lemma checked_cycle_ends:
  assumes "\<forall>y \<in> set h. fst y \<noteq> Call CheckStart"
  shows "wp free (checked_cycle M tz own l) (\<lambda>r h'. extends no_lease h h' \<and> check_ended h') h"
proof -
  have cyc: "wp free (cycle M tz own l k) (\<lambda>r h'. extends inner ((Call CheckStart, Answered (ACheck k)) # h) h'
      \<and> only_completed (mc_id k) r h') ((Call CheckStart, Answered (ACheck k)) # h)" for k
    by (rule wp_conj [OF wp_extends [OF inner_cycle] cycle_completed])
  let ?h = "\<lambda>k. (Call CheckStart, Answered (ACheck k)) # h"
  have starts: "k' = k" if e: "extends inner (?h k) h'" and m: "(Call CheckStart, Answered (ACheck k')) \<in> set h'" for k k' h'
    using extends_mem [OF e m] inner_not assms by force
  have ext: "extends no_lease h h'" if e: "extends inner (?h k) h'" for k h'
  proof -
    obtain g where g: "h' = g @ ?h k" "\<forall>y \<in> set g. inner (fst y)" using e unfolding extends_def by blast
    then show ?thesis unfolding extends_def using inner_not
      by (intro exI [of _ "g @ [(Call CheckStart, Answered (ACheck k))]"]) (auto simp: no_lease_def)
  qed
  have fin: "wp free (if re_completed r then Finish r else ignoring (Call (check_failed k r)) r) (\<lambda>r h''. extends no_lease h h'' \<and> check_ended h'') h'"
    if "extends inner (?h k) h'" "only_completed (mc_id k) r h'" for k r h'
  proof (cases "re_completed r")
    case True
    then show ?thesis using ext [OF that(1)] starts [OF that(1)] that(2) by (auto simp: check_ended_def)
  next
    case False
    have "check_ended ((Call (check_failed k r), x) # h')" for x
      using starts [OF that(1)] by (auto simp: check_ended_def failed_in_def check_failed_def)
    then show ?thesis using False extends_Cons [OF ext [OF that(1)]] by (simp add: ignoring_def check_failed_def no_lease_def)
  qed
  have "wp free (bind_prog (cycle M tz own l k) (\<lambda>r. if re_completed r then Finish r else ignoring (Call (check_failed k r)) r))
      (\<lambda>r h''. extends no_lease h h'' \<and> check_ended h'') (?h k)" for k
    unfolding wp_bind by (rule wp_mono [OF cyc]) (use fin in blast)
  moreover have "extends no_lease h ((Call CheckStart, r) # h) \<and> check_ended ((Call CheckStart, r) # h)" if "\<forall>k. r \<noteq> Answered (ACheck k)" for r
    using that assms by (force simp: check_ended_def no_lease_def intro!: extends_Cons extends_refl)
  ultimately show ?thesis
    unfolding checked_cycle_def wp_proceed wp_ask_for by (auto simp: stopped_def split: told.splits answer.splits)
qed

definition mail_ask :: "ask \<Rightarrow> bool" where
  "mail_ask q \<longleftrightarrow> q = ReadDueMail \<or> (\<exists>st m. q = SendMail st m) \<or> (\<exists>b. q = Call (MailConfirm b)) \<or> (\<exists>e. q = Call (smtp_finding e))
     \<or> q = Call (AnomalyResolve (Inr ''smtp:delivery''))"

lemma asks_deliverMail: "asks_only mail_ask (deliverMail st)"
proof -
  have "asks_only mail_ask (deliver_one st m)" for m
    unfolding deliver_one_def Let_def by (auto intro!: asks_intros simp: mail_ask_def split: told.splits)
  then show ?thesis unfolding deliverMail_def by (auto intro!: asks_intros simp: mail_ask_def)
qed

definition lease_ask :: "string \<Rightarrow> ask" where "lease_ask own = Call (Lease (Inr (own, 0, maintenanceLeaseSeconds)))"

text \<open>The history of a finished cycle that got a lease, latest first: mail, the release, and what came before.\<close>

definition closed_by :: "string \<Rightarrow> trace \<Rightarrow> bool" where
  "closed_by own h \<longleftrightarrow> (\<forall>l. (lease_ask own, Answered (ALease l)) \<in> set h \<longrightarrow>
     (\<exists>r h'. extends mail_ask ((Call (LeaseRelease (Inr l)), r) # h') h \<and> check_ended h'))"

lemma no_mail_lease: "mail_ask q \<Longrightarrow> no_lease q"
  by (auto simp: mail_ask_def no_lease_def smtp_finding_def)

lemma RunOnce_closed: "wp free (RunOnce M tz own) (\<lambda>_. closed_by own) []"
proof -
  have rest: "wp free (bind_prog (checked_cycle M tz own l) (\<lambda>r. bind_prog (ignoring (Call (LeaseRelease (Inr l))) r) (\<lambda>r.
      (case re_settings r of None \<Rightarrow> Finish (re_error r)
       | Some st \<Rightarrow> bind_prog (deliverMail st) (\<lambda>m. Finish (case re_error r of Some e \<Rightarrow> Some e | None \<Rightarrow> (case m of Inl e \<Rightarrow> Some e | Inr _ \<Rightarrow> None)))))))
      (\<lambda>_. closed_by own) [(lease_ask own, Answered (ALease l)), (LockExecution, x)]" for l x
  proof -
    let ?h0 = "[(lease_ask own, Answered (ALease l)), (LockExecution, x)]"
    have closed: "closed_by own h" if h': "extends no_lease ?h0 h'" "check_ended h'" and h: "extends mail_ask ((Call (LeaseRelease (Inr l)), r) # h') h" for h h' r
    proof -
      have "l' = l" if "(lease_ask own, Answered (ALease l')) \<in> set h" for l'
      proof -
        have "(lease_ask own, Answered (ALease l')) \<in> set ((Call (LeaseRelease (Inr l)), r) # h')"
          by (rule extends_mem [OF h that]) (use no_mail_lease in \<open>auto simp: lease_ask_def no_lease_def\<close>)
        then have "(lease_ask own, Answered (ALease l')) \<in> set h'" by (simp add: lease_ask_def)
        then have "(lease_ask own, Answered (ALease l')) \<in> set ?h0" by (rule extends_mem [OF h'(1)]) (simp add: lease_ask_def no_lease_def)
        then show ?thesis by (simp add: lease_ask_def)
      qed
      then show ?thesis using h h'(2) unfolding closed_by_def by blast
    qed
    have mail: "wp free (case re_settings r of None \<Rightarrow> Finish (re_error r)
        | Some st \<Rightarrow> bind_prog (deliverMail st) (\<lambda>m. Finish (case re_error r of Some e \<Rightarrow> Some e | None \<Rightarrow> (case m of Inl e \<Rightarrow> Some e | Inr _ \<Rightarrow> None))))
        (\<lambda>_. closed_by own) ((Call (LeaseRelease (Inr l)), y) # h')" if "extends no_lease ?h0 h'" "check_ended h'" for r y h'
    proof (cases "re_settings r")
      case (Some st)
      show ?thesis unfolding Some option.case wp_bind
        by (rule wp_mono [OF wp_extends [OF asks_deliverMail]]) (simp add: closed [OF that])
    qed (simp add: closed [OF that extends_refl])
    show ?thesis unfolding wp_bind [of _ "checked_cycle M tz own l"]
      by (rule wp_mono [OF checked_cycle_ends]) (use mail in \<open>auto simp: lease_ask_def ignoring_def\<close>)
  qed
  have none: "closed_by own [(lease_ask own, r), (LockExecution, x)]" if "\<forall>l. r \<noteq> Answered (ALease l)" for r x
    using that by (auto simp: closed_by_def lease_ask_def)
  have lock: "closed_by own [(LockExecution, x)]" for x by (simp add: closed_by_def lease_ask_def)
  show ?thesis
    using rest none lock
    by (auto simp: RunOnce_def and_then_def ask_done_def ask_for_def lease_ask_def [symmetric] split: told.splits answer.splits sum.splits)
qed

lemma ended_cycle_closes:
  assumes "run_prog (RunOnce M tz own) rs = (tr, Some res)" "(lease_ask own, Answered (ALease l)) \<in> set tr"
  shows "\<exists>tr1 r tr2. tr = tr1 @ (Call (LeaseRelease (Inr l)), r) # tr2 \<and> (\<forall>y \<in> set tr2. mail_ask (fst y))
    \<and> (\<forall>k. (Call CheckStart, Answered (ACheck k)) \<in> set tr \<longrightarrow> completed_in (mc_id k) tr1 \<or> failed_in (mc_id k) tr1)"
proof -
  have "closed_by own (rev tr)" using wp_run [OF RunOnce_closed assms(1)] by simp
  then obtain r h g where h: "rev tr = g @ (Call (LeaseRelease (Inr l)), r) # h" "\<forall>y \<in> set g. mail_ask (fst y)" "check_ended h"
    using assms(2) by (auto simp: closed_by_def extends_def)
  have tr: "tr = rev h @ (Call (LeaseRelease (Inr l)), r) # rev g" using h(1) by (simp add: rev_eq_append_conv)
  have "(Call CheckStart, Answered (ACheck k)) \<in> set h" if "(Call CheckStart, Answered (ACheck k)) \<in> set tr" for k
    using that h(2) unfolding tr by (force simp: mail_ask_def smtp_finding_def)
  then have "\<forall>k. (Call CheckStart, Answered (ACheck k)) \<in> set tr \<longrightarrow> completed_in (mc_id k) (rev h) \<or> failed_in (mc_id k) (rev h)"
    using h(3) by (simp add: check_ended_def completed_in_def failed_in_def)
  then show ?thesis using h(2) tr by (intro exI [of _ "rev h"] exI [of _ r] exI [of _ "rev g"]) simp
qed

text \<open>C20. A maintenance cycle ends and closes what it opens. Whatever the writer, the files and the mail server answer, a cycle ends after finitely many
  questions; one that was given a lease ends by releasing exactly that lease and then only delivering mail; and the check it started, if it started one, was
  completed with the writer's consent or reported as failed before the release.\<close>

theorem cycle_closes_what_it_opens:
  "(\<forall>answers. \<exists>n tr res. run_prog (RunOnce M tz own) (map answers [0..<n]) = (tr, Some res))
    \<and> (\<forall>rs tr res l. run_prog (RunOnce M tz own) rs = (tr, Some res) \<and> (lease_ask own, Answered (ALease l)) \<in> set tr \<longrightarrow>
        (\<exists>tr1 r tr2. tr = tr1 @ (Call (LeaseRelease (Inr l)), r) # tr2 \<and> (\<forall>y \<in> set tr2. mail_ask (fst y))
          \<and> (\<forall>k. (Call CheckStart, Answered (ACheck k)) \<in> set tr \<longrightarrow> completed_in (mc_id k) tr1 \<or> failed_in (mc_id k) tr1)))"
proof (intro conjI allI impI, goal_cases)
  case (1 answers)
  show ?case by (rule run_prog_ends)
next
  case (2 rs tr res l)
  then show ?case using ended_cycle_closes by blast
qed

subsection \<open>Automatic requests\<close>

definition snaps :: "trace \<Rightarrow> snapshot list" where
  "snaps h = concat (map (\<lambda>(q, r). case (q, r) of (ReadSnapshot, TheSnapshot s) \<Rightarrow> [s] | _ \<Rightarrow> []) h)"

lemma snaps_Cons [simp]: "q \<noteq> ReadSnapshot \<Longrightarrow> snaps ((q, r) # h) = snaps h" "snaps ((ReadSnapshot, TheSnapshot s) # h) = s # snaps h"
  by (simp_all add: snaps_def split: ask.splits)

definition started_check :: "check_row \<Rightarrow> trace \<Rightarrow> bool" where
  "started_check k h \<longleftrightarrow> (Call CheckStart, Answered (ACheck k)) \<in> set h"

definition deciding :: "snapshot \<Rightarrow> snapshot \<Rightarrow> check_row \<Rightarrow> trace \<Rightarrow> bool" where
  "deciding st sn k h \<longleftrightarrow> (\<exists>rest. snaps h = st # sn # rest) \<and> retention_open (sn_status st) \<and> started_check k h \<and> completed_in (mc_id k) h"

definition lawful :: "tzdb \<Rightarrow> string \<Rightarrow> trace \<Rightarrow> ask \<Rightarrow> bool" where
  "lawful tz own h q \<longleftrightarrow> (retention_ask q \<longrightarrow> (\<exists>st sn k. deciding st sn k h \<and>
     (purges tz own (decided sn st) (of_unix (mc_started_at k)) q \<or> (\<exists>fs e. quarantines tz own (decided sn st) fs e (of_unix (mc_started_at k)) q))))"

abbreviation lawfully :: "tzdb \<Rightarrow> string \<Rightarrow> 'a prog \<Rightarrow> trace \<Rightarrow> bool" where
  "lawfully tz own p h \<equiv> wp (lawful tz own) p (\<lambda>_ _. True) h"

definition peaceful :: "ask \<Rightarrow> bool" where "peaceful q \<longleftrightarrow> \<not> retention_ask q"

lemma peaceful_lawful: "peaceful q \<Longrightarrow> lawful tz own h q"
  by (simp add: peaceful_def lawful_def)

lemma calm_peaceful: "calm q \<Longrightarrow> peaceful q" "calm q \<Longrightarrow> q \<noteq> ReadSnapshot"
  by (auto simp: calm_def peaceful_def retention_ask_def split: ask.splits maintenance_route.splits)

lemma peaceful_calm: "asks_only calm p \<Longrightarrow> asks_only peaceful p"
  by (rule asks_only_weaken, assumption) (rule calm_peaceful)

lemma lawfully_peaceful: "asks_only peaceful p \<Longrightarrow> lawfully tz own p h"
  by (rule wp_inv [where I = "\<lambda>_. True" and S = peaceful]) (simp_all add: peaceful_lawful)

lemma started_check_Cons: "started_check k h \<Longrightarrow> started_check k (y # h)"
  by (simp add: started_check_def)

lemma lawfully_proceed:
  assumes "asks_only S p" "I h" "\<And>h q. I h \<Longrightarrow> S q \<Longrightarrow> lawful tz own h q" "\<And>h q r. I h \<Longrightarrow> S q \<Longrightarrow> I ((q, r) # h)"
    and "\<And>a h'. I h' \<Longrightarrow> lawfully tz own (f a) h'"
  shows "lawfully tz own (proceed (stopped c st) p f) h"
  unfolding wp_proceed by (rule wp_inv [OF assms(1,2,3,4)]) (simp_all add: assms(5) stopped_def split: sum.splits)

lemmas proceed_calmly = lawfully_proceed [where S = calm, OF _ _ peaceful_lawful [OF calm_peaceful(1)]]

lemma lawfully_snapshot:
  assumes "\<And>sn. lawfully tz own (f sn) ((ReadSnapshot, TheSnapshot sn) # h)"
  shows "lawfully tz own (proceed (stopped c st) ask_snapshot f) h"
proof -
  have "lawful tz own h ReadSnapshot" by (simp add: lawful_def retention_ask_def)
  then show ?thesis unfolding wp_proceed ask_snapshot_def wp_ask_for using assms by (simp add: stopped_def split: told.splits)
qed

definition evaluating :: "snapshot \<Rightarrow> check_row \<Rightarrow> trace \<Rightarrow> bool" where
  "evaluating sn k h \<longleftrightarrow> (\<exists>rest. snaps h = sn # rest) \<and> started_check k h"

lemma evaluating_Cons: "evaluating sn k h \<Longrightarrow> q \<noteq> ReadSnapshot \<Longrightarrow> evaluating sn k ((q, r) # h)"
  by (simp add: evaluating_def started_check_def)

lemma deciding_Cons: "deciding st sn k h \<Longrightarrow> q \<noteq> ReadSnapshot \<Longrightarrow> deciding st sn k ((q, r) # h)"
  by (simp add: deciding_def started_check_def completed_in_def)

lemma lawful_request:
  assumes "deciding st sn k h" "now = of_unix (mc_started_at k)"
  shows "purges tz own (decided sn st) now q \<Longrightarrow> lawful tz own h q" "quarantines tz own (decided sn st) fs e now q \<Longrightarrow> lawful tz own h q"
  using assms unfolding lawful_def by blast+

lemma requests_not_reads: "purges tz own sn now q \<Longrightarrow> q \<noteq> ReadSnapshot" "quarantines tz own sn fs e now q \<Longrightarrow> q \<noteq> ReadSnapshot"
  by (auto simp: purges_def quarantines_def)

lemma schedule_lawful:
  assumes "retention_open (sn_status st) \<Longrightarrow> deciding st sn k h" "now = of_unix (mc_started_at k)" "\<And>a h'. lawfully tz own (f a) h'"
  shows "lawfully tz own (proceed (stopped c ms) (schedule tz own (decided sn st) fs e now) f) h"
proof (cases "retention_open (sn_status st)")
  case True
  let ?S = "\<lambda>q. purges tz own (decided sn st) now q \<or> quarantines tz own (decided sn st) fs e now q \<or> calm q"
  show ?thesis
  proof (rule lawfully_proceed [where I = "deciding st sn k" and S = ?S])
    show "asks_only ?S (schedule tz own (decided sn st) fs e now)" unfolding schedule_def
      by (auto intro!: asks_intros asks_only_weaken [OF asks_schedulePurges] asks_only_weaken [OF asks_scheduleAutomatic])
    show "lawful tz own h q" if "deciding st sn k h" "?S q" for h q
      using that(2) lawful_request [OF that(1) assms(2)] peaceful_lawful [OF calm_peaceful(1)] by blast
    show "deciding st sn k ((q, r) # h)" if "deciding st sn k h" "?S q" for h q r
      using that requests_not_reads calm_peaceful(2) by (blast intro: deciding_Cons)
  qed (use assms True in auto)
next
  case False
  then show ?thesis using assms(3) by (simp add: schedule_def decided_def wp_proceed)
qed

lemma execute_lawful: "lawfully tz own (execute_work st) h"
  unfolding execute_work_def by (rule lawfully_peaceful) (auto intro!: asks_intros simp: peaceful_def retention_ask_def)

lemma decide_lawful:
  assumes "retention_open (sn_status st) \<Longrightarrow> deciding st sn k h" "now = of_unix (mc_started_at k)"
  shows "lawfully tz own (decide tz own (decided sn st) fs e now) h"
proof -
  let ?I = "\<lambda>h. retention_open (sn_status st) \<longrightarrow> deciding st sn k h"
  have I: "?I ((q, r) # h)" if "?I h" "calm q" for h q r using that calm_peaceful(2) by (auto intro: deciding_Cons)
  have sch: "lawfully tz own (proceed (stopped True ms) (schedule tz own (decided sn st) fs e now) (\<lambda>_. execute_work ms')) h" if "?I h" for h ms ms'
    by (rule schedule_lawful [OF _ assms(2) execute_lawful]) (use that in blast)
  have rep: "lawfully tz own (proceed (stopped True ms) (report_when_due now ast) (\<lambda>_. proceed (stopped True ms') (schedule tz own (decided sn st) fs e now) (\<lambda>_. execute_work ms''))) h"
    if "?I h" for h ms ms' ms'' ast
    by (rule proceed_calmly [where I = ?I, OF calm_local(6) that _ I sch]) assumption+
  show ?thesis unfolding decide_def Let_def
    by (rule proceed_calmly [where I = ?I, OF calm_local(5) _ _ I rep]) (use assms in auto)
qed

lemma act_lawful:
  assumes "evaluating sn k h" "completed_in (mc_id k) h" "now = of_unix (mc_started_at k)"
  shows "lawfully tz own (act tz own sn fs finds e now) h"
proof -
  let ?I = "\<lambda>h. evaluating sn k h \<and> completed_in (mc_id k) h"
  have I: "?I ((q, r) # h)" if "?I h" "calm q" for h q r
    using that calm_peaceful(2) by (auto intro: evaluating_Cons completed_in_Cons)
  have read: "lawfully tz own (proceed (stopped True ms) ask_snapshot (\<lambda>refreshed. decide tz own (decided sn refreshed) fs e now)) h" if "?I h" for ms h
    by (rule lawfully_snapshot, rule decide_lawful [OF _ assms(3)])
      (use that in \<open>auto simp: deciding_def evaluating_def started_check_def completed_in_def\<close>)
  have rec: "lawfully tz own (proceed (stopped True ms) (recordFindings sn finds) (\<lambda>_. proceed (stopped True ms') ask_snapshot
      (\<lambda>refreshed. decide tz own (decided sn refreshed) fs e now))) h" if "?I h" for ms ms' h
    by (rule proceed_calmly [where I = ?I, OF calm_local(4) that _ I read]) assumption+
  have "asks_only calm (for_each (\<lambda>o'. ask_done (Call (ClearBlock (Inr (op_id o'))))) (sn_operations sn))"
    by (intro asks_intros) (simp add: calm_def)
  then show ?thesis unfolding act_def Let_def
    by (rule proceed_calmly [where I = ?I, OF _ _ _ I rec]) (use assms in auto)
qed

lemma evaluate_lawful:
  assumes "evaluating sn k h" "now = of_unix (mc_started_at k)"
  shows "lawfully tz own (evaluate M tz own (mc_id k) now sn fs finds) h"
proof -
  have fin: "lawfully tz own (proceed (stopped False st) (ask_done (Call (completion (mc_id k) fs' rel rv))) (\<lambda>_. act tz own sn fs fs' e now)) h'"
    if "evaluating sn k h'" for st fs' rel rv e h'
  proof -
    have "lawfully tz own (act tz own sn fs fs' e now) ((Call (completion (mc_id k) fs' rel rv), r) # h')" if "\<forall>x. r \<noteq> Failed x" for r
      by (rule act_lawful [OF evaluating_Cons [OF \<open>evaluating sn k h'\<close>] _ assms(2)])
        (use that in \<open>simp_all add: completed_in_def completes_def completion_def\<close>)
    moreover have "lawful tz own h' (Call (completion (mc_id k) fs' rel rv))" by (simp add: lawful_def retention_ask_def completion_def)
    ultimately show ?thesis unfolding wp_proceed ask_done_def wp_ask_for by (auto simp: stopped_def split: told.splits)
  qed
  have space: "lawfully tz own (proceed (stopped False st) p (\<lambda>space. proceed (stopped False st') (ask_done (Call (completion (mc_id k) (g space) rel rv)))
      (\<lambda>_. act tz own sn fs (g space) e now))) h'" if "evaluating sn k h'" "asks_only calm p" for p st st' g rel rv e h'
    by (rule proceed_calmly [where I = "evaluating sn k", OF that(2,1) _ evaluating_Cons fin]) (use calm_peaceful(2) in auto)
  show ?thesis unfolding evaluate_def Let_def
    by (rule proceed_calmly [where I = "evaluating sn k", OF calm_monitor assms(1) _ evaluating_Cons])
      (use calm_peaceful(2) in \<open>auto intro!: space split: prod.splits\<close>)
qed

lemma inspect_lawful:
  assumes "started_check k h" "now = of_unix (mc_started_at k)"
  shows "lawfully tz own (inspect M tz own (mc_id k) now sn) h"
proof -
  let ?I = "started_check k"
  have verify: "lawfully tz own (proceed (stopped False st) (ask_findings (VerifyFiles found verified)) (evaluate M tz own (mc_id k) now verified fs)) h'"
    if "evaluating verified k h'" for st found verified fs h'
    by (rule proceed_calmly [where I = "evaluating verified k", OF _ that _ evaluating_Cons evaluate_lawful])
      (use assms(2) calm_peaceful(2) in \<open>auto simp: calm_def\<close>)
  have read: "lawfully tz own (proceed (stopped False st) ask_snapshot (\<lambda>verified. proceed (stopped False st) (ask_findings (VerifyFiles found verified))
      (evaluate M tz own (mc_id k) now verified fs))) h'" if "?I h'" for st found fs h'
    by (rule lawfully_snapshot, rule verify) (use that in \<open>simp add: evaluating_def started_check_def\<close>)
  have audit: "lawfully tz own (proceed (stopped False st) (ask_findings (AuditFiles sn)) (\<lambda>found. proceed (stopped False st) ask_snapshot (\<lambda>verified.
      proceed (stopped False st) (ask_findings (VerifyFiles found verified)) (evaluate M tz own (mc_id k) now verified fs)))) h'" if "?I h'" for st fs h'
    by (rule proceed_calmly [where I = ?I, OF _ that _ started_check_Cons read]) (auto simp: calm_def)
  have "lawful tz own h q" if "q = MeasureFilesystem \<or> (\<exists>e. q = Call (filesystem_finding e))" for h q
    using that by (auto simp: lawful_def retention_ask_def filesystem_finding_def)
  then show ?thesis unfolding inspect_def Let_def using audit started_check_Cons [OF assms(1)]
    by (auto simp: ignoring_def stopped_def split: told.splits)
qed

lemma cycle_lawful:
  assumes "started_check k h"
  shows "lawfully tz own (cycle M tz own l k) h"
proof -
  let ?S = "\<lambda>q. calm q \<or> q = ReadSnapshot"
  have read: "asks_only ?S ask_snapshot" "asks_only ?S (if b then Finish (Inr sn) else ask_snapshot)"
    "asks_only calm p \<Longrightarrow> asks_only ?S p" for b sn and p :: "(string + unit) prog" by (auto intro: asks_only_weaken)
  have exe: "asks_only ?S (ask_done (Execute os bs))" for os bs by (simp add: calm_def)
  note steps = lawfully_proceed [where I = "started_check k" and S = ?S]
  have ok: "lawful tz own h q" if "?S q" for h q
    using that peaceful_lawful [OF calm_peaceful(1)] by (auto simp: lawful_def retention_ask_def)
  show ?thesis unfolding cycle_def Let_def
    by (rule steps [OF read(1) assms ok started_check_Cons], assumption+,
        rule steps [OF read(3) [OF calm_local(1)] _ ok started_check_Cons], assumption+,
        rule steps [OF read(3) [OF calm_local(2)] _ ok started_check_Cons], assumption+,
        rule steps [OF read(3) [OF calm_local(3)] _ ok started_check_Cons], assumption+,
        rule steps [OF read(1) _ ok started_check_Cons], assumption+,
        rule steps [OF exe _ ok started_check_Cons], assumption+,
        rule steps [OF read(2) _ ok started_check_Cons], assumption+,
        erule inspect_lawful, rule refl)
qed

lemma RunOnce_lawful: "lawfully tz own (RunOnce M tz own) []"
proof -
  have peace: "lawful tz own h q" if "q = LockExecution \<or> q = lease_ask own \<or> q = Call CheckStart \<or> (\<exists>b. q = Call (CheckFail b)) \<or> (\<exists>b. q = Call (LeaseRelease b))" for h q
    using that by (auto simp: lawful_def retention_ask_def lease_ask_def)
  have end_: "lawfully tz own (case re_settings r of None \<Rightarrow> Finish (re_error r)
      | Some st \<Rightarrow> bind_prog (deliverMail st) (\<lambda>m. Finish (case re_error r of Some e \<Rightarrow> Some e | None \<Rightarrow> (case m of Inl e \<Rightarrow> Some e | Inr _ \<Rightarrow> None)))) h" for r h
    by (rule lawfully_peaceful) (auto intro!: asks_intros peaceful_calm [OF calm_mail] split: option.splits)
  have "lawfully tz own (cycle M tz own l k) ((Call CheckStart, Answered (ACheck k)) # h)" for l k h
    by (rule cycle_lawful) (simp add: started_check_def)
  then have cyc: "wp (lawful tz own) (cycle M tz own l k) Q ((Call CheckStart, Answered (ACheck k)) # h)" if "\<And>r h'. Q r h'" for l k h Q
    using wp_mono that by blast
  have checked: "wp (lawful tz own) (checked_cycle M tz own l) Q h" if "\<And>r h'. Q r h'" for l h Q
    unfolding checked_cycle_def wp_proceed wp_ask_for
    using that peace by (auto simp: stopped_def ignoring_def check_failed_def intro!: cyc split: told.splits answer.splits)
  show ?thesis
    using peace end_
    by (auto simp: RunOnce_def and_then_def ask_done_def ask_for_def ignoring_def lease_ask_def [symmetric] intro!: checked split: told.splits answer.splits sum.splits)
qed

lemma selection_of_Select:
  assumes "selection_of tz sn fs e now = Inr s"
  obtains inp where "Select tz inp = Inr s" "si_now inp = now" "si_timezone inp = a_timezone (as_row (sn_status sn))"
    "si_backups inp = recoverableBackups sn" "si_revoked inp = revoked_in sn" "key_minimum inp = RetentionDaysForKey (sn_status sn)"
proof -
  obtain pending where p: "pending_bytes tz sn now (recoverableBackups sn) 0 = Inr pending" using assms by (auto simp: selection_of_def split: sum.splits)
  show thesis
    by (rule that [OF assms [unfolded selection_of_def p sum.case Let_def]]) (simp_all add: fun_eq_iff key_minimum_def RetentionDaysForKey_def split: option.splits)
qed

text \<open>Older than the minimum of its key, in the zone of the catalogue.\<close>

definition aged :: "tzdb \<Rightarrow> automation_status \<Rightarrow> time \<Rightarrow> string \<Rightarrow> time \<Rightarrow> bool" where
  "aged tz st now keyID t \<longleftrightarrow> (\<exists>loc. tz (a_timezone (as_row st)) = Some loc \<and> 7 \<le> RetentionDaysForKey st keyID
     \<and> t < AddDate loc (localMidnight now loc) (- RetentionDaysForKey st keyID))"

definition midnight_of :: "tzdb \<Rightarrow> automation_status \<Rightarrow> time \<Rightarrow> time" where
  "midnight_of tz st t = (case tz (a_timezone (as_row st)) of None \<Rightarrow> t | Some loc \<Rightarrow> localMidnight t loc)"

lemma purge_aged: "protected_in tz sn now b = (False, None) \<Longrightarrow> aged tz (sn_status sn) now (b_key_id b) (backupTimeForPolicy b)"
  by (auto simp: protected_in_def RetentionProtected_def aged_def MinimumDays_def Let_def split: if_splits option.splits)

lemma quarantine_aged:
  assumes "selection_of tz sn fs e now = Inr s" "b \<in> set (Candidates s)"
  shows "b \<in> set (recoverableBackups sn) \<and> b_status b = BackupComplete \<and> \<not> revoked_in sn (b_key_id b)
    \<and> aged tz (sn_status sn) now (b_key_id b) (midnight_of tz (sn_status sn) (backupTimeForPolicy b))"
  using assms(1)
proof (rule selection_of_Select)
  fix inp
  assume i: "Select tz inp = Inr s" "si_now inp = now" "si_timezone inp = a_timezone (as_row (sn_status sn))"
    "si_backups inp = recoverableBackups sn" "si_revoked inp = revoked_in sn" "key_minimum inp = RetentionDaysForKey (sn_status sn)"
  show ?thesis using Select_candidates_lawful [OF i(1) assms(2)] unfolding i(2-6) by (auto simp: aged_def midnight_of_def)
qed

text \<open>C2. Automatic retention asks only for what the policy admits. Whatever it is told and however others act in between, a cycle sends a request to purge or to
  quarantine only after its own check was completed with the writer's consent, when the last snapshot it read shows retention open; the request is its own and automatic, for a backup of
  the catalogue it evaluated that is not acknowledged as missing and whose key is not revoked. What it asks to
  purge is quarantined, past the date before which it must be kept, and older than the minimum of its key; what it asks
  to quarantine is complete and received on a local day before that minimum.\<close>

theorem automatic_requests_lawful:
  assumes "run_prog (RunOnce M tz own) rs = (tr, x)" "i < length tr" "retention_ask (fst (tr ! i))" "h = rev (take i tr)"
  shows "\<exists>st sn rest k b why. snaps h = st # sn # rest \<and> retention_open (sn_status st)
    \<and> (Call CheckStart, Answered (ACheck k)) \<in> set h \<and> completed_in (mc_id k) h
    \<and> b \<in> set (sn_backups sn) \<and> b_id b \<notin> set (sn_missing sn) \<and> \<not> revoked_in sn (b_key_id b)
    \<and> (fst (tr ! i) = Call (PurgeRequest (Inr (b_id b, ''automatic'', own, why))) \<and> b_status b = BackupQuarantined
         \<and> b_purge_not_before b \<noteq> 0 \<and> b_purge_not_before b \<le> mc_started_at k
         \<and> aged tz (sn_status st) (of_unix (mc_started_at k)) (b_key_id b) (backupTimeForPolicy b)
       \<or> fst (tr ! i) = Call (QuarantineRequest (Inr (b_id b, ''automatic'', own, why))) \<and> b_status b = BackupComplete
         \<and> aged tz (sn_status st) (of_unix (mc_started_at k)) (b_key_id b) (midnight_of tz (sn_status st) (backupTimeForPolicy b)))"
proof -
  have "lawful tz own h (fst (tr ! i))" using wp_run [OF RunOnce_lawful assms(1)] assms(2,4) by simp
  then obtain st sn k where d: "deciding st sn k h" and "purges tz own (decided sn st) (of_unix (mc_started_at k)) (fst (tr ! i))
      \<or> (\<exists>fs e. quarantines tz own (decided sn st) fs e (of_unix (mc_started_at k)) (fst (tr ! i)))"
    using assms(3) unfolding lawful_def by blast
  moreover have s: "sn_status (decided sn st) = sn_status st" "recoverableBackups (decided sn st) = recoverableBackups sn" "revoked_in (decided sn st) = revoked_in sn"
    by (simp_all add: decided_def recoverableBackups_def revoked_in_def fun_eq_iff)
  ultimately consider (p) b where "b \<in> set (recoverableBackups sn)" "fst (tr ! i) = Call (PurgeRequest (Inr (b_id b, ''automatic'', own, ''quarantena minima completata'')))"
      "may_purge (decided sn st) (of_unix (mc_started_at k)) b" "protected_in tz (decided sn st) (of_unix (mc_started_at k)) b = (False, None)"
    | (q) fs e c b why where "selection_of tz (decided sn st) fs e (of_unix (mc_started_at k)) = Inr c" "b \<in> set (Candidates c)"
      "fst (tr ! i) = Call (QuarantineRequest (Inr (b_id b, ''automatic'', own, why)))"
    by (auto simp: purges_def quarantines_def)
  then have "\<exists>b why. b \<in> set (recoverableBackups sn) \<and> \<not> revoked_in sn (b_key_id b)
    \<and> (fst (tr ! i) = Call (PurgeRequest (Inr (b_id b, ''automatic'', own, why))) \<and> b_status b = BackupQuarantined
         \<and> b_purge_not_before b \<noteq> 0 \<and> b_purge_not_before b \<le> mc_started_at k
         \<and> aged tz (sn_status st) (of_unix (mc_started_at k)) (b_key_id b) (backupTimeForPolicy b)
       \<or> fst (tr ! i) = Call (QuarantineRequest (Inr (b_id b, ''automatic'', own, why))) \<and> b_status b = BackupComplete
         \<and> aged tz (sn_status st) (of_unix (mc_started_at k)) (b_key_id b) (midnight_of tz (sn_status st) (backupTimeForPolicy b)))"
  proof cases
    case p
    show ?thesis by (intro exI [of _ b] exI [of _ "''quarantena minima completata''"]) (use p purge_aged [OF p(4)] s in \<open>auto simp: may_purge_def\<close>)
  next
    case q
    show ?thesis by (intro exI [of _ b] exI [of _ why]) (use q(3) quarantine_aged [OF q(1,2)] s in auto)
  qed
  moreover obtain rest where "snaps h = st # sn # rest" "retention_open (sn_status st)" "(Call CheckStart, Answered (ACheck k)) \<in> set h" "completed_in (mc_id k) h"
    using d by (auto simp: deciding_def started_check_def)
  ultimately show ?thesis unfolding recoverableBackups_def set_filter mem_Collect_eq by blast
qed

end
