(* ===== verification/Maintenance_Properties.thy ===== *)
theory Maintenance_Properties
  imports Server
begin

text \<open>
  Retention operations and the files: what a confirmation and a reconciliation may conclude from them, and
  that a permitted operation whose calls all work carries out exactly itself.
\<close>

definition intact :: "env \<Rightarrow> place \<Rightarrow> backup \<Rightarrow> disk \<Rightarrow> bool" where
  "intact E p b d \<longleftrightarrow> (\<exists>s. bytes_at p d = Some s \<and> int (length s) = b_size b \<and> TokenHash E s = b_sha256 b)"

text \<open>Where the bytes of a backup are before and after each kind of operation.\<close>

fun not_begun :: "env \<Rightarrow> op_kind \<Rightarrow> backup \<Rightarrow> disk \<Rightarrow> bool" where
  "not_begun E Cancel b d \<longleftrightarrow> False"
| "not_begun E k b d \<longleftrightarrow> intact E (source_of k (b_id b)) b d \<and> Lstat (target_of k (b_id b)) d = None"

fun carried_out :: "env \<Rightarrow> op_kind \<Rightarrow> backup \<Rightarrow> disk \<Rightarrow> bool" where
  "carried_out E Cancel b d \<longleftrightarrow> False"
| "carried_out E Purge b d \<longleftrightarrow> Lstat (final (b_id b)) d = None \<and> Lstat (quarantine (b_id b)) d = None"
| "carried_out E k b d \<longleftrightarrow> Lstat (source_of k (b_id b)) d = None \<and> intact E (target_of k (b_id b)) b d"

lemma valid_intact: "validBackupFile E fault p b d \<longleftrightarrow> fault = None \<and> intact E p b d"
  by (auto simp: validBackupFile_def intact_def bytes_at_def Verify_def Let_def split: option.splits node.splits)

lemma intact_present: "intact E p b d \<Longrightarrow> Lstat p d \<noteq> None"
  by (auto simp: intact_def bytes_at_def split: option.splits)

lemma look_sound:
  "shows_done k (look E F b d) \<Longrightarrow> carried_out E k b d" "shows_untouched k (look E F b d) \<Longrightarrow> not_begun E k b d"
  by (cases k; simp add: look_def valid_intact missing_def source_of_def target_of_def)+

lemma look_complete:
  assumes "\<And>p. F p = None"
  shows "shows_done k (look E F b d) \<longleftrightarrow> carried_out E k b d" "shows_untouched k (look E F b d) \<longleftrightarrow> not_begun E k b d"
  using assms by (cases k; auto simp: look_def valid_intact missing_def source_of_def target_of_def)+

lemma never_both: "\<not> (carried_out E k b d \<and> not_begun E k b d)"
  by (cases k) (auto dest: intact_present simp: source_of_def)

text \<open>C5. The catalogue follows the files. A reconciliation settles an authorized operation, under the current lease, only
  by what the disk shows whatever reads failed: it confirms an operation only if the files are as after it, and gives
  it back (to be resumed if its execution was committed, to be authorized again otherwise) only if they are as before
  it. When no read fails it refuses, with the lease current and the transaction accepted, only if they are neither.\<close>

theorem reconcile_follows_the_files:
  assumes "reconcileContext E F k now l d c = (r, c')" "Operation c k = Some o'" "find_backup c (op_backup_id o') = Some b"
  shows "(\<forall>m. r = Inr m \<longrightarrow> op_state_of o' = Authorized \<and> lease_current l now c
      \<and> (m = ''confirmed'' \<and> carried_out E (op_kind_of o') b d \<and> ReconcileAuthorized k now c = Inr ((), c')
         \<or> m = (if op_execution_committed o' then ''resume'' else ''reset'') \<and> not_begun E (op_kind_of o') b d
            \<and> ResetAuthorized k now c = Inr ((), c')))
    \<and> (\<forall>e x y. r = Inl e \<longrightarrow> (\<forall>p. F p = None) \<longrightarrow> op_state_of o' = Authorized \<longrightarrow> ValidID (b_id b) \<longrightarrow> lease_current l now c
        \<longrightarrow> ReconcileAuthorized k now c = Inr x \<longrightarrow> ResetAuthorized k now c = Inr y
        \<longrightarrow> \<not> carried_out E (op_kind_of o') b d \<and> \<not> not_begun E (op_kind_of o') b d)"
proof (cases r)
  case (Inr m)
  have "ValidateMaintenanceLease l now c = Inr () \<Longrightarrow> lease_current l now c" by (simp add: ValidateMaintenanceLease_def split: if_splits)
  then show ?thesis using reconcileContext_cases [OF assms(1)] Inr assms(2,3) look_sound by auto
next
  case (Inl e)
  have "\<not> carried_out E (op_kind_of o') b d \<and> \<not> not_begun E (op_kind_of o') b d"
    if h: "\<forall>p. F p = None" "op_state_of o' = Authorized" "ValidID (b_id b)" "lease_current l now c"
      "ReconcileAuthorized k now c = Inr x" "ResetAuthorized k now c = Inr y" for x y
  proof -
    have l: "ValidateMaintenanceLease l now c = Inr ()" using h(4) by (simp add: ValidateMaintenanceLease_def)
    obtain x1 y1 where xy: "x = ((), x1)" "y = ((), y1)" by (metis old.unit.exhaust prod.collapse)
    have "op_kind_of o' = Cancel \<or> \<not> shows_done (op_kind_of o') (look E F b d) \<and> \<not> shows_untouched (op_kind_of o') (look E F b d)"
      using assms h(2,3,5,6) l Inl xy by (auto simp: reconcileContext_def split: if_splits)
    then show ?thesis using look_complete [of F] h(1) by auto
  qed
  then show ?thesis using Inl by simp
qed

text \<open>C9. A confirmed operation was carried out. The writer accepts that an operation was done only if, at that
  moment, the files are as after it: quarantined means the bytes are in quarantine and not in the archive, recovered the
  converse, purged that neither name exists.\<close>

theorem confirmation_needs_evidence:
  assumes "maintenance_confirm E F (Inr (k, ticket, True, detail, own, g)) now d c = (Reply code a, c')"
  shows "\<exists>o' b. Operation c k = Some o' \<and> find_backup c (op_backup_id o') = Some b \<and> carried_out E (op_kind_of o') b d
    \<and> ConfirmOperation E k ticket True detail (the_lease own g) now c = Inr ((), c')"
proof -
  have v: "verifyCompletedOperation E F k d c = None" using assms by (auto simp: maintenance_confirm_def with_body_def split: option.splits)
  then obtain o' b where o: "Operation c k = Some o'" "find_backup c (op_backup_id o') = Some b" "shows_done (op_kind_of o') (look E F b d)"
    by (auto simp: verifyCompletedOperation_def split: option.splits if_splits)
  moreover have "ConfirmOperation E k ticket True detail (the_lease own g) now c = Inr ((), c')"
    using assms v by (auto simp: maintenance_confirm_def with_body_def answering_def split: sum.splits)
  ultimately show ?thesis using look_sound(1) by blast
qed

subsection \<open>A permitted operation carries itself out\<close>

lemma intact_regular:
  assumes "intact E p b d"
  obtains n where "Lstat p d = Some (Regular n)" "int (length (content (inodes d ! n))) = b_size b" "TokenHash E (content (inodes d ! n)) = b_sha256 b"
  using assms by (auto simp: intact_def bytes_at_def split: option.splits node.splits)

lemma checkpoint_committed: "op_execution_committed (tk_op t) \<Longrightarrow> checkpoint t = to_stage Rechecking t"
  by (simp add: checkpoint_def)

lemma move_executes:
  assumes "tk_stage t = Verifying" "ValidID (b_id b)" "op_backup_id (tk_op t) = b_id b" "op_execution_committed (tk_op t)" "b = tk_backup t"
    and "io_fault (tn_outcome n) = None" "k = op_kind_of (tk_op t)" "k = Quarantine \<or> k = Recover" "not_begun E k b d"
  shows "\<exists>x. Lstat (source_of k (b_id b)) d = Some x \<and> ((\<lambda>(t, d). touch E n t d) ^^ 5) (t, d) = (to_stage (Confirming None) t,
      fsync_dir (fst (target_of k (b_id b))) (fsync_dir (fst (source_of k (b_id b)))
        ((set_name (source_of k (b_id b)) None (set_name (target_of k (b_id b)) (Some x) d))
          \<lparr>renamed := (source_of k (b_id b), target_of k (b_id b)) # renamed (set_name (source_of k (b_id b)) None (set_name (target_of k (b_id b)) (Some x) d))\<rparr>)))"
proof -
  let ?s = "source_of k (b_id b)" and ?t = "target_of k (b_id b)" and ?R = "\<lambda>(t, d). touch E n t d"
  have src: "intact E ?s b d" and dst: "Lstat ?t d = None" using assms(8,9) by auto
  from src obtain x where x: "Lstat ?s d = Some (Regular x)" "int (length (content (inodes d ! x))) = b_size b" by (rule intact_regular)
  let ?m = "set_name ?s None (set_name ?t (Some (Regular x)) d)"
  let ?d = "?m\<lparr>renamed := (?s, ?t) # renamed ?m\<rparr>"
  have kind: "op_kind_of (tk_op t) \<noteq> Cancel" "op_kind_of (tk_op t) \<noteq> Purge" using assms(7,8) by auto
  have "verifyExclusiveSource E None ?s ?t b d = None" using src dst by (simp add: verifyExclusiveSource_def valid_intact)
  then have s1: "?R (t, d) = (to_stage Rechecking t, d)"
    using assms kind by (simp add: touch_def Let_def checkpoint_committed)
  have s2: "?R (to_stage Rechecking t, d) = (to_stage Renaming t, d)"
    using assms(5-7) kind x dst by (simp add: touch_def Let_def verifyExclusiveSourceIdentity_def) (simp add: to_stage_def)
  have s3: "?R (to_stage Renaming t, d) = (to_stage SyncingFirst t, ?d)"
    using assms(5-7) x dst by (simp add: touch_def Let_def rename_noreplace_def) (simp add: to_stage_def)
  have s4: "?R (to_stage SyncingFirst t, ?d) = (to_stage SyncingSecond t, fsync_dir (fst ?s) ?d)"
    using assms(5-7) kind by (simp add: touch_def Let_def) (simp add: to_stage_def)
  have s5: "?R (to_stage SyncingSecond t, fsync_dir (fst ?s) ?d) = (to_stage (Confirming None) t, fsync_dir (fst ?t) (fsync_dir (fst ?s) ?d))"
    using assms(5-7) by (simp add: touch_def Let_def) (simp add: to_stage_def)
  have "(?R ^^ 5) (t, d) = ?R (?R (?R (?R (?R (t, d)))))" by (simp add: numeral_eq_Suc)
  then show ?thesis unfolding s1 s2 s3 s4 s5 using x(1) by blast
qed

lemma purge_executes:
  assumes "tk_stage t = Verifying" "ValidID (b_id b)" "op_backup_id (tk_op t) = b_id b" "op_execution_committed (tk_op t)" "b = tk_backup t"
    and "io_fault (tn_outcome n) = None" "op_kind_of (tk_op t) = Purge" "not_begun E Purge b d"
  shows "\<exists>x. ((\<lambda>(t, d). touch E n t d) ^^ 5) (t, d) = (to_stage (Confirming None) (t\<lparr>tk_node := x\<rparr>),
      fsync_dir QuarantineDir (set_name (quarantine (b_id b)) None d))"
proof -
  let ?s = "quarantine (b_id b)" and ?t = "final (b_id b)" and ?R = "\<lambda>(t, d). touch E n t d"
  have places: "source_of Purge i = quarantine i" "target_of Purge i = final i" for i by (simp_all add: source_of_def target_of_def)
  have src: "intact E ?s b d" and dst: "Lstat ?t d = None" using assms(8) by (simp_all add: places)
  from src obtain x where x: "Lstat ?s d = Some (Regular x)" "int (length (content (inodes d ! x))) = b_size b"
    "TokenHash E (content (inodes d ! x)) = b_sha256 b" by (rule intact_regular)
  let ?u = "t\<lparr>tk_node := Some (Regular x)\<rparr>" and ?d = "set_name ?s None d"
  have "verifyExclusiveSource E None ?s ?t b d = None" using src dst by (simp add: verifyExclusiveSource_def valid_intact)
  then have s1: "?R (t, d) = (to_stage Opening t, d)" using assms by (simp add: touch_def Let_def places)
  have "open_verified E None ?s b d = Inr (Regular x)" using x by (simp add: open_verified_def Let_def Verify_def)
  then have s2: "?R (to_stage Opening t, d) = (to_stage Rechecking ?u, d)"
    using assms(4-7) by (simp add: touch_def Let_def places checkpoint_def) (simp add: to_stage_def)
  have s3: "?R (to_stage Rechecking ?u, d) = (to_stage Removing ?u, d)"
    using assms(5-7) x(1) by (simp add: touch_def Let_def places) (simp add: to_stage_def)
  have s4: "?R (to_stage Removing ?u, d) = (to_stage SyncingFirst ?u, ?d)"
    using assms(5-7) x(1) by (simp add: touch_def Let_def places remove_name_def) (simp add: to_stage_def)
  have s5: "?R (to_stage SyncingFirst ?u, ?d) = (to_stage (Confirming None) ?u, fsync_dir QuarantineDir ?d)"
    using assms(5-7) by (simp add: touch_def Let_def places) (simp add: to_stage_def quarantine_def)
  have "(?R ^^ 5) (t, d) = ?R (?R (?R (?R (?R (t, d)))))" by (simp add: numeral_eq_Suc)
  then show ?thesis unfolding s1 s2 s3 s4 s5 by blast
qed

text \<open>C10. A committed operation executes exactly itself. If the files are as before it and every call works, executeLeased ends
  after its five calls ready to confirm, the files are as after the operation, every other name and every content is
  what it was, and no earlier state of the names it changed is left for a power loss to bring back.\<close>

theorem committed_operation_executes:
  assumes "tk_stage t = Verifying" "ValidID (b_id (tk_backup t))" "op_backup_id (tk_op t) = b_id (tk_backup t)" "op_execution_committed (tk_op t)"
    and "tn_outcome n = Works" "not_begun E (op_kind_of (tk_op t)) (tk_backup t) d"
    and "((\<lambda>(t, d). touch E n t d) ^^ 5) (t, d) = (t', d')"
  shows "tk_stage t' = Confirming None \<and> carried_out E (op_kind_of (tk_op t)) (tk_backup t) d' \<and> inodes d' = inodes d
    \<and> (\<forall>p. p \<noteq> final (b_id (tk_backup t)) \<longrightarrow> p \<noteq> quarantine (b_id (tk_backup t)) \<longrightarrow> Lstat p d' = Lstat p d)
    \<and> (\<forall>p. Lstat p d' \<noteq> Lstat p d \<longrightarrow> holds_at p d' = {Lstat p d'})"
proof -
  let ?b = "tk_backup t" and ?k = "op_kind_of (tk_op t)"
  have f: "io_fault (tn_outcome n) = None" using assms(5) by (simp add: io_fault_def)
  show ?thesis
  proof (cases "?k = Purge")
    case True
    have nb: "not_begun E Purge ?b d" using assms(6) True by simp
    from purge_executes [OF assms(1-4) refl f True nb] assms(7) obtain x where
      r: "t' = to_stage (Confirming None) (t\<lparr>tk_node := x\<rparr>)" "d' = fsync_dir QuarantineDir (set_name (quarantine (b_id ?b)) None d)" by auto
    have "Lstat (final (b_id ?b)) d = None" using nb by (simp add: target_of_def)
    then show ?thesis using True r by (auto simp: holds_fsync_dir quarantine_def)
  next
    case False
    then have k: "?k = Quarantine \<or> ?k = Recover" using assms(6) by (cases ?k) simp_all
    let ?s = "source_of ?k (b_id ?b)" and ?t = "target_of ?k (b_id ?b)"
    from move_executes [OF assms(1-4) refl f refl k assms(6)] assms(7) obtain x e where x: "Lstat ?s d = Some x"
      and r: "t' = to_stage (Confirming None) t" "d' = fsync_dir (fst ?t) (fsync_dir (fst ?s) e)"
        "e = (set_name ?s None (set_name ?t (Some x) d))\<lparr>renamed := (?s, ?t) # renamed (set_name ?s None (set_name ?t (Some x) d))\<rparr>" by auto
    have L: "Lstat p d' = (if p = ?s then None else if p = ?t then Some x else Lstat p d)" for p by (simp add: r(2,3))
    have i: "inodes d' = inodes d" by (simp add: r(2,3))
    have "intact E ?s ?b d" using assms(6) k by auto
    then have "intact E ?t ?b d'" using x by (simp add: intact_def bytes_at_def L i split: node.splits)
    moreover have "Lstat ?s d' = None" using L [of ?s] by simp
    ultimately have "carried_out E ?k ?b d'" using k by auto
    moreover have "Lstat p d' = Lstat p d" if "p \<noteq> final (b_id ?b)" "p \<noteq> quarantine (b_id ?b)" for p
      using that L by (auto simp: source_of_def target_of_def)
    moreover have "holds_at p d' = {Lstat p d'}" if "Lstat p d' \<noteq> Lstat p d" for p
    proof -
      have "p = ?s \<or> p = ?t" using that L by metis
      then show ?thesis by (auto simp: r(2) holds_fsync_dir)
    qed
    ultimately show ?thesis using r(1) i by simp
  qed
qed

end
