(* ===== verification/Monitoring_Properties.thy ===== *)
theory Monitoring_Properties
  imports Monitoring Recover_Command Maintenance_Properties
begin

text \<open>
  The audit of the files against the catalogue: it is silent exactly when they agree, and it never accuses a backup that
  the server holds as it should.
\<close>

lemma relative_inj:
  assumes "fst p \<in> {Archive, QuarantineDir}" "fst q \<in> {Archive, QuarantineDir}" "relative p = relative q"
  shows "p = q"
  using assms by (cases p; cases q) (auto simp: relative_def directory_name_def)

lemma expected_directory: "expected_place b = Some p \<Longrightarrow> fst p \<in> {Archive, QuarantineDir}"
  by (auto simp: expected_place_def final_def quarantine_def split: status.splits)

lemma relative_expected:
  assumes "dir \<in> {Archive, QuarantineDir}"
  shows "relative (dir, n) \<in> set (map relative (expected_places bs)) \<longleftrightarrow> (\<exists>b \<in> set bs. expected_place b = Some (dir, n))"
proof
  assume "relative (dir, n) \<in> set (map relative (expected_places bs))"
  then obtain b p where b: "b \<in> set bs" "expected_place b = Some p" "relative (dir, n) = relative p"
    by (auto simp: expected_places_def split: option.splits) metis
  then have "(dir, n) = p" using relative_inj [of "(dir, n)" p] expected_directory [OF b(2)] assms by simp
  then show "\<exists>b \<in> set bs. expected_place b = Some (dir, n)" using b by auto
qed (force simp: expected_places_def)

text \<open>A catalogued file that should be there is as catalogued, or is known to be lost.\<close>

definition as_catalogued :: "env \<Rightarrow> string list \<Rightarrow> disk \<Rightarrow> backup \<Rightarrow> bool" where
  "as_catalogued E acknowledged d b \<longleftrightarrow> (\<forall>p. b_status b \<noteq> BackupReceiving \<longrightarrow> expected_place b = Some p \<longrightarrow>
     intact E p b d \<or> Lstat p d = None \<and> b_id b \<in> set acknowledged)"

lemma backup_findings_empty: "backup_findings E (\<lambda>_. None) acknowledged d b = [] \<longleftrightarrow> as_catalogued E acknowledged d b"
proof (cases "expected_place b")
  case (Some p)
  have "intact E p b d \<Longrightarrow> Lstat p d \<noteq> None" by (rule intact_present)
  then show ?thesis using Some by (auto simp: backup_findings_def as_catalogued_def valid_intact)
qed (simp add: backup_findings_def as_catalogued_def)

lemma directory_findings_empty:
  assumes "dir \<in> {Archive, QuarantineDir}"
  shows "directory_findings (\<lambda>_. None) bs d dir = [] \<longleftrightarrow> (\<forall>n. Lstat (dir, n) d \<noteq> None \<longrightarrow> (\<exists>b \<in> set bs. expected_place b = Some (dir, n)))"
  unfolding directory_findings_def by (simp add: filter_empty_conv relative_expected [OF assms] Ball_def Bex_def in_ReadDir del: set_map)

text \<open>C21. The audit is silent exactly when files and catalogue agree: when no read fails, fileFindings finds nothing if and only if every backup that should have a
  file has it in its place with its size and SHA-256, or is acknowledged as missing and absent, and every name in the archive and in quarantine is the
  place of a catalogued backup. It reports a missing file only for an absent one and a mismatch only for one that is present and differs.\<close>

theorem audit_exact:
  "(fileFindings E (\<lambda>_. None) sn d = [] \<longleftrightarrow> (\<forall>b \<in> set (sn_backups sn). as_catalogued E (sn_missing sn) d b)
      \<and> (\<forall>dir n. dir \<noteq> Incoming \<and> Lstat (dir, n) d \<noteq> None \<longrightarrow> (\<exists>b \<in> set (sn_backups sn). expected_place b = Some (dir, n))))
    \<and> (\<forall>f \<in> set (fileFindings E (\<lambda>_. None) sn d).
        (\<exists>b \<in> set (sn_backups sn). \<exists>p. expected_place b = Some p \<and> \<not> intact E p b d
           \<and> (f = missing_finding b \<and> Lstat p d = None \<and> b_id b \<notin> set (sn_missing sn) \<or> f = mismatch_finding b \<and> Lstat p d \<noteq> None))
        \<or> (\<exists>dir n. f = unexpected_finding (dir, n) \<and> Lstat (dir, n) d \<noteq> None \<and> (\<forall>b \<in> set (sn_backups sn). expected_place b \<noteq> Some (dir, n))))"
proof -
  have dirs: "(\<forall>dir n. dir \<noteq> Incoming \<and> Lstat (dir, n) d \<noteq> None \<longrightarrow> P dir n)
      \<longleftrightarrow> (\<forall>n. Lstat (Archive, n) d \<noteq> None \<longrightarrow> P Archive n) \<and> (\<forall>n. Lstat (QuarantineDir, n) d \<noteq> None \<longrightarrow> P QuarantineDir n)" for P
  proof -
    have "(dir \<noteq> Incoming) = (dir = Archive \<or> dir = QuarantineDir)" for dir by (cases dir) simp_all
    then show ?thesis by auto
  qed
  have silent: "fileFindings E (\<lambda>_. None) sn d = [] \<longleftrightarrow> (\<forall>b \<in> set (sn_backups sn). as_catalogued E (sn_missing sn) d b)
      \<and> (\<forall>dir n. dir \<noteq> Incoming \<and> Lstat (dir, n) d \<noteq> None \<longrightarrow> (\<exists>b \<in> set (sn_backups sn). expected_place b = Some (dir, n)))"
    unfolding dirs fileFindings_def by (simp add: backup_findings_empty directory_findings_empty)
  have of_backup: "\<exists>p. expected_place b = Some p \<and> \<not> intact E p b d
      \<and> (f = missing_finding b \<and> Lstat p d = None \<and> b_id b \<notin> set (sn_missing sn) \<or> f = mismatch_finding b \<and> Lstat p d \<noteq> None)"
    if "f \<in> set (backup_findings E (\<lambda>_. None) (sn_missing sn) d b)" for f b
  proof (cases "expected_place b")
    case (Some p)
    have "intact E p b d \<Longrightarrow> Lstat p d \<noteq> None" by (rule intact_present)
    then show ?thesis using that Some by (auto simp: backup_findings_def valid_intact split: if_splits)
  qed (use that in \<open>simp add: backup_findings_def split: if_splits\<close>)
  have of_directory: "\<exists>n. f = unexpected_finding (dir, n) \<and> Lstat (dir, n) d \<noteq> None \<and> (\<forall>b \<in> set (sn_backups sn). expected_place b \<noteq> Some (dir, n))"
    if "f \<in> set (directory_findings (\<lambda>_. None) (sn_backups sn) d dir)" "dir \<in> {Archive, QuarantineDir}" for f dir
  proof -
    have "f \<in> set (map (\<lambda>n. unexpected_finding (dir, n)) (filter (\<lambda>n. \<not> (\<exists>b \<in> set (sn_backups sn). expected_place b = Some (dir, n))) (sort (ReadDir dir d))))"
      using that(1) by (simp only: directory_findings_def option.case relative_expected [OF that(2)])
    then show ?thesis by (auto simp: in_ReadDir)
  qed
  have split_f: "(\<exists>b \<in> set (sn_backups sn). f \<in> set (backup_findings E (\<lambda>_. None) (sn_missing sn) d b))
      \<or> (\<exists>dir \<in> {Archive, QuarantineDir}. f \<in> set (directory_findings (\<lambda>_. None) (sn_backups sn) d dir))" if "f \<in> set (fileFindings E (\<lambda>_. None) sn d)" for f
    using that by (auto simp: fileFindings_def)
  show ?thesis
  proof (intro conjI ballI, rule silent)
    fix f
    assume "f \<in> set (fileFindings E (\<lambda>_. None) sn d)"
    then consider b where "b \<in> set (sn_backups sn)" "f \<in> set (backup_findings E (\<lambda>_. None) (sn_missing sn) d b)"
      | dir where "dir \<in> {Archive, QuarantineDir}" "f \<in> set (directory_findings (\<lambda>_. None) (sn_backups sn) d dir)" using split_f by blast
    then show "(\<exists>b \<in> set (sn_backups sn). \<exists>p. expected_place b = Some p \<and> \<not> intact E p b d
           \<and> (f = missing_finding b \<and> Lstat p d = None \<and> b_id b \<notin> set (sn_missing sn) \<or> f = mismatch_finding b \<and> Lstat p d \<noteq> None))
        \<or> (\<exists>dir n. f = unexpected_finding (dir, n) \<and> Lstat (dir, n) d \<noteq> None \<and> (\<forall>b \<in> set (sn_backups sn). expected_place b \<noteq> Some (dir, n)))"
    proof cases
      case 1
      show ?thesis by (rule disjI1, rule bexI [of _ b], rule of_backup) (use 1 in auto)
    next
      case 2
      show ?thesis by (rule disjI2, rule exI [of _ dir], rule of_directory [OF 2(2,1)])
    qed
  qed
qed

subsection \<open>No accusation of what is kept\<close>

lemma SnapshotBackups_set: "set (SnapshotBackups c) = set (backups c)"
  by (simp add: SnapshotBackups_def)

text \<open>C22. The audit spares what the server keeps. In every state the server can reach, also on the disk a power loss leaves, an audit in which no read fails finds nothing about a complete
  backup no retention operation was permitted for: no finding names it, and its file is not reported as unexpected.\<close>

theorem audit_spares_the_kept:
  assumes "server_run E w" "b \<in> set (backups (cat w))" "b_status b = BackupComplete" "uncommitted (cat w) (b_id b) (\<lambda>_. True)"
    and "d = disk_of w \<or> power_loss (disk_of w) d" "maintenance_snapshot now (cat w) = Inr sn" "b_id b \<noteq> []"
  shows "\<forall>f \<in> set (fileFindings E (\<lambda>_. None) sn d). f_backup_id f \<noteq> b_id b \<and> f \<noteq> unexpected_finding (final (b_id b))"
proof
  fix f
  assume finding: "f \<in> set (fileFindings E (\<lambda>_. None) sn d)"
  have sn: "set (sn_backups sn) = set (backups (cat w))" using assms(6) by (auto simp: maintenance_snapshot_def SnapshotBackups_set split: sum.splits)
  have place: "expected_place b = Some (final (b_id b))" using assms(3) by (simp add: expected_place_def)
  have ok: "intact E (final (b_id b)) b d" using stored_archive [OF assms(1-5)] by (simp add: intact_def)
  have "core_inv (cat w)" using server.reachable_inv [OF assms(1)] by (simp add: server_inv_def)
  then have same: "b' = b" if "b' \<in> set (backups (cat w))" "b_id b' = b_id b" for b'
    using that assms(2) by (simp add: core_inv_def distinct_map inj_on_def)
  have "f_backup_id f \<noteq> b_id b" if b': "b' \<in> set (backups (cat w))" "f \<in> set (backup_findings E (\<lambda>_. None) (sn_missing sn) d b')" for b'
  proof
    assume "f_backup_id f = b_id b"
    moreover have "f_backup_id f = b_id b'" using b'(2) by (auto simp: backup_findings_def missing_finding_def mismatch_finding_def file_finding_def split: if_splits option.splits)
    ultimately have "b' = b" using same [OF b'(1)] by simp
    moreover have "backup_findings E (\<lambda>_. None) (sn_missing sn) d b = []"
      unfolding backup_findings_empty as_catalogued_def using place ok by simp
    ultimately show False using b'(2) by simp
  qed
  moreover have "f_backup_id f = []" if "f \<in> set (directory_findings (\<lambda>_. None) (sn_backups sn) d dir)" for dir
    using that by (auto simp: directory_findings_def unexpected_finding_def catalog_finding_def)
  ultimately have "f_backup_id f \<noteq> b_id b" using assms(7) finding sn by (auto simp: fileFindings_def)
  moreover have "f \<noteq> unexpected_finding (final (b_id b))"
  proof
    assume f: "f = unexpected_finding (final (b_id b))"
    have dirs: "fst (final (b_id b)) \<in> {Archive, QuarantineDir}" by (simp add: final_def)
    have inj: "unexpected_finding p = unexpected_finding q \<Longrightarrow> relative p = relative q" for p q by (simp add: unexpected_finding_def catalog_finding_def)
    have "\<not> unexpected_finding p \<in> set (backup_findings E (\<lambda>_. None) m d b')" for p m b'
      by (auto simp: backup_findings_def unexpected_finding_def catalog_finding_def missing_finding_def mismatch_finding_def file_finding_def unexpected_prefix_def
          split: if_splits option.splits)
    then have "f \<in> set (directory_findings (\<lambda>_. None) (sn_backups sn) d Archive) \<or> f \<in> set (directory_findings (\<lambda>_. None) (sn_backups sn) d QuarantineDir)"
      using finding f by (simp add: fileFindings_def)
    then obtain dir where dn: "dir \<in> {Archive, QuarantineDir}" and fd: "f \<in> set (directory_findings (\<lambda>_. None) (sn_backups sn) d dir)" by blast
    from fd obtain n where n: "f = unexpected_finding (dir, n)" "relative (dir, n) \<notin> set (map relative (expected_places (sn_backups sn)))"
      by (auto simp: directory_findings_def)
    have "relative (dir, n) = relative (final (b_id b))" by (rule inj) (use f n(1) in simp)
    then have "(dir, n) = final (b_id b)" using relative_inj [of "(dir, n)", OF _ dirs] dn by simp
    then show False using n(2) unfolding relative_expected [OF dn] using place assms(2) sn by auto
  qed
  ultimately show "f_backup_id f \<noteq> b_id b \<and> f \<noteq> unexpected_finding (final (b_id b))" by blast
qed

end
