(* ===== verification/Client.thy ===== *)
theory Client
  imports Recovery
begin

text \<open>
  The sending client, internal/client/client.go: the checks of Send, the content it sends (an age ciphertext in a
  temporary file, or the plaintext it was told to send) with its size and SHA-256, and at most three attempts with one
  idempotency key. url.Parse and the set-up of TLS are arguments, as is what each attempt meets: no response, a response that is not a
  201, or a 201 with what JSON decoding makes of its receipt. Progress output is not modelled.
\<close>

subsection \<open>Options\<close>

record url =
  u_scheme :: string
  u_host :: string
  u_user :: bool
  u_query :: string
  u_fragment :: string
  u_path :: string

record options =
  o_url :: "url option"
  o_key_file :: string
  o_encrypt_to :: string
  o_plaintext :: bool
  o_temp_limit :: int
  o_temp_dir :: string

definition DefaultMaxCiphertextBytes :: int where "DefaultMaxCiphertextBytes = 2 ^ 40"

definition url_ok :: "url option \<Rightarrow> bool" where
  "url_ok x = (case x of None \<Rightarrow> False
     | Some u \<Rightarrow> \<not> (u_scheme u \<noteq> ''https'' \<or> u_host u = [] \<or> u_user u \<or> u_query u \<noteq> [] \<or> u_fragment u \<noteq> [] \<or> (u_path u \<noteq> [] \<and> u_path u \<noteq> ''/'')))"

definition ReadSecret :: "faults \<Rightarrow> string \<Rightarrow> files \<Rightarrow> io_error + string" where
  "ReadSecret F path fs =
     (case OpenRegular (F OpenKey) path fs of Inl e \<Rightarrow> Inl e
      | Inr f \<Rightarrow> (case F StatKey of Some e \<Rightarrow> Inl e | None \<Rightarrow>
          if \<not> CheckPrivate f then Inl (IOError ''il file deve essere accessibile solo al proprietario (chmod 600)'')
          else (case F ReadKey of Some e \<Rightarrow> Inl e | None \<Rightarrow>
            (let b = take 257 (lf_bytes f); token = trim_space b in
             if length b > 256 \<or> \<not> ValidToken token then Inl (IOError ''file della chiave non valido'') else Inr token))))"

subsection \<open>The content\<close>

text \<open>What is sent: the bytes, and the temporary to remove at the end, if any.\<close>

definition prepare_plain :: "faults \<Rightarrow> string \<Rightarrow> files \<Rightarrow> io_error + string" where
  "prepare_plain F path fs =
     (case OpenRegular (F OpenSource) path fs of Inl e \<Rightarrow> Inl e
      | Inr f \<Rightarrow> (case F StatSource of Some e \<Rightarrow> Inl e | None \<Rightarrow>
          if lf_bytes f = [] then Inl (IOError ''richiesto un file regolare non vuoto; streaming non ancora disponibile'')
          else (case first_fault F [CopyFirst, SeekFirst] of Some e \<Rightarrow> Inl e | None \<Rightarrow> Inr (lf_bytes f))))"

definition check_mode :: "options \<Rightarrow> metadata \<Rightarrow> io_error + metadata" where
  "check_mode o' m =
     (if o_encrypt_to o' \<noteq> [] \<and> o_plaintext o' then Inl (IOError ''encrypt_to e plaintext non possono essere usati insieme'')
      else if o_encrypt_to o' \<noteq> []
      then (if ContentFormat m \<noteq> [] \<and> ContentFormat m \<noteq> ContentFormatAgeV1 then Inl (IOError ''formato contenuto incompatibile con --encrypt-to'')
            else if o_temp_limit o' < 0 then Inl (IOError ''il limite del temporaneo cifrato non puo essere negativo'')
            else Inr (m\<lparr>ContentFormat := ContentFormatAgeV1\<rparr>))
      else if \<not> o_plaintext o' then Inl (IOError ''cifratura richiesta: configurare encrypt_to oppure scegliere esplicitamente plaintext'')
      else if ContentFormat m \<noteq> [] then Inl (IOError ''content_format richiede la cifratura configurata'')
      else if o_temp_limit o' \<noteq> 0 \<or> o_temp_dir o' \<noteq> [] then Inl (IOError ''le opzioni del temporaneo cifrato richiedono encrypt_to'')
      else Inr m)"

subsection \<open>Attempts\<close>

datatype exchange = Unanswered bool | Refused int string | Accepted "receipt option"

datatype send_error = Local io_error | NoAnswer | HttpError int string | BadReceiptBody | IncoherentReceipt | BadReceiptDate
  | Stopped | Exhausted send_error

definition client_request :: "string \<Rightarrow> string \<Rightarrow> string \<Rightarrow> string \<Rightarrow> int \<Rightarrow> request" where
  "client_request token encoded digest key sz = \<lparr>rq_path = UploadPath, rq_query = [], rq_method = ''POST'',
     rq_header = [(''Authorization'', ''Bearer '' @ token), (''Content-Type'', ''application/octet-stream''), (MetadataHeader, encoded),
       (DigestHeader, digest), (IdempotencyHeader, key), (''Expect'', ''100-continue'')], rq_length = sz\<rparr>"

definition retryable :: "int \<Rightarrow> string \<Rightarrow> bool" where
  "retryable code body \<longleftrightarrow> code = 502 \<or> code = 503 \<or> (code = 409 \<and> body = error_text ErrIdempotencyInProgress)"

definition receipt_error :: "int \<Rightarrow> string \<Rightarrow> receipt \<Rightarrow> send_error option" where
  "receipt_error sz digest r =
     (if rc_status r \<noteq> BackupComplete \<or> \<not> ValidID (rc_id r) \<or> rc_size r \<noteq> sz \<or> rc_sha256 r \<noteq> digest then Some IncoherentReceipt
      else (case rc_received_at r of Stamp _ \<Rightarrow> None | _ \<Rightarrow> Some BadReceiptDate))"

text \<open>The loop: \<open>net\<close> answers attempt by attempt, \<open>stop\<close> says whether the context ends while an attempt is awaited, \<open>rewind\<close> whether the
  file cannot be rewound. The result comes with the requests that were made.\<close>

fun send_loop :: "(nat \<Rightarrow> exchange) \<Rightarrow> (nat \<Rightarrow> bool) \<Rightarrow> (nat \<Rightarrow> io_error option) \<Rightarrow> request \<Rightarrow> int \<Rightarrow> string \<Rightarrow> nat \<Rightarrow> nat \<Rightarrow> send_error
    \<Rightarrow> (send_error + receipt) \<times> request list" where
  "send_loop net stop rewind rq sz digest attempt 0 lastErr = (Inl (Exhausted lastErr), [])"
| "send_loop net stop rewind rq sz digest attempt (Suc n) lastErr =
     (if attempt \<noteq> 0 \<and> stop attempt then (Inl Stopped, [])
      else (case rewind attempt of Some e \<Rightarrow> (Inl (Local e), [])
        | None \<Rightarrow>
          (let again = (\<lambda>e. case send_loop net stop rewind rq sz digest (Suc attempt) n e of (res, sent) \<Rightarrow> (res, rq # sent)) in
           case net attempt of
             Unanswered cancelled \<Rightarrow> if cancelled then (Inl Stopped, [rq]) else again NoAnswer
           | Refused code body \<Rightarrow> if retryable code body then again (HttpError code body) else (Inl (HttpError code body), [rq])
           | Accepted None \<Rightarrow> again BadReceiptBody
           | Accepted (Some r) \<Rightarrow> (case receipt_error sz digest r of Some e \<Rightarrow> again e | None \<Rightarrow> (Inr r, [rq])))))"

definition transmit :: "faults \<Rightarrow> (nat \<Rightarrow> exchange) \<Rightarrow> (nat \<Rightarrow> bool) \<Rightarrow> (nat \<Rightarrow> io_error option) \<Rightarrow> string res \<Rightarrow> string \<Rightarrow> metadata \<Rightarrow> int \<Rightarrow> string
    \<Rightarrow> (send_error + receipt) \<times> request list" where
  "transmit F net stop rewind random token m sz digest =
     (case F CheckContext of Some e \<Rightarrow> (Inl (Local e), []) | None \<Rightarrow>
      (case EncodeMetadata m of Inl e \<Rightarrow> (Inl (Local (IOError (error_text e))), []) | Inr encoded \<Rightarrow>
      (case NewIdempotencyKey random of Inl e \<Rightarrow> (Inl (Local (IOError (error_text e))), []) | Inr key \<Rightarrow>
        send_loop net stop rewind (client_request token encoded digest key sz) sz digest 0 3 NoAnswer)))"

definition Send :: "('r, 'i) age \<Rightarrow> env \<Rightarrow> faults \<Rightarrow> (nat \<Rightarrow> exchange) \<Rightarrow> (nat \<Rightarrow> bool) \<Rightarrow> (nat \<Rightarrow> io_error option) \<Rightarrow> string \<Rightarrow> string res \<Rightarrow> string
    \<Rightarrow> options \<Rightarrow> string \<Rightarrow> metadata \<Rightarrow> files \<Rightarrow> ((send_error + receipt) \<times> request list) \<times> files" where
  "Send A E F net stop rewind rand random temp o' path m0 fs =
     (let failed = (\<lambda>e. ((Inl (Local e), []), fs)) in
      case check_mode o' m0 of Inl e \<Rightarrow> failed e | Inr m \<Rightarrow>
      (case Metadata_Validate m of Inl e \<Rightarrow> failed (IOError (error_text e)) | Inr _ \<Rightarrow>
      if \<not> url_ok (o_url o') then failed (IOError ''URL richiesta: https://host:porta, senza credenziali o percorso'')
      else (case ReadSecret F (o_key_file o') fs of Inl e \<Rightarrow> failed e | Inr token \<Rightarrow>
      (case F ConfigureTls of Some e \<Rightarrow> failed e | None \<Rightarrow>
        if o_encrypt_to o' \<noteq> []
        then (case EncryptToTemp A E F rand path (o_encrypt_to o') temp
                     (if o_temp_limit o' = 0 then DefaultMaxCiphertextBytes else o_temp_limit o') fs of
                (Inl e, fs') \<Rightarrow> ((Inl (Local e), []), fs')
              | (Inr p, fs') \<Rightarrow>
                  (transmit F net stop rewind random token m (pr_size p) (pr_sha256 p), discard (F RemoveFirst) (pr_path p) fs'))
        else (case prepare_plain F path fs of Inl e \<Rightarrow> failed e
              | Inr bytes \<Rightarrow> (transmit F net stop rewind random token m (int (length bytes)) (TokenHash E bytes), fs))))))"

subsection \<open>A receipt speaks of what was sent\<close>

lemma send_loop_confirms:
  assumes "send_loop net stop rewind rq sz digest k n e = (Inr r, sent)"
  shows "receipt_error sz digest r = None \<and> sent \<noteq> [] \<and> set sent = {rq} \<and> length sent \<le> n"
  using assms
  by (induction n arbitrary: k e sent) (auto simp: Let_def split: if_splits option.splits exchange.splits prod.splits)

lemma send_loop_requests:
  assumes "send_loop net stop rewind rq sz digest k n e = (res, sent)"
  shows "set sent \<subseteq> {rq} \<and> length sent \<le> n"
  using assms
  by (induction n arbitrary: k e sent res) (fastforce simp: Let_def split: if_splits option.splits exchange.splits prod.splits)+

lemma receipt_error_None:
  assumes "receipt_error sz digest r = None"
  shows "rc_status r = BackupComplete \<and> ValidID (rc_id r) \<and> rc_size r = sz \<and> rc_sha256 r = digest \<and> (\<exists>t. rc_received_at r = Stamp t)"
  using assms by (auto simp: receipt_error_def split: if_splits stamp.splits)

lemma transmitE:
  assumes "transmit F net stop rewind random token m sz digest = (res, sent)" "sent \<noteq> []"
  obtains encoded key where "EncodeMetadata m = Inr encoded" "NewIdempotencyKey random = Inr key"
    "send_loop net stop rewind (client_request token encoded digest key sz) sz digest 0 3 NoAnswer = (res, sent)"
  using assms by (auto simp: transmit_def split: option.splits sum.splits)

text \<open>What Send hands to its attempts: the content is the file as it is when it chose to send it in the clear, its ciphertext otherwise.\<close>

lemma SendE:
  assumes "Send A E F net stop rewind rand random temp o' path m0 fs = ((res, sent), fs')" "sent \<noteq> []"
  obtains m token f bytes where "check_mode o' m0 = Inr m" "Metadata_Validate m = Inr ()" "ReadSecret F (o_key_file o') fs = Inr token"
    "file_at path fs = Some (LocalFile f)" "bytes \<noteq> []"
    "transmit F net stop rewind random token m (int (length bytes)) (TokenHash E bytes) = (res, sent)"
    "if o_encrypt_to o' = [] then bytes = lf_bytes f \<and> fs' = fs
     else (\<exists>r. ParseX25519Recipient A (trim_space (o_encrypt_to o')) = Some r \<and> bytes = concat (Encrypt A r rand (lf_bytes f)))
       \<and> file_at temp fs = None \<and> (\<forall>q. q \<noteq> temp \<longrightarrow> file_at q fs' = file_at q fs) \<and> (F RemoveFirst = None \<longrightarrow> file_at temp fs' = None)"
proof -
  obtain m token where pre: "check_mode o' m0 = Inr m" "Metadata_Validate m = Inr ()" "url_ok (o_url o')" "ReadSecret F (o_key_file o') fs = Inr token" "F ConfigureTls = None"
    using assms by (auto simp: Send_def Let_def split: sum.splits option.splits if_splits)
  show thesis
  proof (cases "o_encrypt_to o' = []")
    case True
    obtain bytes where b: "prepare_plain F path fs = Inr bytes" "transmit F net stop rewind random token m (int (length bytes)) (TokenHash E bytes) = (res, sent)" "fs' = fs"
      using assms pre True by (auto simp: Send_def split: sum.splits)
    obtain f where f: "OpenRegular (F OpenSource) path fs = Inr f" "bytes = lf_bytes f" "bytes \<noteq> []"
      using b(1) by (auto simp: prepare_plain_def split: sum.splits option.splits if_splits)
    show ?thesis by (rule that [OF pre(1,2,4) _ f(3) b(2)]) (use OpenRegularD [OF f(1)] f(2) True b(3) in simp_all)
  next
    case False
    let ?limit = "if o_temp_limit o' = 0 then DefaultMaxCiphertextBytes else o_temp_limit o'"
    obtain p fs1 where p: "EncryptToTemp A E F rand path (o_encrypt_to o') temp ?limit fs = (Inr p, fs1)"
      "transmit F net stop rewind random token m (pr_size p) (pr_sha256 p) = (res, sent)" "fs' = discard (F RemoveFirst) (pr_path p) fs1"
      using assms pre False by (auto simp: Send_def split: sum.splits prod.splits)
    show ?thesis
    proof (rule EncryptToTempD [OF p(1)])
      fix r and f :: local_file
      let ?c = "concat (Encrypt A r rand (lf_bytes f))"
      assume e: "ParseX25519Recipient A (trim_space (o_encrypt_to o')) = Some r" "file_at path fs = Some (LocalFile f)" "file_at temp fs = None"
        "file_at temp fs1 = Some (private_file ?c)" "\<forall>q. q \<noteq> temp \<longrightarrow> file_at q fs1 = file_at q fs"
        "p = \<lparr>pr_path = temp, pr_size = int (length ?c), pr_sha256 = TokenHash E ?c\<rparr>" "0 < pr_size p"
      have t: "transmit F net stop rewind random token m (int (length ?c)) (TokenHash E ?c) = (res, sent)" using p(2) e(6) by simp
      have "?c \<noteq> []" using e(6,7) by auto
      moreover have "fs' = discard (F RemoveFirst) temp fs1" using p(3) e(6) by simp
      then have "(\<forall>q. q \<noteq> temp \<longrightarrow> file_at q fs' = file_at q fs) \<and> (F RemoveFirst = None \<longrightarrow> file_at temp fs' = None)" using e(5) by simp
      ultimately show thesis by (intro that [OF pre(1,2,4) e(2) _ t]) (use e(1,3) False in simp_all)
    qed
  qed
qed


subsection \<open>The receiver understands the client\<close>

lemma client_headers:
  "header_values ''Authorization'' (client_request t e d k n) = [''Bearer '' @ t]"
  "header_values ''Content-Type'' (client_request t e d k n) = [''application/octet-stream'']"
  "header_values ''Content-Encoding'' (client_request t e d k n) = []"
  "header_values MetadataHeader (client_request t e d k n) = [e]"
  "header_values DigestHeader (client_request t e d k n) = [d]"
  "header_values IdempotencyHeader (client_request t e d k n) = [k]"
  by (simp_all add: header_values_def client_request_def MetadataHeader_def DigestHeader_def IdempotencyHeader_def)

lemma ServeHTTP_client:
  assumes "ValidToken t" "0 < n" "length e \<le> 12 * 1024" "dec e = Decoded m" "Metadata_Validate m = Inr ()" "ValidDigest d" "ValidIdempotencyKey k"
  shows "ServeHTTP E dec newID st rf now (client_request t e d k n) w =
    (case Admit E newID st rf t m n d k now w of
       (Inl x, w') \<Rightarrow> (Some (case AdmissionError x of (status, message) \<Rightarrow> ErrorResponse status message), w')
     | (Inr b, w') \<Rightarrow> if b_status b = BackupComplete then (Some (ReceiptResponse (Receipt_of b)), w')
         else (None, w'\<lparr>uploads := uploads w' @ [new_upload b]\<rparr>))"
proof -
  let ?r = "client_request t e d k n"
  have f: "rq_path ?r = UploadPath" "rq_query ?r = []" "rq_method ?r = ''POST''" "rq_length ?r = n" by (simp_all add: client_request_def)
  have h: "header_get ''Authorization'' ?r = ''Bearer '' @ t" "header_get ''Content-Type'' ?r = ''application/octet-stream''" "header_get ''Content-Encoding'' ?r = []"
    "header_get MetadataHeader ?r = e" "header_get DigestHeader ?r = d" "header_get IdempotencyHeader ?r = k" by (simp_all add: header_get_def client_headers)
  have s: "\<not> list_ex (\<lambda>name. length (header_values name ?r) > 1) single_headers" by (simp add: single_headers_def client_headers)
  have dm: "DecodeMetadata dec e = Inr m" using assms(3-5) by (simp add: DecodeMetadata_def)
  have k: "k \<noteq> []" using assms(7) by (auto simp: ValidIdempotencyKey_def)
  show ?thesis unfolding ServeHTTP_def f h using s dm k assms(1,2,6,7) by (simp add: ValidUploadPath_def)
qed

lemma ReadSecret_valid: "ReadSecret F path fs = Inr token \<Longrightarrow> ValidToken token"
  by (auto simp: ReadSecret_def Let_def split: sum.splits option.splits if_splits)

text \<open>C17. The receiver understands the client. Every request Send makes passes every check the writer makes of a request before
  admission, whatever the file, the key and the description, if decoding the metadata header gives back what was encoded: the answer is
  the one Admit gives for exactly the client's token, metadata, size, digest and idempotency key.\<close>

theorem client_request_accepted:
  assumes "Send A E F net stop rewind rand (Inr random) temp o' path m0 fs = ((res, sent), fs')" "rq \<in> set sent" "length random = 32"
    and "check_mode o' m0 = Inr m" "EncodeMetadata m = Inr encoded" "dec encoded = Decoded m" "\<And>x. ValidDigest (TokenHash E x)"
  shows "\<exists>token digest key. ReadSecret F (o_key_file o') fs = Inr token \<and> NewIdempotencyKey (Inr random) = Inr key
    \<and> rq = client_request token encoded digest key (rq_length rq)
    \<and> ServeHTTP E dec newID st rf now rq w =
      (case Admit E newID st rf token m (rq_length rq) digest key now w of
         (Inl x, w') \<Rightarrow> (Some (case AdmissionError x of (status, message) \<Rightarrow> ErrorResponse status message), w')
       | (Inr b, w') \<Rightarrow> if b_status b = BackupComplete then (Some (ReceiptResponse (Receipt_of b)), w')
           else (None, w'\<lparr>uploads := uploads w' @ [new_upload b]\<rparr>))"
proof -
  have "sent \<noteq> []" using assms(2) by auto
  from assms(1) this show ?thesis
  proof (rule SendE)
    fix m' token and f :: local_file and bytes
    assume h: "check_mode o' m0 = Inr m'" "Metadata_Validate m' = Inr ()" "ReadSecret F (o_key_file o') fs = Inr token" "bytes \<noteq> []"
      "transmit F net stop rewind (Inr random) token m' (int (length bytes)) (TokenHash E bytes) = (res, sent)"
    have m: "m' = m" using h(1) assms(4) by simp
    obtain enc key where k: "EncodeMetadata m' = Inr enc" "NewIdempotencyKey (Inr random) = Inr key"
      "send_loop net stop rewind (client_request token enc (TokenHash E bytes) key (int (length bytes))) (int (length bytes)) (TokenHash E bytes) 0 3 NoAnswer = (res, sent)"
      by (rule transmitE [OF h(5) \<open>sent \<noteq> []\<close>])
    have enc: "enc = encoded" using k(1) assms(5) m by simp
    have rq: "rq = client_request token encoded (TokenHash E bytes) key (int (length bytes))" using send_loop_requests [OF k(3)] assms(2) enc by auto
    then have n: "rq_length rq = int (length bytes)" by (simp add: client_request_def)
    have key: "ValidIdempotencyKey key" using generated_identifiers_valid [of "replicate 16 CHR ''0''" random] assms(3) k(2) by auto
    have len: "length encoded \<le> 12 * 1024" using EncodeMetadata_fits [OF assms(5)] by simp
    have pos: "0 < int (length bytes)" using h(4) by simp
    have valid: "Metadata_Validate m = Inr ()" using h(2) m by simp
    have "ServeHTTP E dec newID st rf now rq w =
      (case Admit E newID st rf token m (rq_length rq) (TokenHash E bytes) key now w of
         (Inl x, w') \<Rightarrow> (Some (case AdmissionError x of (status, message) \<Rightarrow> ErrorResponse status message), w')
       | (Inr b, w') \<Rightarrow> if b_status b = BackupComplete then (Some (ReceiptResponse (Receipt_of b)), w')
           else (None, w'\<lparr>uploads := uploads w' @ [new_upload b]\<rparr>))"
      unfolding n unfolding rq
      by (rule ServeHTTP_client) (use ReadSecret_valid [OF h(3)] pos len assms(6,7) valid key in simp_all)
    then show ?thesis using h(3) k(2) rq n by auto
  qed
qed

end
