(* ===== verification/Client_Scenario.thy ===== *)
theory Client_Scenario
  imports Client
begin

text \<open>
  A concrete key pair, file, ciphertext and receipt, evaluated in the kernel: they show that the hypotheses of the
  properties of client and recovery can hold together. The library of the example encrypts by a prefix.
\<close>

definition lab_digest :: string where "lab_digest = replicate 64 CHR ''0''"

definition lab :: env where
  "lab = \<lparr>LoadLocation = (\<lambda>_. Some UTC), zone_abbrev = (\<lambda>_ _. ''UTC''), TokenHash = (\<lambda>_. lab_digest),
     ParseAddress_ok = (\<lambda>_. True), ParseAddressList_ok = (\<lambda>_. True)\<rparr>"

definition prefix_age :: "(string, string) age" where
  "prefix_age = \<lparr>ParseX25519Recipient = (\<lambda>s. if s = ''age1k'' then Some s else None), Encrypt = (\<lambda>_ _ p. [''age:'', p]),
     ParseIdentities = (\<lambda>_. Some [''K'']), Decrypt = (\<lambda>_ c. if take 4 c = ''age:'' then Some (drop 4 c, True) else None),
     identity_String = (\<lambda>_. ''AGE-SECRET-KEY-1K''), recipient_String = (\<lambda>_. ''age1k'')\<rparr>"

definition lab_files :: files where
  "lab_files = [(''data'', LocalFile \<lparr>lf_bytes = ''secret'', lf_mode = 420\<rparr>), (''key'', LocalFile \<lparr>lf_bytes = ''obk_token'', lf_mode = 384\<rparr>)]"

definition well :: faults where "well = (\<lambda>_. None)"

definition keyed :: files where "keyed = snd (GenerateIdentity prefix_age well (Inr ''K'') ''id'' lab_files)"
definition sealed :: files where "sealed = snd (EncryptToTemp prefix_age lab well [] ''data'' ''age1k'' ''t0'' 100 keyed)"
definition archived :: files where "archived = AList.update ''arch'' (private_file ''age:secret'') keyed"
definition sealed_as :: prepared where "sealed_as = \<lparr>pr_path = ''t0'', pr_size = 10, pr_sha256 = lab_digest\<rparr>"

lemma lab_digest_valid: "ValidDigest lab_digest" by (simp add: ValidDigest_def lab_digest_def is_lower_hex_def byte_of_def list_all_iff)

lemma trim_recipient: "trim_space ''age1k'' = ''age1k''" by code_simp

lemma prefix_documented: "age_documented prefix_age ''K''"
  by (simp add: age_documented_def prefix_age_def identity_text_def trim_recipient)

lemma keyed_files: "file_at p keyed = (if p = ''id'' then Some (private_file (identity_text prefix_age ''K'')) else file_at p lab_files)"
  and keyed_run: "GenerateIdentity prefix_age well (Inr ''K'') ''id'' lab_files = (Inr ''age1k'', keyed)"
proof -
  have f: "file_at ''id'' lab_files = None" by (simp add: file_at_def lab_files_def)
  then show "GenerateIdentity prefix_age well (Inr ''K'') ''id'' lab_files = (Inr ''age1k'', keyed)"
    by (simp add: keyed_def GenerateIdentity_def well_def prefix_age_def)
  from GenerateIdentityD [OF this] show "file_at p keyed = (if p = ''id'' then Some (private_file (identity_text prefix_age ''K'')) else file_at p lab_files)" by simp
qed

lemma sealed_run: "EncryptToTemp prefix_age lab well [] ''data'' ''age1k'' ''t0'' 100 keyed = (Inr sealed_as, sealed)"
  and sealed_temp: "file_at ''t0'' sealed = Some (private_file ''age:secret'')"
proof -
  have f: "file_at ''data'' keyed = Some (LocalFile \<lparr>lf_bytes = ''secret'', lf_mode = 420\<rparr>)" "file_at ''t0'' keyed = None"
    by (simp_all add: keyed_files) (simp_all add: file_at_def lab_files_def)
  then show run: "EncryptToTemp prefix_age lab well [] ''data'' ''age1k'' ''t0'' 100 keyed = (Inr sealed_as, sealed)"
    by (simp add: EncryptToTemp_def sealed_def sealed_as_def well_def prefix_age_def lab_def trim_recipient Let_def)
  show "file_at ''t0'' sealed = Some (private_file ''age:secret'')"
    by (rule EncryptToTempD [OF run]) (use f in \<open>auto simp: prefix_age_def trim_recipient\<close>)
qed

lemma archived_files: "file_at ''arch'' archived = Some (private_file ''age:secret'')" "file_at ''id'' archived = file_at ''id'' keyed"
    "file_at ''o'' archived = None" "file_at ''t1'' archived = None" "file_at ''t2'' archived = None"
  by (simp_all add: archived_def keyed_files) (simp_all add: file_at_def lab_files_def)

theorem backup_restores_witness:
  "\<exists>fs'. Recover_file prefix_age lab (\<lambda>_. None) ''t1'' ''t2'' ''arch'' ''o'' 10 lab_digest ''id'' archived = (None, fs') \<and> file_at ''o'' fs' = Some (private_file ''secret'')"
proof -
  have src: "file_at ''data'' keyed = Some (LocalFile \<lparr>lf_bytes = ''secret'', lf_mode = 420\<rparr>)"
    by (simp add: keyed_files) (simp add: file_at_def lab_files_def)
  have a: "file_at ''arch'' archived = Some (LocalFile \<lparr>lf_bytes = ''age:secret'', lf_mode = 384\<rparr>)"
      "file_at ''t0'' sealed = Some (LocalFile \<lparr>lf_bytes = ''age:secret'', lf_mode = 384\<rparr>)"
    using archived_files(1) sealed_temp by (simp_all add: private_file_def)
  have "\<exists>fs4. Recover_file prefix_age lab (\<lambda>_. None) ''t1'' ''t2'' ''arch'' ''o'' (pr_size sealed_as) (pr_sha256 sealed_as) ''id'' archived = (None, fs4)
      \<and> file_at ''o'' fs4 = Some (private_file (lf_bytes \<lparr>lf_bytes = ''secret'', lf_mode = 420\<rparr>)) \<and> (\<forall>q. q \<noteq> ''o'' \<longrightarrow> file_at q fs4 = file_at q archived)"
    by (rule backup_restores [OF prefix_documented keyed_run sealed_run src a(2,1)])
      (use lab_digest_valid archived_files in \<open>simp_all add: sealed_as_def lab_def maxArchivedBytes_def\<close>)
  then show ?thesis by (auto simp: sealed_as_def)
qed

text \<open>A recovery whose last synchronization fails.\<close>

definition last_fails :: faults where "last_fails k = (if k = SyncOutput then Some ENOSPC else None)"

theorem recovery_is_safe_witness:
  "\<exists>fs'. Recover_file prefix_age lab last_fails ''t1'' ''t2'' ''arch'' ''o'' 10 lab_digest [] archived = (Some ENOSPC, fs') \<and> file_at ''t1'' fs' = None
    \<and> file_at ''id'' fs' = file_at ''id'' archived"
proof -
  obtain err fs' where r: "Recover_file prefix_age lab last_fails ''t1'' ''t2'' ''arch'' ''o'' 10 lab_digest [] archived = (err, fs')" by (metis prod.collapse)
  have "validateExpected 10 lab_digest = None" using lab_digest_valid by (simp add: validateExpected_iff maxArchivedBytes_def)
  then have "err = Some ENOSPC" using r archived_files
    by (simp add: Recover_file_def last_fails_def copy_verified_def OpenRegular_def private_file_def first_fault_def content_error_def limited_def lab_def publish_def
        create_file_def file_at_write Let_def)
  then show ?thesis using recovery_is_safe [OF r] archived_files(3-5) r by (simp add: last_fails_def)
qed

subsection \<open>Sending\<close>

definition lab_meta :: metadata where "lab_meta = \<lparr>Description = ''nightly'', OriginalName = ''db'', ContentFormat = []\<rparr>"
definition lab_options :: options where
  "lab_options = \<lparr>o_url = Some \<lparr>u_scheme = ''https'', u_host = ''h'', u_user = False, u_query = [], u_fragment = [], u_path = []\<rparr>,
     o_key_file = ''key'', o_encrypt_to = ''age1k'', o_plaintext = False, o_temp_limit = 0, o_temp_dir = []\<rparr>"
definition lab_receipt :: receipt where
  "lab_receipt = \<lparr>rc_id = replicate 32 CHR ''a'', rc_status = BackupComplete, rc_size = 10, rc_sha256 = lab_digest, rc_received_at = Stamp 0\<rparr>"
definition lab_net :: "nat \<Rightarrow> exchange" where "lab_net k = (if k = 0 then Unanswered False else Accepted (Some lab_receipt))"
definition lab_random :: string where "lab_random = replicate 32 CHR 0xFF"
definition lab_send :: "((send_error + receipt) \<times> request list) \<times> files" where
  "lab_send = Send prefix_age lab well lab_net (\<lambda>_. False) (\<lambda>_. None) [] (Inr lab_random) ''t0'' lab_options ''data'' lab_meta lab_files"

lemma lab_facts: "ReadSecret well ''key'' lab_files = Inr ''obk_token''" "Metadata_Validate (lab_meta\<lparr>ContentFormat := ContentFormatAgeV1\<rparr>) = Inr ()"
    "receipt_error 10 lab_digest lab_receipt = None" "check_mode lab_options lab_meta = Inr (lab_meta\<lparr>ContentFormat := ContentFormatAgeV1\<rparr>)"
  by code_simp+

definition lab_encoded :: string where "lab_encoded = b64_encode (json_metadata (lab_meta\<lparr>ContentFormat := ContentFormatAgeV1\<rparr>))"
definition lab_request :: request where "lab_request = client_request ''obk_token'' lab_encoded lab_digest (''obi_'' @ b64_encode lab_random) 10"

lemma lab_encodes: "EncodeMetadata (lab_meta\<lparr>ContentFormat := ContentFormatAgeV1\<rparr>) = Inr lab_encoded"
  using lab_facts(2) by (simp add: EncodeMetadata_def lab_encoded_def)

lemma lab_sealed: "\<exists>fs1. EncryptToTemp prefix_age lab well [] ''data'' ''age1k'' ''t0'' DefaultMaxCiphertextBytes lab_files = (Inr sealed_as, fs1)"
proof -
  have "file_at ''data'' lab_files = Some (LocalFile \<lparr>lf_bytes = ''secret'', lf_mode = 420\<rparr>)" "file_at ''t0'' lab_files = None"
    by (simp_all add: file_at_def lab_files_def)
  then show ?thesis
    by (simp add: EncryptToTemp_def sealed_as_def well_def prefix_age_def lab_def trim_recipient Let_def DefaultMaxCiphertextBytes_def)
qed

lemma lab_sent: "\<exists>fs'. Send prefix_age lab well lab_net (\<lambda>_. False) (\<lambda>_. None) [] (Inr lab_random) ''t0'' lab_options ''data'' lab_meta lab_files
    = ((Inr lab_receipt, [lab_request, lab_request]), fs')"
proof -
  have t: "transmit well lab_net (\<lambda>_. False) (\<lambda>_. None) (Inr lab_random) ''obk_token'' (lab_meta\<lparr>ContentFormat := ContentFormatAgeV1\<rparr>) 10 lab_digest
      = (Inr lab_receipt, [lab_request, lab_request])"
    using lab_facts(3) by (simp add: transmit_def well_def lab_encodes NewIdempotencyKey_def lab_net_def numeral_3_eq_3 lab_request_def)
  have o: "url_ok (o_url lab_options)" "o_key_file lab_options = ''key''" "o_encrypt_to lab_options = ''age1k''" "o_temp_limit lab_options = 0" "well ConfigureTls = None"
    by (simp_all add: lab_options_def url_ok_def well_def)
  obtain fs1 where "EncryptToTemp prefix_age lab well [] ''data'' ''age1k'' ''t0'' DefaultMaxCiphertextBytes lab_files = (Inr sealed_as, fs1)" using lab_sealed by blast
  then show ?thesis using lab_facts(1,2,4) o t by (simp add: Send_def sealed_as_def)
qed


definition lab_world :: world where
  "lab_world = \<lparr>cat = Init, disk_of = \<lparr>names = [], inodes = [], unsynced = [], renamed = []\<rparr>, slots = 0, uploads = [], phase_of = Up, task_of = None\<rparr>"

lemma lab_admission: "fst (Admit lab (Inr (replicate 32 CHR ''a'')) (Inr \<lparr>Bsize = 4096, Bavail = 1000\<rparr>) 0 ''obk_token'' (lab_meta\<lparr>ContentFormat := ContentFormatAgeV1\<rparr>) 10 d k 0 lab_world)
    \<in> {Inl ErrUnauthorized, Inl ErrSize, Inl ErrIdempotencyConflict}"
proof -
  have "ValidToken ''obk_token''" by code_simp
  moreover have "authenticate lab Init ''obk_token'' = None" by (simp add: authenticate_def Init_def)
  ultimately show ?thesis using lab_facts(2) by (simp add: Admit_def lab_world_def slot_limit_def ReserveIdempotentChecked_def Let_def)
qed

theorem client_request_accepted_witness:
  "\<exists>code m. fst (ServeHTTP lab (\<lambda>_. Decoded (lab_meta\<lparr>ContentFormat := ContentFormatAgeV1\<rparr>)) (Inr (replicate 32 CHR ''a'')) (Inr \<lparr>Bsize = 4096, Bavail = 1000\<rparr>) 0 0 lab_request lab_world)
     = Some (ErrorResponse code m) \<and> code \<in> {401, 413, 409}"
proof -
  obtain fs' where s: "Send prefix_age lab well lab_net (\<lambda>_. False) (\<lambda>_. None) [] (Inr lab_random) ''t0'' lab_options ''data'' lab_meta lab_files
      = ((Inr lab_receipt, [lab_request, lab_request]), fs')" using lab_sent by blast
  have "rq_length lab_request = 10" "length lab_random = 32" by (simp_all add: lab_request_def client_request_def lab_random_def)
  moreover have "\<And>x. ValidDigest (TokenHash lab x)" using lab_digest_valid by (simp add: lab_def)
  ultimately obtain token digest key where k: "ReadSecret well (o_key_file lab_options) lab_files = Inr token"
    and r: "ServeHTTP lab (\<lambda>_. Decoded (lab_meta\<lparr>ContentFormat := ContentFormatAgeV1\<rparr>)) (Inr (replicate 32 CHR ''a'')) (Inr \<lparr>Bsize = 4096, Bavail = 1000\<rparr>) 0 0 lab_request lab_world
     = (case Admit lab (Inr (replicate 32 CHR ''a'')) (Inr \<lparr>Bsize = 4096, Bavail = 1000\<rparr>) 0 token (lab_meta\<lparr>ContentFormat := ContentFormatAgeV1\<rparr>) 10 digest key 0 lab_world of
         (Inl x, w') \<Rightarrow> (Some (case AdmissionError x of (status, message) \<Rightarrow> ErrorResponse status message), w')
       | (Inr b, w') \<Rightarrow> if b_status b = BackupComplete then (Some (ReceiptResponse (Receipt_of b)), w')
           else (None, w'\<lparr>uploads := uploads w' @ [new_upload b]\<rparr>))"
    using client_request_accepted [OF s, of lab_request "lab_meta\<lparr>ContentFormat := ContentFormatAgeV1\<rparr>" lab_encoded "\<lambda>_. Decoded (lab_meta\<lparr>ContentFormat := ContentFormatAgeV1\<rparr>)"
        "Inr (replicate 32 CHR ''a'')" "Inr \<lparr>Bsize = 4096, Bavail = 1000\<rparr>" 0 0 lab_world] lab_facts(4) lab_encodes by auto
  have "token = ''obk_token''" using k lab_facts(1) by (simp add: lab_options_def)
  then show ?thesis using r lab_admission [of digest key] by (auto simp: AdmissionError_def split: prod.splits)
qed

end
