(* ===== verification/Store_Alarms.thy ===== *)
theory Store_Alarms
  imports Store_Properties
begin

text \<open>
  What holds retention and what releases it: manual pauses, anomalies, administrative exclusions and the
  mail queue. Every operation either keeps retention at least as closed as it was or is one of the
  four that may open it, each under its own conditions.
\<close>

subsection \<open>Holds on retention\<close>

definition hold_inv :: "automation \<Rightarrow> bool" where
  "hold_inv a \<longleftrightarrow> a_activation_required a \<or> a_enabled a \<and> a_mail_tested a"

definition tight :: "automation \<Rightarrow> automation \<Rightarrow> bool" where
  "tight a a' \<longleftrightarrow> (retention_blocked a \<longrightarrow> retention_blocked a') \<and> (a_manual_paused a \<longrightarrow> a_manual_paused a') \<and> hold_inv a'"

lemma tight_refl: "hold_inv a \<Longrightarrow> tight a a" by (simp add: tight_def)

lemma tight_trans: "tight a b \<Longrightarrow> tight b c \<Longrightarrow> tight a c" by (auto simp: tight_def)

text \<open>Opening an anomaly leaves the automation state alone or closes retention.\<close>

definition alarmed :: "automation \<Rightarrow> automation \<Rightarrow> bool" where
  "alarmed a a' \<longleftrightarrow> a' = a \<or> (\<exists>reason. a' = a\<lparr>a_deletion_blocked := True, a_state := MonitoringAnomaly, a_block_reason := reason,
     a_activation_pending := False, a_resume_pending := False, a_resume_requested_at := 0\<rparr>)"

lemma alarmed_refl [simp]: "alarmed a a" by (simp add: alarmed_def)

lemma alarmed_trans: "alarmed a b \<Longrightarrow> alarmed b c \<Longrightarrow> alarmed a c"
  by (auto simp: alarmed_def)

lemma alarmed_tight: "alarmed a a' \<Longrightarrow> hold_inv a \<Longrightarrow> tight a a'"
  by (auto simp: alarmed_def tight_def hold_inv_def retention_blocked_def)

lemma insert_mail_auto [simp]: "insert_mail s k sub body now c = Inr c' \<Longrightarrow> automation_state c' = automation_state c"
  by (auto simp: insert_mail_def split: if_splits)

lemma insert_anomaly_auto: "insert_anomaly a c = Inr c' \<Longrightarrow> automation_state c' = automation_state c"
  by (auto simp: insert_anomaly_def split: if_splits)

lemma recordExcluded_auto:
  "recordExcludedAnomalyTx s k ki b d ev now c = Inr c' \<Longrightarrow> automation_state c' = automation_state c"
  by (auto simp: recordExcludedAnomalyTx_def Let_def dest: insert_anomaly_auto split: list.splits if_splits)

lemma block_alarmed: "alarmed (automation_state c) (automation_state (blockForAnomalyTx d c))"
  by (auto simp: blockForAnomalyTx_def alarmed_def)

lemma openAnomalyAtE:
  assumes "openAnomalyAtTx E s k ki b d ev now c = Inr (cr, c')"
  obtains (excluded) "anomalyExcludedTx c ki k ev" "\<not> cr" "recordExcludedAnomalyTx s k ki b d ev now c = Inr c'"
  | (seen) "\<not> anomalyExcludedTx c ki k ev" "\<not> cr" "count_where (\<lambda>a. an_stable_key a = s \<and> open_anomaly a) (anomalies c) \<noteq> 0"
      "c' = c\<lparr>anomalies := update_where (\<lambda>a. an_stable_key a = s \<and> open_anomaly a)
          (\<lambda>a. a\<lparr>an_last_seen_at := unix now, an_detail := d\<rparr>) (anomalies c)\<rparr>"
  | (opened) c1 c2 sub body where "\<not> anomalyExcludedTx c ki k ev" cr
      "count_where (\<lambda>a. an_stable_key a = s \<and> open_anomaly a) (anomalies c) = 0"
      "insert_anomaly (new_anomaly s k ki b d ev now) c = Inr c1"
      "c2 = (if anomalyBlocksTx c1 s k ki now then blockForAnomalyTx d c1 else c1)"
      "insert_mail (''anomaly:'' @ s @ '':'' @ show_int (unix now)) ''anomaly'' sub body now c2 = Inr c'"
proof (cases "anomalyExcludedTx c ki k ev")
  case True
  with assms excluded show ?thesis by (auto simp: openAnomalyAtTx_def split: if_splits sum.splits)
next
  case False
  show ?thesis
  proof (cases "count_where (\<lambda>a. an_stable_key a = s \<and> open_anomaly a) (anomalies c) = 0")
    case True
    with assms False obtain c1 where c1: "insert_anomaly (new_anomaly s k ki b d ev now) c = Inr c1"
      by (auto simp: openAnomalyAtTx_def Let_def split: if_splits sum.splits)
    let ?c2 = "if anomalyBlocksTx c1 s k ki now then blockForAnomalyTx d c1 else c1"
    obtain sub body where sb: "(if k = ''schedule_missing'' then missingBackupMailTx E ?c2 ki ev else anomalyMail s k d) = (sub, body)"
      by (metis prod.exhaust)
    have "cr \<and> insert_mail (''anomaly:'' @ s @ '':'' @ show_int (unix now)) ''anomaly'' sub body now ?c2 = Inr c'"
      using assms False True c1 sb by (simp add: openAnomalyAtTx_def Let_def split: if_split_asm sum.split_asm)
    with False True c1 opened show ?thesis by blast
  next
    case nz: False
    with assms False seen show ?thesis by (auto simp: openAnomalyAtTx_def Let_def split: if_splits sum.splits)
  qed
qed

lemma openAnomalyAt_alarmed:
  assumes "openAnomalyAtTx E s k ki b d ev now c = Inr (cr, c')"
  shows "alarmed (automation_state c) (automation_state c')"
  using assms
proof (cases rule: openAnomalyAtE)
  case excluded
  then show ?thesis using recordExcluded_auto by simp
next
  case (opened c1 c2 sub body)
  then have "automation_state c1 = automation_state c" "automation_state c' = automation_state c2"
    by (auto dest: insert_anomaly_auto)
  then show ?thesis using opened(5) block_alarmed [of c1 d] by simp
qed simp

lemma openAnomaly_alarmed: "openAnomalyTx E s k ki b d now c = Inr c' \<Longrightarrow> alarmed (automation_state c) (automation_state c')"
  by (auto simp: openAnomalyTx_def dest: openAnomalyAt_alarmed split: sum.splits)

lemma open_extras_alarmed: "open_extras E fs now c = Inr c' \<Longrightarrow> alarmed (automation_state c) (automation_state c')"
proof (induction fs arbitrary: c)
  case (Cons f fs)
  then show ?case
    by (auto dest: openAnomalyAt_alarmed intro: alarmed_trans split: if_splits sum.splits)
qed simp

lemma open_findings_alarmed: "open_findings E fs now c = Inr c' \<Longrightarrow> alarmed (automation_state c) (automation_state c')"
proof (induction fs arbitrary: c)
  case (Cons f fs)
  then show ?case by (auto dest!: openAnomalyAt_alarmed intro: alarmed_trans split: sum.splits)
qed simp

lemma resolveMaintenance_auto: "resolveMaintenanceOperationTx k now fin c = Inr (r, c') \<Longrightarrow> automation_state c' = automation_state c"
  by (auto simp: resolveMaintenanceOperationTx_def Let_def dest!: insert_mail_auto split: if_splits sum.splits)

lemma evaluateCompleted_alarmed:
  "evaluateCompletedInTransaction E i now c = Inr c' \<Longrightarrow> alarmed (automation_state c) (automation_state c')"
  by (auto simp: evaluateCompletedInTransaction_def dest: openAnomaly_alarmed open_extras_alarmed intro: alarmed_trans
      split: option.splits if_splits sum.splits)

lemma set_backup_auto: "set_backup i st f c = Some c1 \<Longrightarrow> automation_state c1 = automation_state c"
  by (auto simp: set_backup_def split: if_splits)

lemma insert_operation_auto: "insert_operation o' c = Inr c' \<Longrightarrow> automation_state c' = automation_state c"
  by (auto simp: insert_operation_def split: if_splits)

lemma set_operation_auto [simp]: "automation_state (set_operation k g c) = automation_state c"
  by (simp add: set_operation_def)

lemma fail_running_auto [simp]: "automation_state (fail_running s now c) = automation_state c"
  by (simp add: fail_running_def)

lemma resolve_all_auto: "resolve_all is now c = Inr c' \<Longrightarrow> automation_state c' = automation_state c"
  by (simp add: resolve_all_frame)

lemma finish_operation_auto: "finish_operation u inc nt o' now c = Inr (r, c') \<Longrightarrow> automation_state c' = automation_state c"
  by (cases "op_kind_of o'") (auto simp: finish_operation_def finish_backup_def dest!: resolveMaintenance_auto set_backup_auto
      split: if_splits option.splits sum.splits)

lemma resolve_after_auto: "resolve_after k now fin c = Inr (r, c') \<Longrightarrow> automation_state c' = automation_state c"
  by (auto simp: resolve_after_def dest: resolveMaintenance_auto split: sum.splits)

lemma same_automation:
  "PutProfile p c = Inr (r, c') \<Longrightarrow> automation_state c' = automation_state c"
  "CreateKey E i t n p' c = Inr (kt, c') \<Longrightarrow> automation_state c' = automation_state c"
  "Assign k p' c = Inr (r, c') \<Longrightarrow> automation_state c' = automation_state c"
  "SetKeyRetentionDays k days c = Inr (r, c') \<Longrightarrow> automation_state c' = automation_state c"
  "SaveModel ki rv tz days v rel rw now c = Inr (r, c') \<Longrightarrow> automation_state c' = automation_state c"
  "AcquireMaintenanceLease ow g now dur c = Inr (l, c') \<Longrightarrow> automation_state c' = automation_state c"
  "ReleaseMaintenanceLease l' c = Inr (r, c') \<Longrightarrow> automation_state c' = automation_state c"
  "StartMonitoringCheck now c = Inr (row, c') \<Longrightarrow> automation_state c' = automation_state c"
  "PlanMonitoringCheck E i' now c = Inr (pl, c') \<Longrightarrow> automation_state c' = automation_state c"
  "FailMonitoringCheck i' su now c = Inr (r, c') \<Longrightarrow> automation_state c' = automation_state c"
  "QueueReport s su body now c = Inr (r, c') \<Longrightarrow> automation_state c' = automation_state c"
  by (auto simp: PutProfile_def CreateKey_def Assign_def SetKeyRetentionDays_def SaveModel_def AcquireMaintenanceLease_def
      ReleaseMaintenanceLease_def StartMonitoringCheck_def PlanMonitoringCheck_def FailMonitoringCheck_def QueueReport_def Let_def
      split: if_splits sum.splits option.splits)

lemma operation_automation:
  "ReserveIdempotentChecked E n t m sz d ik now ch c = Inr (b, c') \<Longrightarrow> automation_state c' = automation_state c"
  "Revoke k now c = Inr (r, c') \<Longrightarrow> automation_state c' = automation_state c"
  "RequestQuarantine E i og ac re now c = Inr (o', c') \<Longrightarrow> automation_state c' = automation_state c"
  "RequestPurge E i og ac re now c = Inr (o', c') \<Longrightarrow> automation_state c' = automation_state c"
  "RequestRecovery i ac re now c = Inr (o', c') \<Longrightarrow> automation_state c' = automation_state c"
  "AuthorizeOperation E tok j l now c = Inr (ot, c') \<Longrightarrow> automation_state c' = automation_state c"
  "ValidateOperation E j t l now c = Inr (r, c') \<Longrightarrow> automation_state c' = automation_state c"
  "ReconcileAuthorized j now c = Inr (r, c') \<Longrightarrow> automation_state c' = automation_state c"
  "ResetAuthorized j now c = Inr (r, c') \<Longrightarrow> automation_state c' = automation_state c"
  subgoal by (erule ReserveE) (auto simp: record_attempt_def store_reservation_def split: option.splits sum.splits if_splits)
  subgoal by (auto simp: Revoke_def Let_def dest: resolve_all_auto split: if_splits sum.splits)
  subgoal by (auto simp: RequestQuarantine_def Let_def dest!: insert_operation_auto set_backup_auto split: if_splits option.splits sum.splits)
  subgoal by (auto simp: RequestPurge_def Let_def dest!: insert_operation_auto set_backup_auto split: if_splits option.splits sum.splits)
  subgoal by (auto simp: RequestRecovery_def Let_def dest!: insert_operation_auto split: if_splits option.splits sum.splits)
  subgoal by (auto simp: AuthorizeOperation_def split: sum.splits option.splits if_splits)
  subgoal by (auto simp: ValidateOperation_def split: sum.splits option.splits if_splits)
  subgoal by (auto simp: ReconcileAuthorized_def dest: finish_operation_auto split: option.splits if_splits)
  subgoal by (auto simp: ResetAuthorized_def Let_def dest!: resolve_after_auto set_backup_auto split: option.splits if_splits)
  done

text \<open>The rest of the operations that cannot open retention.\<close>

lemma alarm_automation:
  "OpenAnomalyAt E s k ki b d ev now c = Inr (cr, c') \<Longrightarrow> alarmed (automation_state c) (automation_state c')"
  "Complete E i now c = Inr (r, c') \<Longrightarrow> alarmed (automation_state c) (automation_state c')"
  "Fail E i re now c = Inr (r, c') \<Longrightarrow> alarmed (automation_state c) (automation_state c')"
  subgoal by (simp add: OpenAnomalyAt_def openAnomalyAt_alarmed)
  subgoal by (auto simp: Complete_def dest!: set_backup_auto evaluateCompleted_alarmed split: option.splits sum.splits)
  subgoal by (auto simp: Fail_def dest!: set_backup_auto openAnomaly_alarmed split: option.splits sum.splits)
  done

lemma record_failure_tight:
  assumes "record_failure E o' d now c = Inr (r, c')" "hold_inv (automation_state c)"
  shows "tight (automation_state c) (automation_state c')"
proof -
  let ?c1 = "set_operation (op_id o') (\<lambda>x. x\<lparr>op_error := if d = reconciledSourceIntact then ''errore operativo: '' @ d else d\<rparr>) c"
  let ?own = "List.find (\<lambda>x. an_stable_key x = maintenance_key (op_id o') \<and> an_kind x = ''maintenance''
      \<and> an_backup_id x = op_backup_id o' \<and> open_anomaly x) (anomalies ?c1)"
  define fd where "fd = ''errore operazione di manutenzione: '' @ d"
  define c2 where "c2 = (case ?own of None \<Rightarrow> ?c1 | Some x \<Rightarrow>
      if a_deletion_blocked (automation_state ?c1) \<and> a_block_reason (automation_state ?c1) = anomaly_reason (an_detail x)
      then set_automation (\<lambda>s. s\<lparr>a_block_reason := anomaly_reason fd\<rparr>) ?c1 else ?c1)"
  have "openAnomalyTx E (maintenance_key (op_id o')) ''maintenance'' [] (op_backup_id o') fd now c2 = Inr c'"
    using assms(1) unfolding record_failure_def Let_def fd_def [symmetric] c2_def [symmetric] by (simp split: sum.split_asm)
  then have c2: "alarmed (automation_state c2) (automation_state c')" by (rule openAnomaly_alarmed)
  have "automation_state c2 = automation_state c \<or> automation_state c2 = (automation_state c)\<lparr>a_block_reason := anomaly_reason fd\<rparr>"
    by (simp add: c2_def split: option.split)
  then have "tight (automation_state c) (automation_state c2)"
    using assms(2) by (auto simp: tight_def hold_inv_def retention_blocked_def)
  then show ?thesis using alarmed_tight [OF c2] tight_trans by (auto simp: tight_def)
qed

lemma same_tight: "automation_state c' = automation_state c \<Longrightarrow> hold_inv (automation_state c) \<Longrightarrow> tight (automation_state c) (automation_state c')"
  by (simp add: tight_refl)

lemma settings_tight:
  assumes "hold_inv (automation_state c)"
  shows "SetReserveFree n c = Inr (r, c') \<Longrightarrow> tight (automation_state c) (automation_state c')"
    "SetupAutomationMode E s tz mode now c = Inr (r, c') \<Longrightarrow> tight (automation_state c) (automation_state c')"
    "MarkMailTested now c = Inr (r, c') \<Longrightarrow> tight (automation_state c) (automation_state c')"
    "EnableAutomation c = Inr (r, c') \<Longrightarrow> tight (automation_state c) (automation_state c')"
    "PauseRetention re c = Inr (r, c') \<Longrightarrow> tight (automation_state c) (automation_state c')"
    "RequestRetentionResume now c = Inr (r, c') \<Longrightarrow> tight (automation_state c) (automation_state c')"
    "BeginRelearn c = Inr (r, c') \<Longrightarrow> tight (automation_state c) (automation_state c')"
    "SetCheckState ms rv now c = Inr (r, c') \<Longrightarrow> tight (automation_state c) (automation_state c')"
    "CancelQuarantineRequest i ac now c = Inr (r, c') \<Longrightarrow> tight (automation_state c) (automation_state c')"
    "ResolveAnomaly st now c = Inr (cr, c') \<Longrightarrow> tight (automation_state c) (automation_state c')"
    "AcknowledgeMissingAnomaly k now c = Inr (r, c') \<Longrightarrow> tight (automation_state c) (automation_state c')"
    "QueuePeriodicReport st sub body now c = Inr (r, c') \<Longrightarrow> tight (automation_state c) (automation_state c')"
    "ConfirmMail k err v now c = Inr (r, c') \<Longrightarrow> tight (automation_state c) (automation_state c')"
    "ConfirmOperation E k t fin d l now c = Inr (r, c') \<Longrightarrow> tight (automation_state c) (automation_state c')"
  subgoal using assms by (auto simp: SetReserveFree_def tight_def hold_inv_def retention_blocked_def split: if_splits)
  subgoal using assms unfolding SetupAutomationMode_def by (simp add: tight_def hold_inv_def retention_blocked_def split: if_splits) auto
  subgoal using assms by (auto simp: MarkMailTested_def tight_def hold_inv_def retention_blocked_def)
  subgoal using assms by (auto simp: EnableAutomation_def tight_def hold_inv_def retention_blocked_def split: if_splits)
  subgoal using assms by (auto simp: PauseRetention_def tight_def hold_inv_def retention_blocked_def)
  subgoal using assms by (auto simp: RequestRetentionResume_def tight_def hold_inv_def retention_blocked_def)
  subgoal using assms by (auto simp: BeginRelearn_def tight_def hold_inv_def retention_blocked_def split: if_splits)
  subgoal using assms by (auto simp: SetCheckState_def tight_def hold_inv_def retention_blocked_def split: if_split_asm)
  subgoal using assms by (auto simp: CancelQuarantineRequest_def Let_def tight_def hold_inv_def retention_blocked_def
        dest!: resolveMaintenance_auto set_backup_auto split: option.splits if_splits sum.splits)
  subgoal using assms by (auto simp: ResolveAnomaly_def Let_def tight_def hold_inv_def retention_blocked_def dest!: insert_mail_auto
        split: option.splits if_splits sum.splits)
  subgoal using assms by (auto simp: AcknowledgeMissingAnomaly_def Let_def tight_def hold_inv_def retention_blocked_def dest!: insert_mail_auto
        split: option.splits if_splits sum.splits)
  subgoal using assms by (auto simp: QueuePeriodicReport_def QueueReport_def tight_def hold_inv_def retention_blocked_def dest!: insert_mail_auto
        split: sum.splits)
  subgoal using assms by (auto simp: ConfirmMail_def Let_def tight_def hold_inv_def retention_blocked_def split: option.splits if_splits)
  subgoal using assms by (auto simp: ConfirmOperation_def dest: same_tight [OF finish_operation_auto] record_failure_tight intro: tight_refl
        split: sum.splits option.splits if_splits)
  done

lemmas holds_frames = same_automation operation_automation

text \<open>The four operations that may open retention.\<close>

definition opens :: "env \<Rightarrow> catalog \<Rightarrow> catalog \<Rightarrow> bool" where
  "opens E c c' \<longleftrightarrow> (\<exists>now r. ResumeRetention now c = Inr (r, c'))
     \<or> (\<exists>i oc su ms rv fs now r. CompleteMonitoringCheck E i oc su ms rv fs now c = Inr (r, c'))
     \<or> (\<exists>k now cr. TryClearResolvedMaintenanceBlock k now c = Inr (cr, c'))
     \<or> (\<exists>k st en ac re kinds now ex. CreateAnomalyExclusion k st en ac re kinds now c = Inr (ex, c'))"

lemma opens_steps:
  "ResumeRetention now c = Inr (r, c') \<Longrightarrow> opens E c c'"
  "CompleteMonitoringCheck E i oc su ms rv fs now c = Inr (r, c') \<Longrightarrow> opens E c c'"
  "TryClearResolvedMaintenanceBlock k now c = Inr (cr, c') \<Longrightarrow> opens E c c'"
  "CreateAnomalyExclusion k st en ac re kinds now c = Inr (ex, c') \<Longrightarrow> opens E c c'"
  unfolding opens_def
  subgoal by (rule disjI1, (rule exI)+)
  subgoal by (rule disjI2, rule disjI1, (rule exI)+)
  subgoal by (rule disjI2, rule disjI2, rule disjI1, (rule exI)+)
  subgoal by (rule disjI2, rule disjI2, rule disjI2, (rule exI)+)
  done

lemma step_tight_or_opens:
  assumes "store_step E c c'" "hold_inv (automation_state c)"
  shows "tight (automation_state c) (automation_state c') \<or> opens E c c'"
  using assms
  by (induction rule: store_step.induct)
    (rule disjI2, erule opens_steps | rule disjI1, (drule holds_frames, erule (1) same_tight
      | drule alarm_automation, erule (1) alarmed_tight | erule (1) settings_tight [rotated]))+

text \<open>No open anomaly whose kind always blocks, and nothing authorized: the least every opening requires.\<close>

definition no_hard_anomaly :: "catalog \<Rightarrow> bool" where
  "no_hard_anomaly c \<longleftrightarrow> list_all (\<lambda>a. open_anomaly a \<longrightarrow>
     IsQuarantineMarginWarning (an_kind a) (an_stable_key a) \<or> excludable (an_kind a)) (anomalies c)"

definition opened_well :: "catalog \<Rightarrow> catalog \<Rightarrow> bool" where
  "opened_well c c' \<longleftrightarrow> no_hard_anomaly c' \<and> authorized_count c' = 0 \<and> a_state (automation_state c') = MonitoringRegular
     \<and> (a_manual_paused (automation_state c) \<and> \<not> a_manual_paused (automation_state c') \<longrightarrow>
         a_resume_pending (automation_state c) \<or> (\<exists>now r. ResumeRetention now c = Inr (r, c')))"

lemma no_hard_blocking: "blockingAnomalyCountTx c now = 0 \<Longrightarrow> anomalies c' = anomalies c \<Longrightarrow> no_hard_anomaly c'"
  by (auto simp: blockingAnomalyCountTx_def count_where_zero anomaly_blocking_def no_hard_anomaly_def list_all_iff)

lemma resume_opens:
  assumes "ResumeRetention now c = Inr (r, c')"
  shows "hold_inv (automation_state c') \<and> opened_well c c'"
proof -
  have "a_enabled (automation_state c) \<and> a_mail_tested (automation_state c) \<and> blockingAnomalyCountTx c now = 0 \<and> authorized_count c = 0
      \<and> a_state (automation_state c) = MonitoringRegular \<and> c' = set_automation release_holds c"
    using assms by (auto simp: ResumeRetention_def Let_def split: if_splits)
  then show ?thesis
    using assms no_hard_blocking [of c now c']
    by (auto simp: hold_inv_def opened_well_def release_holds_def authorized_count_def)
qed

lemma try_clear_opens:
  assumes "TryClearResolvedMaintenanceBlock k now c = Inr (cr, c')" "hold_inv (automation_state c)"
  shows "tight (automation_state c) (automation_state c') \<or> hold_inv (automation_state c') \<and> opened_well c c'"
proof -
  have "c' = c \<or> blockingAnomalyCountTx c now = 0 \<and> authorized_count c = 0 \<and> a_state (automation_state c) = MonitoringRegular
      \<and> c' = set_automation (\<lambda>s. s\<lparr>a_deletion_blocked := False, a_block_reason := []\<rparr>) c"
    using assms(1) by (auto simp: TryClearResolvedMaintenanceBlock_def Let_def split: if_splits list.splits)
  then show ?thesis
    using assms(2) tight_refl no_hard_blocking [of c now c']
    by (auto simp: hold_inv_def opened_well_def authorized_count_def)
qed

text \<open>What an administrative exclusion writes: the exclusion, the anomalies it closes, and possibly the
  release of an anomaly block.\<close>

definition excluded_catalog :: "exclusion \<Rightarrow> time \<Rightarrow> catalog \<Rightarrow> catalog" where
  "excluded_catalog e now c = c\<lparr>exclusions := exclusions c @ [e], seq_exclusion := seq_exclusion c + 1,
     anomalies := update_where (\<lambda>a. open_anomaly a \<and> covers e (an_key_id a) (an_kind a) (an_event_at a))
       (\<lambda>a. a\<lparr>an_resolved_at := unix now, an_acknowledged_at := unix now, an_resolved_by := ex_actor e,
              an_resolution_note := ex_reason e\<rparr>) (anomalies c)\<rparr>"

lemma CreateExclusionD:
  assumes "CreateAnomalyExclusion k st en ac re kinds now c = Inr (ex, c')"
  shows "c' = excluded_catalog ex now c \<or> blockingAnomalyCountTx (excluded_catalog ex now c) now = 0
      \<and> authorized_count (excluded_catalog ex now c) = 0 \<and> has_prefix (a_block_reason (automation_state c)) ''anomalia:''
      \<and> c' = set_automation (\<lambda>s. s\<lparr>a_deletion_blocked := False, a_state := MonitoringRegular, a_block_reason := []\<rparr>) (excluded_catalog ex now c)"
proof -
  from assms obtain src where src: "List.find (\<lambda>a. an_id a = k) (anomalies c) = Some src"
    unfolding CreateAnomalyExclusion_def by (auto simp: Let_def split: option.splits if_splits)
  define e where "e = \<lparr>ex_id = seq_exclusion c + 1, ex_source = k, ex_key_id = an_key_id src, ex_starts_at = unix st, ex_ends_at = unix en,
      ex_actor = trim_space ac, ex_reason = trim_space re, ex_created_at = unix now, ex_kinds = kinds\<rparr>"
  have actor: "trim_space ac = ex_actor e" "trim_space re = ex_reason e" by (simp_all add: e_def)
  show ?thesis
    using assms src unfolding CreateAnomalyExclusion_def Let_def e_def [symmetric]
    by (auto simp: excluded_catalog_def actor [symmetric] split: if_split_asm)
qed

lemma exclusion_opens:
  assumes "CreateAnomalyExclusion k st en ac re kinds now c = Inr (ex, c')" "hold_inv (automation_state c)"
  shows "tight (automation_state c) (automation_state c') \<or> hold_inv (automation_state c') \<and> opened_well c c'"
proof -
  have "automation_state (excluded_catalog ex now c) = automation_state c" by (simp add: excluded_catalog_def)
  then show ?thesis
    using CreateExclusionD [OF assms(1)] assms(2) tight_refl [OF assms(2)] no_hard_blocking [of "excluded_catalog ex now c" now c']
    by (auto simp: hold_inv_def opened_well_def authorized_count_def)
qed

lemma check_effect:
  assumes "CompleteMonitoringCheck E i oc su ms rv fs now c = Inr (r, c')"
  obtains c1 c3 a3 where "open_findings E fs now c = Inr c1" "automation_state c3 = a3" "anomalies c3 = anomalies c1" "operations c3 = operations c1"
    "a3 = (automation_state c1)\<lparr>a_state := a_state a3, a_model_revision := a_model_revision a3, a_last_check_at := a_last_check_at a3,
       a_deletion_blocked := a_deletion_blocked a3, a_block_reason := a_block_reason a3\<rparr>"
    "a_deletion_blocked (automation_state c1) \<longrightarrow> a_deletion_blocked a3"
    "a_state a3 = MonitoringRegular \<longrightarrow> blockingAnomalyCountTx c1 now = 0"
    "automation_state c' = automation_state (activateRetentionAfterCheckTx c3)" "operations c' = operations c3" "anomalies c' = anomalies c3"
proof -
  obtain c1 where c1: "open_findings E fs now c = Inr c1"
    and c': "c' = cleanupMonitoringChecksTx (unix now - check_retention) (activateRetentionAfterCheckTx
       (c1\<lparr>automation_state := (let st' = (if blockingAnomalyCountTx c1 now > 0 then MonitoringAnomaly else ms); a = automation_state c1 in
             if st' = MonitoringLearning
             then a\<lparr>a_state := st', a_model_revision := rv, a_last_check_at := unix now,
                    a_deletion_blocked := True, a_block_reason := ''apprendimento non completato''\<rparr>
             else a\<lparr>a_state := st', a_model_revision := rv, a_last_check_at := unix now\<rparr>),
           checks := update_where (\<lambda>k. mc_id k = i \<and> mc_status k = Running)
             (\<lambda>k. k\<lparr>mc_status := oc, mc_finished_at := Some (unix now), mc_summary := su\<rparr>) (checks c1)\<rparr>))"
    (is "_ = cleanupMonitoringChecksTx _ (activateRetentionAfterCheckTx ?c3)")
    using assms by (rule CompleteMonitoringCheckE)
  show thesis
    by (rule that [OF c1, of ?c3]) (auto simp: c' Let_def split: if_split_asm)
qed

lemma check_opens:
  assumes "CompleteMonitoringCheck E i oc su ms rv fs now c = Inr (r, c')" "hold_inv (automation_state c)"
  shows "tight (automation_state c) (automation_state c') \<or> hold_inv (automation_state c') \<and> opened_well c c'"
  using assms(1)
proof (rule check_effect)
  fix c1 c3 a3
  assume c1: "open_findings E fs now c = Inr c1" and a3: "automation_state c3 = a3"
    and same: "anomalies c3 = anomalies c1" "operations c3 = operations c1"
    and shape: "a3 = (automation_state c1)\<lparr>a_state := a_state a3, a_model_revision := a_model_revision a3, a_last_check_at := a_last_check_at a3,
       a_deletion_blocked := a_deletion_blocked a3, a_block_reason := a_block_reason a3\<rparr>"
    and blocked: "a_deletion_blocked (automation_state c1) \<longrightarrow> a_deletion_blocked a3"
    and regular: "a_state a3 = MonitoringRegular \<longrightarrow> blockingAnomalyCountTx c1 now = 0"
    and c': "automation_state c' = automation_state (activateRetentionAfterCheckTx c3)" "operations c' = operations c3" "anomalies c' = anomalies c3"
  obtain d st mr lc b where d: "a3 = (automation_state c1)\<lparr>a_state := st, a_model_revision := mr, a_last_check_at := lc,
       a_deletion_blocked := d, a_block_reason := b\<rparr>" using shape by blast
  have al: "alarmed (automation_state c) (automation_state c1)" using c1 by (rule open_findings_alarmed)
  then have pend: "a_resume_pending a3 \<longrightarrow> a_resume_pending (automation_state c)"
    by (auto simp: d alarmed_def)
  show ?thesis
  proof (cases "activation_ready c3")
    case True
    then have ready: "a_enabled a3" "a_mail_tested a3" "a_state a3 = MonitoringRegular" "a_resume_pending a3 \<or> \<not> a_manual_paused a3" "authorized_count c3 = 0"
      using a3 by (auto simp: activation_ready_def Let_def)
    have rel: "automation_state c' = release_holds a3" using True c' a3 by (simp add: activateRetentionAfterCheckTx_def)
    have pm: "a_manual_paused a3 = a_manual_paused (automation_state c)" using al by (auto simp: d alarmed_def)
    show ?thesis
      using ready rel pm pend regular no_hard_blocking [of c1 now c'] same c'
      by (auto simp: hold_inv_def opened_well_def release_holds_def authorized_count_def)
  next
    case False
    then have "automation_state c' = a3" using c' a3 by (simp add: activateRetentionAfterCheckTx_def)
    moreover have "tight (automation_state c1) a3"
      using blocked alarmed_tight [OF al assms(2)] by (auto simp: d tight_def hold_inv_def retention_blocked_def)
    ultimately show ?thesis using alarmed_tight [OF al assms(2)] tight_trans by metis
  qed
qed

lemma opens_well:
  assumes "opens E c c'" "hold_inv (automation_state c)"
  shows "tight (automation_state c) (automation_state c') \<or> hold_inv (automation_state c') \<and> opened_well c c'"
  using assms(1) unfolding opens_def
  by (elim disjE exE) (use assms(2) in \<open>blast dest: resume_opens check_opens try_clear_opens exclusion_opens\<close>)+

lemma store_step_hold: "store_step E c c' \<Longrightarrow> hold_inv (automation_state c) \<Longrightarrow> hold_inv (automation_state c')"
  using step_tight_or_opens opens_well by (metis tight_def)

interpretation store_hold: machine Init "store_step E" "\<lambda>c. hold_inv (automation_state c)"
proof unfold_locales
  show "hold_inv (automation_state Init)" by (simp add: Init_def initial_automation_def hold_inv_def)
qed (rule store_step_hold)

text \<open>C24. Retention opens only when it is safe: whenever a step takes it from blocked to open, the
  automation is enabled, the current mail configuration was tested, the monitoring state is regular, no
  operation is authorized and no anomaly of a kind that always blocks is open. A manual pause in
  particular ends only by ResumeRetention or by the check of a resumption that was asked for.\<close>

theorem retention_opens_safely:
  assumes "reachable E c" "store_step E c c'"
  shows "(retention_blocked (automation_state c) \<and> \<not> retention_blocked (automation_state c') \<longrightarrow>
      a_enabled (automation_state c') \<and> a_mail_tested (automation_state c') \<and> a_state (automation_state c') = MonitoringRegular
      \<and> authorized_count c' = 0 \<and> no_hard_anomaly c')
    \<and> (a_manual_paused (automation_state c) \<and> \<not> a_manual_paused (automation_state c') \<longrightarrow>
      a_resume_pending (automation_state c) \<or> (\<exists>now r. ResumeRetention now c = Inr (r, c')))"
proof -
  have "hold_inv (automation_state c)" using store_hold.reachable_inv [OF assms(1)] .
  then have "tight (automation_state c) (automation_state c') \<or> opened_well c c'"
    using step_tight_or_opens [OF assms(2)] opens_well by blast
  then show ?thesis
  proof
    assume "tight (automation_state c) (automation_state c')"
    then show ?thesis by (auto simp: tight_def)
  next
    assume "opened_well c c'"
    then show ?thesis by (auto simp: opened_well_def retention_blocked_def)
  qed
qed

subsection \<open>One open anomaly per stable key, one message per identifier\<close>

definition open_keys :: "catalog \<Rightarrow> string list" where
  "open_keys c = map an_stable_key (filter open_anomaly (anomalies c))"

definition log_inv :: "catalog \<Rightarrow> bool" where
  "log_inv c \<longleftrightarrow> distinct (open_keys c) \<and> distinct (map ml_stable_id (mail_queue c)) \<and> distinct (map ml_id (mail_queue c))
     \<and> list_all (\<lambda>m. ml_id m \<le> seq_mail c) (mail_queue c)"

definition logged :: "catalog \<Rightarrow> catalog \<Rightarrow> bool" where
  "logged c c' \<longleftrightarrow> (\<exists>new. mail_queue c' = mail_queue c @ new) \<and> (log_inv c \<longrightarrow> log_inv c')"

definition same_log :: "catalog \<Rightarrow> catalog \<Rightarrow> bool" where
  "same_log c c' \<longleftrightarrow> anomalies c' = anomalies c \<and> mail_queue c' = mail_queue c \<and> seq_mail c' = seq_mail c"

lemma logged_refl [simp]: "logged c c" by (simp add: logged_def)

lemma logged_trans: "logged a b \<Longrightarrow> logged b c \<Longrightarrow> logged a c" by (auto simp: logged_def)

lemma same_logged: "same_log c c' \<Longrightarrow> logged c c'"
  by (simp add: same_log_def logged_def log_inv_def open_keys_def)

lemma same_log_trans [trans]: "same_log a b \<Longrightarrow> same_log b c \<Longrightarrow> same_log a c" by (simp add: same_log_def)

lemma insert_mail_logged:
  assumes "insert_mail s k sub body now c = Inr c'"
  shows "logged c c'"
proof -
  define m where "m = \<lparr>ml_id = seq_mail c + 1, ml_stable_id = s, ml_kind = k, ml_subject = sub, ml_body = body, ml_created_at = unix now,
      ml_attempts = 0, ml_next_attempt_at = unix now, ml_claimed_at = 0, ml_sent_at = 0, ml_last_error = []\<rparr>"
  have m: "ml_id m = seq_mail c + 1" "ml_stable_id m = s" by (simp_all add: m_def)
  have fresh: "s \<notin> ml_stable_id ` set (mail_queue c)" using assms by (auto simp: insert_mail_def list_ex_iff split: if_split_asm)
  have "c' = c\<lparr>mail_queue := mail_queue c @ [m], seq_mail := seq_mail c + 1\<rparr>"
    using assms unfolding m_def by (simp add: insert_mail_def split: if_split_asm)
  then have c': "mail_queue c' = mail_queue c @ [m]" "seq_mail c' = seq_mail c + 1" "anomalies c' = anomalies c" by simp_all
  have "seq_mail c + 1 \<notin> ml_id ` set (mail_queue c)" if "list_all (\<lambda>m. ml_id m \<le> seq_mail c) (mail_queue c)"
    using that by (auto simp: list_all_iff)
  then show ?thesis
    using m fresh c' by (auto simp: logged_def log_inv_def open_keys_def list_all_iff)
qed

lemma insert_anomaly_logged:
  assumes "insert_anomaly a c = Inr c'"
  shows "logged c c'"
proof -
  have "\<not> (open_anomaly a \<and> list_ex (\<lambda>x. open_anomaly x \<and> an_stable_key x = an_stable_key a) (anomalies c))"
    using assms unfolding insert_anomaly_def by (metis Inl_Inr_False)
  then have fresh: "open_anomaly a \<longrightarrow> an_stable_key a \<notin> set (open_keys c)"
    unfolding open_keys_def list_ex_iff by auto
  have "c' = c\<lparr>anomalies := anomalies c @ [a\<lparr>an_id := seq_anomaly c + 1\<rparr>], seq_anomaly := seq_anomaly c + 1\<rparr>"
    using assms by (simp add: insert_anomaly_def split: if_split_asm)
  then have c': "anomalies c' = anomalies c @ [a\<lparr>an_id := seq_anomaly c + 1\<rparr>]" "mail_queue c' = mail_queue c" "seq_mail c' = seq_mail c"
    by simp_all
  have "open_anomaly (a\<lparr>an_id := seq_anomaly c + 1\<rparr>) = open_anomaly a" by (simp add: open_anomaly_def)
  then show ?thesis using c' fresh by (auto simp: logged_def log_inv_def open_keys_def)
qed

lemma open_keys_update:
  assumes "\<And>x. P x \<Longrightarrow> an_stable_key (f x) = an_stable_key x \<and> (open_anomaly (f x) \<longrightarrow> open_anomaly x)"
  shows "distinct (map an_stable_key (filter open_anomaly as)) \<Longrightarrow> distinct (map an_stable_key (filter open_anomaly (update_where P f as)))"
proof (induction as)
  case (Cons a as)
  have "an_stable_key ` {x \<in> set (update_where P f as). open_anomaly x} \<subseteq> an_stable_key ` {x \<in> set as. open_anomaly x}"
    using assms by (force simp: set_update_where)
  with Cons assms [of a] show ?case by (auto split: if_splits)
qed simp

lemma update_logged:
  assumes "anomalies c' = update_where P f (anomalies c)" "mail_queue c' = mail_queue c" "seq_mail c' = seq_mail c"
    and "\<And>x. P x \<Longrightarrow> an_stable_key (f x) = an_stable_key x \<and> (open_anomaly (f x) \<longrightarrow> open_anomaly x)"
  shows "logged c c'"
  using open_keys_update [OF assms(4)] assms(1-3) by (simp add: logged_def log_inv_def open_keys_def)

lemma recordExcluded_logged:
  assumes "recordExcludedAnomalyTx s k ki b d ev now c = Inr c'"
  shows "logged c c'"
proof -
  from assms obtain e where "\<exists>a. insert_anomaly a c = Inr c'
      \<or> c' = c\<lparr>anomalies := update_where (\<lambda>a. an_stable_key a = s \<and> \<not> open_anomaly a \<and> an_resolution_note a = e)
          (\<lambda>a. a\<lparr>an_last_seen_at := unix now, an_detail := d\<rparr>) (anomalies c)\<rparr>"
    by (auto simp: recordExcludedAnomalyTx_def Let_def split: list.splits if_splits)
  then show ?thesis
  proof (elim exE disjE)
    fix a assume "insert_anomaly a c = Inr c'"
    then show ?thesis by (rule insert_anomaly_logged)
  next
    assume c': "c' = c\<lparr>anomalies := update_where (\<lambda>a. an_stable_key a = s \<and> \<not> open_anomaly a \<and> an_resolution_note a = e)
          (\<lambda>a. a\<lparr>an_last_seen_at := unix now, an_detail := d\<rparr>) (anomalies c)\<rparr>"
    show ?thesis by (rule update_logged [where P = "\<lambda>a. an_stable_key a = s \<and> \<not> open_anomaly a \<and> an_resolution_note a = e"
          and f = "\<lambda>a. a\<lparr>an_last_seen_at := unix now, an_detail := d\<rparr>"]) (simp_all add: c' open_anomaly_def)
  qed
qed

lemma openAnomalyAt_logged:
  assumes "openAnomalyAtTx E s k ki b d ev now c = Inr (cr, c')"
  shows "logged c c'"
  using assms
proof (cases rule: openAnomalyAtE)
  case excluded
  then show ?thesis by (simp add: recordExcluded_logged)
next
  case seen
  show ?thesis by (rule update_logged [where P = "\<lambda>a. an_stable_key a = s \<and> open_anomaly a"
        and f = "\<lambda>a. a\<lparr>an_last_seen_at := unix now, an_detail := d\<rparr>"]) (simp_all add: seen(4))
next
  case (opened c1 c2 sub body)
  have "logged c1 c2" by (rule same_logged) (simp add: opened(5) same_log_def blockForAnomalyTx_def)
  then show ?thesis
    using logged_trans insert_anomaly_logged [OF opened(4)] insert_mail_logged [OF opened(6)] by blast
qed

lemma openAnomaly_logged: "openAnomalyTx E s k ki b d now c = Inr c' \<Longrightarrow> logged c c'"
  by (auto simp: openAnomalyTx_def dest: openAnomalyAt_logged split: sum.splits)

lemma open_extras_logged: "open_extras E fs now c = Inr c' \<Longrightarrow> logged c c'"
proof (induction fs arbitrary: c)
  case (Cons f fs)
  then show ?case by (auto dest: openAnomalyAt_logged intro: logged_trans split: if_splits sum.splits)
qed simp

lemma open_findings_logged: "open_findings E fs now c = Inr c' \<Longrightarrow> logged c c'"
proof (induction fs arbitrary: c)
  case (Cons f fs)
  then show ?case by (auto dest!: openAnomalyAt_logged intro: logged_trans split: sum.splits)
qed simp

lemma resolveMaintenance_logged: "resolveMaintenanceOperationTx k now fin c = Inr (r, c') \<Longrightarrow> logged c c'"
proof -
  let ?P = "\<lambda>a. (an_stable_key a = (if fin then maintenance_key k else uncertain_key k) \<or> an_stable_key a = uncertain_key k)
      \<and> an_kind a = ''maintenance'' \<and> open_anomaly a"
  assume "resolveMaintenanceOperationTx k now fin c = Inr (r, c')"
  then consider "c' = c" | nt s sub st where "insert_mail s ''resolution'' sub st now
      (c\<lparr>anomalies := update_where ?P (\<lambda>a. a\<lparr>an_resolved_at := unix now, an_resolved_by := ''automatic'', an_resolution_note := nt\<rparr>) (anomalies c)\<rparr>) = Inr c'"
    by (auto simp: resolveMaintenanceOperationTx_def Let_def split: if_splits sum.splits)
  then show ?thesis
  proof cases
    case (2 nt s sub st)
    let ?f = "\<lambda>a. a\<lparr>an_resolved_at := unix now, an_resolved_by := ''automatic'', an_resolution_note := nt\<rparr>"
    have "logged c (c\<lparr>anomalies := update_where ?P ?f (anomalies c)\<rparr>)"
      by (rule update_logged [where P = ?P and f = ?f]) simp_all
    then show ?thesis using insert_mail_logged [OF 2] logged_trans by blast
  qed simp
qed

lemma resolve_all_logged: "resolve_all is now c = Inr c' \<Longrightarrow> logged c c'"
proof (induction "is" arbitrary: c)
  case (Cons i js)
  then show ?case by (auto dest!: resolveMaintenance_logged intro: logged_trans split: sum.splits)
qed simp

lemma evaluateCompleted_logged: "evaluateCompletedInTransaction E i now c = Inr c' \<Longrightarrow> logged c c'"
  by (auto simp: evaluateCompletedInTransaction_def dest: openAnomaly_logged open_extras_logged intro: logged_trans
      split: option.splits if_splits sum.splits)

lemma set_backup_log: "set_backup i st f c = Some c1 \<Longrightarrow> same_log c c1"
  by (auto simp: set_backup_def same_log_def split: if_splits)

lemma insert_operation_log: "insert_operation o' c = Inr c' \<Longrightarrow> same_log c c'"
  by (auto simp: insert_operation_def same_log_def split: if_splits)

lemma set_operation_log: "same_log c (set_operation k g c)"
  by (simp add: set_operation_def same_log_def)

lemma finish_backup_log: "finish_backup o' now c = Some c1 \<Longrightarrow> same_log c c1"
  by (cases "op_kind_of o'") (auto simp: finish_backup_def dest: set_backup_log)

lemma logged_same: "same_log a b \<Longrightarrow> logged b c \<Longrightarrow> logged a c"
  using same_logged logged_trans by blast

lemma finish_operation_logged:
  assumes "finish_operation u inc nt o' now c = Inr (r, c')"
  shows "logged c c'"
proof -
  from assms obtain c1 g x where "finish_backup o' now c = Some c1"
    "resolveMaintenanceOperationTx (op_id o') now True (set_operation (op_id o') g c1) = Inr (x, c')"
    by (auto simp: finish_operation_def split: if_splits option.splits sum.splits)
  then show ?thesis
    using logged_same [OF finish_backup_log] logged_same [OF set_operation_log] resolveMaintenance_logged by blast
qed

lemma resolve_after_logged: "resolve_after k now fin c = Inr (r, c') \<Longrightarrow> logged c c'"
  by (auto simp: resolve_after_def dest: resolveMaintenance_logged split: sum.splits)

lemma record_failure_logged:
  assumes "record_failure E o' d now c = Inr (r, c')"
  shows "logged c c'"
proof -
  from assms obtain c2 s k ki b fd where "openAnomalyTx E s k ki b fd now c2 = Inr c'" "same_log c c2"
    unfolding record_failure_def Let_def by (simp add: same_log_def set_operation_def split: sum.split_asm option.split_asm if_split_asm)
  then show ?thesis using logged_same openAnomaly_logged by blast
qed

lemma same_log_ops:
  "PutProfile p c = Inr (r, c') \<Longrightarrow> same_log c c'"
  "CreateKey E i t n p' c = Inr (kt, c') \<Longrightarrow> same_log c c'"
  "Assign k p' c = Inr (r, c') \<Longrightarrow> same_log c c'"
  "SetKeyRetentionDays k days c = Inr (r, c') \<Longrightarrow> same_log c c'"
  "SetReserveFree bytes c = Inr (r, c') \<Longrightarrow> same_log c c'"
  "SaveModel ki rv tz days v rel rw now c = Inr (r, c') \<Longrightarrow> same_log c c'"
  "AcquireMaintenanceLease ow g now dur c = Inr (l, c') \<Longrightarrow> same_log c c'"
  "ReleaseMaintenanceLease l' c = Inr (r, c') \<Longrightarrow> same_log c c'"
  "StartMonitoringCheck now c = Inr (row, c') \<Longrightarrow> same_log c c'"
  "PlanMonitoringCheck E i' now c = Inr (pl, c') \<Longrightarrow> same_log c c'"
  "FailMonitoringCheck i' su now c = Inr (r, c') \<Longrightarrow> same_log c c'"
  "MarkMailTested now c = Inr (r, c') \<Longrightarrow> same_log c c'"
  "EnableAutomation c = Inr (r, c') \<Longrightarrow> same_log c c'"
  "PauseRetention re c = Inr (r, c') \<Longrightarrow> same_log c c'"
  "RequestRetentionResume now c = Inr (r, c') \<Longrightarrow> same_log c c'"
  "ResumeRetention now c = Inr (r, c') \<Longrightarrow> same_log c c'"
  "BeginRelearn c = Inr (r, c') \<Longrightarrow> same_log c c'"
  "SetCheckState ms rv now c = Inr (r, c') \<Longrightarrow> same_log c c'"
  "TryClearResolvedMaintenanceBlock kk now c = Inr (cr, c') \<Longrightarrow> same_log c c'"
  by (auto simp: same_log_def PutProfile_def CreateKey_def Assign_def SetKeyRetentionDays_def SetReserveFree_def SaveModel_def
      AcquireMaintenanceLease_def ReleaseMaintenanceLease_def StartMonitoringCheck_def PlanMonitoringCheck_def FailMonitoringCheck_def
      MarkMailTested_def EnableAutomation_def PauseRetention_def RequestRetentionResume_def ResumeRetention_def BeginRelearn_def
      SetCheckState_def TryClearResolvedMaintenanceBlock_def fail_running_def Let_def
      split: if_splits sum.splits option.splits list.splits)

lemma SetupAutomationMode_log: "SetupAutomationMode E s tz mode now c = Inr (r, c') \<Longrightarrow> same_log c c'"
  unfolding SetupAutomationMode_def by (simp add: same_log_def fail_running_def split: if_splits) auto

lemma operation_log:
  "ReserveIdempotentChecked E n t m sz d ik now ch c = Inr (b, c') \<Longrightarrow> same_log c c'"
  "RequestQuarantine E i og ac re now c = Inr (o', c') \<Longrightarrow> same_log c c'"
  "RequestPurge E i og ac re now c = Inr (o', c') \<Longrightarrow> same_log c c'"
  "RequestRecovery i ac re now c = Inr (o', c') \<Longrightarrow> same_log c c'"
  "AuthorizeOperation E tok j l now c = Inr (ot, c') \<Longrightarrow> same_log c c'"
  "ValidateOperation E j t l now c = Inr (r, c') \<Longrightarrow> same_log c c'"
  subgoal by (erule ReserveE) (auto simp: same_log_def record_attempt_def store_reservation_def split: option.splits sum.splits if_splits)
  subgoal by (auto simp: RequestQuarantine_def Let_def same_log_def insert_operation_def set_backup_def split: if_splits option.splits sum.splits)
  subgoal by (auto simp: RequestPurge_def Let_def same_log_def insert_operation_def set_backup_def split: if_splits option.splits sum.splits)
  subgoal by (auto simp: RequestRecovery_def Let_def same_log_def insert_operation_def split: if_splits option.splits sum.splits)
  subgoal by (auto simp: AuthorizeOperation_def same_log_def set_operation_def split: sum.splits option.splits if_splits)
  subgoal by (auto simp: ValidateOperation_def same_log_def set_operation_def split: sum.splits option.splits if_splits)
  done

lemma settle_logged:
  "ConfirmOperation E k t fin d l now c = Inr (r, c') \<Longrightarrow> logged c c'"
  "ReconcileAuthorized k now c = Inr (r, c') \<Longrightarrow> logged c c'"
  "Complete E i now c = Inr (r, c') \<Longrightarrow> logged c c'"
  "Fail E i re now c = Inr (r, c') \<Longrightarrow> logged c c'"
  "OpenAnomalyAt E s kd ki b d ev now c = Inr (cr, c') \<Longrightarrow> logged c c'"
  "QueueReport s sub body now c = Inr (r, c') \<Longrightarrow> logged c c'"
  subgoal by (auto simp: ConfirmOperation_def dest: finish_operation_logged record_failure_logged split: sum.splits option.splits if_splits)
  subgoal by (auto simp: ReconcileAuthorized_def dest: finish_operation_logged split: option.splits if_splits)
  subgoal by (auto simp: Complete_def dest!: set_backup_log evaluateCompleted_logged intro: logged_same split: option.splits sum.splits)
  subgoal by (auto simp: Fail_def dest!: set_backup_log openAnomaly_logged intro: logged_same split: option.splits sum.splits)
  subgoal by (simp add: OpenAnomalyAt_def openAnomalyAt_logged)
  subgoal by (auto simp: QueueReport_def dest: insert_mail_logged split: sum.splits)
  done

lemma QueuePeriodicReport_logged: "QueuePeriodicReport s sub body now c = Inr (r, c') \<Longrightarrow> logged c c'"
proof -
  assume "QueuePeriodicReport s sub body now c = Inr (r, c')"
  then obtain c1 x where "QueueReport s sub body now c = Inr (x, c1)" "same_log c1 c'"
    by (auto simp: QueuePeriodicReport_def same_log_def split: sum.splits)
  then show ?thesis using settle_logged(6) same_logged logged_trans by blast
qed

lemma Revoke_logged: "Revoke k now c = Inr (r, c') \<Longrightarrow> logged c c'"
proof -
  assume "Revoke k now c = Inr (r, c')"
  then obtain js c4 where "resolve_all js now c4 = Inr c'" "same_log c c4"
    by (auto simp: Revoke_def Let_def same_log_def split: if_splits sum.splits)
  then show ?thesis using logged_same resolve_all_logged by blast
qed

lemma ResetAuthorized_logged:
  assumes "ResetAuthorized k now c = Inr (r, c')"
  shows "logged c c'"
proof -
  from assms obtain c1 g fin where "resolve_after k now fin (set_operation k g c1) = Inr (r, c')" "same_log c c1"
    by (auto simp: ResetAuthorized_def Let_def dest: set_backup_log split: option.splits if_splits)
      (auto simp: same_log_def)
  then show ?thesis using logged_same [OF set_operation_log] logged_same resolve_after_logged by blast
qed

lemma Cancel_logged:
  assumes "CancelQuarantineRequest i ac now c = Inr (r, c')"
  shows "logged c c'"
proof -
  let ?a = "\<lambda>a. a\<lparr>a_deletion_blocked := True, a_state := MonitoringPaused,
      a_block_reason := ''richiesta annullata; riattivazione amministrativa richiesta'', a_manual_paused := True,
      a_manual_pause_reason := ''richiesta annullata; riattivazione amministrativa richiesta'',
      a_activation_pending := False, a_resume_pending := False, a_resume_requested_at := 0\<rparr>"
  from assms obtain ops c2 k x where "set_backup i BackupDeleting (\<lambda>b. b\<lparr>b_status := BackupComplete\<rparr>) (c\<lparr>operations := ops\<rparr>) = Some c2"
    "resolveMaintenanceOperationTx k now True (set_automation ?a c2) = Inr (x, c')"
    by (auto simp: CancelQuarantineRequest_def Let_def split: option.splits if_splits sum.splits)
  moreover from this(1) have "same_log c (set_automation ?a c2)" by (auto simp: same_log_def dest!: set_backup_log)
  ultimately show ?thesis using logged_same resolveMaintenance_logged by blast
qed

text \<open>Closing anomalies and then writing a message.\<close>

lemma close_logged:
  assumes "anomalies c1 = update_where P f (anomalies c)" "mail_queue c1 = mail_queue c" "seq_mail c1 = seq_mail c"
    and "\<And>x. P x \<Longrightarrow> open_anomaly x \<and> an_stable_key (f x) = an_stable_key x" "logged c1 c'"
  shows "logged c c'"
proof -
  have "logged c c1" by (rule update_logged [OF assms(1-3)]) (use assms(4) in blast)
  then show ?thesis using assms(5) logged_trans by blast
qed

lemma ResolveAnomaly_logged:
  assumes "ResolveAnomaly s now c = Inr (cr, c')"
  shows "logged c c'"
proof -
  let ?P = "\<lambda>x. an_stable_key x = s \<and> open_anomaly x" and ?f = "\<lambda>x. x\<lparr>an_resolved_at := unix now\<rparr>"
  have "c' = c \<or> (\<exists>g st sub. insert_mail st ''resolution'' sub s now
      (c\<lparr>anomalies := update_where ?P ?f (anomalies c), automation_state := g\<rparr>) = Inr c')"
  proof (cases "List.find (\<lambda>a. an_stable_key a = s \<and> open_anomaly a) (anomalies c)")
    case (Some a)
    define st where "st = ''resolved:'' @ s @ '':'' @ show_int (unix now)"
    define g where "g = (if IsQuarantineMarginWarning (an_kind a) s then automation_state c else
        (automation_state c)\<lparr>a_deletion_blocked := True, a_state := MonitoringPaused,
           a_block_reason := ''anomalia risolta; retention resume richiesto''\<rparr>)"
    let ?c1 = "c\<lparr>anomalies := update_where ?P ?f (anomalies c)\<rparr>"
    have "(if \<not> IsQuarantineMarginWarning (an_kind a) s then set_automation (\<lambda>s. s\<lparr>a_deletion_blocked := True, a_state := MonitoringPaused,
        a_block_reason := ''anomalia risolta; retention resume richiesto''\<rparr>) ?c1 else ?c1) = ?c1\<lparr>automation_state := g\<rparr>"
      by (simp add: g_def)
    then have "insert_mail st ''resolution'' ''OnlyBackup: anomalia risolta'' s now (?c1\<lparr>automation_state := g\<rparr>) = Inr c'"
      using assms Some unfolding ResolveAnomaly_def Let_def st_def [symmetric] by (simp split: sum.split_asm)
    then show ?thesis by blast
  qed (use assms in \<open>simp add: ResolveAnomaly_def\<close>)
  then show ?thesis
  proof (elim disjE exE)
    fix g st sub
    assume m: "insert_mail st ''resolution'' sub s now (c\<lparr>anomalies := update_where ?P ?f (anomalies c), automation_state := g\<rparr>) = Inr c'"
    show ?thesis by (rule close_logged [where P = ?P and f = ?f, OF _ _ _ _ insert_mail_logged [OF m]]) simp_all
  qed simp
qed

lemma Acknowledge_logged:
  assumes "AcknowledgeMissingAnomaly k now c = Inr (r, c')"
  shows "logged c c'"
proof -
  let ?P = "\<lambda>x. an_id x = k \<and> open_anomaly x" and ?f = "\<lambda>x. x\<lparr>an_acknowledged_at := unix now, an_resolved_at := unix now\<rparr>"
  from assms obtain g st sub s where m: "insert_mail st ''resolution'' sub s now
      (c\<lparr>anomalies := update_where ?P ?f (anomalies c), automation_state := g\<rparr>) = Inr c'"
    by (auto simp: AcknowledgeMissingAnomaly_def Let_def split: option.split_asm sum.split_asm if_split_asm)
  show ?thesis by (rule close_logged [where P = ?P and f = ?f, OF _ _ _ _ insert_mail_logged [OF m]]) simp_all
qed

lemma CompleteCheck_logged: "CompleteMonitoringCheck E i oc su ms rv fs now c = Inr (r, c') \<Longrightarrow> logged c c'"
  by (erule CompleteMonitoringCheckE)
    (auto simp: activateRetentionAfterCheckTx_def cleanupMonitoringChecksTx_def same_log_def Let_def
      intro!: logged_trans [OF open_findings_logged same_logged])

lemma CreateExclusion_logged:
  assumes "CreateAnomalyExclusion k st en ac re kinds now c = Inr (ex, c')"
  shows "logged c c'"
proof -
  have "logged (excluded_catalog ex now c) c'" using CreateExclusionD [OF assms] by (auto intro: same_logged simp: same_log_def)
  moreover have "logged c (excluded_catalog ex now c)"
    by (rule update_logged [where P = "\<lambda>a. open_anomaly a \<and> covers ex (an_key_id a) (an_kind a) (an_event_at a)"
          and f = "\<lambda>a. a\<lparr>an_resolved_at := unix now, an_acknowledged_at := unix now, an_resolved_by := ex_actor ex,
              an_resolution_note := ex_reason ex\<rparr>"]) (simp_all add: excluded_catalog_def)
  ultimately show ?thesis using logged_trans by blast
qed

lemmas same_log_frames = same_log_ops SetupAutomationMode_log operation_log
lemmas logged_rules = settle_logged QueuePeriodicReport_logged Revoke_logged ResetAuthorized_logged Cancel_logged ResolveAnomaly_logged
  Acknowledge_logged CompleteCheck_logged CreateExclusion_logged

lemma step_logged:
  "store_step E c c' \<Longrightarrow> logged c c' \<or> (\<exists>k err v now r. ConfirmMail k err v now c = Inr (r, c'))"
proof (induction rule: store_step.induct)
  case (ConfirmMail k err v now c r c')
  show ?case by (intro disjI2 exI) (rule ConfirmMail)
qed (rule disjI1, (erule logged_rules | drule same_log_frames, erule same_logged))+

subsection \<open>The outbox\<close>

definition same_mail :: "mail \<Rightarrow> mail \<Rightarrow> bool" where
  "same_mail m m' \<longleftrightarrow> ml_id m' = ml_id m \<and> ml_stable_id m' = ml_stable_id m \<and> ml_kind m' = ml_kind m \<and> ml_subject m' = ml_subject m
     \<and> ml_body m' = ml_body m \<and> (ml_sent_at m \<noteq> 0 \<longrightarrow> m' = m)"

definition outbox :: "catalog \<Rightarrow> catalog \<Rightarrow> bool" where
  "outbox c c' \<longleftrightarrow> length (mail_queue c) \<le> length (mail_queue c')
     \<and> (\<forall>k < length (mail_queue c). same_mail (mail_queue c ! k) (mail_queue c' ! k))"

lemma ConfirmMailE:
  assumes "ConfirmMail k err v now c = Inr (r, c')"
  obtains f where "mail_queue c' = update_where (\<lambda>x. ml_id x = k \<and> ml_sent_at x = 0) f (mail_queue c)" "seq_mail c' = seq_mail c"
    "anomalies c' = anomalies c" "\<And>x. ml_sent_at x = 0 \<Longrightarrow> same_mail x (f x)"
proof -
  from assms obtain m where m: "List.find (\<lambda>m. ml_id m = k) (mail_queue c) = Some m"
    by (auto simp: ConfirmMail_def split: option.splits)
  show thesis
  proof (cases "ml_sent_at m = 0")
    case False
    then have "c' = c" using assms m by (simp add: ConfirmMail_def)
    then show thesis using that [of "\<lambda>x. x"] by (simp add: update_where_id same_mail_def)
  next
    case True
    show thesis
    proof (cases "err = []")
      case e: True
      with assms m True show thesis
        by (intro that [of "\<lambda>x. x\<lparr>ml_sent_at := unix now, ml_last_error := []\<rparr>"])
          (auto simp: ConfirmMail_def Let_def same_mail_def split: if_splits)
    next
      case e: False
      with assms m True show thesis
        by (intro that [of "\<lambda>x. x\<lparr>ml_attempts := ml_attempts x + 1, ml_next_attempt_at := unix now + retry_delay (ml_attempts m), ml_last_error := err\<rparr>"])
          (auto simp: ConfirmMail_def Let_def same_mail_def)
    qed
  qed
qed

lemma ConfirmMail_outbox:
  assumes "ConfirmMail k err v now c = Inr (r, c')"
  shows "outbox c c' \<and> (log_inv c \<longrightarrow> log_inv c')"
  using assms
proof (rule ConfirmMailE)
  fix f
  assume c': "mail_queue c' = update_where (\<lambda>x. ml_id x = k \<and> ml_sent_at x = 0) f (mail_queue c)" "seq_mail c' = seq_mail c" "anomalies c' = anomalies c"
    and f: "\<And>x. ml_sent_at x = 0 \<Longrightarrow> same_mail x (f x)"
  have "outbox c c'" using f by (auto simp: outbox_def c' update_where_def same_mail_def)
  moreover have "map ml_id (mail_queue c') = map ml_id (mail_queue c)" "map ml_stable_id (mail_queue c') = map ml_stable_id (mail_queue c)"
    using f unfolding c'(1) by (auto intro!: map_update_where_inv simp: same_mail_def)
  moreover have "list_all (\<lambda>m. ml_id m \<le> n) q \<longleftrightarrow> list_all (\<lambda>i. i \<le> n) (map ml_id q)" for n q
    by (simp add: list_all_iff)
  then have "list_all (\<lambda>m. ml_id m \<le> n) (mail_queue c') \<longleftrightarrow> list_all (\<lambda>m. ml_id m \<le> n) (mail_queue c)" for n
    using calculation(2) by metis
  ultimately show ?thesis by (simp only: log_inv_def open_keys_def c'(2,3) simp_thms)
qed

lemma logged_outbox: "logged c c' \<Longrightarrow> outbox c c'"
  by (auto simp: logged_def outbox_def same_mail_def nth_append)

lemma outbox_trans: "outbox a b \<Longrightarrow> outbox b c \<Longrightarrow> outbox a c"
proof -
  assume ab: "outbox a b" and bc: "outbox b c"
  have "same_mail (mail_queue a ! k) (mail_queue c ! k)" if "k < length (mail_queue a)" for k
  proof -
    have "same_mail (mail_queue a ! k) (mail_queue b ! k)" "same_mail (mail_queue b ! k) (mail_queue c ! k)"
      using ab bc that by (auto simp: outbox_def)
    then show ?thesis by (auto simp: same_mail_def)
  qed
  then show ?thesis using ab bc by (auto simp: outbox_def)
qed

lemma store_step_outbox: "store_step E c c' \<Longrightarrow> outbox c c' \<and> (log_inv c \<longrightarrow> log_inv c')"
  using step_logged [of E c c'] logged_outbox ConfirmMail_outbox by (metis logged_def)

interpretation store_log: history Init "store_step E" log_inv outbox
proof unfold_locales
  show "log_inv Init" by (simp add: Init_def log_inv_def open_keys_def)
  show "log_inv c'" if "log_inv c" "store_step E c c'" for c c' using that store_step_outbox by blast
  show "outbox c c" for c by (simp add: outbox_def same_mail_def)
  show "outbox a c" if "outbox a b" "outbox b c" for a b c using that by (rule outbox_trans)
  show "outbox c c'" if "store_step E c c'" for c c' using that store_step_outbox by blast
qed

text \<open>Reporting an anomaly is idempotent and never silent. In every reachable catalogue an anomaly has at
  most one open row per stable key. A report that no exclusion covers leaves exactly one open row
  for its key, with the newest detail; it creates one exactly when none was open, then queues exactly
  one message and, for a kind that always blocks, leaves retention blocked with the detail as its
  reason; otherwise it queues nothing.\<close>

theorem OpenAnomalyAt_effect:
  assumes "reachable E c" "OpenAnomalyAt E s k ki b d ev now c = Inr (cr, c')" "\<not> anomalyExcludedTx c ki k ev"
  shows "distinct (open_keys c') \<and> count_where (\<lambda>a. an_stable_key a = s \<and> open_anomaly a) (anomalies c') = 1
    \<and> list_ex (\<lambda>a. an_stable_key a = s \<and> open_anomaly a \<and> an_detail a = d \<and> an_last_seen_at a = unix now) (anomalies c')
    \<and> cr = (s \<notin> set (open_keys c))
    \<and> (\<not> cr \<longrightarrow> mail_queue c' = mail_queue c)
    \<and> (cr \<longrightarrow> (\<exists>m. mail_queue c' = mail_queue c @ [m] \<and> ml_kind m = ''anomaly'' \<and> ml_sent_at m = 0))
    \<and> (cr \<and> \<not> excludable k \<and> \<not> IsQuarantineMarginWarning k s \<longrightarrow>
         a_deletion_blocked (automation_state c') \<and> a_block_reason (automation_state c') = anomaly_reason d)"
proof -
  have inv: "log_inv c" using store_log.reachable_inv [OF assms(1)] .
  have step: "log_inv c'" using store_log.step [OF inv store_step.OpenAnomalyAt [OF assms(2)]] .
  have count: "count_where (\<lambda>a. an_stable_key a = s \<and> open_anomaly a) as \<le> 1" if "distinct (map an_stable_key (filter open_anomaly as))" for as
    using count_where_unique [OF that, of s "\<lambda>_. True"] by (simp add: count_where_def conj_commute)
  have le: "count_where (\<lambda>a. an_stable_key a = s \<and> open_anomaly a) (anomalies c') \<le> 1"
    using step count by (simp add: log_inv_def open_keys_def)
  have mem: "s \<in> set (open_keys c) \<longleftrightarrow> count_where (\<lambda>a. an_stable_key a = s \<and> open_anomaly a) (anomalies c) \<noteq> 0"
    by (auto simp: open_keys_def count_where_zero)
  have distinct: "distinct (open_keys c')" using step by (simp add: log_inv_def)
  have one: "count_where (\<lambda>a. an_stable_key a = s \<and> open_anomaly a) (anomalies c') = 1"
    if "list_ex (\<lambda>a. an_stable_key a = s \<and> open_anomaly a \<and> an_detail a = d \<and> an_last_seen_at a = unix now) (anomalies c')"
    using le that count_where_zero [of "\<lambda>a. an_stable_key a = s \<and> open_anomaly a" "anomalies c'"] by (fastforce simp: list_ex_iff)
  from assms(2) [unfolded OpenAnomalyAt_def] show ?thesis
  proof (cases rule: openAnomalyAtE)
    case excluded
    then show ?thesis using assms(3) by simp
  next
    case seen
    obtain a where a: "a \<in> set (anomalies c)" "an_stable_key a = s" "open_anomaly a"
      using seen(3) by (auto simp: count_where_zero)
    then have "list_ex (\<lambda>a. an_stable_key a = s \<and> open_anomaly a \<and> an_detail a = d \<and> an_last_seen_at a = unix now) (anomalies c')"
      using seen(4) unfolding list_ex_iff
      by (intro bexI [of _ "a\<lparr>an_last_seen_at := unix now, an_detail := d\<rparr>"])
        (auto simp: set_update_where open_anomaly_def intro!: image_eqI [of _ _ a])
    then show ?thesis using one distinct seen mem by simp
  next
    case (opened c1 c2 sub body)
    let ?n = "(new_anomaly s k ki b d ev now)\<lparr>an_id := seq_anomaly c + 1\<rparr>"
    have c1: "anomalies c1 = anomalies c @ [?n]" "mail_queue c1 = mail_queue c"
      using opened(4) by (auto simp: insert_anomaly_def split: if_splits)
    have c2: "anomalies c2 = anomalies c1" "mail_queue c2 = mail_queue c1" by (simp_all add: opened(5) blockForAnomalyTx_def)
    obtain m where m: "mail_queue c' = mail_queue c2 @ [m]" "ml_kind m = ''anomaly''" "ml_sent_at m = 0" "anomalies c' = anomalies c2"
      using opened(6) by (auto simp: insert_mail_def split: if_splits)
    have "?n \<in> set (anomalies c')" using c1 c2 m by simp
    then have ex: "list_ex (\<lambda>a. an_stable_key a = s \<and> open_anomaly a \<and> an_detail a = d \<and> an_last_seen_at a = unix now) (anomalies c')"
      unfolding list_ex_iff by (rule rev_bexI) (simp add: new_anomaly_def open_anomaly_def)
    have "a_deletion_blocked (automation_state c') \<and> a_block_reason (automation_state c') = anomaly_reason d"
      if "\<not> excludable k" "\<not> IsQuarantineMarginWarning k s"
    proof -
      have "anomalyBlocksTx c1 s k ki now" using that by (auto simp: anomalyBlocksTx_def excludable_def)
      then show ?thesis using insert_mail_auto [OF opened(6)] by (simp add: opened(5) blockForAnomalyTx_def)
    qed
    then show ?thesis using one [OF ex] ex distinct opened(2,3) mem m c1 c2 by auto
  qed
qed


end
