(* ===== verification/Store_Coverage.thy ===== *)
theory Store_Coverage
  imports Store_Properties
begin

text \<open>
  Monitoring leaves no gap: the segments a check is planned over tile the uncovered past of each key, one
  model revision at a time, and the end of a completed check is where the next one starts.
\<close>

subsection \<open>Segments tile an interval\<close>

abbreviation seg_from :: "monitoring_model \<times> seconds \<times> seconds \<Rightarrow> seconds" where "seg_from s \<equiv> fst (snd s)"
abbreviation seg_to :: "monitoring_model \<times> seconds \<times> seconds \<Rightarrow> seconds" where "seg_to s \<equiv> snd (snd s)"

definition spans :: "seconds \<Rightarrow> monitoring_model \<times> seconds \<times> seconds \<Rightarrow> bool" where
  "spans x s \<longleftrightarrow> seg_from s \<le> x \<and> x \<le> seg_to s"

lemma segments_models: "set (map fst (segments split start cend ms)) \<subseteq> set ms"
  by (induction split start cend ms rule: segments.induct) (auto simp: Let_def)

lemma segments_bounds:
  "s \<in> set (segments split start cend ms) \<Longrightarrow> start \<le> seg_from s \<and> seg_from s \<le> seg_to s \<and> seg_to s \<le> cend"
proof (induction split start cend ms rule: segments.induct)
  case (2 split start cend m ms)
  let ?to = "case ms of m' # _ \<Rightarrow> if mm_learned_at m' < cend then mm_learned_at m' else cend | [] \<Rightarrow> cend"
  have "?to \<le> cend" by (simp split: list.split)
  then show ?case using 2 by (auto simp: Let_def split: if_split_asm)
qed simp

lemma segments_from_learned:
  assumes "sorted (map mm_learned_at ms)" "s \<in> set (segments True start cend ms)"
  shows "mm_learned_at (hd ms) \<le> seg_from s"
  using assms
proof (induction ms)
  case (Cons m ms)
  show ?case
  proof (cases "s \<in> set (segments True start cend ms)")
    case True
    then have "ms \<noteq> []" by auto
    then have "mm_learned_at m \<le> mm_learned_at (hd ms)" using Cons.prems(1) by (cases ms) auto
    then show ?thesis using Cons True by auto
  next
    case False
    then show ?thesis using Cons.prems(2) by (auto simp: Let_def split: if_splits)
  qed
qed simp

lemma segments_ordered:
  assumes "sorted (map mm_learned_at ms)"
  shows "sorted_wrt (\<lambda>s t. seg_to s \<le> seg_from t) (segments split start cend ms)"
  using assms
proof (induction split start cend ms rule: segments.induct)
  case (2 split start cend m ms)
  let ?to = "case ms of m' # _ \<Rightarrow> if mm_learned_at m' < cend then mm_learned_at m' else cend | [] \<Rightarrow> cend"
  have "?to \<le> seg_from t" if t: "t \<in> set (segments True start cend ms)" for t
  proof (cases ms)
    case Nil
    then show ?thesis using t by simp
  next
    case (Cons m' ms')
    have "mm_learned_at m' \<le> seg_from t" using segments_from_learned [OF _ t] "2.prems" Cons by auto
    then show ?thesis by (simp add: Cons)
  qed
  then show ?case using 2 by (auto simp: Let_def)
qed simp

lemma segments_cover:
  assumes "start \<le> x" "x \<le> cend" "ms \<noteq> []" "split \<longrightarrow> mm_learned_at (hd ms) \<le> x"
  shows "\<exists>s \<in> set (segments split start cend ms). spans x s"
  using assms
proof (induction split start cend ms rule: segments.induct)
  case (2 split start cend m ms)
  let ?to = "case ms of m' # _ \<Rightarrow> if mm_learned_at m' < cend then mm_learned_at m' else cend | [] \<Rightarrow> cend"
  let ?from = "if split \<and> mm_learned_at m > start then mm_learned_at m else start"
  show ?case
  proof (cases "x \<le> ?to")
    case True
    have "?from \<le> x" using "2.prems" by auto
    then have "(m, ?from, ?to) \<in> set (segments split start cend (m # ms))" "spans x (m, ?from, ?to)"
      using True by (auto simp: Let_def spans_def)
    then show ?thesis by blast
  next
    case False
    then obtain m' ms' where "ms = m' # ms'" "mm_learned_at m' \<le> x" using "2.prems" by (auto split: list.splits if_splits)
    then have "\<exists>s \<in> set (segments True start cend ms). spans x s" using "2.IH" "2.prems" by auto
    then show ?thesis by (auto simp: Let_def)
  qed
qed simp

subsection \<open>The plan of a check\<close>

lemma key_segments_models:
  assumes "key_segments E c i cend k (filter (\<lambda>m. mm_key_id m = k) items) = Inr segs" "g \<in> set segs"
  shows "mm_key_id (fst g) = k"
proof -
  let ?ms = "filter (\<lambda>m. mm_key_id m = k) items"
  obtain start covered n where "coverage_start E c i k ?ms = Inr (start, covered, n)"
    using assms(1) by (auto simp: key_segments_def split: sum.splits)
  then have "g \<in> set (segments covered start cend ?ms) \<or> g \<in> set (segments covered start cend (drop n ?ms))"
    using assms by (auto simp: key_segments_def split: if_splits)
  then have "fst g \<in> set ?ms" using segments_models set_drop_subset [of n ?ms] by fastforce
  then show ?thesis by simp
qed

lemma plan_keys_filter:
  assumes "plan_keys E c i cend items ks = Inr segs" "distinct ks" "k \<in> set ks"
  shows "key_segments E c i cend k (filter (\<lambda>m. mm_key_id m = k) items) = Inr (filter (\<lambda>g. mm_key_id (fst g) = k) segs)"
  using assms
proof (induction ks arbitrary: segs)
  case (Cons k' ks)
  from Cons.prems(1) obtain segs' others where g: "key_segments E c i cend k' (filter (\<lambda>m. mm_key_id m = k') items) = Inr segs'"
    "plan_keys E c i cend items ks = Inr others" "segs = segs' @ others"
    by (auto split: sum.splits)
  have all: "\<forall>x \<in> set segs'. mm_key_id (fst x) = k'" using key_segments_models [OF g(1)] by blast
  have other: "mm_key_id (fst x) \<in> set ks" if "plan_keys E c i cend items ks = Inr others" "x \<in> set others" for ks others x
    using that
  proof (induction ks arbitrary: others)
    case (Cons k'' ks)
    then show ?case by (auto dest: key_segments_models split: sum.splits)
  qed simp
  show ?case
  proof (cases "k = k'")
    case True
    then have "filter (\<lambda>g. mm_key_id (fst g) = k) others = []" using other [OF g(2)] Cons.prems(2) by (auto simp: filter_empty_conv)
    then show ?thesis using True g all by simp
  next
    case False
    then have "filter (\<lambda>g. mm_key_id (fst g) = k) segs' = []" using all by (auto simp: filter_empty_conv)
    then show ?thesis using Cons False g by simp
  qed
qed simp

lemma plannable_sorted: "sorted (map mm_learned_at (filter (\<lambda>m. mm_key_id m = k) (plannable c r)))"
proof -
  let ?f = "\<lambda>m. (mm_key_id m, mm_learned_at m, mm_revision m)"
  have "sorted_wrt (\<lambda>a b. ?f a \<le> ?f b) (plannable c r)"
    unfolding plannable_def by (rule sorted_sort_key [unfolded sorted_map])
  then have "sorted_wrt (\<lambda>a b. ?f a \<le> ?f b) (filter (\<lambda>m. mm_key_id m = k) (plannable c r))" by (rule sorted_wrt_filter)
  moreover have "mm_learned_at a \<le> mm_learned_at b" if "a \<in> set (filter (\<lambda>m. mm_key_id m = k) (plannable c r))"
      "b \<in> set (filter (\<lambda>m. mm_key_id m = k) (plannable c r))" "?f a \<le> ?f b" for a b
    using that by (auto simp: less_eq_prod_def)
  ultimately show ?thesis unfolding sorted_map by (metis (no_types, lifting) sorted_wrt_mono_rel)
qed


end
