(* ===== verification/Snapshot_Pages.thy ===== *)
theory Snapshot_Pages
  imports Store_Properties
begin

text \<open>
  Reading the catalogue in pages: BackupPage of internal/store/backup_pages.go and the loop of
  readSnapshot in internal/localclient/client.go that joins the pages while the catalogue keeps
  changing. Each call of the client is answered at a later moment of the catalogue, or fails.
\<close>

definition rows_after :: "string \<Rightarrow> int \<Rightarrow> catalog \<Rightarrow> backup list" where
  "rows_after cursor through c = sort_key b_id (filter (\<lambda>b. cursor < b_id b) (take (nat through) (backups c)))"

definition BackupPage :: "string \<Rightarrow> int \<Rightarrow> catalog \<Rightarrow> backup_page res" where
  "BackupPage cursor through c =
     (if through < 0 \<or> cursor \<noteq> [] \<and> (\<not> ValidID cursor \<or> through = 0) then Inl (ErrMsg ''cursore catalogo non valido'')
      else (let high = (if cursor = [] then int (length (backups c)) else through);
                rows = take (BackupPageSize + 1) (rows_after cursor high c)
            in if length rows > BackupPageSize
               then (let page = take BackupPageSize rows in
                     Inr \<lparr>pg_backups = page, pg_next = b_id (last page), pg_through = high\<rparr>)
               else Inr \<lparr>pg_backups = rows, pg_next = [], pg_through = high\<rparr>))"

text \<open>The client's calls in order: the catalogue each is answered from, or its failure; when none is
  left the context has ended.\<close>

type_synonym calls = "(error + catalog) list"

definition cancelled :: error where "cancelled = ErrMsg ''context canceled''"

fun read_pages :: "calls \<Rightarrow> string \<Rightarrow> int \<Rightarrow> backup list \<Rightarrow> backup list res" where
  "read_pages calls cursor through acc =
     (if cursor = [] then Inr acc
      else if \<not> ValidID cursor \<or> through \<le> 0 then Inl (ErrMsg ''cursore catalogo del writer non valido'')
      else (case calls of
          [] \<Rightarrow> Inl cancelled
        | Inl e # _ \<Rightarrow> Inl e
        | Inr c # rest \<Rightarrow>
            (case BackupPage cursor through c of
               Inl e \<Rightarrow> Inl e
             | Inr page \<Rightarrow>
                 if pg_through page \<noteq> through \<or> pg_next page \<noteq> [] \<and> (\<not> ValidID (pg_next page) \<or> pg_next page \<le> cursor)
                 then Inl (ErrMsg ''pagina catalogo del writer non valida'')
                 else read_pages rest (pg_next page) through (acc @ pg_backups page))))"

declare read_pages.simps [simp del]

definition readSnapshot :: "calls \<Rightarrow> backup list res" where
  "readSnapshot calls =
     (case calls of
        [] \<Rightarrow> Inl cancelled
      | Inl e # _ \<Rightarrow> Inl e
      | Inr c # rest \<Rightarrow>
          (case BackupPage [] 0 c of
             Inl e \<Rightarrow> Inl e
           | Inr page \<Rightarrow>
               (case read_pages rest (pg_next page) (pg_through page) (pg_backups page) of
                  Inl e \<Rightarrow> Inl e
                | Inr bs \<Rightarrow> Inr (rev (sort_key (\<lambda>b. (b_started_at b, b_id b)) bs)))))"

subsection \<open>One page\<close>

lemma sorted_filter_after:
  fixes xs :: "'a::linorder list"
  assumes "sorted xs" "distinct xs" "0 < n" "n \<le> length xs"
  shows "filter (\<lambda>x. last (take n xs) < x) xs = drop n xs"
proof -
  let ?l = "last (take n xs)"
  have l: "?l = xs ! (n - 1)" using assms(3,4) by (subst last_conv_nth) (auto simp: min_absorb2)
  have "\<not> ?l < x" if "x \<in> set (take n xs)" for x
  proof -
    from that obtain i where "i < n" "i < length xs" "x = xs ! i" by (auto simp: in_set_conv_nth)
    then show ?thesis using assms(1,3,4) by (simp add: l sorted_nth_mono not_less)
  qed
  moreover have "?l < x" if "x \<in> set (drop n xs)" for x
  proof -
    from that obtain i where "i < length xs - n" and x: "x = xs ! (n + i)" by (auto simp: in_set_conv_nth)
    then have i: "n + i < length xs" by simp
    then have "xs ! (n - 1) \<le> x" unfolding x using assms(1,3) by (intro sorted_nth_mono) simp_all
    moreover have "xs ! (n - 1) \<noteq> x" unfolding x using i assms(2,3) by (simp add: nth_eq_iff_index_eq)
    ultimately show ?thesis by (simp add: l)
  qed
  ultimately have "filter (\<lambda>x. ?l < x) (take n xs @ drop n xs) = drop n xs"
    unfolding filter_append by (simp add: filter_id_conv filter_empty_conv)
  then show ?thesis by simp
qed

lemma filter_after_mono: "a \<le> b \<Longrightarrow> filter (\<lambda>x. b < x) (filter (\<lambda>x. a < x) xs) = filter (\<lambda>x. b < x) xs"
  for a :: "'a::linorder" by (induction xs) auto

lemma map_sort_key: "map f (sort_key f xs) = sort (map f xs)"
  by (rule sym, rule properties_for_sort) simp_all

text \<open>The identifiers a page shows are those of the rows below the high-water mark, in order.\<close>

lemma rows_after_ids: "map b_id (rows_after cursor through c) = filter (\<lambda>i. cursor < i) (sort (map b_id (take (nat through) (backups c))))"
proof -
  have "map b_id (rows_after cursor through c) = sort (map b_id (filter (\<lambda>b. cursor < b_id b) (take (nat through) (backups c))))"
    unfolding rows_after_def by (rule map_sort_key)
  also have "\<dots> = sort (filter (\<lambda>i. cursor < i) (map b_id (take (nat through) (backups c))))"
    by (simp add: filter_map comp_def)
  also have "\<dots> = filter (\<lambda>i. cursor < i) (sort (map b_id (take (nat through) (backups c))))"
    by (simp add: filter_sort)
  finally show ?thesis .
qed

definition shows_ids :: "string list \<Rightarrow> int \<Rightarrow> catalog \<Rightarrow> bool" where
  "shows_ids ids through c \<longleftrightarrow> sort (map b_id (take (nat through) (backups c))) = ids"

definition page_of :: "string \<Rightarrow> int \<Rightarrow> catalog \<Rightarrow> backup_page" where
  "page_of cursor high c = (let rows = take (BackupPageSize + 1) (rows_after cursor high c) in
     if length rows > BackupPageSize
     then \<lparr>pg_backups = take BackupPageSize rows, pg_next = b_id (last (take BackupPageSize rows)), pg_through = high\<rparr>
     else \<lparr>pg_backups = rows, pg_next = [], pg_through = high\<rparr>)"

lemma BackupPage_first: "BackupPage [] 0 c = Inr (page_of [] (int (length (backups c))) c)"
  by (simp add: BackupPage_def page_of_def Let_def)

lemma BackupPage_next: "ValidID cursor \<Longrightarrow> 0 < through \<Longrightarrow> BackupPage cursor through c = Inr (page_of cursor through c)"
  by (auto simp: BackupPage_def page_of_def Let_def ValidID_def)

lemma page_of_step:
  assumes "shows_ids ids through c" "sorted ids" "distinct ids" "list_all ValidID ids"
  obtains page where "page_of cursor through c = page" "pg_through page = through"
    "set (pg_backups page) \<subseteq> set (take (nat through) (backups c))"
    "map b_id (pg_backups page) @ (if pg_next page = [] then [] else filter (\<lambda>i. pg_next page < i) ids) = filter (\<lambda>i. cursor < i) ids"
    "pg_next page \<noteq> [] \<longrightarrow> pg_next page \<in> set ids \<and> cursor < pg_next page"
    "pg_next page \<noteq> [] \<longrightarrow> length (filter (\<lambda>i. pg_next page < i) ids) + BackupPageSize = length (filter (\<lambda>i. cursor < i) ids)"
proof -
  let ?F = "filter (\<lambda>i. cursor < i) ids" and ?R = "rows_after cursor through c"
  have ids: "map b_id ?R = ?F" using rows_after_ids assms(1) by (simp add: shows_ids_def)
  then have len: "length ?R = length ?F" by (metis length_map)
  have sub: "set ?R \<subseteq> set (take (nat through) (backups c))" by (auto simp: rows_after_def)
  have pos: "0 < BackupPageSize" by (simp add: BackupPageSize_def)
  show thesis
  proof (cases "length ?R > BackupPageSize")
    case False
    then have "page_of cursor through c = \<lparr>pg_backups = ?R, pg_next = [], pg_through = through\<rparr>"
      by (simp add: page_of_def Let_def)
    then show thesis by (rule that) (use sub ids in simp_all)
  next
    case True
    let ?next = "last (take BackupPageSize ?F)"
    have page: "page_of cursor through c = \<lparr>pg_backups = take BackupPageSize ?R, pg_next = b_id (last (take BackupPageSize ?R)), pg_through = through\<rparr>"
      using True by (simp add: page_of_def Let_def min_def)
    have nxt: "b_id (last (take BackupPageSize ?R)) = ?next"
      using True pos by (subst last_map [symmetric]) (auto simp: take_map [symmetric] ids)
    have "take BackupPageSize ?F \<noteq> []" using True pos len by auto
    then have "?next \<in> set ?F" using last_in_set in_set_takeD by fast
    then have mem: "?next \<in> set ids" "cursor < ?next" by auto
    then have nne: "?next \<noteq> []" using assms(4) by (auto simp: list_all_iff ValidID_def)
    have "filter (\<lambda>i. ?next < i) ids = filter (\<lambda>i. ?next < i) ?F" using filter_after_mono [of cursor ?next ids] mem by simp
    also have "\<dots> = drop BackupPageSize ?F"
      using sorted_filter_after [of ?F BackupPageSize] assms(2,3) True len pos by (simp add: sorted_wrt_filter)
    finally have rest: "filter (\<lambda>i. ?next < i) ids = drop BackupPageSize ?F" .
    show thesis
    proof (rule that [OF page], goal_cases)
      case 3
      then show ?case using rest nne by (simp add: nxt take_map [symmetric] ids)
    next
      case 5
      then show ?case using rest True len by (simp add: nxt)
    qed (use sub mem nxt in \<open>auto dest: in_set_takeD\<close>)
  qed
qed

subsection \<open>All pages\<close>

definition page_state :: "string list \<Rightarrow> string \<Rightarrow> backup list \<Rightarrow> bool" where
  "page_state ids cursor acc \<longleftrightarrow> (cursor \<noteq> [] \<longrightarrow> cursor \<in> set ids)
     \<and> map b_id acc @ (if cursor = [] then [] else filter (\<lambda>i. cursor < i) ids) = ids"

lemma read_pages_exact:
  assumes "sorted ids" "distinct ids" "list_all ValidID ids" "0 < through"
    and "\<And>c. Inr c \<in> set calls \<Longrightarrow> shows_ids ids through c" "page_state ids cursor acc"
    and "read_pages calls cursor through acc = Inr bs"
  shows "map b_id bs = ids \<and> set bs \<subseteq> set acc \<union> (\<Union>c \<in> {c. Inr c \<in> set calls}. set (take (nat through) (backups c)))"
  using assms(5-)
proof (induction calls arbitrary: cursor acc)
  case Nil
  then show ?case by (auto simp: read_pages.simps [of "[]"] page_state_def split: if_splits)
next
  case (Cons x calls)
  show ?case
  proof (cases "cursor = []")
    case True
    then show ?thesis using Cons.prems(2,3) by (auto simp: read_pages.simps [of "x # calls"] page_state_def)
  next
    case False
    then obtain c where x: "x = Inr c" using Cons.prems(3) by (auto simp: read_pages.simps [of "x # calls"] split: if_splits sum.splits)
    have cur: "cursor \<in> set ids" using Cons.prems(2) False by (simp add: page_state_def)
    have sc: "shows_ids ids through c" using Cons.prems(1) x by simp
    have valid: "ValidID i" if "i \<in> set ids" for i using that assms(3) by (simp add: list_all_iff)
    from page_of_step [OF sc assms(1-3)] BackupPage_next [OF valid [OF cur] assms(4)] obtain page where p: "BackupPage cursor through c = Inr page"
      "set (pg_backups page) \<subseteq> set (take (nat through) (backups c))"
      "map b_id (pg_backups page) @ (if pg_next page = [] then [] else filter (\<lambda>i. pg_next page < i) ids) = filter (\<lambda>i. cursor < i) ids"
      "pg_next page \<noteq> [] \<Longrightarrow> pg_next page \<in> set ids \<and> cursor < pg_next page" by metis
    have st: "page_state ids (pg_next page) (acc @ pg_backups page)"
      using Cons.prems(2) False p(3,4) by (auto simp: page_state_def)
    have "read_pages calls (pg_next page) through (acc @ pg_backups page) = Inr bs"
      using Cons.prems(3) x p(1) False by (simp add: read_pages.simps [of "Inr c # calls"] split: if_split_asm)
    then have "map b_id bs = ids \<and> set bs \<subseteq> set (acc @ pg_backups page) \<union> (\<Union>c \<in> {c. Inr c \<in> set calls}. set (take (nat through) (backups c)))"
      by (intro Cons.IH [OF _ st]) (use Cons.prems(1) in simp_all)
    moreover have "set (pg_backups page) \<subseteq> (\<Union>c \<in> {c. Inr c \<in> set (x # calls)}. set (take (nat through) (backups c)))"
      using p(2) x by fastforce
    ultimately show ?thesis by (auto; blast)
  qed
qed

lemma read_pages_finishes:
  assumes "sorted ids" "distinct ids" "list_all ValidID ids" "0 < through"
    and "list_all (\<lambda>x. \<exists>c. x = Inr c \<and> shows_ids ids through c) calls" "page_state ids cursor acc"
    and "cursor \<noteq> [] \<Longrightarrow> length (filter (\<lambda>i. cursor < i) ids) < BackupPageSize * length calls"
  shows "\<exists>bs. read_pages calls cursor through acc = Inr bs"
  using assms(5-)
proof (induction calls arbitrary: cursor acc)
  case Nil
  then show ?case by (auto simp: read_pages.simps [of "[]"])
next
  case (Cons x calls)
  show ?case
  proof (cases "cursor = []")
    case True
    then show ?thesis by (simp add: read_pages.simps [of "x # calls"])
  next
    case False
    from Cons.prems(1) obtain c where x: "x = Inr c" and sc: "shows_ids ids through c" by auto
    have cur: "cursor \<in> set ids" using Cons.prems(2) False by (simp add: page_state_def)
    have valid: "ValidID i" if "i \<in> set ids" for i using that assms(3) by (simp add: list_all_iff)
    from page_of_step [OF sc assms(1-3)] BackupPage_next [OF valid [OF cur] assms(4)] obtain page where p: "BackupPage cursor through c = Inr page" "pg_through page = through"
      "map b_id (pg_backups page) @ (if pg_next page = [] then [] else filter (\<lambda>i. pg_next page < i) ids) = filter (\<lambda>i. cursor < i) ids"
      "pg_next page \<noteq> [] \<Longrightarrow> pg_next page \<in> set ids \<and> cursor < pg_next page"
      "pg_next page \<noteq> [] \<Longrightarrow> length (filter (\<lambda>i. pg_next page < i) ids) + BackupPageSize = length (filter (\<lambda>i. cursor < i) ids)" by metis
    have st: "page_state ids (pg_next page) (acc @ pg_backups page)"
      using Cons.prems(2) False p(3,4) by (auto simp: page_state_def)
    have "\<exists>bs. read_pages calls (pg_next page) through (acc @ pg_backups page) = Inr bs"
    proof (rule Cons.IH [OF _ st])
      show "length (filter (\<lambda>i. pg_next page < i) ids) < BackupPageSize * length calls" if "pg_next page \<noteq> []"
        using Cons.prems(3) False p(5) [OF that] by (simp add: algebra_simps)
    qed (use Cons.prems(1) in simp)
    moreover have "read_pages (x # calls) cursor through acc = read_pages calls (pg_next page) through (acc @ pg_backups page)"
      using x p(1,2,4) False valid cur assms(4) by (auto simp: read_pages.simps [of "Inr c # calls"])
    ultimately show ?thesis by simp
  qed
qed

text \<open>What later catalogues show below the first one's high-water mark.\<close>

lemma preserved_shows:
  assumes "preserved c c'"
  shows "shows_ids (sort (map b_id (backups c))) (int (length (backups c))) c'"
proof -
  have "map b_id (take (length (backups c)) (backups c')) = map b_id (backups c)"
    using assms by (intro nth_equalityI) (auto simp: preserved_def same_deposit_def)
  then show ?thesis by (simp add: shows_ids_def)
qed

lemma preserved_rows:
  assumes "preserved c c'" "x \<in> set (take (length (backups c)) (backups c'))"
  shows "\<exists>b \<in> set (backups c). same_deposit b x"
proof -
  from assms(2) obtain k where "k < length (backups c)" "backups c' ! k = x" by (auto simp: in_set_conv_nth)
  then show ?thesis using assms(1) unfolding preserved_def by (metis nth_mem)
qed

lemma first_page:
  assumes "reachable E c" "list_all (\<lambda>b. ValidID (b_id b)) (backups c)" "ids = sort (map b_id (backups c))"
  obtains page where "BackupPage [] 0 c = Inr page" "pg_through page = int (length (backups c))" "set (pg_backups page) \<subseteq> set (backups c)"
    "page_state ids (pg_next page) (pg_backups page)" "sorted ids" "distinct ids" "list_all ValidID ids"
    "pg_next page \<noteq> [] \<Longrightarrow> 0 < pg_through page \<and> length (filter (\<lambda>i. pg_next page < i) ids) + BackupPageSize = length (backups c)"
proof -
  have dist: "distinct (map b_id (backups c))" using reachable_core [OF assms(1)] by (simp add: core_inv_defs)
  have v: "list_all ValidID ids" "distinct ids" using assms(2,3) dist by (auto simp: list_all_iff)
  have "[] < i" if "i \<in> set ids" for i
  proof -
    have "i \<noteq> []" using that v(1) by (auto simp: list_all_iff ValidID_def)
    then show ?thesis by (cases i) simp_all
  qed
  then have all: "filter (\<lambda>i. [] < i) ids = ids" by (simp add: filter_id_conv)
  have sh: "shows_ids ids (int (length (backups c))) c" by (simp add: shows_ids_def assms(3))
  have srt: "sorted ids" by (simp add: assms(3))
  obtain page where q: "page_of [] (int (length (backups c))) c = page" "pg_through page = int (length (backups c))"
    "set (pg_backups page) \<subseteq> set (take (nat (int (length (backups c)))) (backups c))"
    "map b_id (pg_backups page) @ (if pg_next page = [] then [] else filter (\<lambda>i. pg_next page < i) ids) = filter (\<lambda>i. [] < i) ids"
    "pg_next page \<noteq> [] \<longrightarrow> pg_next page \<in> set ids \<and> [] < pg_next page"
    "pg_next page \<noteq> [] \<longrightarrow> length (filter (\<lambda>i. pg_next page < i) ids) + BackupPageSize = length (filter (\<lambda>i. [] < i) ids)"
    by (rule page_of_step [OF sh srt v(2,1), of "[]"]) (rule that)
  note p = q(1,2) q(3) [simplified] q(4-6) [unfolded all]
  have len: "length ids = length (backups c)" by (simp add: assms(3))
  show thesis
  proof (rule that [OF BackupPage_first [of c, unfolded p(1)] p(2,3) _ srt v(2,1)])
    show "page_state ids (pg_next page) (pg_backups page)" using p(4,5) by (simp add: page_state_def)
    show "0 < pg_through page \<and> length (filter (\<lambda>i. pg_next page < i) ids) + BackupPageSize = length (backups c)" if "pg_next page \<noteq> []"
    proof -
      have "0 < BackupPageSize" by (simp add: BackupPageSize_def)
      then show ?thesis using p(2) p(6) that len by linarith
    qed
  qed
qed

text \<open>C36. A paged snapshot is the catalogue, whole and without repetition. If the client's calls are answered
  in order from catalogues of one history, a snapshot it returns contains every backup
  catalogued at the first call exactly once, none added later, each with its deposit unchanged, newest
  first; and if no call fails, one call per thousand backups is enough for it to return.\<close>

theorem readSnapshot_complete:
  assumes "reachable E c" "list_all (\<lambda>b. ValidID (b_id b)) (backups c)"
    and "\<And>c'. Inr c' \<in> set rest \<Longrightarrow> (store_step E)\<^sup>*\<^sup>* c c'"
  shows "(readSnapshot (Inr c # rest) = Inr bs \<longrightarrow>
      distinct (map b_id bs) \<and> set (map b_id bs) = set (map b_id (backups c)) \<and> (\<forall>x \<in> set bs. \<exists>b \<in> set (backups c). same_deposit b x)
      \<and> sorted_wrt (\<lambda>x y. b_started_at y \<le> b_started_at x) bs)
    \<and> (list_all (\<lambda>x. \<not> isl x) rest \<and> length (backups c) < BackupPageSize * (length rest + 1) \<longrightarrow> (\<exists>bs. readSnapshot (Inr c # rest) = Inr bs))"
proof -
  define ids where "ids = sort (map b_id (backups c))"
  from first_page [OF assms(1,2) ids_def] obtain page where p: "BackupPage [] 0 c = Inr page" "pg_through page = int (length (backups c))"
    "set (pg_backups page) \<subseteq> set (backups c)" "page_state ids (pg_next page) (pg_backups page)" and i: "sorted ids" "distinct ids" "list_all ValidID ids"
    and more': "pg_next page \<noteq> [] \<Longrightarrow> 0 < pg_through page \<and> length (filter (\<lambda>i. pg_next page < i) ids) + BackupPageSize = length (backups c)"
    by metis
  have later: "preserved c c'" if "Inr c' \<in> set rest" for c' using store_history.between [OF assms(1) assms(3) [OF that]] .
  have shown: "shows_ids ids (pg_through page) c'" if "Inr c' \<in> set rest" for c'
    using preserved_shows [OF later [OF that]] p(2) ids_def by simp
  have exact: "map b_id xs = ids \<and> set xs \<subseteq> set (backups c) \<union> (\<Union>c' \<in> {c'. Inr c' \<in> set rest}. set (take (length (backups c)) (backups c')))"
    if r: "read_pages rest (pg_next page) (pg_through page) (pg_backups page) = Inr xs" for xs
  proof (cases "pg_next page = []")
    case True
    then show ?thesis using r p(3,4) by (auto simp: read_pages.simps [of rest] page_state_def)
  next
    case False
    then have "0 < pg_through page" using more' by simp
    from read_pages_exact [OF i this shown p(4) r] show ?thesis using p(2,3) by auto
  qed
  show ?thesis
  proof (intro conjI impI)
    assume "readSnapshot (Inr c # rest) = Inr bs"
    then obtain xs where r: "read_pages rest (pg_next page) (pg_through page) (pg_backups page) = Inr xs"
      and bs: "bs = rev (sort_key (\<lambda>b. (b_started_at b, b_id b)) xs)"
      using p(1) by (auto simp: readSnapshot_def split: sum.splits)
    have set: "set bs = set xs" by (simp add: bs)
    have "mset (map b_id bs) = mset (map b_id xs)" by (simp add: bs)
    then have "mset (map b_id bs) = mset ids" using exact [OF r] by simp
    then show "distinct (map b_id bs)" "set (map b_id bs) = set (map b_id (backups c))"
      using i(2) by (metis mset_eq_imp_distinct_iff, metis ids_def mset_eq_setD set_sort)
    show "\<forall>x \<in> set bs. \<exists>b \<in> set (backups c). same_deposit b x"
    proof
      fix x assume that: "x \<in> set bs"
      have "x \<in> set (backups c) \<or> (\<exists>c'. Inr c' \<in> set rest \<and> x \<in> set (take (length (backups c)) (backups c')))"
        using that exact [OF r] unfolding set by blast
      then show "\<exists>b \<in> set (backups c). same_deposit b x" using preserved_rows [OF later] same_deposit_refl by blast
    qed
    have "sorted_wrt (\<lambda>x y. (b_started_at y, b_id y) \<le> (b_started_at x, b_id x)) bs"
      unfolding bs sorted_wrt_rev by (rule sorted_sort_key [unfolded sorted_map])
    then show "sorted_wrt (\<lambda>x y. b_started_at y \<le> b_started_at x) bs"
      by (rule sorted_wrt_mono_rel [rotated]) (auto simp: less_eq_prod_def)
  next
    assume g: "list_all (\<lambda>x. \<not> isl x) rest \<and> length (backups c) < BackupPageSize * (length rest + 1)"
    have all: "list_all (\<lambda>x. \<exists>c. x = Inr c \<and> shows_ids ids (pg_through page) c) rest"
      using g shown unfolding list_all_iff by (metis sum.collapse(2))
    have "\<exists>xs. read_pages rest (pg_next page) (pg_through page) (pg_backups page) = Inr xs"
    proof (cases "pg_next page = []")
      case False
      then have m: "0 < pg_through page" "length (filter (\<lambda>i. pg_next page < i) ids) + BackupPageSize = length (backups c)" using more' by auto
      show ?thesis by (rule read_pages_finishes [OF i m(1) all p(4)]) (use g m(2) in \<open>simp add: algebra_simps\<close>)
    qed (simp add: read_pages.simps [of rest])
    then show "\<exists>bs. readSnapshot (Inr c # rest) = Inr bs" using p(1) by (auto simp: readSnapshot_def)
  qed
qed

end
