(* ===== verification/Store_Scenario.thy ===== *)
theory Store_Scenario
  imports Store_Reservations Store_Alarms Store_Coverage Snapshot_Pages
begin

text \<open>
  One concrete life of a catalogue, evaluated in the kernel: a key, two copies received on different
  days, retention opened, the older copy quarantined under a lease, confirmed, and a purge requested
  two days later. It shows that the hypotheses of the catalogue's properties can hold together.
\<close>

definition after :: "'a tx \<Rightarrow> catalog" where
  "after r = (case r of Inr (_, c) \<Rightarrow> c | Inl _ \<Rightarrow> Init)"

definition ok :: "'a tx \<Rightarrow> bool" where
  "ok r \<longleftrightarrow> (case r of Inr _ \<Rightarrow> True | Inl _ \<Rightarrow> False)"

definition answer :: "'a tx \<Rightarrow> 'a" where
  "answer r = fst (projr r)"

lemma ok_after: "ok r \<Longrightarrow> r = Inr (answer r, after r)"
  by (auto simp: ok_def after_def answer_def split: sum.splits)

definition demo :: env where
  "demo = \<lparr>LoadLocation = (\<lambda>_. Some UTC), zone_abbrev = (\<lambda>_ _. ''UTC''), TokenHash = (\<lambda>s. s),
     ParseAddress_ok = (\<lambda>_. True), ParseAddressList_ok = (\<lambda>_. True)\<rparr>"

definition demo_day :: "int \<Rightarrow> time" where "demo_day n = of_unix (n * 86400)"
definition demo_key :: string where "demo_key = replicate 32 CHR ''a''"
definition demo_old :: string where "demo_old = replicate 32 CHR ''b''"
definition demo_new :: string where "demo_new = replicate 32 CHR ''c''"
definition demo_meta :: metadata where
  "demo_meta = \<lparr>Description = ''nightly'', OriginalName = ''db.age'', ContentFormat = ContentFormatAgeV1\<rparr>"
definition demo_idem :: string where "demo_idem = replicate 16 CHR ''k''"
definition demo_digest :: string where "demo_digest = replicate 64 CHR ''0''"
definition demo_lease :: lease where "demo_lease = \<lparr>l_owner = ''m'', l_generation = 1, l_expires_at = 20 * 86400 + 60\<rparr>"

definition "tx_key = CreateKey demo (Inr demo_key) (Inr ''secret'') ''db'' ''S'' Init"
definition "demo1 = after tx_key"
definition "tx_old = ReserveIdempotentChecked demo (Inr demo_old) ''secret'' demo_meta 5 demo_digest demo_idem (demo_day 1) (Some (\<lambda>n. if n > 100 then Some ErrDisk else None)) demo1"
definition "demo2 = after tx_old"
definition "tx_old_done = Complete demo demo_old (demo_day 1) demo2"
definition "demo3 = after tx_old_done"
definition "tx_new = ReserveIdempotentChecked demo (Inr demo_new) ''secret'' demo_meta 6 demo_digest [] (demo_day 2) None demo3"
definition "demo4 = after tx_new"
definition "tx_new_done = Complete demo demo_new (demo_day 2) demo4"
definition "demo5 = after tx_new_done"
definition "tx_mail = MarkMailTested (demo_day 20) demo5"
definition "demo6 = after tx_mail"
definition "tx_check = SetCheckState MonitoringRegular 1 (demo_day 20) demo6"
definition "demo7 = after tx_check"
definition "tx_resume = ResumeRetention (demo_day 20) demo7"
definition "demo8 = after tx_resume"
definition "tx_quarantine = RequestQuarantine demo demo_old Manual ''admin'' [] (demo_day 20) demo8"
definition "demo9 = after tx_quarantine"
definition "tx_lease = AcquireMaintenanceLease ''m'' 0 (demo_day 20) (60 * second) demo9"
definition "demo10 = after tx_lease"
definition "tx_authorize = AuthorizeOperation demo (Inr ''ticket'') 1 demo_lease (demo_day 20) demo10"
definition "demo11 = after tx_authorize"
definition "tx_validate = ValidateOperation demo 1 ''ticket'' demo_lease (demo_day 20) demo11"
definition "demo12 = after tx_validate"
definition "tx_confirm = ConfirmOperation demo 1 ''ticket'' True [] demo_lease (demo_day 20) demo12"
definition "demo13 = after tx_confirm"
definition "tx_purge = RequestPurge demo demo_old Manual ''admin'' [] (demo_day 23) demo13"

lemma ok1: "ok tx_key" by code_simp
lemma ok2: "ok tx_old" by code_simp
lemma ok3: "ok tx_old_done" by code_simp
lemma ok4: "ok tx_new" by code_simp
lemma ok5: "ok tx_new_done" by code_simp
lemma ok6: "ok tx_mail" by code_simp
lemma ok7: "ok tx_check" by code_simp
lemma ok8: "ok tx_resume" by code_simp
lemma ok9: "ok tx_quarantine" by code_simp
lemma ok10: "ok tx_lease" by code_simp
lemma ok11: "ok tx_authorize" by code_simp
lemma ok12: "ok tx_validate" by code_simp
lemma ok13: "ok tx_confirm" by code_simp
lemma ok14: "ok tx_purge" by code_simp

subsection \<open>It is a run of the store\<close>

lemma step1: "store_step demo Init demo1"
  using ok_after [OF ok1, folded demo1_def, unfolded tx_key_def] by (rule store_step.CreateKey)
lemma step2: "store_step demo demo1 demo2"
  using ok_after [OF ok2, folded demo2_def, unfolded tx_old_def] by (rule store_step.Reserve)
lemma step3: "store_step demo demo2 demo3"
  using ok_after [OF ok3, folded demo3_def, unfolded tx_old_done_def] by (rule store_step.Complete)
lemma step4: "store_step demo demo3 demo4"
  using ok_after [OF ok4, folded demo4_def, unfolded tx_new_def] by (rule store_step.Reserve)
lemma step5: "store_step demo demo4 demo5"
  using ok_after [OF ok5, folded demo5_def, unfolded tx_new_done_def] by (rule store_step.Complete)
lemma step6: "store_step demo demo5 demo6"
  using ok_after [OF ok6, folded demo6_def, unfolded tx_mail_def] by (rule store_step.MarkMailTested)
lemma step7: "store_step demo demo6 demo7"
  using ok_after [OF ok7, folded demo7_def, unfolded tx_check_def] by (rule store_step.SetCheckState)
lemma step8: "store_step demo demo7 demo8"
  using ok_after [OF ok8, folded demo8_def, unfolded tx_resume_def] by (rule store_step.ResumeRetention)
lemma step9: "store_step demo demo8 demo9"
  using ok_after [OF ok9, folded demo9_def, unfolded tx_quarantine_def] by (rule store_step.RequestQuarantine)
lemma step10: "store_step demo demo9 demo10"
  using ok_after [OF ok10, folded demo10_def, unfolded tx_lease_def] by (rule store_step.AcquireLease)
lemma step11: "store_step demo demo10 demo11"
  using ok_after [OF ok11, folded demo11_def, unfolded tx_authorize_def] by (rule store_step.AuthorizeOperation)
lemma step12: "store_step demo demo11 demo12"
  using ok_after [OF ok12, folded demo12_def, unfolded tx_validate_def] by (rule store_step.ValidateOperation)
lemma step13: "store_step demo demo12 demo13"
  using ok_after [OF ok13, folded demo13_def, unfolded tx_confirm_def] by (rule store_step.ConfirmOperation)

lemma run1: "reachable demo demo1" using step1 by blast
lemma run2: "reachable demo demo2" using run1 step2 by (rule rtranclp.rtrancl_into_rtrancl)
lemma run3: "reachable demo demo3" using run2 step3 by (rule rtranclp.rtrancl_into_rtrancl)
lemma run4: "reachable demo demo4" using run3 step4 by (rule rtranclp.rtrancl_into_rtrancl)
lemma run5: "reachable demo demo5" using run4 step5 by (rule rtranclp.rtrancl_into_rtrancl)
lemma run6: "reachable demo demo6" using run5 step6 by (rule rtranclp.rtrancl_into_rtrancl)
lemma run7: "reachable demo demo7" using run6 step7 by (rule rtranclp.rtrancl_into_rtrancl)
lemma run8: "reachable demo demo8" using run7 step8 by (rule rtranclp.rtrancl_into_rtrancl)
lemma run9: "reachable demo demo9" using run8 step9 by (rule rtranclp.rtrancl_into_rtrancl)
lemma run10: "reachable demo demo10" using run9 step10 by (rule rtranclp.rtrancl_into_rtrancl)
lemma run11: "reachable demo demo11" using run10 step11 by (rule rtranclp.rtrancl_into_rtrancl)
lemma run12: "reachable demo demo12" using run11 step12 by (rule rtranclp.rtrancl_into_rtrancl)
lemma run13: "reachable demo demo13" using run12 step13 by (rule rtranclp.rtrancl_into_rtrancl)


lemma one_step: "store_step E a b \<Longrightarrow> (store_step E)\<^sup>*\<^sup>* a b"
  by (rule r_into_rtranclp)

subsection \<open>Witnesses\<close>

theorem status_matches_operations_witness:
  "count_where (\<lambda>o'. active_op o' \<and> op_backup_id o' = b_id (hd (backups demo9))) (operations demo9) \<le> 1"
proof -
  have "backups demo9 \<noteq> []" by code_simp
  then show ?thesis using status_matches_operations [OF run9, of "hd (backups demo9)"] by simp
qed

theorem RequestQuarantine_conditions_witness:
  "\<not> retention_blocked (automation_state demo8) \<and> operations demo9 = operations demo8 @ [answer tx_quarantine]"
  using RequestQuarantine_conditions [OF ok_after [OF ok9, folded demo9_def, unfolded tx_quarantine_def]]
  unfolding tx_quarantine_def by blast

theorem RequestPurge_conditions_witness: "\<exists>b. find_backup demo13 demo_old = Some b \<and> b_quarantined_at b + 48 * 3600 \<le> unix (demo_day 23)"
  using RequestPurge_conditions [OF run13 ok_after [OF ok14, unfolded tx_purge_def]] by blast

theorem backup_life_cycle_witness: "moves demo12 demo13"
  by (rule backup_life_cycle [OF step13])

theorem history_preserved_witness: "preserved demo12 demo13"
  by (rule history_preserved [OF run12 one_step [OF step13]])

theorem lease_fenced_witness:
  "lease_current demo_lease (demo_day 20) demo10 \<and> AcquireMaintenanceLease ''other'' 0 (demo_day 20) second demo10 = Inl ErrLease"
proof -
  have "lease_current demo_lease (demo_day 20) demo10" "\<not> blank ''other''" by code_simp+
  then show ?thesis using lease_fenced [OF run10, of demo_lease "demo_day 20" demo_lease "''other''" second] second_pos by (simp add: not_le [symmetric])
qed

theorem committed_is_final_witness: "\<exists>x. Operation demo13 1 = Some x \<and> op_execution_committed x"
proof -
  have c: "(case Operation demo12 1 of None \<Rightarrow> False | Some x \<Rightarrow> op_execution_committed x \<and> op_state_of x = Authorized)" by code_simp
  then obtain o' where "Operation demo12 1 = Some o'" "op_execution_committed o'" "op_state_of o' = Authorized" by (auto split: option.splits)
  then show ?thesis using committed_is_final [OF run12 one_step [OF step13], of 1 o'] by blast
qed



definition "tx_again = ReserveIdempotentChecked demo (Inr demo_new) ''secret'' demo_meta 5 demo_digest demo_idem (demo_day 2) None demo3"


theorem retention_opens_safely_witness: "authorized_count demo8 = 0 \<and> no_hard_anomaly demo8"
proof -
  have "retention_blocked (automation_state demo7)" "\<not> retention_blocked (automation_state demo8)" by code_simp+
  then show ?thesis using retention_opens_safely [OF run7 step8] by blast
qed

definition "tx_anomaly = OpenAnomalyAt demo ''size:1'' ''size'' demo_key demo_old ''too small'' (of_unix 5) (of_unix 5) demo1"

theorem OpenAnomalyAt_effect_witness:
  "answer tx_anomaly \<and> count_where (\<lambda>a. an_stable_key a = ''size:1'' \<and> open_anomaly a) (anomalies (after tx_anomaly)) = 1"
proof -
  have k: "ok tx_anomaly" "answer tx_anomaly" "\<not> anomalyExcludedTx demo1 demo_key ''size'' (of_unix 5)" by code_simp+
  show ?thesis
    using OpenAnomalyAt_effect [OF run1 ok_after [OF k(1), unfolded tx_anomaly_def] k(3)] k(2) unfolding tx_anomaly_def by blast
qed

definition "tx_report = QueueReport ''mail-test:1'' ''test'' ''body'' 0 Init"
definition "tx_refused = ConfirmMail 1 ''refused'' 1 0 (after tx_report)"


definition demo_model :: "int \<Rightarrow> seconds \<Rightarrow> monitoring_model" where
  "demo_model r t = \<lparr>mm_key_id = demo_key, mm_revision = r, mm_learned_at = t, mm_timezone = [], mm_retention_days = 7,
     mm_model = None, mm_reliable = True, mm_review = False\<rparr>"

definition demo_cov :: catalog where
  "demo_cov = Init\<lparr>keys := [\<lparr>kr_id = demo_key, kr_name = ''db'', kr_token_hash = ''secret'', kr_profile = ''S'', kr_revoked = False\<rparr>],
     models := [demo_model 1 86400, demo_model 2 864000],
     checks := [\<lparr>mc_id = 1, mc_started_at = 1728000, mc_finished_at = None, mc_from = 0, mc_to = 0, mc_status = Running, mc_summary = []\<rparr>]\<rparr>"

definition "tx_plan = PlanMonitoringCheck demo 1 (demo_day 20) demo_cov"
definition "demo_models = filter (\<lambda>m. mm_key_id m = demo_key) (plannable demo_cov (planned_revision demo_cov))"


theorem readSnapshot_complete_witness: "\<exists>bs. readSnapshot [Inr demo5, Inr demo6] = Inr bs \<and> distinct (map b_id bs)"
proof -
  have k: "list_all (\<lambda>b. ValidID (b_id b)) (backups demo5)" "length (backups demo5) = 2" by code_simp+
  have later: "(store_step demo)\<^sup>*\<^sup>* demo5 demo6" by (rule one_step [OF step6])
  have r: "(readSnapshot [Inr demo5, Inr demo6] = Inr bs \<longrightarrow> distinct (map b_id bs)) \<and> (\<exists>bs. readSnapshot [Inr demo5, Inr demo6] = Inr bs)" for bs
    using readSnapshot_complete [OF run5 k(1), of "[Inr demo6]" bs] later k(2) by (simp add: BackupPageSize_def)
  then show ?thesis by blast
qed

end
