(* ===== verification/Ingest_Scenario.thy ===== *)
theory Ingest_Scenario
  imports Ingest_Safety Store_Scenario
begin

text \<open>
  One concrete life of the writer, evaluated in the kernel: it reconciles an empty archive, a key is
  created, a request is admitted, its body is received call by call, and the power is lost. It shows
  that the hypotheses of the writer's properties can hold together.
\<close>

definition receive_at :: "env \<Rightarrow> input \<Rightarrow> nat \<Rightarrow> world \<Rightarrow> world" where
  "receive_at E inp k w = (let (u, w') = Receive E inp (uploads w ! k) w in w'\<lparr>uploads := (uploads w')[k := u]\<rparr>)"

lemma receive_at_step: "k < length (uploads w) \<Longrightarrow> server_step E w (receive_at E inp k w)"
  using server_step.Receive [of k w E inp] by (simp add: receive_at_def split: prod.splits)

definition body :: string where "body = replicate 64 CHR ''0''"
definition live0 :: world where "live0 = (snd (Reconcile demo (\<lambda>_. Works) 0 new_world))\<lparr>phase_of := Up\<rparr>"
definition live1 :: world where "live1 = live0\<lparr>cat := demo1\<rparr>"
definition upload_request :: request where
  "upload_request = \<lparr>rq_path = UploadPath, rq_query = [], rq_method = ''POST'',
     rq_header = [(''Authorization'', ''Bearer secret''), (''Content-Type'', ''application/octet-stream''), (MetadataHeader, ''m''),
       (DigestHeader, body), (IdempotencyHeader, demo_idem)], rq_length = 64\<rparr>"
definition served :: "response option \<times> world" where
  "served = ServeHTTP demo (\<lambda>_. Decoded demo_meta) (Inr demo_old) (Inr \<lparr>Bsize = 4096, Bavail = 1000\<rparr>) 1000 (demo_day 1) upload_request live1"
definition live2 :: world where "live2 = snd served"
definition all_works :: input where
  "all_works = \<lparr>in_outcome = Works, in_now = demo_day 1, in_reads = [(body, Some EOF)], in_writes = []\<rparr>"
definition live3 :: world where "live3 = receive_at demo all_works 0 live2"
definition live4 :: world where "live4 = receive_at demo all_works 0 live3"
definition live5 :: world where "live5 = receive_at demo all_works 0 live4"
definition live6 :: world where "live6 = receive_at demo all_works 0 live5"
definition live7 :: world where "live7 = receive_at demo all_works 0 live6"
definition live8 :: world where "live8 = receive_at demo all_works 0 live7"
definition live9 :: world where "live9 = receive_at demo all_works 0 live8"
definition live10 :: world where "live10 = receive_at demo all_works 0 live9"
definition live11 :: world where "live11 = receive_at demo all_works 0 live10"
definition live12 :: world where "live12 = receive_at demo all_works 0 live11"

lemma Reconcile_new: "fst (Reconcile demo (\<lambda>_. Works) 0 new_world) = None"
  by code_simp

lemma served_accepted: "fst served = None"
  by code_simp

lemma one_upload: "length (uploads live2) = 1"
  by code_simp

lemma live8_pc: "up_pc (uploads live8 ! 0) = AtSyncArchive"
  by code_simp

lemma live11_pc: "up_pc (uploads live11 ! 0) = AtComplete"
  by code_simp

lemma live12_pc: "up_pc (uploads live12 ! 0) = AtRelease"
  by code_simp

lemmas live_facts = Reconcile_new served_accepted one_upload
lemmas live_pc = live8_pc live11_pc live12_pc

subsection \<open>It is a run of the writer\<close>

lemma Reconcile_live: "Reconcile demo (\<lambda>_. Works) 0 new_world = (None, snd (Reconcile demo (\<lambda>_. Works) 0 new_world))"
  using live_facts(1) by (metis prod.collapse)

lemma run_live0: "server_run demo live0"
proof -
  have "server_step demo new_world live0"
    using server_step.Reconcile [OF _ Reconcile_live] by (simp add: new_world_def live0_def)
  then show ?thesis by blast
qed

lemma run_live1: "server_run demo live1"
proof -
  have e: "cat live0 = Init" by (simp add: live0_def Reconcile_def Pending_def new_world_def Init_def ReadDir_def io_fault_def)
  have "backups demo1 = []" by code_simp
  then have "elsewhere (cat live0) demo1" unfolding elsewhere_def e by (simp add: view_def find_backup_def Init_def)
  moreover have "store_step demo (cat live0) demo1" using step1 e by simp
  ultimately have "server_step demo live0 live1" unfolding live1_def by (intro server_step.Elsewhere)
  then show ?thesis using run_live0 by (rule rtranclp.rtrancl_into_rtrancl [rotated])
qed

lemma served_live: "ServeHTTP demo (\<lambda>_. Decoded demo_meta) (Inr demo_old) (Inr \<lparr>Bsize = 4096, Bavail = 1000\<rparr>) 1000 (demo_day 1) upload_request live1 = (None, live2)"
  using live_facts(2) by (metis live2_def prod.collapse served_def)

lemma run_live2: "server_run demo live2"
proof -
  have "phase_of live1 = Up" by (simp add: live1_def live0_def)
  then have "server_step demo live1 live2" using served_live by (rule server_step.Request)
  then show ?thesis using run_live1 by (rule rtranclp.rtrancl_into_rtrancl [rotated])
qed

lemma Receive_uploads: "uploads (snd (Receive E inp u w)) = uploads w"
  by (cases "up_pc u") (auto simp: Receive_def Let_def split: option.splits sum.splits prod.splits)

lemma receive_at_length [simp]: "length (uploads (receive_at E inp k w)) = length (uploads w)"
  using Receive_uploads [of E inp "uploads w ! k" w] by (auto simp: receive_at_def split: prod.splits)

lemma live_lengths:
  "length (uploads live3) = 1" "length (uploads live4) = 1" "length (uploads live5) = 1" "length (uploads live6) = 1" "length (uploads live7) = 1"
  "length (uploads live8) = 1" "length (uploads live9) = 1" "length (uploads live10) = 1" "length (uploads live11) = 1"
  using live_facts(3)
  by (simp_all add: live3_def live4_def live5_def live6_def live7_def live8_def live9_def live10_def live11_def)

lemma run_next: "server_run demo w \<Longrightarrow> length (uploads w) = 1 \<Longrightarrow> server_run demo (receive_at demo all_works 0 w)"
  using receive_at_step [of 0 w demo all_works] by (simp add: rtranclp.rtrancl_into_rtrancl)

lemma run_live11: "server_run demo live11"
  unfolding live11_def live10_def live9_def live8_def live7_def live6_def live5_def live4_def live3_def
  using run_live2 live_facts(3) live_lengths [unfolded live11_def live10_def live9_def live8_def live7_def live6_def live5_def live4_def live3_def]
  by (intro run_next) simp_all

lemma run_live12: "server_run demo live12"
  unfolding live12_def using run_live11 live_lengths(9) by (rule run_next)

subsection \<open>Witnesses\<close>

lemma live12_rows: "map (\<lambda>b. (b_id b, b_status b, b_size b)) (backups (cat live12)) = [(demo_old, BackupComplete, 64)]"
  and live12_operations: "operations (cat live12) = []"
  by code_simp+

theorem received_backups_survive_witness: "\<exists>s. bytes_at (final demo_old) (disk_of live12) = Some s \<and> int (length s) = 64"
proof -
  obtain b where "b \<in> set (backups (cat live12))" "b_id b = demo_old" "b_status b = BackupComplete" "b_size b = 64"
    using live12_rows by (cases "backups (cat live12)") auto
  then show ?thesis using live12_operations received_backups_survive [OF run_live12, of b "disk_of live12"] by (auto simp: uncommitted_def)
qed

definition last_call :: "upload \<times> world" where "last_call = Receive demo all_works (uploads live11 ! 0) live11"

theorem receipt_is_kept_witness: "\<exists>r. up_response (fst last_call) = Some (ReceiptResponse r) \<and> view (cat (snd last_call)) (rc_id r) = Some (BackupComplete, rc_size r, rc_sha256 r)"
proof -
  have "(case up_response (fst last_call) of Some (ReceiptResponse r) \<Rightarrow> True | _ \<Rightarrow> False)" by code_simp
  then obtain r where r: "up_response (fst last_call) = Some (ReceiptResponse r)" by (auto split: option.splits response.splits)
  have l: "0 < length (uploads live11)" using live_lengths(9) by simp
  have c: "Receive demo all_works (uploads live11 ! 0) live11 = (fst last_call, snd last_call)" by (simp add: last_call_def)
  from receipt_is_kept [OF run_live11 l live_pc(2) c r rtranclp.rtrancl_refl] r show ?thesis by blast
qed

definition crashed :: world where "crashed = killed (disk_of live8) live8"

theorem Reconcile_settles_witness:
  "fst (Reconcile demo (\<lambda>_. Works) 0 crashed) = None \<and> Pending (cat (snd (Reconcile demo (\<lambda>_. Works) 0 crashed))) = []"
proof -
  have run8: "server_run demo live8"
    unfolding live8_def live7_def live6_def live5_def live4_def live3_def
    using run_live2 live_facts(3) live_lengths [unfolded live11_def live10_def live9_def live8_def live7_def live6_def live5_def live4_def live3_def]
    by (intro run_next) simp_all
  have run: "server_run demo crashed" unfolding crashed_def using run8 server_step.Kill by (rule rtranclp.rtrancl_into_rtrancl)
  have "fst (Reconcile demo (\<lambda>_. Works) 0 crashed) = None" by code_simp
  then have "Reconcile demo (\<lambda>_. Works) 0 crashed = (None, snd (Reconcile demo (\<lambda>_. Works) 0 crashed))" by (metis prod.collapse)
  then show ?thesis using Reconcile_settles [OF run, of "\<lambda>_. Works" 0] \<open>fst _ = None\<close> by (simp add: crashed_def killed_def Pending_def filter_empty_conv)
qed

theorem uploads_are_exclusive_witness: "slots live8 = 1 \<and> slots live8 \<le> 32 \<and> exclusive (uploads live12)"
proof -
  have "slots live8 = 1" by code_simp
  then show ?thesis using uploads_are_exclusive [OF run_live12] by simp
qed


theorem clean_upload_succeeds_witness: "up_pc (fst (((\<lambda>(u, w). Receive demo all_works u w) ^^ 11) (uploads live2 ! 0, live2))) = Finished"
proof -
  have up: "map (\<lambda>u. (up_pc u, up_error u, b_size (up_backup u), b_sha256 (up_backup u) = TokenHash demo body)) (uploads live2) = [(AtCreate, None, 64, True)]"
    by code_simp
  have names: "names (disk_of live2) = []" by code_simp
  have ok: "ok (Complete demo (b_id (up_backup (uploads live2 ! 0))) (in_now all_works) (cat live2))" by code_simp
  have k: "up_pc (uploads live2 ! 0) = AtCreate" "up_error (uploads live2 ! 0) = None" "Lstat (staging (b_id (up_backup (uploads live2 ! 0)))) (disk_of live2) = None"
    "Lstat (final (b_id (up_backup (uploads live2 ! 0)))) (disk_of live2) = None" "b_size (up_backup (uploads live2 ! 0)) = 64"
    "TokenHash demo body = b_sha256 (up_backup (uploads live2 ! 0))" "ok (Complete demo (b_id (up_backup (uploads live2 ! 0))) (in_now all_works) (cat live2))" "int (length body) = 64"
    using up names ok by (auto simp: Lstat_def body_def)
  have c: "Complete demo (b_id (up_backup (uploads live2 ! 0))) (in_now all_works) (cat live2) = Inr ((), after (Complete demo (b_id (up_backup (uploads live2 ! 0))) (in_now all_works) (cat live2)))"
    using ok_after [OF k(7)] by simp
  obtain u' w' where r: "((\<lambda>(u, w). Receive demo all_works u w) ^^ 11) (uploads live2 ! 0, live2) = (u', w')" by (metis prod.collapse)
  have "stream (in_reads all_works) = (body, EOF)" "in_outcome all_works = Works" "in_writes all_works = []" by (simp_all add: all_works_def)
  from clean_upload_succeeds [OF k(1,2) this(2,3,1) _ k(6,3,4) c r] k(5,8) r show ?thesis by simp
qed

end
