(* ===== verification/Server_Scenario.thy ===== *)
theory Server_Scenario
  imports Ingest_Scenario Maintenance_Properties
begin

text \<open>
  Concrete commands and files for the properties of the local interface and of maintenance: the operation of
  Store_Scenario, its execution committed, and a disk on which its file is in the archive or in quarantine.
\<close>

definition demo_hash :: env where
  "demo_hash = demo\<lparr>TokenHash := (\<lambda>s. if length s = 5 then demo_digest else s)\<rparr>"

definition demo_disk :: "place \<Rightarrow> disk" where
  "demo_disk p = \<lparr>names = [(p, Regular 0)], inodes = [\<lparr>content = ''bytes'', file_mode = 288, durable = True\<rparr>], unsynced = [], renamed = []\<rparr>"

definition said :: "string \<Rightarrow> reply \<Rightarrow> bool" where
  "said m x = (case x of Reply code (Said y) \<Rightarrow> code = 200 \<and> y = m | _ \<Rightarrow> False)"

lemma said_reply: "said m x \<Longrightarrow> x = Reply 200 (Said m)"
  by (auto simp: said_def split: reply.splits answer.splits)

definition no_faults :: probes where "no_faults = (\<lambda>_. None)"

lemma committed12:
  obtains x b where "Operation demo12 1 = Some x" "find_backup demo12 (op_backup_id x) = Some b" "op_state_of x = Authorized"
    "op_execution_committed x" "op_kind_of x = Quarantine" "op_backup_id x = demo_old" "b_id b = demo_old" "b_size b = 5" "b_sha256 b = demo_digest"
proof -
  have "(case Operation demo12 1 of None \<Rightarrow> False | Some x \<Rightarrow> op_state_of x = Authorized \<and> op_execution_committed x \<and> op_kind_of x = Quarantine
      \<and> op_backup_id x = demo_old)" by code_simp
  then obtain x where x: "Operation demo12 1 = Some x" "op_state_of x = Authorized" "op_execution_committed x" "op_kind_of x = Quarantine" "op_backup_id x = demo_old"
    by (auto split: option.splits)
  have "(case find_backup demo12 demo_old of None \<Rightarrow> False | Some b \<Rightarrow> b_id b = demo_old \<and> b_size b = 5 \<and> b_sha256 b = demo_digest)" by code_simp
  then obtain b where "find_backup demo12 demo_old = Some b" "b_id b = demo_old" "b_size b = 5" "b_sha256 b = demo_digest" by (auto split: option.splits)
  then show thesis using that x by simp
qed


theorem consent_required_witness:
  "a_manual_paused (automation_state (snd (handler demo ''1'' ''POST'' (Admin True (RetentionPause (Inr (''SOSPENDI'', ''lavori'')))) (demo_day 20) demo8)))
    \<and> \<not> a_manual_paused (automation_state demo8)
    \<and> (\<exists>reason. Inr (''SOSPENDI'', ''lavori'') = (Inr (''SOSPENDI'', reason) :: (string \<times> string) body))"
proof -
  let ?h = "handler demo ''1'' ''POST'' (Admin True (RetentionPause (Inr (''SOSPENDI'', ''lavori'')))) (demo_day 20) demo8"
  have p: "a_manual_paused (automation_state (snd ?h))" "\<not> a_manual_paused (automation_state demo8)" by code_simp+
  then have "snd ?h \<noteq> demo8" by auto
  moreover have "?h = (fst ?h, snd ?h)" by simp
  ultimately show ?thesis using consent_required [of demo "''1''" "''POST''" True "RetentionPause (Inr (''SOSPENDI'', ''lavori''))" "demo_day 20" demo8 "fst ?h" "snd ?h"] p by simp
qed

theorem reconcile_follows_the_files_witness:
  "fst (reconcileContext demo_hash no_faults 1 (demo_day 20) demo_lease (demo_disk (quarantine demo_old)) demo12) = Inr ''confirmed''
    \<and> (\<exists>b. carried_out demo_hash Quarantine b (demo_disk (quarantine demo_old)))"
proof -
  let ?r = "reconcileContext demo_hash no_faults 1 (demo_day 20) demo_lease (demo_disk (quarantine demo_old)) demo12"
  have r: "fst ?r = Inr ''confirmed''" by code_simp
  obtain x b where y: "Operation demo12 1 = Some x" "find_backup demo12 (op_backup_id x) = Some b" "op_state_of x = Authorized"
    "op_execution_committed x" "op_kind_of x = Quarantine" "op_backup_id x = demo_old" "b_id b = demo_old" "b_size b = 5" "b_sha256 b = demo_digest" by (rule committed12)
  note x = y(1,2,5)
  have "?r = (fst ?r, snd ?r)" by simp
  from reconcile_follows_the_files [OF this x(1,2)] r x(3) show ?thesis by (auto split: if_splits)
qed

theorem confirmation_needs_evidence_witness:
  "\<exists>b. carried_out demo_hash Quarantine b (demo_disk (quarantine demo_old)) \<and> fst (maintenance_confirm demo_hash no_faults
     (Inr (1, ''ticket'', True, [], ''m'', 1)) (demo_day 20) (demo_disk (quarantine demo_old)) demo12) = Reply 200 (Said ''confirmed'')"
proof -
  let ?r = "maintenance_confirm demo_hash no_faults (Inr (1, ''ticket'', True, [], ''m'', 1)) (demo_day 20) (demo_disk (quarantine demo_old)) demo12"
  have "said ''confirmed'' (fst ?r)" by code_simp
  then have r: "fst ?r = Reply 200 (Said ''confirmed'')" by (rule said_reply)
  then have "?r = (Reply 200 (Said ''confirmed''), snd ?r)" by (metis prod.collapse)
  from confirmation_needs_evidence [OF this] obtain x b where "Operation demo12 1 = Some x" "carried_out demo_hash (op_kind_of x) b (demo_disk (quarantine demo_old))" by blast
  moreover have "op_kind_of x = Quarantine" using committed12 calculation(1) by force
  ultimately show ?thesis using r by auto
qed

definition demo_turn :: turn where
  "demo_turn = \<lparr>tn_outcome = Works, tn_now = demo_day 20, tn_token = Inr ''t'', tn_probes = no_faults\<rparr>"

theorem committed_operation_executes_witness:
  "\<exists>t. tk_stage (fst (((\<lambda>(t, d). touch demo_hash demo_turn t d) ^^ 5) (t, demo_disk (final demo_old)))) = Confirming None
     \<and> Lstat (final demo_old) (snd (((\<lambda>(t, d). touch demo_hash demo_turn t d) ^^ 5) (t, demo_disk (final demo_old)))) = None"
proof -
  obtain x b where y: "Operation demo12 1 = Some x" "find_backup demo12 (op_backup_id x) = Some b" "op_state_of x = Authorized"
    "op_execution_committed x" "op_kind_of x = Quarantine" "op_backup_id x = demo_old" "b_id b = demo_old" "b_size b = 5" "b_sha256 b = demo_digest" by (rule committed12)
  note x = y(4-9)
  define t where "t = to_stage Verifying (begin_task [] [] demo_lease x b)"
  have t: "tk_stage t = Verifying" "tk_op t = x" "tk_backup t = b" by (simp_all add: t_def to_stage_def begin_task_def)
  have v: "ValidID demo_old" by code_simp
  have nb: "not_begun demo_hash Quarantine b (demo_disk (final demo_old))"
    using x by (simp add: intact_def bytes_at_def Lstat_def demo_disk_def source_of_def target_of_def demo_hash_def demo_def)
  obtain t' d' where r: "((\<lambda>(t, d). touch demo_hash demo_turn t d) ^^ 5) (t, demo_disk (final demo_old)) = (t', d')" by (metis prod.collapse)
  have "tk_stage t' = Confirming None \<and> carried_out demo_hash Quarantine b d'"
    using committed_operation_executes [OF t(1) _ _ _ _ _ r] t x v nb by (simp add: demo_turn_def)
  then show ?thesis using r x(4) by (intro exI [of _ t]) (simp add: source_of_def)
qed

end
