(* ===== verification/Recover_Scenario.thy ===== *)
theory Recover_Scenario
  imports Recover_Command Client_Scenario Server_Scenario
begin

text \<open>
  The life of the writer of Ingest_Scenario continued to recovery: the backup it received is exported from its archive.
\<close>

lemma live12_row: "\<exists>b. b \<in> set (backups (cat live12)) \<and> b_id b = demo_old \<and> b_status b = BackupComplete \<and> b_size b = 64"
  using live12_rows by (cases "backups (cat live12)") auto

definition server_files :: files where
  "server_files = (case bytes_at (final demo_old) (disk_of live12) of None \<Rightarrow> []
     | Some s \<Rightarrow> [(archive_path ''/srv'' demo_old, LocalFile \<lparr>lf_bytes = s, lf_mode = 288\<rparr>)])"

definition export_flags :: recover_flags where
  "export_flags = \<lparr>rf_state = ''/srv'', rf_id = demo_old, rf_receipt = [], rf_archive = [], rf_out = ''/o'', rf_identity = []\<rparr>"

lemma server_files_names: "file_at ''/o'' server_files = None" "file_at ''/t'' server_files = None"
  by (simp_all add: server_files_def file_at_def archive_path_def split: option.splits)

theorem received_backups_recover_witness:
  "\<exists>s r fs'. run_recover prefix_age demo (\<lambda>_. None) (\<lambda>_. BadReceipt) ''/t'' ''/u'' (cat live12) export_flags server_files = (Inr r, fs')
    \<and> file_at ''/o'' fs' = Some (private_file s) \<and> length s = 64"
proof -
  obtain b where b: "b \<in> set (backups (cat live12))" "b_id b = demo_old" "b_status b = BackupComplete" "b_size b = 64" using live12_row by blast
  have u: "uncommitted (cat live12) (b_id b) (\<lambda>_. True)" using live12_operations by (simp add: uncommitted_def)
  have v: "ValidID (b_id b)" using b(2) by (simp add: ValidID_def demo_old_def is_lower_hex_def byte_of_def list_all_iff)
  have sh: "shows_archive ''/srv'' (b_id b) (disk_of live12) server_files"
    by (simp add: shows_archive_def b(2) server_files_def file_at_def)
  let ?a = "\<lparr>rf_state = ''/srv'', rf_id = b_id b, rf_receipt = [], rf_archive = [], rf_out = [], rf_identity = []\<rparr>"
  obtain s r fs' where "int (length s) = b_size b"
    "run_recover prefix_age demo (\<lambda>_. None) (\<lambda>_. BadReceipt) ''/t'' ''/u'' (cat live12) (?a\<lparr>rf_out := ''/o''\<rparr>) server_files = (Inr (r\<lparr>rr_output := ''/o''\<rparr>), fs')"
    "file_at ''/o'' fs' = Some (private_file s)"
    using received_backups_recover [OF run_live12 b(1,3) u disjI1 [OF refl] v sh, of "''/o''" "''/t''" ?a prefix_age "\<lambda>_. BadReceipt" "''/u''"] server_files_names by auto
  moreover have "?a\<lparr>rf_out := ''/o''\<rparr> = export_flags" by (simp add: export_flags_def b(2))
  ultimately show ?thesis using b(4) by auto
qed

theorem catalogue_well_typed_witness: "\<exists>b. b \<in> set (backups demo13) \<and> typed_row b"
proof -
  have "length (backups demo13) = 2" by code_simp
  then obtain b where "b \<in> set (backups demo13)" by (cases "backups demo13") auto
  then show ?thesis using catalogue_well_typed [OF run13] by blast
qed


end
