(* ===== verification/Cycle_Scenario.thy ===== *)
theory Cycle_Scenario
  imports Cycle_Properties Monitoring_Properties Recover_Scenario
begin

text \<open>
  Concrete cycles of maintenance, evaluated in the kernel: one that fails after it started its check, and one that finds retention open and
  asks to purge a quarantined copy; and an audit of the archive of Ingest_Scenario.
\<close>

definition cycle_lease :: lease where "cycle_lease = \<lparr>l_owner = ''m'', l_generation = 3, l_expires_at = 0\<rparr>"

definition cycle_check :: check_row where
  "cycle_check = \<lparr>mc_id = 9, mc_started_at = 40 * 86400, mc_finished_at = None, mc_from = 0, mc_to = 0, mc_status = Running, mc_summary = []\<rparr>"

definition failing_answers :: "told list" where
  "failing_answers = [Okay, Answered (ALease cycle_lease), Answered (ACheck cycle_check), Failed ''timeout'', Okay, Okay]"

definition failing_cycle :: "trace \<times> string option option" where
  "failing_cycle = run_prog (RunOnce example_math (\<lambda>_. Some UTC) ''m'') failing_answers"

lemma failing_cycle_run: "failing_cycle = ([(LockExecution, Okay), (lease_ask ''m'', Answered (ALease cycle_lease)), (Call CheckStart, Answered (ACheck cycle_check)),
    (ReadSnapshot, Failed ''timeout''), (Call (CheckFail (Inr (9, ''timeout''))), Okay), (Call (LeaseRelease (Inr cycle_lease)), Okay)], Some (Some ''timeout''))"
  by (simp add: failing_cycle_def failing_answers_def RunOnce_def checked_cycle_def cycle_def proceed_def and_then_def ask_done_def ask_snapshot_def ask_for_def
      stopped_def ignoring_def check_failed_def lease_ask_def cycle_check_def)

theorem cycle_closes_what_it_opens_witness:
  "\<exists>tr1 r tr2. fst failing_cycle = tr1 @ (Call (LeaseRelease (Inr cycle_lease)), r) # tr2 \<and> (completed_in 9 tr1 \<or> failed_in 9 tr1)"
proof -
  have run: "run_prog (RunOnce example_math (\<lambda>_. Some UTC) ''m'') failing_answers = (fst failing_cycle, Some (Some ''timeout''))"
    using failing_cycle_run unfolding failing_cycle_def by simp
  have l: "(lease_ask ''m'', Answered (ALease cycle_lease)) \<in> set (fst failing_cycle)" and k: "(Call CheckStart, Answered (ACheck cycle_check)) \<in> set (fst failing_cycle)"
    by (simp_all add: failing_cycle_run)
  have "mc_id cycle_check = 9" by (simp add: cycle_check_def)
  then show ?thesis using cycle_closes_what_it_opens [of example_math "\<lambda>_. Some UTC" "''m''"] run l k by metis
qed

subsection \<open>A purge\<close>

definition old_copy :: backup where
  "old_copy = \<lparr>b_id = demo_old, b_status = BackupQuarantined, b_size = 5, b_sha256 = demo_digest, b_received_at = Stamp (demo_day 1), b_key_id = demo_key,
     b_idempotency_key = [], b_metadata = demo_meta, b_started_at = 86400, b_failure = [], b_quarantined_at = 20 * 86400, b_purge_not_before = 22 * 86400, b_purged_at = 0\<rparr>"

definition open_status :: automation_status where
  "open_status = \<lparr>as_row = initial_automation\<lparr>a_timezone := ''UTC'', a_state := MonitoringRegular\<rparr>, as_blocked = False, as_shown_state = MonitoringRegular,
     as_shown_reason = [], as_last_check_regular = True, as_key_days = (\<lambda>_. None), as_active_anomalies = 0\<rparr>"

definition cycle_snapshot :: snapshot where
  "cycle_snapshot = \<lparr>sn_status = open_status, sn_settings = ls_settings no_state, sn_keys = [], sn_quotas = [], sn_backups = [old_copy], sn_operations = [],
     sn_anomalies = [], sn_exclusions = [], sn_missing = [], sn_models = []\<rparr>"

definition purging_answers :: "told list" where
  "purging_answers = [Okay, Answered (ALease cycle_lease), Answered (ACheck cycle_check), TheSnapshot cycle_snapshot, Okay, Okay, Okay, TheSnapshot cycle_snapshot, Okay,
     TheFilesystem \<lparr>Blocks = 100, Bfree = 90, Bavail = 90, BlockSize = 1\<rparr>, TheFindings [], TheSnapshot cycle_snapshot, TheFindings [], Answered (APlan cycle_check []), Okay,
     TheSnapshot cycle_snapshot, Okay, Okay]"

definition purging_cycle :: "trace \<times> string option option" where
  "purging_cycle = run_prog (RunOnce example_math (\<lambda>_. Some UTC) ''m'') purging_answers"

lemma purging_cycle_asks: "17 < length (fst purging_cycle)" "(case fst (fst purging_cycle ! 17) of Call (PurgeRequest (Inr (i, og))) \<Rightarrow> i = demo_old | _ \<Rightarrow> False)"
  by code_simp+

theorem automatic_requests_lawful_witness:
  "\<exists>(b :: backup) st (k :: check_row). b_id b = demo_old \<and> b_status b = BackupQuarantined \<and> b_purge_not_before b \<le> mc_started_at k
    \<and> aged (\<lambda>_. Some UTC) st (of_unix (mc_started_at k)) (b_key_id b) (backupTimeForPolicy b)"
proof -
  have run: "run_prog (RunOnce example_math (\<lambda>_. Some UTC) ''m'') purging_answers = (fst purging_cycle, snd purging_cycle)" by (simp add: purging_cycle_def)
  have ask: "retention_ask (fst (fst purging_cycle ! 17))" and i: "\<exists>x. fst (fst purging_cycle ! 17) = Call (PurgeRequest (Inr (demo_old, x)))"
    using purging_cycle_asks(2) by (auto simp: retention_ask_def split: ask.splits maintenance_route.splits sum.splits)
  show ?thesis
    using automatic_requests_lawful [OF run purging_cycle_asks(1) ask refl]
  proof (elim exE conjE disjE)
    fix st :: snapshot and sn rest and k :: check_row and b :: backup and why
    assume p: "fst (fst purging_cycle ! 17) = Call (PurgeRequest (Inr (b_id b, ''automatic'', ''m'', why)))" "b_status b = BackupQuarantined"
      "b_purge_not_before b \<le> mc_started_at k" "aged (\<lambda>_. Some UTC) (sn_status st) (of_unix (mc_started_at k)) (b_key_id b) (backupTimeForPolicy b)"
    show ?thesis by (intro exI [of _ b] exI [of _ "sn_status st"] exI [of _ k]) (use p i in simp)
  qed (use i in simp)
qed

subsection \<open>The audit of a life of the server\<close>

lemma live12_snapshot: "(case maintenance_snapshot 0 (cat live12) of Inl _ \<Rightarrow> False | Inr _ \<Rightarrow> True)"
  by code_simp

theorem audit_spares_the_kept_witness:
  "\<exists>sn b. maintenance_snapshot 0 (cat live12) = Inr sn \<and> b \<in> set (backups (cat live12)) \<and> b_id b = demo_old
    \<and> (\<forall>f \<in> set (fileFindings demo (\<lambda>_. None) sn (disk_of live12)). f_backup_id f \<noteq> demo_old)"
proof -
  obtain sn where sn: "maintenance_snapshot 0 (cat live12) = Inr sn" using live12_snapshot by (auto split: sum.splits)
  obtain b where b: "b \<in> set (backups (cat live12))" "b_id b = demo_old" "b_status b = BackupComplete" using live12_row by blast
  have u: "uncommitted (cat live12) (b_id b) (\<lambda>_. True)" using live12_operations by (simp add: uncommitted_def)
  have "b_id b \<noteq> []" using b(2) by (simp add: demo_old_def)
  then show ?thesis using audit_spares_the_kept [OF run_live12 b(1,3) u disjI1 [OF refl] sn] sn b by auto
qed

definition stray_disk :: disk where
  "stray_disk = \<lparr>names = [((Archive, ''x''), Directory)], inodes = [], unsynced = [], renamed = []\<rparr>"

theorem audit_exact_witness: "fileFindings demo (\<lambda>_. None) (cycle_snapshot\<lparr>sn_backups := []\<rparr>) (stray_disk\<lparr>names := []\<rparr>) = []
    \<and> fileFindings demo (\<lambda>_. None) cycle_snapshot stray_disk \<noteq> []"
proof -
  let ?sn = "cycle_snapshot\<lparr>sn_backups := []\<rparr>" and ?d = "stray_disk\<lparr>names := []\<rparr>"
  have "\<forall>dir n. dir \<noteq> Incoming \<and> Lstat (dir, n) ?d \<noteq> None \<longrightarrow> False" by (simp add: Lstat_def)
  then have "fileFindings demo (\<lambda>_. None) ?sn ?d = []" using audit_exact [of demo ?sn ?d] by simp
  moreover have "Lstat (Archive, ''x'') stray_disk \<noteq> None" "\<forall>b \<in> set (sn_backups cycle_snapshot). expected_place b \<noteq> Some (Archive, ''x'')"
    by (simp_all add: Lstat_def stray_disk_def cycle_snapshot_def old_copy_def expected_place_def quarantine_def)
  then have "fileFindings demo (\<lambda>_. None) cycle_snapshot stray_disk \<noteq> []" using audit_exact [of demo cycle_snapshot stray_disk] by blast
  ultimately show ?thesis by blast
qed

end
