(* ===== verification/Spec2Isabelle.thy ===== *)
theory Spec2Isabelle
  imports Lifecycle Cycle_Scenario
begin

text \<open>
  Verification of onlybackup, a backup server that keeps what it received. The sources are under src/; paths below are relative to it.

  \<^bold>\<open>The program.\<close> A client (internal/client, internal/cryptfile) encrypts a file with age and sends it with its size, SHA-256, metadata and an
  idempotency key. The writer (internal/ingest) admits the request against the catalogue, receives the body into incoming,
  publishes it in archives/backups and answers with a receipt. The catalogue (internal/store, an SQLite database) has the keys, profiles, backups,
  retention operations, anomalies, monitoring checks and the mail queue, and every change of it is one transaction. The
  administrator and the maintenance process act on the catalogue only through the local interface of the writer (internal/localapi).
  Maintenance (internal/maintenance) works in cycles: under a lease it reconciles interrupted
  operations, audits the files, compares the arrivals with the learned schedule (internal/policy), requests quarantines and
  purges when retention is open, and moves or deletes files after the final permission of the writer. Recovery
  (internal/cryptfile, cmd/onlybackup-recover) reads the archive without the server. internal/lifecycle ends the servers in order.

  \<^bold>\<open>Foundations.\<close>
  \<^item> Prelude: results of fallible operations, the shapes of SQL statements as list functions with their laws, Go's division, the theorem collections.
  \<^item> Text_Utf8, Clock, Float64, Float64_Order: what the program uses of Go's strings, time and float64. A string is its bytes, an
    instant a number of nanoseconds, a location its zone transitions, and a float64 the rational it denotes, rounded once per operation.
  \<^item> Model, Codec: internal/model. Types, validators, and the hexadecimal, base64 and JSON texts the program writes.
  \<^item> Machine: the locales machine (an invariant kept by every step holds in every reachable state) and history (a preorder respected by every step
    holds between any two moments).

  \<^bold>\<open>Policy,\<close> internal/policy/policy.go.
  \<^item> Policy_Space: Filesystem, RetentionProtected, Select. A selection takes whole days, oldest first, leaves a copy of every
    key, contains only copies beyond the minimum of a live key, and frees what is needed.
  \<^item> Policy_Match: matchAppointments, checkWindow, Check, CheckPeriod. The greedy matching is maximum and raises no false alarm.
  \<^item> Policy_Forecast: Forecast48Hours, ForecastNextBackup. Policy_Learn: Learn, with the exact condition for a reliable model.

  \<^bold>\<open>Catalogue,\<close> internal/store.
  \<^item> Catalog: the tables as a record of lists of rows. Store_Anomaly, Store_Deposit, Store_Retention, Store_Monitoring: one definition per exported operation, with
    the errors of the source as values of a sum and the violated constraints as branches.
  \<^item> Store_Invariant, Store_Steps: the invariant of the catalogue, its preservation by every operation, and the transition system with one rule per
    operation that commits; interpretations store and store_history of the locales.
  \<^item> Store_Properties, Store_Reservations, Store_Alarms, Store_Coverage, Store_Types: statuses and operations agree; a committed permission is final; leases are fenced;
    reservations keep the limits and are idempotent; retention opens only under its conditions; the mail queue loses and repeats nothing; the checks of a key leave
    no gap; rows are well typed. They rest on the interpretations store_commit, store_idem, store_hold, store_log and store_types.
  \<^item> Snapshot_Pages: BackupPage and the loop of internal/localclient that joins its pages while the catalogue changes.

  \<^bold>\<open>Files and processes.\<close>
  \<^item> Disk: the three directories of the archive, inodes, and what a power loss may undo.
  \<^item> Ingest: ServeHTTP, Admit, Receive, Abort, Reconcile, Verify of internal/ingest and internal/backupfile, a definition per step, one system call
    or transaction at a time, each with its outcome as an argument. Ingest_Properties: single operations.
    Ingest_Machine: all uploads, kills, power losses and reconciliations interleaved, and the invariant that ties rows, uploads and files.
  \<^item> Local_Api: serveAdmin, serveMaintenance, reconcileContext and the physical verification of internal/localapi/api.go; a success is one operation of the store.
  \<^item> Maintenance, Maintenance_Properties: processOperations and executeLeased of internal/maintenance/service.go, call by call.
  \<^item> Server, Server_Refinement, Ingest_Safety: writer, local interface and the executor as one machine (interpretations server, server_history and server_catalogue).
    A received backup keeps its bytes through every interleaving, crash and power loss until its purge was finally permitted; the catalogue of the server refines the store.
  \<^item> Monitoring, Monitoring_Properties: the snapshot of the catalogue, the audit of the files, space findings, and the selection of a cycle.
  \<^item> Cycle, Cycle_Properties: RunOnce and NotifyWriterFailure as programs that ask and are told, with a weakest precondition
    over all answers: a cycle ends, closes its lease and its check, and requests only what the policy admits.
  \<^item> Client, Recovery, Recover_Command: Send, EncryptToTemp, Verify, Recover, onlybackup-recover. What was sent is what was confirmed, and what was stored is restored.
  \<^item> Lifecycle: the tracker, Wait and Serve as a transition system (interpretation life): once drained, for ever drained.
  \<^item> Store_Scenario, Ingest_Scenario, Server_Scenario, Client_Scenario, Recover_Scenario, Cycle_Scenario: concrete runs, evaluated in the
    kernel, at which the properties are applied.

  \<^bold>\<open>Bounds and loops.\<close> Byte counts are 64-bit words where the source uses uint64, with its overflow guards; int64 columns are integers with their bounds shown (sizes are
  at most 2^60) and wrapped where the source's arithmetic can wrap. Loops are structural recursions over the lists they range over, or have a termination proof (the copy loop
  ends by the bytes and reads left). The loops over civil days have one step for every hour between their ends as fuel, which is
  enough where a civil day lasts at least an hour (day_loop_complete in Policy_Match). The page loop takes as many calls as it is given, and one call per thousand backups is shown to be enough. The client makes at most three attempts; the
  writer has 32 slots; the metadata header is at most 12 KiB. Programs of Cycle are a datatype, so that every run of one is finite.

  \<^bold>\<open>Assumptions.\<close>
  \<^item> A power loss keeps what fsync made safe and may undo any other change of a directory entry; a rename is undone as a whole.
  \<^item> A transaction succeeds, fails without effect, or takes effect and reports an error. Every other call may fail. While the writer does not run, the machine
    still lets the local interface act, which only adds behaviours.
  \<^item> Hashes of contents and tokens are functions of the environment env. Only where a digest must identify a content is the hash assumed injective on the
    contents at hand, as a hypothesis of that property.
  \<^item> The age library, the trigonometric functions of math, the time zone database and random bytes are parameters; age_documented and math_documented state what
    their documentation promises, and concrete instances satisfy them.
  \<^item> JSON decoding is part of the request or an argument: the decoded fields or the decoder's message.
  \<^item> A cancelled context is a call that fails, and so is a call after the lease guard lost its lease. The renewals of the guard in the background change only the expiry.
  \<^item> The ticket file is never read back, so saving it only succeeds or fails. Maintenance has a mail sender.

  \<^bold>\<open>Not modelled.\<close> The Italian text of the periodic report, MIME and SMTP (output only); listings of the local interface
  other than the snapshot, internal/localcli (parsing and printing around requests) and the transport of internal/localclient;
  internal/gateway and internal/httpbody (forwarding without state of their own); the schema migrations v5 to v12 (SQL run once on older databases); peer credentials
  of sockets, Windows files and the entry points under cmd other than recovery.
\<close>

end
